(* ===== verification/Prelude.thy ===== *)
theory Prelude
  imports Main "HOL-Library.Word"
begin

text \<open>
  Shared vocabulary of the development: the machine integers of the Rust runtime
  as words, its \<open>Result\<close> type as a sum, Rust strings as UTF-8 byte sequences
  (an Isabelle \<open>char\<close> is one byte), the collections of facts the component
  proofs use, and generic lemmas on lists and words.
\<close>

unbundle bit_operations_syntax

section \<open>Types\<close>

type_synonym u8 = "8 word"
type_synonym u16 = "16 word"
type_synonym u32 = "32 word"
type_synonym u64 = "64 word"
type_synonym i64 = "64 word"

text \<open>\<open>usize\<close> counts objects in memory; it is a natural number here, and casts
  from the wire (\<open>as usize\<close>) read a 64-bit word with \<open>unat\<close>.\<close>

type_synonym usize = nat

abbreviation Ok :: "'a \<Rightarrow> 'e + 'a" where "Ok \<equiv> Inr"
abbreviation Err :: "'e \<Rightarrow> 'e + 'a" where "Err \<equiv> Inl"

text \<open>The \<open>?\<close> operator: continue with the value, return early with the error.\<close>

definition rbind :: "'e + 'a \<Rightarrow> ('a \<Rightarrow> 'e + 'b) \<Rightarrow> 'e + 'b" where
  "rbind r f = (case r of Inl e \<Rightarrow> Inl e | Inr x \<Rightarrow> f x)"

text \<open>\<open>Option::ok_or\<close>.\<close>

definition ok_or :: "'e \<Rightarrow> 'a option \<Rightarrow> 'e + 'a" where
  "ok_or e x = (case x of None \<Rightarrow> Inl e | Some v \<Rightarrow> Inr v)"

text \<open>\<open>slice::get\<close>: bounds-checked read.\<close>

definition get_nth :: "'a list \<Rightarrow> nat \<Rightarrow> 'a option" where
  "get_nth xs i = (if i < length xs then Some (xs ! i) else None)"

section \<open>Collections of facts\<close>

named_theorems wire_simps \<open>what one write appends and what one read consumes\<close>
named_theorems heap_simps \<open>what the heap holds after one heap operation\<close>
named_theorems inv_intros \<open>operations that keep an invariant\<close>

section \<open>Results and lists\<close>

lemma rbind_simps [simp]:
  "rbind (Inl e) f = Inl e"
  "rbind (Inr x) f = f x"
  by (simp_all add: rbind_def)

lemma rbind_eq_Inr: "rbind r f = Inr y \<longleftrightarrow> (\<exists>x. r = Inr x \<and> f x = Inr y)"
  by (cases r) auto

lemma rbind_eq_Inl: "rbind r f = Inl e \<longleftrightarrow> r = Inl e \<or> (\<exists>x. r = Inr x \<and> f x = Inl e)"
  by (cases r) auto

lemma rbind_assoc: "rbind (rbind r f) g = rbind r (\<lambda>x. rbind (f x) g)"
  by (cases r) auto

lemma ok_or_simps [simp]:
  "ok_or e None = Inl e"
  "ok_or e (Some v) = Inr v"
  by (simp_all add: ok_or_def)

lemma ok_or_eq_Inr [simp]: "ok_or e x = Inr v \<longleftrightarrow> x = Some v"
  by (cases x) auto

lemma get_nth_Some: "get_nth xs i = Some x \<longleftrightarrow> i < length xs \<and> xs ! i = x"
  by (auto simp: get_nth_def)

lemma get_nth_None: "get_nth xs i = None \<longleftrightarrow> length xs \<le> i"
  by (auto simp: get_nth_def)

lemma get_nth_in_set: "get_nth xs i = Some x \<Longrightarrow> x \<in> set xs"
  by (auto simp: get_nth_Some)

lemma drop_eq_appendD:
  assumes "drop n xs = ys @ zs" and "n \<le> length xs"
  shows "n + length ys \<le> length xs" and "take (length ys) (drop n xs) = ys"
    and "drop (n + length ys) xs = zs"
proof -
  have "length xs - n = length ys + length zs"
    using arg_cong [OF assms(1), of length] by simp
  then show "n + length ys \<le> length xs" using assms(2) by simp
  show "take (length ys) (drop n xs) = ys" using assms(1) by simp
  have "drop (n + length ys) xs = drop (length ys) (drop n xs)"
    by (simp add: add.commute)
  then show "drop (n + length ys) xs = zs" using assms(1) by simp
qed

section \<open>Words\<close>

lemma unat_drop_bit_less:
  "v \<noteq> 0 \<Longrightarrow> 0 < n \<Longrightarrow> unat (drop_bit n (v :: 'a::len word)) < unat v"
proof -
  assume "v \<noteq> 0" "0 < n"
  then have "0 < unat v" and "(1::nat) < 2 ^ n"
    by (simp_all add: unat_gt_0 one_less_power del: One_nat_def)
  then have "unat v div 2 ^ n < unat v"
    by (rule div_less_dividend [rotated])
  then show ?thesis
    by (simp only: unat_drop_bit_eq drop_bit_nat_def)
qed

lemma and_127_take_bit: "(v :: 'a::len word) AND 127 = take_bit 7 v"
  by (simp add: take_bit_eq_mask mask_eq_exp_minus_1)

section \<open>Strings and bytes\<close>

definition byte_of_char :: "char \<Rightarrow> u8" where
  "byte_of_char c = word_of_nat (of_char c)"

definition char_of_byte :: "u8 \<Rightarrow> char" where
  "char_of_byte b = char_of (unat b)"

text \<open>\<open>str::as_bytes\<close> and its inverse on byte sequences.\<close>

definition as_bytes :: "string \<Rightarrow> u8 list" where
  "as_bytes s = map byte_of_char s"

definition of_bytes :: "u8 list \<Rightarrow> string" where
  "of_bytes bs = map char_of_byte bs"

lemma char_of_byte_of_char [simp]: "char_of_byte (byte_of_char c) = c"
  by (simp add: byte_of_char_def char_of_byte_def unat_of_nat)

lemma byte_of_char_of_byte [simp]: "byte_of_char (char_of_byte b) = b"
proof -
  have "unat b < 256" using unsigned_less [of b, where 'a = nat] by simp
  then show ?thesis by (simp add: byte_of_char_def char_of_byte_def)
qed

lemma of_bytes_as_bytes [simp]: "of_bytes (as_bytes s) = s"
  by (simp add: of_bytes_def as_bytes_def o_def)

lemma as_bytes_of_bytes [simp]: "as_bytes (of_bytes bs) = bs"
  by (simp add: of_bytes_def as_bytes_def o_def)

lemma length_as_bytes [simp]: "length (as_bytes s) = length s"
  by (simp add: as_bytes_def)

text \<open>Decimal rendering (\<open>{}\<close> of an integer).\<close>

fun nat_digits :: "nat \<Rightarrow> string" where
  "nat_digits n =
     (if n < 10 then [char_of (48 + n)]
      else nat_digits (n div 10) @ [char_of (48 + n mod 10)])"

declare nat_digits.simps [simp del]

definition int_digits :: "int \<Rightarrow> string" where
  "int_digits i = (if i < 0 then CHR ''-'' # nat_digits (nat (- i)) else nat_digits (nat i))"

end
