(* ===== verification/F64.thy ===== *)
theory F64
  imports Prelude
begin

text \<open>
  The \<open>f64\<close> operations the interpreter uses, on IEEE 754 binary64 bit patterns: a value is
  an integer number of units of \<open>2\<^sup>-\<^sup>1\<^sup>0\<^sup>7\<^sup>4\<close> (the smallest subnormal), arithmetic is exact on
  those integers and rounds once, to nearest with ties to even. The payload and sign of a
  produced NaN are unspecified in Rust; the canonical quiet NaN stands for them.
\<close>

type_synonym f64 = "64 word"

section \<open>Bit patterns\<close>

definition f64_neg_bit :: "f64 \<Rightarrow> bool" where
  "f64_neg_bit x = bit x 63"

text \<open>The pattern without its sign, as a number: ordered as the magnitudes are.\<close>

definition f64_mag :: "f64 \<Rightarrow> nat" where
  "f64_mag x = unat (take_bit 63 x)"

definition INF_MAG :: nat where
  "INF_MAG = 2047 * 2 ^ 52"

definition f64_is_nan :: "f64 \<Rightarrow> bool" where
  "f64_is_nan x \<longleftrightarrow> INF_MAG < f64_mag x"

definition f64_is_inf :: "f64 \<Rightarrow> bool" where
  "f64_is_inf x \<longleftrightarrow> f64_mag x = INF_MAG"

definition f64_is_finite :: "f64 \<Rightarrow> bool" where
  "f64_is_finite x \<longleftrightarrow> f64_mag x < INF_MAG"

definition f64_is_zero :: "f64 \<Rightarrow> bool" where
  "f64_is_zero x \<longleftrightarrow> f64_mag x = 0"

definition f64_make :: "bool \<Rightarrow> nat \<Rightarrow> f64" where
  "f64_make neg mag = (if neg then word_of_nat mag OR push_bit 63 1 else word_of_nat mag)"

definition f64_nan :: f64 where "f64_nan = 0x7ff8000000000000"
definition f64_inf :: "bool \<Rightarrow> f64" where "f64_inf neg = f64_make neg INF_MAG"
definition f64_zero :: "bool \<Rightarrow> f64" where "f64_zero neg = f64_make neg 0"

text \<open>The magnitude of a finite pattern in units: significand times two to the exponent.\<close>

definition mag_units :: "nat \<Rightarrow> nat" where
  "mag_units p =
     (let e = p div 2 ^ 52; m = p mod 2 ^ 52
      in if e = 0 then m else (2 ^ 52 + m) * 2 ^ (e - 1))"

definition f64_units :: "f64 \<Rightarrow> int" where
  "f64_units x = (if f64_neg_bit x then - int (mag_units (f64_mag x)) else int (mag_units (f64_mag x)))"

section \<open>Rounding\<close>

fun bit_length :: "nat \<Rightarrow> nat" where
  "bit_length n = (if n = 0 then 0 else Suc (bit_length (n div 2)))"

declare bit_length.simps [simp del]

text \<open>\<open>num / den\<close> rounded to the nearest integer, ties to even.\<close>

definition div_nearest_even :: "nat \<Rightarrow> nat \<Rightarrow> nat" where
  "div_nearest_even num den =
     (let q = num div den; r = num mod den
      in if 2 * r > den \<or> (2 * r = den \<and> odd q) then Suc q else q)"

text \<open>The magnitude nearest to \<open>num / den\<close> units: the scale is chosen so that the
  significand has 53 bits; a carry out of the significand moves into the exponent by itself.\<close>

definition round_mag :: "nat \<Rightarrow> nat \<Rightarrow> nat" where
  "round_mag num den =
     (let s = bit_length (num div den) - 53;
          p = s * 2 ^ 52 + div_nearest_even num (den * 2 ^ s)
      in min p INF_MAG)"

definition f64_round :: "bool \<Rightarrow> nat \<Rightarrow> nat \<Rightarrow> f64" where
  "f64_round neg num den = f64_make neg (round_mag num den)"

section \<open>Arithmetic\<close>

definition f64_neg :: "f64 \<Rightarrow> f64" where
  "f64_neg x = x XOR push_bit 63 1"

definition f64_add :: "f64 \<Rightarrow> f64 \<Rightarrow> f64" where
  "f64_add a b =
     (if f64_is_nan a \<or> f64_is_nan b then f64_nan
      else if f64_is_inf a then (if f64_is_inf b \<and> f64_neg_bit a \<noteq> f64_neg_bit b then f64_nan else a)
      else if f64_is_inf b then b
      else let u = f64_units a + f64_units b
           in if u = 0
              then f64_zero (f64_neg_bit a \<and> f64_neg_bit b)
              else f64_round (u < 0) (nat \<bar>u\<bar>) 1)"

definition f64_sub :: "f64 \<Rightarrow> f64 \<Rightarrow> f64" where
  "f64_sub a b = f64_add a (f64_neg b)"

definition f64_mul :: "f64 \<Rightarrow> f64 \<Rightarrow> f64" where
  "f64_mul a b =
     (let neg = (f64_neg_bit a \<noteq> f64_neg_bit b)
      in if f64_is_nan a \<or> f64_is_nan b then f64_nan
         else if f64_is_inf a \<or> f64_is_inf b
         then (if f64_is_zero a \<or> f64_is_zero b then f64_nan else f64_inf neg)
         else f64_round neg (mag_units (f64_mag a) * mag_units (f64_mag b)) (2 ^ 1074))"

definition f64_div :: "f64 \<Rightarrow> f64 \<Rightarrow> f64" where
  "f64_div a b =
     (let neg = (f64_neg_bit a \<noteq> f64_neg_bit b)
      in if f64_is_nan a \<or> f64_is_nan b then f64_nan
         else if f64_is_inf a then (if f64_is_inf b then f64_nan else f64_inf neg)
         else if f64_is_inf b then f64_zero neg
         else if f64_is_zero b then (if f64_is_zero a then f64_nan else f64_inf neg)
         else f64_round neg (mag_units (f64_mag a) * 2 ^ 1074) (mag_units (f64_mag b)))"

section \<open>Comparison\<close>

text \<open>IEEE comparison: NaN is unordered, the two zeros are equal.\<close>

definition f64_key :: "f64 \<Rightarrow> int" where
  "f64_key x = (if f64_neg_bit x then - int (f64_mag x) else int (f64_mag x))"

definition f64_eq :: "f64 \<Rightarrow> f64 \<Rightarrow> bool" where
  "f64_eq a b \<longleftrightarrow> \<not> f64_is_nan a \<and> \<not> f64_is_nan b \<and> f64_key a = f64_key b"

definition f64_lt :: "f64 \<Rightarrow> f64 \<Rightarrow> bool" where
  "f64_lt a b \<longleftrightarrow> \<not> f64_is_nan a \<and> \<not> f64_is_nan b \<and> f64_key a < f64_key b"

definition f64_le :: "f64 \<Rightarrow> f64 \<Rightarrow> bool" where
  "f64_le a b \<longleftrightarrow> \<not> f64_is_nan a \<and> \<not> f64_is_nan b \<and> f64_key a \<le> f64_key b"

text \<open>\<open>f64::total_cmp\<close>: negative patterns have their magnitude bits flipped, and the
  results compare as signed integers.\<close>

definition f64_total_key :: "f64 \<Rightarrow> int" where
  "f64_total_key x = sint (x XOR (if f64_neg_bit x then mask 63 else 0))"

section \<open>Conversions\<close>

text \<open>\<open>i64 as f64\<close>.\<close>

definition i64_to_f64 :: "i64 \<Rightarrow> f64" where
  "i64_to_f64 n =
     (if sint n = 0 then f64_zero False
      else f64_round (sint n < 0) (nat \<bar>sint n\<bar> * 2 ^ 1074) 1)"

text \<open>\<open>f64 as i64\<close>: truncates towards zero, saturates, and maps NaN to zero.\<close>

definition f64_to_i64 :: "f64 \<Rightarrow> i64" where
  "f64_to_i64 x =
     (if f64_is_nan x then 0
      else let t = (if f64_is_inf x then 2 ^ 64 else int (mag_units (f64_mag x) div 2 ^ 1074));
               v = (if f64_neg_bit x then - t else t)
           in word_of_int (max (- (2 ^ 63)) (min (2 ^ 63 - 1) v)))"

section \<open>Laws\<close>

lemma f64_eq_sym: "f64_eq a b \<longleftrightarrow> f64_eq b a"
  by (auto simp: f64_eq_def)

lemma f64_eq_trans: "f64_eq a b \<Longrightarrow> f64_eq b c \<Longrightarrow> f64_eq a c"
  by (auto simp: f64_eq_def)

lemma f64_eq_refl_iff: "f64_eq a a \<longleftrightarrow> \<not> f64_is_nan a"
  by (auto simp: f64_eq_def)

lemma f64_mag_less: "f64_mag x < 2 ^ 63"
proof -
  have "unat (take_bit 63 x) = take_bit 63 (unat x)" by (simp add: unsigned_take_bit_eq)
  then show ?thesis by (simp only: f64_mag_def take_bit_nat_less_exp)
qed

lemma f64_mag_make [simp]: "m < 2 ^ 63 \<Longrightarrow> f64_mag (f64_make neg m) = m"
proof -
  assume m: "m < 2 ^ 63"
  have "take_bit 63 (word_of_nat m OR push_bit 63 1 :: f64) = take_bit 63 (word_of_nat m)"
    by (rule bit_word_eqI) (auto simp: bit_simps)
  moreover have "unat (take_bit 63 (word_of_nat m :: f64)) = m"
    using m by (simp add: unsigned_take_bit_eq unsigned_of_nat take_bit_nat_eq_self)
  ultimately show ?thesis by (simp add: f64_mag_def f64_make_def)
qed

lemma f64_neg_bit_make [simp]: "m < 2 ^ 63 \<Longrightarrow> f64_neg_bit (f64_make neg m) = neg"
proof -
  assume m: "m < 2 ^ 63"
  then have "take_bit 63 m = m" by (rule take_bit_nat_eq_self)
  then have "\<not> bit m 63" using bit_take_bit_iff [of 63 m 63] by simp
  moreover have "unat (word_of_nat m :: f64) = m"
    using m by (simp add: unsigned_of_nat take_bit_nat_eq_self)
  ultimately have "\<not> bit (word_of_nat m :: f64) 63"
    using bit_unsigned_iff [where 'a = nat, of "word_of_nat m :: f64" 63] by simp
  then show ?thesis by (auto simp: f64_neg_bit_def f64_make_def bit_simps)
qed


lemma mag_units_scale:
  assumes "m \<le> 2 ^ 53" "s = 0 \<or> 2 ^ 52 \<le> m"
  shows "mag_units (s * 2 ^ 52 + m) = m * 2 ^ s"
proof -
  consider "m < 2 ^ 52" "s = 0" | "2 ^ 52 \<le> m" "m < 2 ^ 53" | "m = 2 ^ 53"
    using assms by linarith
  then show ?thesis
  proof cases
    case 1
    then show ?thesis by (simp add: mag_units_def)
  next
    case 2
    then obtain r where r: "m = 2 ^ 52 + r" "r < 2 ^ 52"
      by (metis le_Suc_ex add_less_cancel_left mult_2 numeral_Bit0 power_Suc eval_nat_numeral(3))
    then have "s * 2 ^ 52 + m = r + Suc s * 2 ^ 52" by simp
    then have "(s * 2 ^ 52 + m) div 2 ^ 52 = Suc s" "(s * 2 ^ 52 + m) mod 2 ^ 52 = r"
      using r(2) by (simp_all only: div_mult_self1 mod_mult_self1 div_less mod_less add_0_left)
    then show ?thesis using r by (simp only: mag_units_def Let_def) simp
  next
    case 3
    then have "s * 2 ^ 52 + m = 0 + Suc (Suc s) * 2 ^ 52" by simp
    then have "(s * 2 ^ 52 + m) div 2 ^ 52 = Suc (Suc s)" "(s * 2 ^ 52 + m) mod 2 ^ 52 = 0"
      by (simp_all only: div_mult_self1 mod_mult_self1 div_0 mod_0) (simp_all)?
    then show ?thesis using 3 by (simp only: mag_units_def Let_def) simp
  qed
qed

lemma bit_length_less: "n < 2 ^ bit_length n"
proof (induction n rule: bit_length.induct)
  case (1 n)
  then show ?case by (subst bit_length.simps) auto
qed

lemma bit_length_ge: "0 < n \<Longrightarrow> 2 ^ (bit_length n - 1) \<le> n"
proof (induction n rule: bit_length.induct)
  case (1 n)
  show ?case
  proof (cases "n = 1")
    case True
    then show ?thesis by (simp add: bit_length.simps)
  next
    case False
    then have "0 < n div 2" using 1(2) by auto
    then have "2 ^ (bit_length (n div 2) - 1) \<le> n div 2" using 1 by simp
    moreover have "bit_length (n div 2) \<noteq> 0"
      using \<open>0 < n div 2\<close> by (subst bit_length.simps) simp
    then have "2 ^ bit_length (n div 2) = (2::nat) * 2 ^ (bit_length (n div 2) - 1)"
      by (cases "bit_length (n div 2)") auto
    ultimately show ?thesis using 1(2) by (subst bit_length.simps) auto
  qed
qed

lemma bit_length_shift: "0 < n \<Longrightarrow> bit_length (n * 2 ^ k) = bit_length n + k"
proof (induction k)
  case (Suc k)
  then show ?case by (subst bit_length.simps) (simp add: ac_simps)
qed simp

text \<open>A value with a 53-bit significand is not changed by rounding.\<close>

lemma round_mag_exact:
  assumes "0 < num" "0 < den" "den dvd num" "den * 2 ^ (bit_length (num div den) - 53) dvd num"
    "bit_length (num div den) \<le> 2000"
  shows "mag_units (round_mag num den) * den = num" "round_mag num den < INF_MAG"
proof -
  define q where "q = num div den"
  define s where "s = bit_length q - 53"
  define m where "m = num div (den * 2 ^ s)"
  have num: "num = m * (den * 2 ^ s)" using assms(4) by (simp add: m_def s_def q_def)
  have qd: "num = q * den" using assms(3) by (simp add: q_def)
  have mq: "q = m * 2 ^ s"
  proof -
    have "q * den = (m * 2 ^ s) * den" using num qd by (simp add: ac_simps)
    then show ?thesis using assms(2) by simp
  qed
  have pos: "0 < q" using assms(1) qd by (cases q) auto
  have near: "div_nearest_even num (den * 2 ^ s) = m"
  proof -
    have "num mod (den * 2 ^ s) = 0" using num by simp
    then show ?thesis using assms(2) by (simp add: div_nearest_even_def m_def Let_def)
  qed
  have lo: "s = 0 \<or> 2 ^ 52 \<le> m"
  proof (cases "s = 0")
    case False
    then have "bit_length q - 1 = 52 + s" by (simp add: s_def)
    then have "2 ^ 52 * 2 ^ s \<le> m * 2 ^ s"
      using bit_length_ge [OF pos] mq by (simp only: power_add)
    then show ?thesis by simp
  qed simp
  have hi: "m < 2 ^ 53"
  proof -
    have "bit_length q \<le> 53 + s" by (simp add: s_def)
    then have "q < 2 ^ (53 + s)"
      using bit_length_less [of q] power_increasing [of "bit_length q" "53 + s" "2::nat"] by linarith
    then have "m * 2 ^ s < 2 ^ 53 * 2 ^ s" using mq by (simp only: power_add)
    then show ?thesis by simp
  qed
  have s: "s \<le> 1947" using assms(5) by (simp add: s_def q_def)
  have p: "s * 2 ^ 52 + m < INF_MAG"
  proof -
    have "s * 2 ^ 52 \<le> 1947 * 2 ^ 52" using s by (rule mult_le_mono1)
    then show ?thesis using hi by (simp add: INF_MAG_def)
  qed
  have r: "round_mag num den = s * 2 ^ 52 + m"
    using near p by (simp only: round_mag_def Let_def q_def [symmetric] s_def [symmetric] min_def
        less_imp_le if_True)
  show "round_mag num den < INF_MAG" using r p by simp
  have "mag_units (round_mag num den) = q"
    unfolding r using mag_units_scale [of m s] lo hi mq by simp
  then show "mag_units (round_mag num den) * den = num" using qd by simp
qed

lemma INF_MAG_less: "INF_MAG < 2 ^ 63"
  by (simp add: INF_MAG_def)

text \<open>Integers up to \<open>2\<^sup>5\<^sup>3\<close> in magnitude survive the conversion to a double and back.\<close>

lemma f64_to_i64_to_f64:
  assumes "\<bar>sint n\<bar> \<le> 2 ^ 53"
  shows "f64_to_i64 (i64_to_f64 n) = n"
proof (cases "sint n = 0")
  case True
  then have "n = 0" using signed_word_eqI [of n 0] by simp
  then show ?thesis by (simp add: i64_to_f64_def f64_to_i64_def f64_zero_def f64_is_nan_def
        f64_is_inf_def INF_MAG_def mag_units_def Let_def)
next
  case False
  define a where "a = nat \<bar>sint n\<bar>"
  define num where "num = a * 2 ^ 1074"
  have a: "0 < a" "a \<le> 2 ^ 53" using assms False by (simp_all add: a_def)
  have bl: "bit_length num = bit_length a + 1074" unfolding num_def by (rule bit_length_shift [OF a(1)])
  have exact: "2 ^ (bit_length num - 53) dvd num"
  proof (cases "a = 2 ^ 53")
    case True
    have "bit_length a = 54" unfolding True by (simp add: bit_length.simps)
    then have "2 ^ (bit_length num - 53) = (2::nat) ^ 1075" using bl by simp
    moreover have "num = 2 ^ (1075 + 52)"
      unfolding num_def True power_add [symmetric] by (rule arg_cong [where f = "(^) 2"]) simp
    ultimately show ?thesis by (simp only: power_add dvd_triv_left)
  next
    case False
    then have "a < 2 ^ 53" using a by simp
    then have "2 ^ (bit_length a - 1) < (2::nat) ^ 53" using bit_length_ge [OF a(1)] by linarith
    then have "bit_length a - 1 < 53" by (rule power_less_imp_less_exp [rotated]) simp
    then have "bit_length num - 53 \<le> 1074" using bl by linarith
    then show ?thesis unfolding num_def by (intro dvd_mult le_imp_power_dvd)
  qed
  have bound: "bit_length num \<le> 2000"
  proof -
    have "2 ^ (bit_length a - 1) \<le> (2::nat) ^ 53" using bit_length_ge [OF a(1)] a(2) by linarith
    then have "bit_length a - 1 \<le> 53" by (rule power_le_imp_le_exp [rotated]) simp
    then show ?thesis using bl by linarith
  qed
  have pos: "0 < num" unfolding num_def using a(1) by (intro mult_pos_pos) simp_all
  have r: "mag_units (round_mag num 1) = num" "round_mag num 1 < INF_MAG"
    using round_mag_exact [of num 1] pos exact bound by simp_all
  define x where "x = i64_to_f64 n"
  have mag: "f64_mag x = round_mag num 1" and neg: "f64_neg_bit x = (sint n < 0)"
    using False r(2) INF_MAG_less less_trans [OF r(2) INF_MAG_less]
    by (simp_all only: x_def i64_to_f64_def f64_round_def if_False num_def [symmetric] a_def [symmetric]
        f64_mag_make f64_neg_bit_make)
  have "num div 2 ^ 1074 = a" unfolding num_def by (rule nonzero_mult_div_cancel_right) simp
  then have "f64_to_i64 x
      = word_of_int (max (- (2 ^ 63)) (min (2 ^ 63 - 1) (if sint n < 0 then - int a else int a)))"
    using r mag neg less_not_sym [OF r(2)]
    by (simp only: f64_to_i64_def f64_is_nan_def f64_is_inf_def Let_def less_imp_neq if_False)
  moreover have "(if sint n < 0 then - int a else int a) = sint n" by (simp add: a_def)
  moreover have "max (- (2 ^ 63)) (min (2 ^ 63 - 1) (sint n)) = sint n"
    using assms by (auto simp: max_def min_def)
  ultimately show ?thesis by (simp add: x_def)
qed

end
