(* ===== verification/MapObj.thy ===== *)
theory MapObj
  imports Prelude
begin

text \<open>
  The runtime \<open>Map\<close> object (\<^verbatim>\<open>runtime/src/map.rs\<close>): an insertion-ordered vector
  of entries, a parallel vector of key hashes, and, from sixteen entries on, an
  open-addressing table from hash to entry index.

  Key equality re-enters the heap and may not return (a cyclic key) or may panic (a
  dangling handle), so it is an argument of type \<open>bool option\<close>, and every operation that
  compares keys returns an option: \<open>None\<close> stands for no result. The locale
  \<open>key_laws\<close> states what the operations rely on (an equality that returns on the keys in
  use, symmetric and transitive but not reflexive, because of NaN, and a hash that agrees
  with it); inside it, every operation is shown to refine the plain list of entries.
\<close>

section \<open>Layout\<close>

definition HASH_THRESHOLD :: usize where
  "HASH_THRESHOLD = 16"

definition EMPTY :: int where
  "EMPTY = -1"

text \<open>\<open>usize as i32\<close> and \<open>i32 as usize\<close>.\<close>

definition as_i32 :: "usize \<Rightarrow> int" where
  "as_i32 n = signed_take_bit 31 (int n)"

definition i32_as_usize :: "int \<Rightarrow> usize" where
  "i32_as_usize e = nat (e mod 2 ^ 64)"

record ('k, 'v) mapobj =
  entries :: "('k \<times> 'v) list"
  hashes :: "u64 list"
  index :: "int list"

definition map_default :: "('k, 'v) mapobj" where
  "map_default = \<lparr>entries = [], hashes = [], index = []\<rparr>"

definition map_len :: "('k, 'v) mapobj \<Rightarrow> usize" where
  "map_len m = length (entries m)"

definition map_is_empty :: "('k, 'v) mapobj \<Rightarrow> bool" where
  "map_is_empty m \<longleftrightarrow> entries m = []"

section \<open>Lookup\<close>

text \<open>The linear scan of a small map, from entry \<open>i\<close> on; the hash is compared first.\<close>

fun scan_entries :: "('k \<Rightarrow> 'k \<Rightarrow> bool option) \<Rightarrow> 'k \<Rightarrow> u64 \<Rightarrow> nat
    \<Rightarrow> (('k \<times> 'v) \<times> u64) list \<Rightarrow> usize option option" where
  "scan_entries eq key hash i [] = Some None"
| "scan_entries eq key hash i (((k, v), h) # rest) =
     (if h = hash
      then (case eq k key of
              None \<Rightarrow> None
            | Some True \<Rightarrow> Some (Some i)
            | Some False \<Rightarrow> scan_entries eq key hash (Suc i) rest)
      else scan_entries eq key hash (Suc i) rest)"

text \<open>The probe loop. An index outside a vector panics; the loop ends at an empty slot.\<close>

partial_function (option) probe :: "('k \<Rightarrow> 'k \<Rightarrow> bool option) \<Rightarrow> ('k, 'v) mapobj
    \<Rightarrow> 'k \<Rightarrow> u64 \<Rightarrow> nat \<Rightarrow> nat \<Rightarrow> usize option option" where
  "probe eq m key hash msk slot =
     (case get_nth (index m) slot of
        None \<Rightarrow> None
      | Some e \<Rightarrow>
          if e = EMPTY then Some None
          else (case get_nth (hashes m) (i32_as_usize e) of
                  None \<Rightarrow> None
                | Some h \<Rightarrow>
                    if h = hash
                    then (case get_nth (entries m) (i32_as_usize e) of
                            None \<Rightarrow> None
                          | Some kv \<Rightarrow>
                              (case eq (fst kv) key of
                                 None \<Rightarrow> None
                               | Some b \<Rightarrow>
                                   if b then Some (Some (i32_as_usize e))
                                   else probe eq m key hash msk ((slot + 1) AND msk)))
                    else probe eq m key hash msk ((slot + 1) AND msk)))"

definition map_find :: "('k \<Rightarrow> 'k \<Rightarrow> bool option) \<Rightarrow> ('k, 'v) mapobj \<Rightarrow> 'k \<Rightarrow> u64
    \<Rightarrow> usize option option" where
  "map_find eq m key hash =
     (if index m = [] then scan_entries eq key hash 0 (zip (entries m) (hashes m))
      else let msk = length (index m) - 1
           in probe eq m key hash msk (unat hash AND msk))"

definition map_get :: "('k \<Rightarrow> 'k \<Rightarrow> bool option) \<Rightarrow> ('k, 'v) mapobj \<Rightarrow> 'k \<Rightarrow> u64
    \<Rightarrow> 'v option option" where
  "map_get eq m key hash = map_option (map_option (\<lambda>i. snd (entries m ! i))) (map_find eq m key hash)"

definition map_contains :: "('k \<Rightarrow> 'k \<Rightarrow> bool option) \<Rightarrow> ('k, 'v) mapobj \<Rightarrow> 'k \<Rightarrow> u64
    \<Rightarrow> bool option" where
  "map_contains eq m key hash = map_option (\<lambda>r. r \<noteq> None) (map_find eq m key hash)"

section \<open>The probe table\<close>

definition load_exceeded :: "('k, 'v) mapobj \<Rightarrow> bool" where
  "load_exceeded m \<longleftrightarrow> length (entries m) * 4 \<ge> length (index m) * 3"

partial_function (option) free_slot :: "int list \<Rightarrow> nat \<Rightarrow> nat \<Rightarrow> nat option" where
  "free_slot ix msk slot =
     (case get_nth ix slot of
        None \<Rightarrow> None
      | Some e \<Rightarrow> if e \<noteq> EMPTY then free_slot ix msk ((slot + 1) AND msk) else Some slot)"

definition index_insert :: "('k, 'v) mapobj \<Rightarrow> usize \<Rightarrow> u64 \<Rightarrow> ('k, 'v) mapobj option" where
  "index_insert m entry_index hash =
     (let msk = length (index m) - 1
      in map_option (\<lambda>slot. m\<lparr>index := (index m)[slot := as_i32 entry_index]\<rparr>)
           (free_slot (index m) msk (unat hash AND msk)))"

text \<open>\<open>usize::next_power_of_two\<close>.\<close>

function next_pow2_from :: "nat \<Rightarrow> nat \<Rightarrow> nat" where
  "next_pow2_from p n = (if p = 0 \<or> n \<le> p then p else next_pow2_from (2 * p) n)"
  by pat_completeness auto
termination
  by (relation "measure (\<lambda>(p, n). n - p)") auto

declare next_pow2_from.simps [simp del]

definition next_power_of_two :: "nat \<Rightarrow> nat" where
  "next_power_of_two n = next_pow2_from 1 n"

definition index_capacity_for :: "usize \<Rightarrow> usize" where
  "index_capacity_for n = (let target = max (n * 2) 32 in next_power_of_two target)"

text \<open>\<open>for i in 0..entries.len() { index_insert(i, hashes[i]) }\<close>, from \<open>i\<close> on.\<close>

fun index_insert_all :: "nat \<Rightarrow> u64 list \<Rightarrow> ('k, 'v) mapobj \<Rightarrow> ('k, 'v) mapobj option" where
  "index_insert_all i [] m = Some m"
| "index_insert_all i (h # hs) m = Option.bind (index_insert m i h) (index_insert_all (Suc i) hs)"

definition rebuild_index :: "('k, 'v) mapobj \<Rightarrow> ('k, 'v) mapobj option" where
  "rebuild_index m =
     (let cap = index_capacity_for (length (entries m))
      in index_insert_all 0 (take (length (entries m)) (hashes m))
           (m\<lparr>index := replicate cap EMPTY\<rparr>))"

section \<open>Update\<close>

definition map_insert :: "('k \<Rightarrow> 'k \<Rightarrow> bool option) \<Rightarrow> ('k, 'v) mapobj \<Rightarrow> 'k \<Rightarrow> u64 \<Rightarrow> 'v
    \<Rightarrow> ('k, 'v) mapobj option" where
  "map_insert eq m key hash val =
     Option.bind (map_find eq m key hash) (\<lambda>found.
       case found of
         Some i \<Rightarrow> Some (m\<lparr>entries := (entries m)[i := (fst (entries m ! i), val)]\<rparr>)
       | None \<Rightarrow>
           (let ei = length (entries m);
                m' = m\<lparr>entries := entries m @ [(key, val)], hashes := hashes m @ [hash]\<rparr>
            in if index m' = []
               then (if length (entries m') \<ge> HASH_THRESHOLD then rebuild_index m' else Some m')
               else if load_exceeded m' then rebuild_index m'
               else index_insert m' ei hash))"

text \<open>\<open>Vec::remove\<close>.\<close>

definition vec_remove :: "nat \<Rightarrow> 'a list \<Rightarrow> 'a list" where
  "vec_remove i xs = take i xs @ drop (Suc i) xs"

definition map_remove :: "('k \<Rightarrow> 'k \<Rightarrow> bool option) \<Rightarrow> ('k, 'v) mapobj \<Rightarrow> 'k \<Rightarrow> u64
    \<Rightarrow> (('k, 'v) mapobj \<times> 'v option) option" where
  "map_remove eq m key hash =
     Option.bind (map_find eq m key hash) (\<lambda>found.
       case found of
         None \<Rightarrow> Some (m, None)
       | Some i \<Rightarrow>
           (let v = snd (entries m ! i);
                m' = m\<lparr>entries := vec_remove i (entries m), hashes := vec_remove i (hashes m)\<rparr>
            in if index m' \<noteq> []
               then map_option (\<lambda>m''. (m'', Some v)) (rebuild_index m')
               else Some (m', Some v)))"

definition map_clear :: "('k, 'v) mapobj \<Rightarrow> ('k, 'v) mapobj" where
  "map_clear m = m\<lparr>entries := [], hashes := [], index := []\<rparr>"

text \<open>\<open>from_pairs\<close>: hash and insert each pair in order.\<close>

fun map_insert_pairs :: "('k \<Rightarrow> 'k \<Rightarrow> bool option) \<Rightarrow> ('k \<Rightarrow> u64 option) \<Rightarrow> ('k \<times> 'v) list
    \<Rightarrow> ('k, 'v) mapobj \<Rightarrow> ('k, 'v) mapobj option" where
  "map_insert_pairs eq hashf [] m = Some m"
| "map_insert_pairs eq hashf ((k, v) # kvs) m =
     Option.bind (hashf k) (\<lambda>h.
       Option.bind (map_insert eq m k h v) (map_insert_pairs eq hashf kvs))"

definition from_pairs :: "('k \<Rightarrow> 'k \<Rightarrow> bool option) \<Rightarrow> ('k \<Rightarrow> u64 option) \<Rightarrow> ('k \<times> 'v) list
    \<Rightarrow> ('k, 'v) mapobj option" where
  "from_pairs eq hashf kvs = map_insert_pairs eq hashf kvs map_default"

section \<open>Specification: an insertion-ordered list of entries\<close>

fun al_find :: "('k \<Rightarrow> 'k \<Rightarrow> bool option) \<Rightarrow> ('k \<times> 'v) list \<Rightarrow> 'k \<Rightarrow> nat option" where
  "al_find eq [] key = None"
| "al_find eq (kv # rest) key =
     (if eq (fst kv) key = Some True then Some 0 else map_option Suc (al_find eq rest key))"

definition al_insert :: "('k \<Rightarrow> 'k \<Rightarrow> bool option) \<Rightarrow> ('k \<times> 'v) list \<Rightarrow> 'k \<Rightarrow> 'v
    \<Rightarrow> ('k \<times> 'v) list" where
  "al_insert eq es key val =
     (case al_find eq es key of
        Some i \<Rightarrow> es[i := (fst (es ! i), val)]
      | None \<Rightarrow> es @ [(key, val)])"

definition al_remove :: "('k \<Rightarrow> 'k \<Rightarrow> bool option) \<Rightarrow> ('k \<times> 'v) list \<Rightarrow> 'k \<Rightarrow> ('k \<times> 'v) list" where
  "al_remove eq es key = (case al_find eq es key of Some i \<Rightarrow> vec_remove i es | None \<Rightarrow> es)"

definition al_lookup :: "('k \<Rightarrow> 'k \<Rightarrow> bool option) \<Rightarrow> ('k \<times> 'v) list \<Rightarrow> 'k \<Rightarrow> 'v option" where
  "al_lookup eq es key = map_option (\<lambda>i. snd (es ! i)) (al_find eq es key)"

lemma al_lookup_simps [simp]:
  "al_lookup eq [] key = None"
  "al_lookup eq ((a, b) # es) key = (if eq a key = Some True then Some b else al_lookup eq es key)"
  by (auto simp: al_lookup_def option.map_comp comp_def)

lemma al_insert_simps [simp]:
  "al_insert eq [] key v = [(key, v)]"
  "al_insert eq ((a, b) # es) key v =
     (if eq a key = Some True then (a, v) # es else (a, b) # al_insert eq es key v)"
  by (auto simp: al_insert_def split: option.splits)

lemma al_remove_simps [simp]:
  "al_remove eq [] key = []"
  "al_remove eq ((a, b) # es) key =
     (if eq a key = Some True then es else (a, b) # al_remove eq es key)"
  by (auto simp: al_remove_def vec_remove_def split: option.splits)

section \<open>Invariant of the probe table\<close>

text \<open>The \<open>d\<close>-th slot probed for \<open>hash\<close> in a table of \<open>len\<close> slots.\<close>

definition probe_slot :: "nat \<Rightarrow> u64 \<Rightarrow> nat \<Rightarrow> nat" where
  "probe_slot len hash d = (unat hash + d) mod len"

text \<open>Every slot is empty or names an entry, every entry is reached by probing from its
  hash through occupied slots, as many slots are occupied as there are entries, and the
  load stays below three quarters, so that every probe meets an empty slot.\<close>

definition index_ok :: "u64 list \<Rightarrow> int list \<Rightarrow> bool" where
  "index_ok hs ix \<longleftrightarrow>
     (\<exists>k. length ix = 2 ^ k)
     \<and> (\<forall>s < length ix. ix ! s = EMPTY \<or> (0 \<le> ix ! s \<and> nat (ix ! s) < length hs))
     \<and> (\<forall>i < length hs. \<exists>d. ix ! probe_slot (length ix) (hs ! i) d = int i
            \<and> (\<forall>d' < d. ix ! probe_slot (length ix) (hs ! i) d' \<noteq> EMPTY))
     \<and> card {s. s < length ix \<and> ix ! s \<noteq> EMPTY} = length hs
     \<and> length hs * 4 < length ix * 3"

lemma probe_slot_less: "0 < len \<Longrightarrow> probe_slot len h d < len"
  by (simp add: probe_slot_def)

lemma and_pow2_minus_1: "n AND (2 ^ k - Suc 0) = (n :: nat) mod 2 ^ k"
proof -
  have "mask k = (2 ^ k - Suc 0 :: nat)" by (simp add: mask_eq_exp_minus_1)
  then show ?thesis by (metis take_bit_eq_mask take_bit_eq_mod)
qed

lemma probe_slot_and:
  assumes "len = 2 ^ k"
  shows "unat h AND (len - Suc 0) = probe_slot len h 0"
    and "Suc (probe_slot len h d) AND (len - Suc 0) = probe_slot len h (Suc d)"
  using assms by (simp_all add: probe_slot_def and_pow2_minus_1 mod_Suc_eq)

lemma i32_roundtrip: "n < 2 ^ 31 \<Longrightarrow> as_i32 n = int n"
  by (simp add: as_i32_def signed_take_bit_int_eq_self)

lemma i32_as_usize_nonneg: "0 \<le> e \<Longrightarrow> e < 2 ^ 64 \<Longrightarrow> i32_as_usize e = nat e"
  by (simp add: i32_as_usize_def)

text \<open>With a slot to spare, the probe sequence of every hash meets an empty slot.\<close>

lemma probe_slot_covers:
  assumes "s < len"
  shows "\<exists>d < len. probe_slot len h d = s"
proof (intro exI conjI)
  let ?d = "(s + len - unat h mod len) mod len"
  show "?d < len" using assms by simp
  have "(unat h + ?d) mod len = (unat h mod len + (s + len - unat h mod len)) mod len"
    by (simp add: mod_simps)
  also have "unat h mod len + (s + len - unat h mod len) = s + len"
    using assms mod_less_divisor [of len "unat h"] by linarith
  finally show "probe_slot len h ?d = s" using assms by (simp add: probe_slot_def)
qed

lemma index_ok_has_empty:
  assumes "index_ok hs ix"
  obtains s where "s < length ix" "ix ! s = EMPTY"
proof -
  have "card {s. s < length ix \<and> ix ! s \<noteq> EMPTY} < length ix"
    using assms by (auto simp: index_ok_def)
  then have "{s. s < length ix \<and> ix ! s \<noteq> EMPTY} \<noteq> {..<length ix}"
    by (metis card_lessThan less_irrefl)
  then show ?thesis using that by fastforce
qed

lemma first_empty_probe:
  assumes "s < length ix" "ix ! s = EMPTY"
  obtains d where "d < length ix" "ix ! probe_slot (length ix) h d = EMPTY"
    "\<forall>d' < d. ix ! probe_slot (length ix) h d' \<noteq> EMPTY"
proof -
  let ?P = "\<lambda>d. ix ! probe_slot (length ix) h d = EMPTY"
  obtain d0 where "d0 < length ix" "?P d0"
    using probe_slot_covers [OF assms(1)] assms(2) by metis
  then have "(LEAST d. ?P d) < length ix" "?P (LEAST d. ?P d)"
    by (meson LeastI Least_le le_less_trans)+
  then show ?thesis using that [of "LEAST d. ?P d"] not_less_Least by blast
qed

lemma free_slot_returns:
  assumes "length ix = 2 ^ k" "ix ! probe_slot (length ix) h n = EMPTY"
    "\<forall>d' < n. ix ! probe_slot (length ix) h d' \<noteq> EMPTY" "d \<le> n"
  shows "free_slot ix (length ix - 1) (probe_slot (length ix) h d) = Some (probe_slot (length ix) h n)"
  using assms(4)
proof (induction "n - d" arbitrary: d)
  case 0
  then show ?case using assms(1,2)
    by (subst free_slot.simps) (simp add: get_nth_def probe_slot_less)
next
  case (Suc m)
  then have "d < n" by simp
  then have "free_slot ix (length ix - 1) (probe_slot (length ix) h d)
      = free_slot ix (length ix - 1) (probe_slot (length ix) h (Suc d))"
    using assms(1,3) probe_slot_and(2) [OF assms(1), of h d]
    by (subst free_slot.simps) (simp add: get_nth_def probe_slot_less)
  also have "\<dots> = Some (probe_slot (length ix) h n)"
    using Suc \<open>d < n\<close> by (intro Suc.hyps(1)) auto
  finally show ?case .
qed

text \<open>Placing one more entry at the first empty slot of its probe sequence.\<close>

lemma index_ok_extend:
  assumes ok: "index_ok hs ix" and len: "Suc (length hs) * 4 < length ix * 3"
    and e: "ix ! probe_slot (length ix) h d = EMPTY"
    and occ: "\<forall>d' < d. ix ! probe_slot (length ix) h d' \<noteq> EMPTY"
  shows "index_ok (hs @ [h]) (ix[probe_slot (length ix) h d := int (length hs)])"
proof -
  let ?n = "length ix" and ?s = "probe_slot (length ix) h d"
  let ?ix = "ix[?s := int (length hs)]"
  have s: "?s < ?n" using len by (intro probe_slot_less) auto
  have up: "?ix ! t \<noteq> EMPTY" if "ix ! t \<noteq> EMPTY" for t
    using that s by (cases "t = ?s") (auto simp: EMPTY_def)
  have cells: "{t. t < ?n \<and> ?ix ! t \<noteq> EMPTY} = insert ?s {t. t < ?n \<and> ix ! t \<noteq> EMPTY}"
    using s by (auto simp: nth_list_update EMPTY_def)
  then have card: "card {t. t < ?n \<and> ?ix ! t \<noteq> EMPTY} = Suc (length hs)"
    using ok e by (simp add: index_ok_def)
  have old: "\<exists>d. ?ix ! probe_slot ?n (hs ! i) d = int i
      \<and> (\<forall>d' < d. ?ix ! probe_slot ?n (hs ! i) d' \<noteq> EMPTY)" if "i < length hs" for i
  proof -
    from ok that obtain c where c: "ix ! probe_slot ?n (hs ! i) c = int i"
        "\<forall>d' < c. ix ! probe_slot ?n (hs ! i) d' \<noteq> EMPTY"
      unfolding index_ok_def by blast
    then have "probe_slot ?n (hs ! i) c \<noteq> ?s" using e by (auto simp: EMPTY_def)
    then have "?ix ! probe_slot ?n (hs ! i) c = int i" using c by simp
    then show ?thesis using c(2) up by blast
  qed
  have new: "?ix ! probe_slot ?n h d = int (length hs) \<and> (\<forall>d' < d. ?ix ! probe_slot ?n h d' \<noteq> EMPTY)"
    using s occ up by simp
  show ?thesis
    unfolding index_ok_def length_list_update
  proof (intro conjI)
    show "\<forall>t < ?n. ?ix ! t = EMPTY \<or> 0 \<le> ?ix ! t \<and> nat (?ix ! t) < length (hs @ [h])"
      using ok s by (auto simp: index_ok_def nth_list_update less_Suc_eq)
    show "\<forall>i < length (hs @ [h]). \<exists>d. ?ix ! probe_slot ?n ((hs @ [h]) ! i) d = int i
        \<and> (\<forall>d' < d. ?ix ! probe_slot ?n ((hs @ [h]) ! i) d' \<noteq> EMPTY)"
      using old new by (auto simp: nth_append less_Suc_eq)
  qed (use ok card len in \<open>auto simp: index_ok_def\<close>)
qed

lemma index_insert_ok:
  assumes ok: "index_ok hs (index m)" and len: "Suc (length hs) * 4 < length (index m) * 3"
    and small: "length hs < 2 ^ 31"
  obtains ix where "index_insert m (length hs) h = Some (m\<lparr>index := ix\<rparr>)"
    "index_ok (hs @ [h]) ix" "length ix = length (index m)"
proof -
  let ?n = "length (index m)"
  obtain k where k: "?n = 2 ^ k" using ok by (auto simp: index_ok_def)
  obtain s where "s < ?n" "index m ! s = EMPTY" using ok by (rule index_ok_has_empty)
  then obtain d where d: "index m ! probe_slot ?n h d = EMPTY"
      "\<forall>d' < d. index m ! probe_slot ?n h d' \<noteq> EMPTY"
    by (rule first_empty_probe)
  have "free_slot (index m) (?n - 1) (probe_slot ?n h 0) = Some (probe_slot ?n h d)"
    using k d by (rule free_slot_returns) simp
  then have "index_insert m (length hs) h
      = Some (m\<lparr>index := (index m)[probe_slot ?n h d := int (length hs)]\<rparr>)"
    using small by (simp add: index_insert_def Let_def probe_slot_and(1) [OF k] i32_roundtrip)
  moreover have "index_ok (hs @ [h]) ((index m)[probe_slot ?n h d := int (length hs)])"
    using ok len d by (rule index_ok_extend)
  ultimately show ?thesis using that by simp
qed

lemma index_ok_empty: "0 < n \<Longrightarrow> n = 2 ^ k \<Longrightarrow> index_ok [] (replicate n EMPTY)"
  by (auto simp: index_ok_def)

lemma next_pow2_from_props:
  "0 < p \<Longrightarrow> p = 2 ^ j \<Longrightarrow> n \<le> next_pow2_from p n \<and> (\<exists>k. next_pow2_from p n = 2 ^ k)"
proof (induction p n arbitrary: j rule: next_pow2_from.induct)
  case (1 p n)
  show ?case
  proof (cases "n \<le> p")
    case True
    then show ?thesis using 1 by (subst (1 2) next_pow2_from.simps) auto
  next
    case False
    then have "n \<le> next_pow2_from (2 * p) n \<and> (\<exists>k. next_pow2_from (2 * p) n = 2 ^ k)"
      using 1(1) [of "Suc j"] 1(2,3) by simp
    then show ?thesis using False 1(2) by (subst (1 2) next_pow2_from.simps) auto
  qed
qed

lemma index_capacity_for_props:
  "2 * n \<le> index_capacity_for n" "32 \<le> index_capacity_for n" "\<exists>k. index_capacity_for n = 2 ^ k"
  using next_pow2_from_props [of 1 0 "max (n * 2) 32"]
  by (auto simp: index_capacity_for_def next_power_of_two_def)

lemma index_insert_all_ok:
  assumes "index_ok done (index m)" "length (done @ hs) * 4 < length (index m) * 3"
    "length (done @ hs) \<le> 2 ^ 31"
  shows "\<exists>ix. index_insert_all (length done) hs m = Some (m\<lparr>index := ix\<rparr>) \<and> index_ok (done @ hs) ix
    \<and> length ix = length (index m)"
  using assms
proof (induction hs arbitrary: "done" m)
  case Nil
  then show ?case by (intro exI [of _ "index m"]) simp
next
  case (Cons h hs)
  obtain ix where ix: "index_insert m (length done) h = Some (m\<lparr>index := ix\<rparr>)"
      "index_ok (done @ [h]) ix" "length ix = length (index m)"
    using Cons.prems by (elim index_insert_ok [where h = h]) auto
  have "\<exists>ix'. index_insert_all (length (done @ [h])) hs (m\<lparr>index := ix\<rparr>)
      = Some (m\<lparr>index := ix, index := ix'\<rparr>) \<and> index_ok ((done @ [h]) @ hs) ix' \<and> length ix' = length ix"
    using Cons.prems ix Cons.IH [of "done @ [h]" "m\<lparr>index := ix\<rparr>"] by simp
  then show ?case using ix by simp
qed

lemma rebuild_index_ok:
  assumes "length (hashes m) = length (entries m)" "length (entries m) \<le> 2 ^ 31"
  obtains ix where "rebuild_index m = Some (m\<lparr>index := ix\<rparr>)" "index_ok (hashes m) ix" "ix \<noteq> []"
proof -
  let ?cap = "index_capacity_for (length (entries m))"
  let ?m = "m\<lparr>index := replicate ?cap EMPTY\<rparr>"
  note cap = index_capacity_for_props [of "length (entries m)"]
  have "\<exists>ix. index_insert_all (length ([] :: u64 list)) (hashes m) ?m = Some (?m\<lparr>index := ix\<rparr>)
      \<and> index_ok ([] @ hashes m) ix \<and> length ix = length (index ?m)"
    using assms cap by (intro index_insert_all_ok) (auto intro: index_ok_empty)
  then obtain ix where ix: "index_insert_all 0 (hashes m) ?m = Some (m\<lparr>index := ix\<rparr>)"
      "index_ok (hashes m) ix" "length ix = ?cap"
    by auto
  show ?thesis
  proof (rule that [of ix])
    show "rebuild_index m = Some (m\<lparr>index := ix\<rparr>)"
      using ix(1) assms(1) by (simp add: rebuild_index_def Let_def)
  qed (use ix cap in auto)
qed


section \<open>Refinement\<close>

definition map_wf :: "('k \<Rightarrow> 'k \<Rightarrow> bool option) \<Rightarrow> ('k \<Rightarrow> u64 option) \<Rightarrow> 'k set
    \<Rightarrow> ('k, 'v) mapobj \<Rightarrow> bool" where
  "map_wf eq hashf K m \<longleftrightarrow>
     fst ` set (entries m) \<subseteq> K
     \<and> map Some (hashes m) = map (hashf \<circ> fst) (entries m)
     \<and> (\<forall>i < length (entries m). \<forall>j < length (entries m).
          i \<noteq> j \<longrightarrow> eq (fst (entries m ! i)) (fst (entries m ! j)) \<noteq> Some True)
     \<and> (if index m = [] then length (entries m) < HASH_THRESHOLD
        else index_ok (hashes m) (index m))"

lemma al_find_SomeD:
  "al_find eq es key = Some i \<Longrightarrow> i < length es \<and> eq (fst (es ! i)) key = Some True"
  by (induction es arbitrary: i) (auto split: if_splits)

lemma al_find_None: "al_find eq es key = None \<longleftrightarrow> (\<forall>kv \<in> set es. eq (fst kv) key \<noteq> Some True)"
  by (induction es) auto

lemma al_find_unique:
  assumes "i < length es" "eq (fst (es ! i)) key = Some True"
    and "\<And>j. j < length es \<Longrightarrow> eq (fst (es ! j)) key = Some True \<Longrightarrow> j = i"
  shows "al_find eq es key = Some i"
proof -
  have "al_find eq es key \<noteq> None" using assms(1,2) by (auto simp: al_find_None)
  then show ?thesis using assms(3) al_find_SomeD [of eq es key] by force
qed

lemma map_wf_lengths: "map_wf eq hashf K m \<Longrightarrow> length (hashes m) = length (entries m)"
  by (auto simp: map_wf_def dest: arg_cong [where f = length])

lemma map_wf_hash:
  assumes "map_wf eq hashf K m" "i < length (entries m)"
  shows "hashf (fst (entries m ! i)) = Some (hashes m ! i)"
proof -
  have "map Some (hashes m) ! i = map (hashf \<circ> fst) (entries m) ! i"
    using assms(1) by (simp only: map_wf_def)
  then show ?thesis using assms map_wf_lengths [OF assms(1)] by simp
qed

lemma vec_remove_map: "map f (vec_remove i xs) = vec_remove i (map f xs)"
  by (simp add: vec_remove_def take_map drop_map)

lemma vec_remove_length: "i < length xs \<Longrightarrow> length (vec_remove i xs) = length xs - 1"
  by (simp add: vec_remove_def)

lemma vec_remove_nth:
  "i < length xs \<Longrightarrow> j < length xs - 1 \<Longrightarrow> vec_remove i xs ! j = xs ! (if j < i then j else Suc j)"
  by (auto simp: vec_remove_def nth_append min_def)

lemma vec_remove_subset: "set (vec_remove i xs) \<subseteq> set xs"
  by (auto simp: vec_remove_def dest: in_set_takeD in_set_dropD)

locale key_laws =
  fixes eq :: "'k \<Rightarrow> 'k \<Rightarrow> bool option"
    and hashf :: "'k \<Rightarrow> u64 option"
    and K :: "'k set"
  assumes eq_returns: "a \<in> K \<Longrightarrow> b \<in> K \<Longrightarrow> eq a b \<noteq> None"
    and eq_sym: "a \<in> K \<Longrightarrow> b \<in> K \<Longrightarrow> eq a b = Some True \<Longrightarrow> eq b a = Some True"
    and eq_trans: "a \<in> K \<Longrightarrow> b \<in> K \<Longrightarrow> c \<in> K \<Longrightarrow>
      eq a b = Some True \<Longrightarrow> eq b c = Some True \<Longrightarrow> eq a c = Some True"
    and hash_returns: "a \<in> K \<Longrightarrow> hashf a \<noteq> None"
    and hash_eq: "a \<in> K \<Longrightarrow> b \<in> K \<Longrightarrow> eq a b = Some True \<Longrightarrow> hashf a = hashf b"
begin

abbreviation wf :: "('k, 'v) mapobj \<Rightarrow> bool" where
  "wf m \<equiv> map_wf eq hashf K m"

lemma wf_key: "wf m \<Longrightarrow> i < length (entries m) \<Longrightarrow> fst (entries m ! i) \<in> K"
  by (auto simp: map_wf_def)

text \<open>At most one entry of a well-formed map matches a key.\<close>

lemma wf_unique:
  assumes "wf m" "key \<in> K" "i < length (entries m)" "j < length (entries m)"
    "eq (fst (entries m ! i)) key = Some True" "eq (fst (entries m ! j)) key = Some True"
  shows "i = j"
proof (rule ccontr)
  assume "i \<noteq> j"
  have "eq (fst (entries m ! i)) (fst (entries m ! j)) = Some True"
    using assms wf_key [OF assms(1)] by (meson eq_sym eq_trans)
  with \<open>i \<noteq> j\<close> assms show False by (auto simp: map_wf_def)
qed

lemma match_hash:
  assumes "wf m" "key \<in> K" "hashf key = Some h" "i < length (entries m)"
    "eq (fst (entries m ! i)) key = Some True"
  shows "hashes m ! i = h"
  using assms wf_key [OF assms(1,4)] map_wf_hash [OF assms(1,4)] hash_eq by fastforce

lemma scan_entries_correct:
  assumes "\<forall>kv \<in> set es. fst kv \<in> K" "key \<in> K" "hashf key = Some h"
    "map Some hs = map (hashf \<circ> fst) es"
  shows "scan_entries eq key h i (zip es hs) = Some (map_option (\<lambda>j. i + j) (al_find eq es key))"
  using assms(1,4)
proof (induction es arbitrary: hs i)
  case Nil
  then show ?case by simp
next
  case (Cons kv es)
  obtain k v where kv: "kv = (k, v)" by (cases kv)
  from Cons.prems obtain g hs' where hs: "hs = g # hs'" "hashf k = Some g"
      "map Some hs' = map (hashf \<circ> fst) es"
    by (cases hs) (auto simp: kv)
  have k: "k \<in> K" using Cons.prems kv by simp
  have IH: "scan_entries eq key h (Suc i) (zip es hs')
      = Some (map_option (\<lambda>j. Suc i + j) (al_find eq es key))"
    using Cons.prems hs by (intro Cons.IH) auto
  have ne: "eq k key \<noteq> None" using k assms(2) by (rule eq_returns)
  have "g = h" if "eq k key = Some True"
    using hash_eq [OF k assms(2) that] hs assms(3) by simp
  then show ?case using IH ne
    by (cases "al_find eq es key") (auto simp: kv hs split: option.splits bool.splits)
qed

text \<open>The probe loop walks to the \<open>n\<close>-th slot when no slot before it ends the search.\<close>

lemma probe_walk:
  assumes "length (index m) = 2 ^ k" "d \<le> n"
    and skip: "\<And>d. d < n \<Longrightarrow> \<exists>i < length (entries m).
          index m ! probe_slot (length (index m)) h d = int i \<and> i < length (hashes m) \<and> i < 2 ^ 31
          \<and> (hashes m ! i = h \<longrightarrow> eq (fst (entries m ! i)) key = Some False)"
  shows "probe eq m key h (length (index m) - 1) (probe_slot (length (index m)) h d)
       = probe eq m key h (length (index m) - 1) (probe_slot (length (index m)) h n)"
  using assms(2)
proof (induction "n - d" arbitrary: d)
  case 0
  then show ?case by simp
next
  case (Suc x)
  then have "d < n" by simp
  from skip [OF this] obtain i where i: "i < length (entries m)"
      "index m ! probe_slot (length (index m)) h d = int i" "i < length (hashes m)" "i < 2 ^ 31"
      "hashes m ! i = h \<longrightarrow> eq (fst (entries m ! i)) key = Some False"
    by blast
  have "probe_slot (length (index m)) h d < length (index m)"
    using assms(1) by (simp add: probe_slot_less)
  then have "probe eq m key h (length (index m) - 1) (probe_slot (length (index m)) h d)
      = probe eq m key h (length (index m) - 1) (probe_slot (length (index m)) h (Suc d))"
    using i probe_slot_and(2) [OF assms(1), of h d]
    by (subst probe.simps) (auto simp: get_nth_def i32_as_usize_nonneg EMPTY_def)
  also have "\<dots> = probe eq m key h (length (index m) - 1) (probe_slot (length (index m)) h n)"
    using Suc \<open>d < n\<close> by (intro Suc.hyps(1)) auto
  finally show ?case .
qed

lemma probe_skip:
  assumes wf: "wf m" and ix: "index m \<noteq> []" and key: "key \<in> K"
    and size: "length (entries m) \<le> 2 ^ 31"
    and slot: "s < length (index m)" "index m ! s \<noteq> EMPTY"
    and nomatch: "\<And>j. j < length (entries m) \<Longrightarrow> index m ! s = int j \<Longrightarrow>
        eq (fst (entries m ! j)) key \<noteq> Some True"
  shows "\<exists>i < length (entries m). index m ! s = int i \<and> i < length (hashes m) \<and> i < 2 ^ 31
      \<and> (hashes m ! i = h \<longrightarrow> eq (fst (entries m ! i)) key = Some False)"
proof -
  have "0 \<le> index m ! s" "nat (index m ! s) < length (hashes m)"
    using wf ix slot by (auto simp: map_wf_def index_ok_def)
  then obtain i where i: "index m ! s = int i" "i < length (hashes m)"
    using nonneg_int_cases by force
  then have len: "i < length (entries m)" using map_wf_lengths [OF wf] by simp
  have "eq (fst (entries m ! i)) key = Some False"
    using eq_returns [OF wf_key [OF wf len] key] nomatch [OF len i(1)] by auto
  with i len size show ?thesis by auto
qed

lemma map_find_indexed:
  assumes wf: "wf m" and ix: "index m \<noteq> []" and key: "key \<in> K" and h: "hashf key = Some h"
    and size: "length (entries m) \<le> 2 ^ 31"
  shows "map_find eq m key h = Some (al_find eq (entries m) key)"
proof -
  let ?n = "length (index m)" and ?slot = "probe_slot (length (index m)) h"
  have ok: "index_ok (hashes m) (index m)" using wf ix by (simp add: map_wf_def)
  then obtain k where k: "?n = 2 ^ k" by (auto simp: index_ok_def)
  have lt: "?slot d < ?n" for d using k by (simp add: probe_slot_less)
  have find: "map_find eq m key h = probe eq m key h (?n - 1) (?slot 0)"
    using ix by (simp add: map_find_def Let_def probe_slot_and(1) [OF k])
  show ?thesis
  proof (cases "al_find eq (entries m) key")
    case None
    obtain s where "s < ?n" "index m ! s = EMPTY" using ok by (rule index_ok_has_empty)
    then obtain d where d: "index m ! ?slot d = EMPTY" "\<forall>d' < d. index m ! ?slot d' \<noteq> EMPTY"
      by (rule first_empty_probe)
    have "probe eq m key h (?n - 1) (?slot 0) = probe eq m key h (?n - 1) (?slot d)"
    proof (rule probe_walk [OF k])
      fix c assume "c < d"
      with d lt show "\<exists>i < length (entries m). index m ! ?slot c = int i \<and> i < length (hashes m)
          \<and> i < 2 ^ 31 \<and> (hashes m ! i = h \<longrightarrow> eq (fst (entries m ! i)) key = Some False)"
        using None by (intro probe_skip [OF wf ix key size]) (auto simp: al_find_None)
    qed simp
    also have "\<dots> = Some None"
      using d lt by (subst probe.simps) (simp add: get_nth_def)
    finally show ?thesis using find None by simp
  next
    case (Some i)
    have i: "i < length (entries m)" "eq (fst (entries m ! i)) key = Some True"
      using al_find_SomeD [OF Some] by auto
    have hi: "hashes m ! i = h" using match_hash [OF wf key h i] .
    have i': "i < length (hashes m)" using i map_wf_lengths [OF wf] by simp
    with ok hi obtain d0 where d0: "index m ! ?slot d0 = int i"
        "\<forall>d' < d0. index m ! ?slot d' \<noteq> EMPTY"
      unfolding index_ok_def by blast
    define d where "d = (LEAST d. index m ! ?slot d = int i)"
    have d: "index m ! ?slot d = int i" unfolding d_def using d0(1) by (rule LeastI)
    have before: "index m ! ?slot c \<noteq> int i \<and> index m ! ?slot c \<noteq> EMPTY" if "c < d" for c
    proof -
      have "d \<le> d0" unfolding d_def using d0(1) by (rule Least_le)
      then show ?thesis using that d0(2) not_less_Least [of c] d_def by force
    qed
    have "probe eq m key h (?n - 1) (?slot 0) = probe eq m key h (?n - 1) (?slot d)"
    proof (rule probe_walk [OF k])
      fix c assume "c < d"
      from before [OF this] show "\<exists>i < length (entries m). index m ! ?slot c = int i
          \<and> i < length (hashes m) \<and> i < 2 ^ 31
          \<and> (hashes m ! i = h \<longrightarrow> eq (fst (entries m ! i)) key = Some False)"
        using lt wf_unique [OF wf key _ i(1) _ i(2)]
        by (intro probe_skip [OF wf ix key size]) auto
    qed simp
    also have "\<dots> = Some (Some i)"
      using d lt [of d] i i' hi size
      by (subst probe.simps) (simp add: get_nth_def EMPTY_def i32_as_usize_nonneg)
    finally show ?thesis using find Some by simp
  qed
qed

theorem map_find_correct:
  assumes "wf m" "key \<in> K" "hashf key = Some h" "length (entries m) \<le> 2 ^ 31"
  shows "map_find eq m key h = Some (al_find eq (entries m) key)"
proof (cases "index m = []")
  case True
  have "\<forall>kv \<in> set (entries m). fst kv \<in> K" "map Some (hashes m) = map (hashf \<circ> fst) (entries m)"
    using assms(1) by (auto simp: map_wf_def)
  then show ?thesis
    using True assms scan_entries_correct [of "entries m" key h "hashes m" 0]
    by (simp add: map_find_def option.map_ident)
next
  case False
  with assms show ?thesis by (intro map_find_indexed)
qed

corollary map_get_correct:
  assumes "wf m" "key \<in> K" "hashf key = Some h" "length (entries m) \<le> 2 ^ 31"
  shows "map_get eq m key h = Some (al_lookup eq (entries m) key)"
    and "map_contains eq m key h = Some (al_lookup eq (entries m) key \<noteq> None)"
  using map_find_correct [OF assms] by (simp_all add: map_get_def map_contains_def al_lookup_def)

lemma wf_update:
  assumes "wf m" "i < length (entries m)"
  shows "wf (m\<lparr>entries := (entries m)[i := (fst (entries m ! i), v)]\<rparr>)"
proof -
  let ?es = "(entries m)[i := (fst (entries m ! i), v)]"
  have keys: "map fst ?es = map fst (entries m)"
    using assms(2) by (simp add: map_update list_update_same_conv)
  then have "fst (?es ! j) = fst (entries m ! j)" if "j < length (entries m)" for j
    using that by (metis length_list_update nth_map)
  moreover have "fst ` set ?es = fst ` set (entries m)"
    using keys by (metis set_map)
  moreover have "map (hashf \<circ> fst) ?es = map (hashf \<circ> fst) (entries m)"
    using keys by (metis map_map)
  ultimately show ?thesis using assms by (simp add: map_wf_def)
qed

lemma wf_snoc_distinct:
  assumes "wf m" "key \<in> K" "al_find eq (entries m) key = None"
    "i < Suc (length (entries m))" "j < Suc (length (entries m))" "i \<noteq> j"
  shows "eq (fst ((entries m @ [(key, v)]) ! i)) (fst ((entries m @ [(key, v)]) ! j)) \<noteq> Some True"
proof -
  have new: "eq (fst (entries m ! c)) key \<noteq> Some True \<and> eq key (fst (entries m ! c)) \<noteq> Some True"
    if "c < length (entries m)" for c
  proof -
    have "eq (fst (entries m ! c)) key \<noteq> Some True"
      using that assms(3) by (auto simp: al_find_None)
    then show ?thesis using eq_sym [OF assms(2) wf_key [OF assms(1) that]] by auto
  qed
  then show ?thesis
    using assms by (auto simp: nth_append map_wf_def less_Suc_eq)
qed

theorem map_insert_correct:
  assumes wf: "wf m" and key: "key \<in> K" and h: "hashf key = Some h"
    and size: "length (entries m) < 2 ^ 31"
  obtains m' where "map_insert eq m key h v = Some m'"
    "entries m' = al_insert eq (entries m) key v" "wf m'"
proof (cases "al_find eq (entries m) key")
  case (Some i)
  let ?m = "m\<lparr>entries := (entries m)[i := (fst (entries m ! i), v)]\<rparr>"
  have "map_find eq m key h = Some (Some i)"
    using map_find_correct [OF wf key h] size Some by simp
  moreover have "wf ?m" using wf al_find_SomeD [OF Some] by (intro wf_update) auto
  ultimately show ?thesis using that [of ?m] Some by (simp add: map_insert_def al_insert_def)
next
  case None
  let ?m = "m\<lparr>entries := entries m @ [(key, v)], hashes := hashes m @ [h]\<rparr>"
  have find: "map_find eq m key h = Some None"
    using map_find_correct [OF wf key h] size None by simp
  have es: "entries ?m = al_insert eq (entries m) key v" by (simp add: al_insert_def None)
  have lens: "length (hashes ?m) = length (entries ?m)" using map_wf_lengths [OF wf] by simp
  have core: "wf (?m\<lparr>index := ix\<rparr>)"
    if "if ix = [] then length (entries ?m) < HASH_THRESHOLD else index_ok (hashes ?m) ix" for ix
    using wf key h that wf_snoc_distinct [OF wf key None] by (auto simp: map_wf_def)
  have rebuild: "\<exists>m'. rebuild_index ?m = Some m' \<and> entries m' = entries ?m \<and> wf m'"
  proof -
    obtain ix where "rebuild_index ?m = Some (?m\<lparr>index := ix\<rparr>)" "index_ok (hashes ?m) ix" "ix \<noteq> []"
      using lens size by (elim rebuild_index_ok) auto
    then show ?thesis using core [of ix] by auto
  qed
  have "\<exists>m'. map_insert eq m key h v = Some m' \<and> entries m' = entries ?m \<and> wf m'"
  proof (cases "index m = []")
    case True
    then have same: "?m\<lparr>index := []\<rparr> = ?m" by (cases m) simp
    show ?thesis
      using True find rebuild core [of "[]", unfolded same] by (auto simp: map_insert_def Let_def not_le)
  next
    case False
    then have ok: "index_ok (hashes m) (index ?m)" using wf by (simp add: map_wf_def)
    show ?thesis
    proof (cases "load_exceeded ?m")
      case True
      then show ?thesis using find rebuild False by (auto simp: map_insert_def Let_def)
    next
      case nload: False
      then obtain ix where "index_insert ?m (length (hashes m)) h = Some (?m\<lparr>index := ix\<rparr>)"
          "index_ok (hashes m @ [h]) ix" "length ix = length (index ?m)"
        using ok size lens by (elim index_insert_ok [where h = h]) (auto simp: load_exceeded_def)
      moreover have "ix \<noteq> []" using calculation(3) False by auto
      ultimately show ?thesis
        using find False nload lens core [of ix] by (simp add: map_insert_def Let_def)
    qed
  qed
  then show ?thesis using that es by metis
qed

theorem map_remove_correct:
  assumes wf: "wf m" and key: "key \<in> K" and h: "hashf key = Some h"
    and size: "length (entries m) \<le> 2 ^ 31"
  obtains m' where "map_remove eq m key h = Some (m', al_lookup eq (entries m) key)"
    "entries m' = al_remove eq (entries m) key" "wf m'"
proof (cases "al_find eq (entries m) key")
  case None
  then have "map_remove eq m key h = Some (m, None)"
    using map_find_correct [OF assms] by (simp add: map_remove_def)
  then show ?thesis using that [of m] None wf by (simp add: al_lookup_def al_remove_def)
next
  case (Some i)
  let ?m = "m\<lparr>entries := vec_remove i (entries m), hashes := vec_remove i (hashes m)\<rparr>"
  have i: "i < length (entries m)" using al_find_SomeD [OF Some] by simp
  have find: "map_find eq m key h = Some (Some i)" using map_find_correct [OF assms] Some by simp
  have lens: "length (hashes ?m) = length (entries ?m)"
    using map_wf_lengths [OF wf] i by (simp add: vec_remove_length)
  have hs: "map Some (hashes ?m) = map (hashf \<circ> fst) (entries ?m)"
    using wf by (simp add: vec_remove_map map_wf_def)
  have dist: "eq (fst (vec_remove i (entries m) ! a)) (fst (vec_remove i (entries m) ! b)) \<noteq> Some True"
    if "a < length (vec_remove i (entries m))" "b < length (vec_remove i (entries m))" "a \<noteq> b" for a b
  proof -
    let ?f = "\<lambda>c. if c < i then c else Suc c"
    have "?f a \<noteq> ?f b" "?f a < length (entries m)" "?f b < length (entries m)"
      using that i by (auto simp: vec_remove_length)
    then have "eq (fst (entries m ! ?f a)) (fst (entries m ! ?f b)) \<noteq> Some True"
      using wf unfolding map_wf_def by blast
    then show ?thesis using that i by (simp only: vec_remove_length vec_remove_nth not_False_eq_True)
  qed
  have keys: "fst ` set (vec_remove i (entries m)) \<subseteq> K"
  proof -
    have "fst ` set (entries m) \<subseteq> K" using wf by (simp add: map_wf_def)
    then show ?thesis by (rule order_trans [OF image_mono [OF vec_remove_subset]])
  qed
  have core: "wf (?m\<lparr>index := ix\<rparr>)"
    if "if ix = [] then length (entries ?m) < HASH_THRESHOLD else index_ok (hashes ?m) ix" for ix
    using that hs dist keys by (simp add: map_wf_def split: if_splits)
  have "\<exists>m'. map_remove eq m key h = Some (m', Some (snd (entries m ! i)))
      \<and> entries m' = entries ?m \<and> wf m'"
  proof (cases "index m = []")
    case True
    then have same: "?m\<lparr>index := []\<rparr> = ?m" by (cases m) simp
    have "length (entries ?m) < HASH_THRESHOLD"
      using wf True i by (simp add: map_wf_def vec_remove_length less_imp_diff_less)
    then have "wf ?m" using core [of "[]", unfolded same] by simp
    then show ?thesis using True find by (simp add: map_remove_def Let_def)
  next
    case False
    have "length (entries ?m) \<le> 2 ^ 31" using size i by (simp add: vec_remove_length)
    with lens obtain ix where
        "rebuild_index ?m = Some (?m\<lparr>index := ix\<rparr>)" "index_ok (hashes ?m) ix" "ix \<noteq> []"
      by (rule rebuild_index_ok)
    then show ?thesis using core [of ix] find False by (simp add: map_remove_def Let_def)
  qed
  then show ?thesis using that Some by (auto simp: al_lookup_def al_remove_def)
qed

lemma wf_default: "wf map_default"
  by (simp add: map_wf_def map_default_def HASH_THRESHOLD_def)

lemma wf_clear: "wf (map_clear m)"
  by (simp add: map_wf_def map_clear_def HASH_THRESHOLD_def)

lemma length_al_insert: "length (al_insert eq es key v) \<le> Suc (length es)"
  by (auto simp: al_insert_def split: option.splits)

text \<open>The laws of a map, on the entries.\<close>

lemma eq_cong:
  "a \<in> K \<Longrightarrow> b \<in> K \<Longrightarrow> c \<in> K \<Longrightarrow> eq a b = Some True \<Longrightarrow> (eq a c = Some True) = (eq b c = Some True)"
  by (meson eq_sym eq_trans)

lemma al_lookup_insert:
  assumes "fst ` set es \<subseteq> K" "key \<in> K" "other \<in> K"
  shows "al_lookup eq (al_insert eq es key v) other =
    (if eq key other = Some True then Some v else al_lookup eq es other)"
  using assms(1)
proof (induction es)
  case (Cons p es)
  obtain a b where p: "p = (a, b)" by (cases p)
  then have a: "a \<in> K" using Cons.prems by simp
  show ?case
  proof (cases "eq a key = Some True")
    case True
    then show ?thesis using p eq_cong [OF a assms(2,3)] by simp
  next
    case False
    then have "eq key other = Some True \<Longrightarrow> eq a other \<noteq> Some True"
      using a assms(2,3) by (meson eq_sym eq_trans)
    then show ?thesis using p False Cons by simp
  qed
qed simp

lemma al_lookup_absent:
  "(\<And>p. p \<in> set es \<Longrightarrow> eq (fst p) key \<noteq> Some True) \<Longrightarrow> al_lookup eq es key = None"
  by (simp add: al_lookup_def al_find_None)

lemma al_lookup_remove:
  assumes "fst ` set es \<subseteq> K" "sorted_wrt (\<lambda>p q. eq (fst p) (fst q) \<noteq> Some True) es" "key \<in> K" "other \<in> K"
  shows "al_lookup eq (al_remove eq es key) other =
    (if eq key other = Some True then None else al_lookup eq es other)"
  using assms(1,2)
proof (induction es)
  case (Cons p es)
  obtain a b where p: "p = (a, b)" by (cases p)
  then have a: "a \<in> K" and es: "\<And>q. q \<in> set es \<Longrightarrow> fst q \<in> K \<and> eq a (fst q) \<noteq> Some True"
    using Cons.prems by auto
  show ?case
  proof (cases "eq a key = Some True")
    case True
    have "al_lookup eq es other = None" if "eq a other = Some True"
      using that es a assms(4) by (intro al_lookup_absent) (meson eq_sym eq_trans)
    then show ?thesis using p True eq_cong [OF a assms(3,4)] by auto
  next
    case False
    then have "eq key other = Some True \<Longrightarrow> eq a other \<noteq> Some True"
      using a assms(3,4) by (meson eq_sym eq_trans)
    then show ?thesis using p False Cons by simp
  qed
qed simp

lemma wf_keys:
  "wf m \<Longrightarrow> fst ` set (entries m) \<subseteq> K"
  "wf m \<Longrightarrow> sorted_wrt (\<lambda>p q. eq (fst p) (fst q) \<noteq> Some True) (entries m)"
  by (simp_all add: map_wf_def sorted_wrt_iff_nth_less)

text \<open>A map literal inserts its pairs from left to right.\<close>

lemma map_insert_pairs_correct:
  assumes "wf m" "fst ` set kvs \<subseteq> K" "length (entries m) + length kvs \<le> 2 ^ 31"
  shows "\<exists>m'. map_insert_pairs eq hashf kvs m = Some m' \<and> wf m'
    \<and> entries m' = foldl (\<lambda>es (k, v). al_insert eq es k v) (entries m) kvs"
  using assms
proof (induction kvs arbitrary: m)
  case Nil
  then show ?case by simp
next
  case (Cons kv kvs)
  obtain k v where kv: "kv = (k, v)" by (cases kv)
  have k: "k \<in> K" using Cons.prems kv by simp
  obtain h where h: "hashf k = Some h" using hash_returns [OF k] by auto
  have size: "length (entries m) < 2 ^ 31" using Cons.prems(3) by simp
  obtain m1 where m1: "map_insert eq m k h v = Some m1" "entries m1 = al_insert eq (entries m) k v"
      "wf m1"
    by (rule map_insert_correct [OF Cons.prems(1) k h size])
  have "\<exists>m'. map_insert_pairs eq hashf kvs m1 = Some m' \<and> wf m'
      \<and> entries m' = foldl (\<lambda>es (k, v). al_insert eq es k v) (entries m1) kvs"
    using Cons.prems m1 length_al_insert [of "entries m" k v] by (intro Cons.IH) auto
  then show ?case using m1 h kv by simp
qed

text \<open>Reading back what was written, through any map state.\<close>

lemma al_lookup_insert_same:
  assumes "al_find eq es key = Some i \<or> eq key key = Some True"
  shows "al_lookup eq (al_insert eq es key v) key = Some v"
proof (cases "al_find eq es key")
  case (Some i)
  have upd: "al_find eq (es[i := (fst (es ! i), v)]) key = Some i"
    using Some
  proof (induction es arbitrary: i)
    case (Cons kv es)
    then show ?case by (cases i) (auto split: if_splits)
  qed simp
  then show ?thesis using Some al_find_SomeD [OF Some] by (simp add: al_lookup_def al_insert_def)
next
  case None
  then have self: "eq key key = Some True" using assms by simp
  have "al_find eq (es @ [(key, v)]) key = Some (length es)"
    using None self by (induction es) (auto split: if_splits)
  then show ?thesis using None by (simp add: al_lookup_def al_insert_def)
qed

end

end
