(* ===== verification/Value.thy ===== *)
theory Value
  imports Prelude F64 MapObj
begin

text \<open>
  Runtime values and heap objects (\<^verbatim>\<open>runtime/src/value.rs\<close>): the tagged \<open>Value\<close>, whose
  heap case is a 32-bit handle, the object kinds a handle can name, the built-in enum ids
  and tags, and the two traversals of an object the collector uses (its children and its
  estimated size).
\<close>

section \<open>Values and objects\<close>

text \<open>\<open>Value\<close> is spelt \<open>val\<close> and \<open>Int\<close> is spelt \<open>IntV\<close>: the bare names are taken.\<close>

datatype val =
    IntV i64
  | Double f64
  | Bool bool
  | Unit
  | Ref u32

record enumobj =
  enum_ty :: u32
  enum_variant :: u16
  enum_fields :: "val list"

datatype obj =
    Str string
  | Bytes "u8 list"
  | BytesBuilder "u8 list"
  | List "val list"
  | Map "(val, val) mapobj"
  | Struct u32 "val list"
  | Enum enumobj
  | Closure u32 "val list"

text \<open>Well-known type ids and variant tags.\<close>

definition TY_RESULT :: u32 where "TY_RESULT = 0"
definition TY_OPTION :: u32 where "TY_OPTION = 1"
definition TY_ORDERING :: u32 where "TY_ORDERING = 2"

definition TAG_OK :: u16 where "TAG_OK = 0"
definition TAG_ERR :: u16 where "TAG_ERR = 1"
definition TAG_SOME :: u16 where "TAG_SOME = 0"
definition TAG_NONE :: u16 where "TAG_NONE = 1"
definition TAG_LESS :: u16 where "TAG_LESS = 0"
definition TAG_EQUAL :: u16 where "TAG_EQUAL = 1"
definition TAG_GREATER :: u16 where "TAG_GREATER = 2"

lemmas tag_defs = TY_RESULT_def TY_OPTION_def TY_ORDERING_def TAG_OK_def TAG_ERR_def
  TAG_SOME_def TAG_NONE_def TAG_LESS_def TAG_EQUAL_def TAG_GREATER_def

section \<open>Children\<close>

text \<open>\<open>Obj::for_each_child\<close>: the values an object holds, in visiting order. Primitive
  values are visited too; they carry no handle.\<close>

fun child_values :: "obj \<Rightarrow> val list" where
  "child_values (Str _) = []"
| "child_values (Bytes _) = []"
| "child_values (BytesBuilder _) = []"
| "child_values (List items) = items"
| "child_values (Map m) = concat (map (\<lambda>(k, v). [k, v]) (entries m))"
| "child_values (Struct ty fs) = fs"
| "child_values (Enum e) = enum_fields e"
| "child_values (Closure func captures) = captures"

section \<open>Size estimate\<close>

text \<open>
  The estimate counts vector capacities, which the allocator decides, and the sizes the
  compiler gives the types. Both are parameters: \<open>capacity n\<close> is the capacity of a vector
  holding \<open>n\<close> elements.
\<close>

record layout =
  size_of_obj :: nat
  size_of_value :: nat
  capacity :: "nat \<Rightarrow> nat"

definition map_heap_bytes :: "layout \<Rightarrow> (val, val) mapobj \<Rightarrow> usize" where
  "map_heap_bytes L m =
     capacity L (length (entries m)) * (2 * size_of_value L)
     + capacity L (length (hashes m)) * 8
     + capacity L (length (index m)) * 4"

definition obj_heap_bytes :: "layout \<Rightarrow> obj \<Rightarrow> usize" where
  "obj_heap_bytes L obj =
     size_of_obj L +
     (case obj of
        Str s \<Rightarrow> capacity L (length s)
      | Bytes b \<Rightarrow> capacity L (length b)
      | BytesBuilder b \<Rightarrow> capacity L (length b)
      | List items \<Rightarrow> capacity L (length items) * size_of_value L
      | Map m \<Rightarrow> map_heap_bytes L m
      | Struct ty fs \<Rightarrow> capacity L (length fs) * size_of_value L
      | Enum e \<Rightarrow> capacity L (length (enum_fields e)) * size_of_value L
      | Closure func captures \<Rightarrow> capacity L (length captures) * size_of_value L)"

end
