(* ===== verification/Heap.thy ===== *)
theory Heap
  imports Value
begin

text \<open>
  The object heap and its collector (\<^verbatim>\<open>runtime/src/heap.rs\<close>) and the content hash of
  values (\<^verbatim>\<open>hash_value\<close> of \<^verbatim>\<open>runtime/src/map.rs\<close>). The thread-local cells of the
  source (\<open>HEAP\<close>, \<open>GC_PENDING\<close>, \<open>GC_PAUSED\<close>, \<open>MAX_HEAP\<close>, \<open>INTERN\<close>, \<open>GLOBALS\<close>) are the
  fields of one record. A dangling or out-of-range handle panics in the source; here the
  operation has no result (\<open>None\<close>).
\<close>

section \<open>State\<close>

type_synonym store = "obj option list"

record heap =
  slots :: store
  free :: "u32 list"
  heap_bytes :: usize
  next_gc_bytes :: usize
  marked :: "bool list"

record rt =
  heap :: heap
  gc_pending :: bool
  gc_paused :: usize
  max_heap :: usize
  intern :: "(string \<times> val) list"
  globals :: "val list"

definition MIN_GC_BYTES :: usize where "MIN_GC_BYTES = 2 ^ 20"
definition DEFAULT_MAX_HEAP_BYTES :: usize where "DEFAULT_MAX_HEAP_BYTES = 2 ^ 30"

definition heap_init :: heap where
  "heap_init = \<lparr>slots = [], free = [], heap_bytes = 0, next_gc_bytes = MIN_GC_BYTES, marked = []\<rparr>"

text \<open>\<open>max_heap_from_env\<close>: the variable's text, parsed, in MiB with a saturating product.\<close>

definition max_heap_from_env :: "nat option \<Rightarrow> usize" where
  "max_heap_from_env mb =
     (case mb of Some n \<Rightarrow> min (n * 2 ^ 20) (2 ^ 64 - 1) | None \<Rightarrow> DEFAULT_MAX_HEAP_BYTES)"

definition rt_init :: "usize \<Rightarrow> rt" where
  "rt_init limit = \<lparr>heap = heap_init, gc_pending = False, gc_paused = 0, max_heap = limit,
     intern = [], globals = []\<rparr>"

definition heap_live :: "heap \<Rightarrow> usize" where
  "heap_live h = length (slots h) - length (free h)"

abbreviation rt_slots :: "rt \<Rightarrow> store" where
  "rt_slots s \<equiv> slots (heap s)"

definition set_max_heap :: "usize \<Rightarrow> rt \<Rightarrow> rt" where
  "set_max_heap n s = s\<lparr>max_heap := n\<rparr>"

definition over_ceiling :: "rt \<Rightarrow> (usize \<times> usize) option" where
  "over_ceiling s =
     (let limit = max_heap s; live = heap_bytes (heap s)
      in if live > limit then Some (live, limit) else None)"

section \<open>Globals\<close>

definition set_globals :: "usize \<Rightarrow> rt \<Rightarrow> rt" where
  "set_globals count s = s\<lparr>globals := replicate count Unit\<rparr>"

definition global_get :: "u32 \<Rightarrow> rt \<Rightarrow> val option" where
  "global_get idx s = get_nth (globals s) (unat idx)"

definition global_set :: "u32 \<Rightarrow> val \<Rightarrow> rt \<Rightarrow> rt option" where
  "global_set idx v s =
     (if unat idx < length (globals s) then Some (s\<lparr>globals := (globals s)[unat idx := v]\<rparr>)
      else None)"

section \<open>Allocation and access\<close>

definition alloc :: "layout \<Rightarrow> obj \<Rightarrow> rt \<Rightarrow> val \<times> rt" where
  "alloc L obj s =
     (let h = heap s;
          bytes = heap_bytes h + obj_heap_bytes L obj;
          pending = (gc_pending s \<or> bytes \<ge> next_gc_bytes h \<or> bytes \<ge> max_heap s);
          h' = h\<lparr>heap_bytes := bytes\<rparr>
      in if free h = []
         then (Ref (word_of_nat (length (slots h))),
               s\<lparr>heap := h'\<lparr>slots := slots h @ [Some obj]\<rparr>, gc_pending := pending\<rparr>)
         else let i = last (free h)
              in (Ref i, s\<lparr>heap := h'\<lparr>slots := (slots h)[unat i := Some obj], free := butlast (free h)\<rparr>,
                           gc_pending := pending\<rparr>))"

text \<open>\<open>with_obj\<close> and \<open>clone_obj\<close> read a slot; a hole or an index past the end panics.\<close>

definition lookup :: "store \<Rightarrow> u32 \<Rightarrow> obj option" where
  "lookup st h = (if unat h < length st then st ! unat h else None)"

definition with_obj :: "u32 \<Rightarrow> (obj \<Rightarrow> 'r) \<Rightarrow> rt \<Rightarrow> 'r option" where
  "with_obj h f s = map_option f (lookup (rt_slots s) h)"

definition clone_obj :: "u32 \<Rightarrow> rt \<Rightarrow> obj option" where
  "clone_obj h s = lookup (rt_slots s) h"

definition put_slot :: "u32 \<Rightarrow> obj option \<Rightarrow> rt \<Rightarrow> rt" where
  "put_slot h x s = s\<lparr>heap := (heap s)\<lparr>slots := (rt_slots s)[unat h := x]\<rparr>\<rparr>"

text \<open>\<open>with_obj_mut\<close>: the closure may change the object and returns a result.\<close>

definition with_obj_mut :: "u32 \<Rightarrow> (obj \<Rightarrow> 'r \<times> obj) \<Rightarrow> rt \<Rightarrow> ('r \<times> rt) option" where
  "with_obj_mut h f s =
     (case lookup (rt_slots s) h of
        None \<Rightarrow> None
      | Some obj \<Rightarrow> (let (r, obj') = f obj in Some (r, put_slot h (Some obj') s)))"

definition take_obj :: "u32 \<Rightarrow> rt \<Rightarrow> (obj \<times> rt) option" where
  "take_obj h s =
     (case lookup (rt_slots s) h of
        None \<Rightarrow> None
      | Some obj \<Rightarrow> Some (obj, put_slot h None s))"

definition restore_obj :: "u32 \<Rightarrow> obj \<Rightarrow> rt \<Rightarrow> rt" where
  "restore_obj h obj s = put_slot h (Some obj) s"

text \<open>Interned string constants: allocate once, then reuse the handle.\<close>

definition intern_str :: "layout \<Rightarrow> string \<Rightarrow> rt \<Rightarrow> val \<times> rt" where
  "intern_str L str s =
     (case map_of (intern s) str of
        Some v \<Rightarrow> (v, s)
      | None \<Rightarrow> (let (v, s') = alloc L (Str str) s in (v, s'\<lparr>intern := (str, v) # intern s'\<rparr>)))"

section \<open>Structural equality\<close>

text \<open>Element-wise comparison of two vectors: lengths first, then left to right, stopping at
  the first difference.\<close>

fun all2_opt :: "('a \<Rightarrow> 'a \<Rightarrow> bool option) \<Rightarrow> 'a list \<Rightarrow> 'a list \<Rightarrow> bool option" where
  "all2_opt e (x # xs) (y # ys) =
     (case e x y of
        None \<Rightarrow> None
      | Some b \<Rightarrow> if b then all2_opt e xs ys else Some False)"
| "all2_opt e xs ys = Some True"

definition vec_eq :: "('a \<Rightarrow> 'a \<Rightarrow> bool option) \<Rightarrow> 'a list \<Rightarrow> 'a list \<Rightarrow> bool option" where
  "vec_eq e xs ys = (if length xs = length ys then all2_opt e xs ys else Some False)"

definition pair_eq :: "(val \<Rightarrow> val \<Rightarrow> bool option) \<Rightarrow> val \<times> val \<Rightarrow> val \<times> val
    \<Rightarrow> bool option" where
  "pair_eq e p q =
     (case e (fst p) (fst q) of
        None \<Rightarrow> None
      | Some b \<Rightarrow> if b then e (snd p) (snd q) else Some False)"

text \<open>The derived \<open>PartialEq\<close> of \<open>Obj\<close> and \<open>EnumObj\<close>, and the written one of \<open>MapObj\<close>.\<close>

fun obj_eq :: "(val \<Rightarrow> val \<Rightarrow> bool option) \<Rightarrow> obj \<Rightarrow> obj \<Rightarrow> bool option" where
  "obj_eq e (Str a) (Str b) = Some (a = b)"
| "obj_eq e (Bytes a) (Bytes b) = Some (a = b)"
| "obj_eq e (BytesBuilder a) (BytesBuilder b) = Some (a = b)"
| "obj_eq e (List a) (List b) = vec_eq e a b"
| "obj_eq e (Map a) (Map b) = vec_eq (pair_eq e) (entries a) (entries b)"
| "obj_eq e (Struct t a) (Struct u b) = (if t = u then vec_eq e a b else Some False)"
| "obj_eq e (Enum a) (Enum b) =
     (if enum_ty a = enum_ty b \<and> enum_variant a = enum_variant b
      then vec_eq e (enum_fields a) (enum_fields b) else Some False)"
| "obj_eq e (Closure f a) (Closure g b) = (if f = g then vec_eq e a b else Some False)"
| "obj_eq e a b = Some False"

text \<open>\<open>values_eq\<close>, with the recursion depth bounded by \<open>n\<close>.\<close>

fun values_eq_n :: "nat \<Rightarrow> store \<Rightarrow> val \<Rightarrow> val \<Rightarrow> bool option" where
  "values_eq_n n st (IntV x) (IntV y) = Some (x = y)"
| "values_eq_n n st (Double x) (Double y) = Some (f64_eq x y)"
| "values_eq_n n st (Bool x) (Bool y) = Some (x = y)"
| "values_eq_n n st Unit Unit = Some True"
| "values_eq_n n st (Ref x) (Ref y) =
     (if x = y then Some True
      else case n of
             0 \<Rightarrow> None
           | Suc n' \<Rightarrow>
               (case lookup st x of
                  None \<Rightarrow> None
                | Some a \<Rightarrow> (case lookup st y of
                               None \<Rightarrow> None
                             | Some b \<Rightarrow> obj_eq (values_eq_n n' st) a b)))"
| "values_eq_n n st a b = Some False"

text \<open>A path that returns never meets the same pair of handles twice, so a depth of one more
  than the number of pairs is as good as unbounded.\<close>

definition values_eq :: "store \<Rightarrow> val \<Rightarrow> val \<Rightarrow> bool option" where
  "values_eq st a b = values_eq_n (Suc (length st * length st)) st a b"

section \<open>Content hash\<close>

definition FNV_OFFSET :: u64 where "FNV_OFFSET = 0xcbf29ce484222325"
definition FNV_PRIME :: u64 where "FNV_PRIME = 0x00000100000001b3"

definition mix_byte :: "u8 \<Rightarrow> u64 \<Rightarrow> u64" where
  "mix_byte b h = (h XOR ucast b) * FNV_PRIME"

definition mix_bytes :: "u8 list \<Rightarrow> u64 \<Rightarrow> u64" where
  "mix_bytes bs h = fold mix_byte bs h"

text \<open>\<open>to_le_bytes\<close>, low byte first.\<close>

definition mix_u64 :: "u64 \<Rightarrow> u64 \<Rightarrow> u64" where
  "mix_u64 v h = mix_bytes (map (\<lambda>i. ucast (drop_bit (8 * i) v)) [0..<8]) h"

fun hash_vals :: "(val \<Rightarrow> u64 \<Rightarrow> u64 option) \<Rightarrow> val list \<Rightarrow> u64 \<Rightarrow> u64 option" where
  "hash_vals hi [] h = Some h"
| "hash_vals hi (v # vs) h = Option.bind (hi v h) (hash_vals hi vs)"

fun hash_obj :: "(val \<Rightarrow> u64 \<Rightarrow> u64 option) \<Rightarrow> obj \<Rightarrow> u64 \<Rightarrow> u64 option" where
  "hash_obj hi (Str s) h = Some (mix_bytes (as_bytes s) (mix_byte 5 h))"
| "hash_obj hi (Bytes b) h = Some (mix_bytes b (mix_byte 6 h))"
| "hash_obj hi (BytesBuilder b) h = Some (mix_bytes b (mix_byte 6 h))"
| "hash_obj hi (List items) h = hash_vals hi items (mix_byte 7 h)"
| "hash_obj hi (Map m) h =
     hash_vals hi (concat (map (\<lambda>(k, v). [k, v]) (entries m))) (mix_byte 8 h)"
| "hash_obj hi (Struct ty fs) h = hash_vals hi fs (mix_u64 (ucast ty) (mix_byte 9 h))"
| "hash_obj hi (Enum e) h =
     hash_vals hi (enum_fields e)
       (mix_u64 (ucast (enum_variant e)) (mix_u64 (ucast (enum_ty e)) (mix_byte 10 h)))"
| "hash_obj hi (Closure func captures) h = Some (mix_u64 (ucast func) (mix_byte 11 h))"

fun hash_into_n :: "nat \<Rightarrow> store \<Rightarrow> val \<Rightarrow> u64 \<Rightarrow> u64 option" where
  "hash_into_n n st (IntV x) h = Some (mix_u64 x (mix_byte 1 h))"
| "hash_into_n n st (Double x) h =
     (let bits = (if f64_eq x 0 then 0 else x) in Some (mix_u64 bits (mix_byte 2 h)))"
| "hash_into_n n st (Bool b) h = Some (mix_byte (if b then 1 else 0) (mix_byte 3 h))"
| "hash_into_n n st Unit h = Some (mix_byte 4 h)"
| "hash_into_n n st (Ref r) h =
     (case n of
        0 \<Rightarrow> None
      | Suc n' \<Rightarrow> (case lookup st r of
                     None \<Rightarrow> None
                   | Some obj \<Rightarrow> hash_obj (hash_into_n n' st) obj h))"

definition hash_value :: "store \<Rightarrow> val \<Rightarrow> u64 option" where
  "hash_value st v = hash_into_n (Suc (length st)) st v FNV_OFFSET"

section \<open>Pausing\<close>

definition pause_gc :: "rt \<Rightarrow> rt" where
  "pause_gc s = s\<lparr>gc_paused := gc_paused s + 1\<rparr>"

definition resume_gc :: "rt \<Rightarrow> rt" where
  "resume_gc s = s\<lparr>gc_paused := gc_paused s - 1\<rparr>"

definition should_collect :: "rt \<Rightarrow> bool" where
  "should_collect s \<longleftrightarrow> gc_pending s \<and> gc_paused s = 0"

section \<open>Invariant\<close>

definition valid_val :: "store \<Rightarrow> val \<Rightarrow> bool" where
  "valid_val st v = (case v of Ref h \<Rightarrow> lookup st h \<noteq> None | _ \<Rightarrow> True)"

definition store_closed :: "store \<Rightarrow> bool" where
  "store_closed st = (\<forall>obj. Some obj \<in> set st \<longrightarrow> list_all (valid_val st) (child_values obj))"

text \<open>The free list names every hole exactly once, and no handle exceeds 32 bits.\<close>

definition free_ok :: "store \<Rightarrow> u32 list \<Rightarrow> bool" where
  "free_ok st fr \<longleftrightarrow>
     length st \<le> 2 ^ 32 \<and> distinct fr \<and>
     unat ` set fr = {i. i < length st \<and> st ! i = None}"

definition perm_roots :: "rt \<Rightarrow> val list" where
  "perm_roots s = map snd (intern s) @ globals s"

definition heap_ok :: "rt \<Rightarrow> bool" where
  "heap_ok s \<longleftrightarrow>
     free_ok (rt_slots s) (free (heap s)) \<and> store_closed (rt_slots s) \<and>
     list_all (valid_val (rt_slots s)) (perm_roots s)"

lemma valid_val_simps [simp]:
  "valid_val st (IntV x)" "valid_val st (Double d)" "valid_val st (Bool b)" "valid_val st Unit"
  "valid_val st (Ref h) = (lookup st h \<noteq> None)"
  by (simp_all add: valid_val_def)

lemma unat_word_of_nat32: "n < 2 ^ 32 \<Longrightarrow> unat (word_of_nat n :: u32) = n"
  by (simp add: unsigned_of_nat take_bit_nat_eq_self)

lemma lookup_word_of_nat:
  "length st \<le> 2 ^ 32 \<Longrightarrow> i < length st \<Longrightarrow> lookup st (word_of_nat i) = st ! i"
  by (simp add: lookup_def unat_word_of_nat32)

lemma lookup_Some_length: "lookup st h = Some obj \<Longrightarrow> unat h < length st"
  by (simp add: lookup_def split: if_splits)

lemma valid_Ref_length: "valid_val st (Ref h) \<Longrightarrow> unat h < length st"
  by (auto dest: lookup_Some_length)

lemma lookup_Some_set: "lookup st h = Some obj \<Longrightarrow> Some obj \<in> set st"
  by (auto simp: lookup_def split: if_splits) (metis nth_mem)

lemma store_closedD:
  "store_closed st \<Longrightarrow> lookup st h = Some obj \<Longrightarrow> v \<in> set (child_values obj) \<Longrightarrow> valid_val st v"
  using lookup_Some_set by (fastforce simp: store_closed_def list_all_iff)

section \<open>Allocation\<close>

text \<open>A handle can still be issued: a hole to reuse, or a slot index below \<open>2 ^ 32\<close>.\<close>

definition room :: "rt \<Rightarrow> bool" where
  "room s \<longleftrightarrow> free (heap s) \<noteq> [] \<or> length (rt_slots s) < 2 ^ 32"

text \<open>Every live handle stays live.\<close>

definition store_le :: "store \<Rightarrow> store \<Rightarrow> bool" where
  "store_le st st' \<longleftrightarrow> (\<forall>h. lookup st h \<noteq> None \<longrightarrow> lookup st' h \<noteq> None)"

lemma store_le_refl [simp]: "store_le st st" by (simp add: store_le_def)

lemma store_le_trans: "store_le a b \<Longrightarrow> store_le b c \<Longrightarrow> store_le a c" by (simp add: store_le_def)

lemma valid_val_mono: "store_le st st' \<Longrightarrow> valid_val st v \<Longrightarrow> valid_val st' v"
  by (cases v) (auto simp: store_le_def)

lemma valid_vals_mono:
  "store_le st st' \<Longrightarrow> list_all (valid_val st) vs \<Longrightarrow> list_all (valid_val st') vs"
  by (auto simp: list_all_iff valid_val_mono)

lemma lookup_update:
  "unat h < length st \<Longrightarrow> lookup (st[unat h := x]) k = (if k = h then x else lookup st k)"
  by (auto simp: lookup_def nth_list_update word_unat_eq_iff)

lemma lookup_append:
  assumes "length st < 2 ^ 32"
  shows "lookup (st @ [x]) k = (if k = word_of_nat (length st) then x else lookup st k)"
proof -
  have "k = word_of_nat (length st) \<longleftrightarrow> unat k = length st"
    using unat_word_of_nat32 [OF assms] by (auto simp: word_unat_eq_iff)
  then show ?thesis by (auto simp: lookup_def nth_append)
qed

lemma free_ok_pop:
  assumes ok: "free_ok st fr" and ne: "fr \<noteq> []"
  shows "unat (last fr) < length st" "lookup st (last fr) = None"
    "free_ok (st[unat (last fr) := Some obj]) (butlast fr)"
proof -
  define i where "i = last fr"
  define r where "r = butlast fr"
  have fr: "fr = r @ [i]" using ne by (simp add: i_def r_def)
  have "unat i \<in> unat ` set fr" by (simp add: fr)
  then show lt: "unat (last fr) < length st" and "lookup st (last fr) = None"
    using ok by (auto simp: free_ok_def lookup_def i_def)
  have "insert (unat i) (unat ` set r) = {j. j < length st \<and> st ! j = None}"
    using ok by (simp add: free_ok_def fr)
  moreover have "unat i \<notin> unat ` set r"
    using ok by (auto simp: free_ok_def fr dest!: unsigned_word_eqI)
  ultimately have "unat ` set r = {j. j < length st \<and> st ! j = None} - {unat i}"
    by (metis Diff_insert_absorb)
  also have "\<dots> = {j. j < length (st[unat i := Some obj]) \<and> st[unat i := Some obj] ! j = None}"
    using lt by (auto simp: nth_list_update i_def split: if_splits)
  finally show "free_ok (st[unat (last fr) := Some obj]) (butlast fr)"
    using ok unfolding i_def [symmetric] r_def [symmetric] by (simp add: free_ok_def fr)
qed

lemma free_ok_push: "free_ok st [] \<Longrightarrow> length st < 2 ^ 32 \<Longrightarrow> free_ok (st @ [Some obj]) []"
  by (auto simp: free_ok_def nth_append less_Suc_eq)

lemma alloc_correct:
  assumes ok: "free_ok (rt_slots s) (free (heap s))" and rm: "room s"
  obtains h s' where "alloc L obj s = (Ref h, s')" "lookup (rt_slots s) h = None"
    "\<And>k. lookup (rt_slots s') k = (if k = h then Some obj else lookup (rt_slots s) k)"
    "free_ok (rt_slots s') (free (heap s'))"
    "globals s' = globals s" "intern s' = intern s" "gc_paused s' = gc_paused s" "max_heap s' = max_heap s"
    "heap_bytes (heap s') = heap_bytes (heap s) + obj_heap_bytes L obj"
    "store_le (rt_slots s) (rt_slots s')"
proof (cases "free (heap s) = []")
  case True
  then have len: "length (rt_slots s) < 2 ^ 32" using rm by (simp add: room_def)
  have "lookup (rt_slots s) (word_of_nat (length (rt_slots s))) = None"
    using len by (simp add: lookup_def unat_word_of_nat32)
  then show thesis
    using True ok len free_ok_push [of "rt_slots s" obj]
    by (intro that [of "word_of_nat (length (rt_slots s))" "snd (alloc L obj s)"])
      (simp_all add: alloc_def Let_def lookup_append store_le_def)
next
  case False
  then show thesis
    using free_ok_pop [OF ok False]
    by (intro that [of "last (free (heap s))" "snd (alloc L obj s)"])
      (simp_all add: alloc_def Let_def lookup_update store_le_def)
qed

lemma store_closed_lookup:
  assumes "length st \<le> 2 ^ 32"
  shows "store_closed st \<longleftrightarrow>
    (\<forall>h obj. lookup st h = Some obj \<longrightarrow> list_all (valid_val st) (child_values obj))"
proof
  assume r: "\<forall>h obj. lookup st h = Some obj \<longrightarrow> list_all (valid_val st) (child_values obj)"
  show "store_closed st" unfolding store_closed_def
  proof (intro allI impI)
    fix obj assume "Some obj \<in> set st"
    then obtain i where "i < length st" "st ! i = Some obj" by (auto simp: in_set_conv_nth)
    then show "list_all (valid_val st) (child_values obj)"
      using r lookup_word_of_nat [OF assms, of i] by metis
  qed
qed (auto simp: list_all_iff dest: store_closedD)

lemma heap_ok_alloc:
  assumes ok: "heap_ok s" and rm: "room s" and ch: "list_all (valid_val (rt_slots s)) (child_values obj)"
  obtains h s' where "alloc L obj s = (Ref h, s')" "heap_ok s'" "lookup (rt_slots s) h = None"
    "\<And>k. lookup (rt_slots s') k = (if k = h then Some obj else lookup (rt_slots s) k)"
    "globals s' = globals s" "intern s' = intern s" "gc_paused s' = gc_paused s"
    "max_heap s' = max_heap s" "store_le (rt_slots s) (rt_slots s')"
proof -
  have fo: "free_ok (rt_slots s) (free (heap s))" using ok by (simp add: heap_ok_def)
  obtain h s' where a: "alloc L obj s = (Ref h, s')" "lookup (rt_slots s) h = None"
    and lk: "\<And>k. lookup (rt_slots s') k = (if k = h then Some obj else lookup (rt_slots s) k)"
    and fo': "free_ok (rt_slots s') (free (heap s'))"
    and fr: "globals s' = globals s" "intern s' = intern s" "gc_paused s' = gc_paused s"
      "max_heap s' = max_heap s" and le: "store_le (rt_slots s) (rt_slots s')"
    using alloc_correct [OF fo rm, of L obj] by metis
  have len: "length (rt_slots s) \<le> 2 ^ 32" "length (rt_slots s') \<le> 2 ^ 32"
    using fo fo' by (simp_all add: free_ok_def)
  have "\<forall>k ob. lookup (rt_slots s') k = Some ob \<longrightarrow> list_all (valid_val (rt_slots s')) (child_values ob)"
    using ok ch len lk valid_vals_mono [OF le] by (auto simp: heap_ok_def store_closed_lookup)
  then have "heap_ok s'"
    using ok fo' len fr valid_vals_mono [OF le] by (simp add: heap_ok_def store_closed_lookup perm_roots_def)
  then show thesis using that a lk fr le by blast
qed

text \<open>Replacing the object under a live handle.\<close>

lemma heap_ok_put:
  assumes ok: "heap_ok s" and live: "lookup (rt_slots s) h \<noteq> None"
    and ch: "list_all (valid_val (rt_slots s)) (child_values obj)"
  shows "heap_ok (put_slot h (Some obj) s)"
    and "store_le (rt_slots s) (rt_slots (put_slot h (Some obj) s))"
    and "lookup (rt_slots (put_slot h (Some obj) s)) k =
      (if k = h then Some obj else lookup (rt_slots s) k)"
proof -
  let ?st = "rt_slots s" and ?st' = "rt_slots (put_slot h (Some obj) s)"
  have h: "unat h < length ?st" using live by (auto dest: lookup_Some_length)
  then have lk: "lookup ?st' k = (if k = h then Some obj else lookup ?st k)" for k
    by (simp add: put_slot_def lookup_update)
  then show "lookup ?st' k = (if k = h then Some obj else lookup ?st k)" .
  show le: "store_le ?st ?st'" using lk by (simp add: store_le_def)
  have "?st ! unat h \<noteq> None" using live h by (simp add: lookup_def)
  then have "?st' ! i = None \<longleftrightarrow> ?st ! i = None" if "i < length ?st" for i
    using that by (cases "i = unat h") (auto simp: put_slot_def nth_list_update)
  then have "{i. i < length ?st' \<and> ?st' ! i = None} = {i. i < length ?st \<and> ?st ! i = None}"
    by (auto simp: put_slot_def)
  then have fo: "free_ok ?st' (free (heap (put_slot h (Some obj) s)))"
    using ok by (simp add: heap_ok_def free_ok_def put_slot_def)
  have len: "length ?st \<le> 2 ^ 32" "length ?st' \<le> 2 ^ 32"
    using ok by (simp_all add: heap_ok_def free_ok_def put_slot_def)
  have "\<forall>k ob. lookup ?st' k = Some ob \<longrightarrow> list_all (valid_val ?st') (child_values ob)"
    using ok ch len lk valid_vals_mono [OF le] by (auto simp: heap_ok_def store_closed_lookup)
  then show "heap_ok (put_slot h (Some obj) s)"
    using ok fo len valid_vals_mono [OF le]
    by (simp add: heap_ok_def store_closed_lookup perm_roots_def put_slot_def)
qed

end
