(* ===== verification/Collector.thy ===== *)
theory Collector
  imports Heap
begin

text \<open>
  The mark-sweep collector of \<^verbatim>\<open>runtime/src/heap.rs\<close> (\<open>mark\<close>, \<open>collect\<close>,
  \<open>maybe_collect\<close>, \<open>next_threshold\<close>) and its correctness: it keeps exactly the objects
  reachable from the roots, unchanged and under the same handles, and puts every other slot
  on the free list.
\<close>

section \<open>Mark and sweep\<close>

definition mark :: "val \<Rightarrow> bool list \<times> u32 list \<Rightarrow> (bool list \<times> u32 list) option" where
  "mark v mw =
     (case v of
        Ref h \<Rightarrow>
          (case get_nth (fst mw) (unat h) of
             None \<Rightarrow> None
           | Some m \<Rightarrow> if m then Some mw else Some ((fst mw)[unat h := True], snd mw @ [h]))
      | _ \<Rightarrow> Some mw)"

fun mark_values :: "val list \<Rightarrow> bool list \<times> u32 list \<Rightarrow> (bool list \<times> u32 list) option" where
  "mark_values [] mw = Some mw"
| "mark_values (v # vs) mw = Option.bind (mark v mw) (mark_values vs)"

definition unmarked :: "bool list \<Rightarrow> nat" where
  "unmarked m = count_list m False"

lemma unmarked_set_True:
  "i < length m \<Longrightarrow> \<not> m ! i \<Longrightarrow> Suc (unmarked (m[i := True])) = unmarked m"
  unfolding unmarked_def by (induction m arbitrary: i) (auto split: nat.splits simp: nth_Cons)

lemma mark_measure:
  "mark v mw = Some mw' \<Longrightarrow>
     2 * unmarked (fst mw') + length (snd mw') \<le> 2 * unmarked (fst mw) + length (snd mw)"
  using unmarked_set_True [of _ "fst mw"]
  by (fastforce simp: mark_def get_nth_Some split: "val.splits" option.splits if_splits)

lemma mark_values_measure:
  "mark_values vs mw = Some mw' \<Longrightarrow>
     2 * unmarked (fst mw') + length (snd mw') \<le> 2 * unmarked (fst mw) + length (snd mw)"
proof (induction vs arbitrary: mw)
  case (Cons v vs)
  then obtain mw1 where "mark v mw = Some mw1" "mark_values vs mw1 = Some mw'"
    by (auto simp: Option.bind_eq_Some_conv)
  then show ?case using Cons.IH [of mw1] mark_measure [of v mw mw1] by simp
qed simp

text \<open>The trace: pop a grey handle, count its bytes, mark its children.\<close>

function mark_loop :: "layout \<Rightarrow> store \<Rightarrow> bool list \<Rightarrow> u32 list \<Rightarrow> usize
    \<Rightarrow> (bool list \<times> usize) option" where
  "mark_loop L st marks worklist live_bytes =
     (if worklist = [] then Some (marks, live_bytes)
      else
        let handle = last worklist; rest = butlast worklist
        in case get_nth st (unat handle) of
             None \<Rightarrow> None
           | Some None \<Rightarrow> mark_loop L st marks rest live_bytes
           | Some (Some obj) \<Rightarrow>
               (case mark_values (child_values obj) (marks, rest) of
                  None \<Rightarrow> None
                | Some (marks', worklist') \<Rightarrow>
                    mark_loop L st marks' worklist' (live_bytes + obj_heap_bytes L obj)))"
  by pat_completeness auto
termination
proof (relation "measure (\<lambda>(L, st, marks, wl, live). 2 * unmarked marks + length wl)", goal_cases)
  case 1
  then show ?case by simp
next
  case (2 L st marks wl live h r)
  then show ?case by (cases wl) simp_all
next
  case (3 L st marks wl live h r x obj p m w)
  then have "2 * unmarked m + length w \<le> 2 * unmarked marks + length (butlast wl)"
    using mark_values_measure [of "child_values obj" "(marks, butlast wl)" "(m, w)"] by auto
  moreover have "length (butlast wl) < length wl" using 3 by (cases wl) simp_all
  ultimately show ?case by simp
qed

declare mark_loop.simps [simp del]

text \<open>Free every occupied slot that was not marked, from slot \<open>i\<close> on.\<close>

fun sweep :: "nat \<Rightarrow> (obj option \<times> bool) list \<Rightarrow> u32 list \<Rightarrow> store \<times> u32 list" where
  "sweep i [] fr = ([], fr)"
| "sweep i ((slot, m) # rest) fr =
     (if slot \<noteq> None \<and> \<not> m
      then let (st, fr') = sweep (Suc i) rest (fr @ [word_of_nat i]) in (None # st, fr')
      else let (st, fr') = sweep (Suc i) rest fr in (slot # st, fr'))"

definition next_threshold :: "usize \<Rightarrow> usize \<Rightarrow> usize \<Rightarrow> usize" where
  "next_threshold occupied live_bytes floor =
     (let reclaimed = occupied - live_bytes;
          grow = (if occupied > 0 \<and> reclaimed * 4 < occupied then 4 else 2)
      in max (live_bytes * grow) floor)"

definition collect :: "layout \<Rightarrow> val list \<Rightarrow> rt \<Rightarrow> rt option" where
  "collect L roots s =
     (let h = heap s;
          marks = replicate (length (slots h)) False
      in Option.bind (mark_values roots (marks, [])) (\<lambda>mw1.
         Option.bind (mark_values (map snd (intern s)) mw1) (\<lambda>mw2.
         Option.bind (mark_values (globals s) mw2) (\<lambda>(marks, worklist).
         Option.bind (mark_loop L (slots h) marks worklist 0) (\<lambda>(marks, live_bytes).
           let (slots', free') = sweep 0 (zip (slots h) marks) (free h)
           in Some (s\<lparr>heap := h\<lparr>slots := slots', free := free',
                          next_gc_bytes := next_threshold (heap_bytes h) live_bytes MIN_GC_BYTES,
                          heap_bytes := live_bytes, marked := marks\<rparr>,
                      gc_pending := False\<rparr>))))))"

definition maybe_collect :: "layout \<Rightarrow> val list \<Rightarrow> rt \<Rightarrow> rt option" where
  "maybe_collect L roots s = (if should_collect s then collect L roots s else Some s)"

definition object_count :: "rt \<Rightarrow> usize" where
  "object_count s = heap_live (heap s)"

section \<open>Reachability\<close>

inductive reach :: "store \<Rightarrow> val set \<Rightarrow> u32 \<Rightarrow> bool" for st R where
  root: "Ref h \<in> R \<Longrightarrow> reach st R h"
| step: "reach st R h \<Longrightarrow> lookup st h = Some obj \<Longrightarrow> Ref c \<in> set (child_values obj)
    \<Longrightarrow> reach st R c"

definition marked_set :: "bool list \<Rightarrow> u32 set" where
  "marked_set m = {h. unat h < length m \<and> m ! unat h}"

definition bytes_at :: "layout \<Rightarrow> store \<Rightarrow> u32 \<Rightarrow> nat" where
  "bytes_at L st h = (case lookup st h of None \<Rightarrow> 0 | Some obj \<Rightarrow> obj_heap_bytes L obj)"

lemma reach_valid:
  assumes "reach st R h" "store_closed st" "\<forall>v\<in>R. valid_val st v"
  shows "lookup st h \<noteq> None"
  using assms(1)
proof induction
  case (root h)
  then have "valid_val st (Ref h)" using assms(3) by blast
  then show ?case by simp
next
  case (step h obj c)
  then have "valid_val st (Ref c)" using assms(2) store_closedD by blast
  then show ?case by simp
qed

lemma get_nth_lookup: "unat h < length st \<Longrightarrow> get_nth st (unat h) = Some (lookup st h)"
  by (simp add: lookup_def get_nth_def)

section \<open>Marking\<close>

lemma marked_set_update:
  "unat h < length m \<Longrightarrow> marked_set (m[unat h := True]) = insert h (marked_set m)"
  by (auto simp: marked_set_def nth_list_update word_unat_eq_iff)

lemma marked_set_replicate [simp]: "marked_set (replicate n False) = {}"
  by (auto simp: marked_set_def)

definition mark_post :: "val list \<Rightarrow> bool list \<times> u32 list \<Rightarrow> bool list \<times> u32 list \<Rightarrow> bool" where
  "mark_post vs mw mw' \<longleftrightarrow>
     length (fst mw') = length (fst mw) \<and>
     marked_set (fst mw') = marked_set (fst mw) \<union> {h. Ref h \<in> set vs} \<and>
     set (snd mw') = set (snd mw) \<union> (marked_set (fst mw') - marked_set (fst mw)) \<and>
     distinct (snd mw') \<and> set (snd mw') \<subseteq> marked_set (fst mw')"

lemma mark_correct:
  assumes "distinct (snd mw)" "set (snd mw) \<subseteq> marked_set (fst mw)"
    and "\<And>h. v = Ref h \<Longrightarrow> unat h < length (fst mw)"
  shows "\<exists>mw'. mark v mw = Some mw' \<and> mark_post [v] mw mw'"
proof (cases v)
  case (Ref h)
  then have h: "unat h < length (fst mw)" using assms(3) by simp
  then have mem: "h \<in> marked_set (fst mw) \<longleftrightarrow> fst mw ! unat h" by (simp add: marked_set_def)
  show ?thesis
  proof (cases "fst mw ! unat h")
    case True
    then show ?thesis using assms Ref h mem
      by (auto simp: mark_def get_nth_def mark_post_def)
  next
    case False
    then show ?thesis using assms Ref h mem
      by (auto simp: mark_def get_nth_def mark_post_def marked_set_update)
  qed
qed (use assms in \<open>auto simp: mark_def mark_post_def\<close>)

lemma mark_values_correct:
  assumes "distinct (snd mw)" "set (snd mw) \<subseteq> marked_set (fst mw)"
    and "\<And>h. Ref h \<in> set vs \<Longrightarrow> unat h < length (fst mw)"
  shows "\<exists>mw'. mark_values vs mw = Some mw' \<and> mark_post vs mw mw'"
  using assms
proof (induction vs arbitrary: mw)
  case Nil
  then show ?case by (simp add: mark_post_def)
next
  case (Cons v vs)
  obtain mw1 where m1: "mark v mw = Some mw1" and p1: "mark_post [v] mw mw1"
    using mark_correct [of mw v] Cons.prems by auto
  have "\<exists>mw'. mark_values vs mw1 = Some mw' \<and> mark_post vs mw1 mw'"
    using Cons.prems(3) p1 by (intro Cons.IH) (auto simp: mark_post_def)
  then obtain mw' where m2: "mark_values vs mw1 = Some mw'" and p2: "mark_post vs mw1 mw'"
    by blast
  have "mark_post (v # vs) mw mw'"
    using p1 p2 unfolding mark_post_def by (intro conjI) auto
  then show ?case using m1 m2 by simp
qed

section \<open>The trace marks exactly what is reachable\<close>

definition trace_inv :: "layout \<Rightarrow> store \<Rightarrow> val set \<Rightarrow> bool list \<Rightarrow> u32 list \<Rightarrow> nat \<Rightarrow> bool" where
  "trace_inv L st R marks wl live \<longleftrightarrow>
     length marks = length st \<and> distinct wl \<and> set wl \<subseteq> marked_set marks \<and>
     marked_set marks \<subseteq> Collect (reach st R) \<and>
     (\<forall>h. Ref h \<in> R \<longrightarrow> h \<in> marked_set marks) \<and>
     (\<forall>h\<in>marked_set marks - set wl. \<forall>obj. lookup st h = Some obj \<longrightarrow>
        (\<forall>c. Ref c \<in> set (child_values obj) \<longrightarrow> c \<in> marked_set marks)) \<and>
     live = (\<Sum>h\<in>marked_set marks - set wl. bytes_at L st h)"

lemma trace_inv_done:
  assumes "trace_inv L st R marks [] live"
  shows "marked_set marks = Collect (reach st R)"
    and "live = (\<Sum>h\<in>Collect (reach st R). bytes_at L st h)"
proof -
  have "h \<in> marked_set marks" if "reach st R h" for h
    using that
  proof induction
    case (root h)
    then show ?case using assms by (simp add: trace_inv_def)
  next
    case (step h obj c)
    then show ?case using assms unfolding trace_inv_def by auto
  qed
  then show eq: "marked_set marks = Collect (reach st R)"
    using assms by (auto simp: trace_inv_def)
  show "live = (\<Sum>h\<in>Collect (reach st R). bytes_at L st h)"
    using assms eq by (simp add: trace_inv_def)
qed

lemma trace_inv_step:
  assumes inv: "trace_inv L st R marks wl live" and wl: "wl \<noteq> []"
    and obj: "lookup st (last wl) = Some obj"
    and post: "mark_post (child_values obj) (marks, butlast wl) (marks', wl')"
  shows "trace_inv L st R marks' wl' (live + obj_heap_bytes L obj)"
proof -
  define h where "h = last wl"
  define rest where "rest = butlast wl"
  have wl_eq: "wl = rest @ [h]" using wl by (simp add: h_def rest_def)
  have hm: "h \<in> marked_set marks" "h \<notin> set rest" "distinct rest" "set rest \<subseteq> marked_set marks"
    using inv by (auto simp: trace_inv_def wl_eq)
  have p: "length marks' = length marks"
    "marked_set marks' = marked_set marks \<union> {c. Ref c \<in> set (child_values obj)}"
    "set wl' = set rest \<union> (marked_set marks' - marked_set marks)"
    "distinct wl'" "set wl' \<subseteq> marked_set marks'"
    using post by (auto simp: mark_post_def rest_def)
  have black: "marked_set marks' - set wl' = insert h (marked_set marks - set wl)"
    using p hm by (auto simp: wl_eq)
  have "c \<in> Collect (reach st R)" if "Ref c \<in> set (child_values obj)" for c
    using inv hm(1) obj that reach.step unfolding trace_inv_def h_def by blast
  then have sub: "marked_set marks' \<subseteq> Collect (reach st R)"
    using inv p(2) by (auto simp: trace_inv_def)
  have "(\<Sum>x\<in>marked_set marks' - set wl'. bytes_at L st x) = bytes_at L st h + live"
    using inv unfolding black by (subst sum.insert) (auto simp: trace_inv_def wl_eq)
  moreover have "bytes_at L st h = obj_heap_bytes L obj" using obj by (simp add: bytes_at_def h_def)
  moreover have "\<forall>x\<in>insert h (marked_set marks - set wl). \<forall>ob. lookup st x = Some ob \<longrightarrow>
      (\<forall>c. Ref c \<in> set (child_values ob) \<longrightarrow> c \<in> marked_set marks')"
    using inv obj p(2) unfolding trace_inv_def h_def by auto
  moreover have "length marks' = length st" "\<forall>h. Ref h \<in> R \<longrightarrow> h \<in> marked_set marks'"
    using inv p(1,2) by (simp_all add: trace_inv_def)
  ultimately show ?thesis
    using p(4,5) sub by (simp only: trace_inv_def black add.commute simp_thms)
qed

lemma mark_loop_correct:
  assumes closed: "store_closed st" and roots: "\<forall>v\<in>R. valid_val st v"
  shows "trace_inv L st R marks wl live \<Longrightarrow>
    \<exists>marks' live'. mark_loop L st marks wl live = Some (marks', live') \<and>
      trace_inv L st R marks' [] live'"
  using assms
proof (induction L st marks wl live rule: mark_loop.induct)
  case (1 L st marks wl live)
  show ?case
  proof (cases "wl = []")
    case True
    then show ?thesis using 1(3) by (simp add: mark_loop.simps [of L st marks "[]"])
  next
    case False
    then have "reach st R (last wl)" using 1(3) last_in_set [OF False] unfolding trace_inv_def by blast
    then obtain obj where obj: "lookup st (last wl) = Some obj"
      using reach_valid 1(4,5) by blast
    have inr: "get_nth st (unat (last wl)) = Some (Some obj)"
      using obj lookup_Some_length get_nth_lookup by metis
    have len: "unat c < length marks" if "Ref c \<in> set (child_values obj)" for c
      using store_closedD [OF 1(4) obj that] 1(3) by (auto simp: trace_inv_def dest: lookup_Some_length)
    have "\<exists>mw'. mark_values (child_values obj) (marks, butlast wl) = Some mw' \<and>
        mark_post (child_values obj) (marks, butlast wl) mw'"
      using 1(3) len by (intro mark_values_correct)
        (auto simp: trace_inv_def distinct_butlast dest: in_set_butlastD)
    then obtain marks' wl' where mv: "mark_values (child_values obj) (marks, butlast wl) = Some (marks', wl')"
      and post: "mark_post (child_values obj) (marks, butlast wl) (marks', wl')"
      by (metis prod.exhaust)
    have "trace_inv L st R marks' wl' (live + obj_heap_bytes L obj)"
      by (rule trace_inv_step [OF 1(3) False obj post])
    then show ?thesis
      using 1(2) [OF False refl refl inr refl mv refl] 1(4,5) False inr mv
      by (simp add: mark_loop.simps [of L st marks wl])
  qed
qed

section \<open>Sweeping\<close>

lemma sweep_eq:
  "sweep i xs fr =
     (map (\<lambda>(slot, m). if m then slot else None) xs,
      fr @ map (\<lambda>(j, _). word_of_nat j)
             (filter (\<lambda>(j, slot, m). slot \<noteq> None \<and> \<not> m) (enumerate i xs)))"
  by (induction i xs fr rule: sweep.induct) (auto simp: Let_def)

lemma sweep_lookup:
  assumes "length marks = length st" "sweep 0 (zip st marks) fr = (st', fr')"
  shows "lookup st' h = (if h \<in> marked_set marks then lookup st h else None)"
    and "length st' = length st"
  using assms by (auto simp: sweep_eq lookup_def marked_set_def)

lemma sweep_free:
  assumes len: "length marks = length st" and sw: "sweep 0 (zip st marks) fr = (st', fr')"
    and ok: "free_ok st fr"
  shows "free_ok st' fr'"
proof -
  define P where "P = (\<lambda>j. j < length st \<and> st ! j \<noteq> None \<and> \<not> marks ! j)"
  define js where "js = map fst (filter (\<lambda>(j, slot, m). slot \<noteq> None \<and> \<not> m) (enumerate 0 (zip st marks)))"
  have fr': "fr' = fr @ map word_of_nat js"
    using sw by (simp add: sweep_eq js_def comp_def split_def)
  have st': "st' = map (\<lambda>(slot, m). if m then slot else None) (zip st marks)"
    using sw by (simp add: sweep_eq)
  have js: "set js = {j. P j}"
    using len by (force simp: js_def P_def in_set_enumerate_eq)
  have "distinct (map fst (enumerate 0 (zip st marks)))" by simp
  then have dj: "distinct js" unfolding js_def by (rule distinct_map_filter)
  have small: "unat (word_of_nat j :: u32) = j" if "j < length st" for j
    using that ok by (intro unat_word_of_nat32) (simp add: free_ok_def)
  have "unat ` (word_of_nat :: nat \<Rightarrow> u32) ` {j. P j} = id ` {j. P j}"
    unfolding image_image by (rule image_cong) (simp_all add: P_def small)
  then have im: "unat ` (word_of_nat :: nat \<Rightarrow> u32) ` {j. P j} = {j. P j}" by simp
  have holes: "{i. i < length st' \<and> st' ! i = None} = {i. i < length st \<and> st ! i = None} \<union> {j. P j}"
    using len by (auto simp: st' P_def)
  have "inj_on (word_of_nat :: nat \<Rightarrow> u32) {j. P j}"
    by (rule inj_onI) (metis small P_def mem_Collect_eq)
  then have "distinct (map (word_of_nat :: nat \<Rightarrow> u32) js)"
    using dj js by (simp add: distinct_map)
  moreover have "set fr \<inter> word_of_nat ` {j. P j} = {}"
  proof (rule equals0I)
    fix x assume "x \<in> set fr \<inter> word_of_nat ` {j. P j}"
    then have "unat x \<in> unat ` set fr" "unat x \<in> unat ` (word_of_nat :: nat \<Rightarrow> u32) ` {j. P j}" by blast+
    then show False using ok unfolding im by (simp add: free_ok_def P_def)
  qed
  ultimately show ?thesis
    using ok len im js holes by (simp add: free_ok_def fr' st' image_Un)
qed

section \<open>The collector keeps exactly the reachable objects\<close>

definition gc_roots :: "val list \<Rightarrow> rt \<Rightarrow> val set" where
  "gc_roots roots s = set roots \<union> set (perm_roots s)"

lemma mark_values_append:
  "mark_values (vs @ ws) mw = Option.bind (mark_values vs mw) (mark_values ws)"
proof (induction vs arbitrary: mw)
  case (Cons v vs)
  then show ?case by (cases "mark v mw") simp_all
qed simp

lemma collect_run:
  assumes ok: "heap_ok s" and roots: "list_all (valid_val (rt_slots s)) roots"
  obtains marks live st' fr' where
    "length marks = length (rt_slots s)"
    "marked_set marks = Collect (reach (rt_slots s) (gc_roots roots s))"
    "live = (\<Sum>h | reach (rt_slots s) (gc_roots roots s) h. bytes_at L (rt_slots s) h)"
    "sweep 0 (zip (rt_slots s) marks) (free (heap s)) = (st', fr')"
    "collect L roots s = Some (s\<lparr>heap := (heap s)\<lparr>slots := st', free := fr',
        next_gc_bytes := next_threshold (heap_bytes (heap s)) live MIN_GC_BYTES,
        heap_bytes := live, marked := marks\<rparr>, gc_pending := False\<rparr>)"
proof -
  let ?st = "rt_slots s" and ?R = "gc_roots roots s"
  let ?vs = "roots @ map snd (intern s) @ globals s"
  have valid: "\<forall>v\<in>?R. valid_val ?st v" and closed: "store_closed ?st" and Rvs: "?R = set ?vs"
    using ok roots by (auto simp: heap_ok_def gc_roots_def list_all_iff perm_roots_def)
  have "\<exists>mw. mark_values ?vs (replicate (length ?st) False, []) = Some mw \<and>
      mark_post ?vs (replicate (length ?st) False, []) mw"
  proof (rule mark_values_correct)
    fix h assume "Ref h \<in> set ?vs"
    then have "valid_val ?st (Ref h)" using valid Rvs by blast
    then show "unat h < length (fst (replicate (length ?st) False, []))"
      by (simp only: fst_conv length_replicate valid_Ref_length)
  qed simp_all
  then obtain m0 w0 where m0: "mark_values ?vs (replicate (length ?st) False, []) = Some (m0, w0)"
    and post: "mark_post ?vs (replicate (length ?st) False, []) (m0, w0)"
    by (metis prod.exhaust)
  have w0: "set w0 = marked_set m0" "marked_set m0 = {h. Ref h \<in> ?R}"
    using post Rvs by (auto simp: mark_post_def)
  then have "trace_inv L ?st ?R m0 w0 0"
    using post by (auto simp: mark_post_def trace_inv_def intro: reach.root)
  then obtain marks live where loop: "mark_loop L ?st m0 w0 0 = Some (marks, live)"
    and fin: "trace_inv L ?st ?R marks [] live"
    using mark_loop_correct [OF closed valid] by blast
  obtain st' fr' where sw: "sweep 0 (zip ?st marks) (free (heap s)) = (st', fr')"
    by (cases "sweep 0 (zip ?st marks) (free (heap s))") simp
  obtain mw1 mw2 where "mark_values roots (replicate (length ?st) False, []) = Some mw1"
    "mark_values (map snd (intern s)) mw1 = Some mw2" "mark_values (globals s) mw2 = Some (m0, w0)"
    using m0 by (auto simp: mark_values_append Option.bind_eq_Some_conv)
  then have "collect L roots s = Some (s\<lparr>heap := (heap s)\<lparr>slots := st', free := fr',
        next_gc_bytes := next_threshold (heap_bytes (heap s)) live MIN_GC_BYTES,
        heap_bytes := live, marked := marks\<rparr>, gc_pending := False\<rparr>)"
    using loop sw by (simp add: collect_def Let_def)
  moreover have "length marks = length ?st" using fin by (simp add: trace_inv_def)
  ultimately show thesis by (intro that [OF _ trace_inv_done [OF fin] sw])
qed

lemma reach_children_valid:
  assumes st': "\<And>h. lookup st' h = (if reach st R h then lookup st h else None)"
    and len: "length st' \<le> 2 ^ 32"
    and closed: "store_closed st" and roots: "\<forall>v\<in>R. valid_val st v"
  shows "store_closed st'" and "v \<in> R \<Longrightarrow> valid_val st' v"
proof -
  have live: "lookup st' h \<noteq> None" if "reach st R h" for h
    using that st' reach_valid [OF that closed roots] by simp
  show "v \<in> R \<Longrightarrow> valid_val st' v"
    using live by (cases v) (auto intro: reach.root)
  have "valid_val st' v" if "i < length st'" "st' ! i = Some obj" "v \<in> set (child_values obj)" for i obj v
  proof -
    have "lookup st' (word_of_nat i) = Some obj"
      using that lookup_word_of_nat [OF len that(1)] by simp
    then have r: "reach st R (word_of_nat i)" "lookup st (word_of_nat i) = Some obj"
      using st' by (auto split: if_splits)
    show ?thesis
    proof (cases v)
      case (Ref c)
      then have "reach st R c" using reach.step [OF r] that(3) by blast
      then show ?thesis using live Ref by simp
    qed simp_all
  qed
  then show "store_closed st'"
    by (auto simp: store_closed_def list_all_iff in_set_conv_nth)
qed

lemma collect_correct:
  assumes ok: "heap_ok s" and roots: "list_all (valid_val (rt_slots s)) roots"
  obtains s' where
    "collect L roots s = Some s'"
    "\<And>h. lookup (rt_slots s') h =
        (if reach (rt_slots s) (gc_roots roots s) h then lookup (rt_slots s) h else None)"
    "heap_bytes (heap s') = (\<Sum>h | reach (rt_slots s) (gc_roots roots s) h. bytes_at L (rt_slots s) h)"
    "heap_ok s'" "list_all (valid_val (rt_slots s')) roots"
    "globals s' = globals s" "intern s' = intern s" "\<not> gc_pending s'"
    "gc_paused s' = gc_paused s" "max_heap s' = max_heap s"
    "length (rt_slots s') = length (rt_slots s)"
proof -
  obtain marks live st' fr' where run: "length marks = length (rt_slots s)"
    "marked_set marks = Collect (reach (rt_slots s) (gc_roots roots s))"
    "live = (\<Sum>h | reach (rt_slots s) (gc_roots roots s) h. bytes_at L (rt_slots s) h)"
    and sw: "sweep 0 (zip (rt_slots s) marks) (free (heap s)) = (st', fr')"
    and c: "collect L roots s = Some (s\<lparr>heap := (heap s)\<lparr>slots := st', free := fr',
        next_gc_bytes := next_threshold (heap_bytes (heap s)) live MIN_GC_BYTES,
        heap_bytes := live, marked := marks\<rparr>, gc_pending := False\<rparr>)"
    (is "_ = Some ?s'")
    by (rule collect_run [OF assms])
  have lk: "lookup st' h = (if reach (rt_slots s) (gc_roots roots s) h then lookup (rt_slots s) h else None)"
    for h using sweep_lookup(1) [OF run(1) sw] run(2) by simp
  have fo: "free_ok st' fr'" using sweep_free [OF run(1) sw] ok by (simp add: heap_ok_def)
  have valid: "\<forall>v\<in>gc_roots roots s. valid_val (rt_slots s) v" and cl: "store_closed (rt_slots s)"
    using ok roots by (auto simp: heap_ok_def gc_roots_def list_all_iff)
  have len: "length st' \<le> 2 ^ 32" using fo by (simp add: free_ok_def)
  note keep = reach_children_valid [OF lk len cl valid]
  have "heap_ok ?s'"
    using fo keep by (simp add: heap_ok_def list_all_iff perm_roots_def gc_roots_def)
  moreover have "list_all (valid_val (rt_slots ?s')) roots"
    using keep by (simp add: list_all_iff gc_roots_def)
  ultimately show thesis
    using lk run(3) sweep_lookup(2) [OF run(1) sw] by (intro that [OF c]) simp_all
qed

section \<open>A collection issues no handle\<close>

lemma mark_values_length: "mark_values vs mw = Some mw' \<Longrightarrow> length (fst mw') = length (fst mw)"
proof (induction vs arbitrary: mw)
  case (Cons v vs)
  then obtain mw1 where m: "mark v mw = Some mw1" "mark_values vs mw1 = Some mw'"
    by (auto simp: Option.bind_eq_Some_conv)
  then have "length (fst mw1) = length (fst mw)"
    by (auto simp: mark_def split: "val.splits" option.splits if_splits)
  then show ?case using Cons.IH [OF m(2)] by simp
qed simp

lemma mark_loop_length: "mark_loop L st marks wl live = Some (marks', live') \<Longrightarrow> length marks' = length marks"
proof (induction L st marks wl live arbitrary: marks' live' rule: mark_loop.induct)
  case (1 L st marks wl live)
  show ?case
  proof (cases "wl = []")
    case True
    then show ?thesis using 1(3) by (simp add: mark_loop.simps)
  next
    case False
    obtain slot where slot: "get_nth st (unat (last wl)) = Some slot"
      using 1(3) False by (subst (asm) mark_loop.simps) (auto simp: Let_def split: option.splits)
    show ?thesis
    proof (cases slot)
      case None
      then show ?thesis using 1(1) [OF False refl refl slot None] 1(3) False slot
        by (subst (asm) (2) mark_loop.simps) (simp add: Let_def)
    next
      case (Some obj)
      obtain m w where mw: "mark_values (child_values obj) (marks, butlast wl) = Some (m, w)"
        using 1(3) False slot Some by (subst (asm) mark_loop.simps) (auto simp: Let_def split: option.splits)
      then have "mark_loop L st m w (live + obj_heap_bytes L obj) = Some (marks', live')"
        using 1(3) False slot Some by (subst (asm) mark_loop.simps) (simp add: Let_def)
      then show ?thesis
        using 1(2) [OF False refl refl slot Some mw refl] mark_values_length [OF mw] by simp
    qed
  qed
qed

lemma sweep_length: "length (fst (sweep i xs fr)) = length xs"
  by (induction i xs fr rule: sweep.induct) (auto simp: case_prod_beta)

lemma collect_length:
  assumes "collect L roots s = Some s'"
  shows "length (rt_slots s') = length (rt_slots s)"
proof -
  obtain mw1 mw2 m w m' live where run:
    "mark_values roots (replicate (length (rt_slots s)) False, []) = Some mw1"
    "mark_values (map snd (intern s)) mw1 = Some mw2" "mark_values (globals s) mw2 = Some (m, w)"
    "mark_loop L (rt_slots s) m w 0 = Some (m', live)"
    and s': "rt_slots s' = fst (sweep 0 (zip (rt_slots s) m') (free (heap s)))"
    using assms unfolding collect_def Let_def case_prod_beta
    by (clarsimp simp: Option.bind_eq_Some_conv)
  have "length m' = length (rt_slots s)"
    using mark_values_length [OF run(1)] mark_values_length [OF run(2)] mark_values_length [OF run(3)]
      mark_loop_length [OF run(4)] by simp
  then show ?thesis using s' sweep_length by simp
qed

end
