(* ===== verification/ValueEq.thy ===== *)
theory ValueEq
  imports Heap
begin

text \<open>
  Laws of structural equality and of the content hash (\<open>values_eq\<close>, \<open>hash_value\<close>): equality
  is symmetric and transitive, equal values hash alike, and both return on every acyclic
  value with the depth bounds their definitions use. These laws interpret the key contract
  of the insertion-ordered map.
\<close>

section \<open>Equality is symmetric and transitive\<close>

lemma all2_opt_sym: "(\<And>x y. e x y = e y x) \<Longrightarrow> all2_opt e xs ys = all2_opt e ys xs"
  by (induction e xs ys rule: all2_opt.induct) (auto split: option.splits)

lemma vec_eq_sym: "(\<And>x y. e x y = e y x) \<Longrightarrow> vec_eq e xs ys = vec_eq e ys xs"
  using all2_opt_sym [of e xs ys] by (simp add: vec_eq_def eq_commute)

lemma pair_eq_sym: "(\<And>x y. e x y = e y x) \<Longrightarrow> pair_eq e p q = pair_eq e q p"
  by (auto simp: pair_eq_def split: option.splits)

lemma obj_eq_sym:
  assumes "\<And>x y. e x y = e y x"
  shows "obj_eq e a b = obj_eq e b a"
  by (cases a; cases b)
    (auto simp: vec_eq_sym [OF assms] vec_eq_sym [of "pair_eq e", OF pair_eq_sym [OF assms]])

lemma values_eq_n_sym: "values_eq_n n st a b = values_eq_n n st b a"
proof (induction n arbitrary: a b)
  case 0
  then show ?case by (cases a; cases b) (auto simp: f64_eq_sym)
next
  case (Suc n)
  then show ?case
    by (cases a; cases b) (auto simp: f64_eq_sym obj_eq_sym [of "values_eq_n n st"] split: option.splits)
qed

lemma all2_opt_True:
  "length xs = length ys \<Longrightarrow>
     all2_opt e xs ys = Some True \<longleftrightarrow> list_all2 (\<lambda>x y. e x y = Some True) xs ys"
  by (induction xs ys rule: list_induct2) (auto split: option.splits)

lemma vec_eq_True: "vec_eq e xs ys = Some True \<longleftrightarrow> list_all2 (\<lambda>x y. e x y = Some True) xs ys"
  by (auto simp: vec_eq_def all2_opt_True dest: list_all2_lengthD)

lemma pair_eq_True:
  "pair_eq e p q = Some True \<longleftrightarrow> e (fst p) (fst q) = Some True \<and> e (snd p) (snd q) = Some True"
  by (auto simp: pair_eq_def split: option.splits if_splits)

lemma list_all2_pairs:
  "list_all2 P (concat (map (\<lambda>(k, v). [k, v]) ps)) (concat (map (\<lambda>(k, v). [k, v]) qs)) \<longleftrightarrow>
     list_all2 (\<lambda>p q. P (fst p) (fst q) \<and> P (snd p) (snd q)) ps qs"
proof (induction ps arbitrary: qs)
  case Nil
  then show ?case by (cases qs) auto
next
  case (Cons p ps)
  then show ?case by (cases qs) (auto split: prod.splits)
qed

text \<open>An object apart from the values it holds.\<close>

fun obj_head :: "obj \<Rightarrow> obj" where
  "obj_head (List _) = List []"
| "obj_head (Map _) = Map map_default"
| "obj_head (Struct ty _) = Struct ty []"
| "obj_head (Enum e) = Enum (e\<lparr>enum_fields := []\<rparr>)"
| "obj_head (Closure f _) = Closure f []"
| "obj_head obj = obj"

lemma enum_head_eq:
  "(a :: enumobj)\<lparr>enum_fields := []\<rparr> = b\<lparr>enum_fields := []\<rparr> \<longleftrightarrow>
     enum_ty a = enum_ty b \<and> enum_variant a = enum_variant b"
  by (cases a; cases b) simp

lemma obj_eq_True:
  "obj_eq e a b = Some True \<longleftrightarrow>
     obj_head a = obj_head b \<and> list_all2 (\<lambda>x y. e x y = Some True) (child_values a) (child_values b)"
  by (cases a; cases b) (auto simp: vec_eq_True pair_eq_True list_all2_pairs enum_head_eq)

lemma obj_eq_trans:
  assumes "\<And>x y z. e x y = Some True \<Longrightarrow> e y z = Some True \<Longrightarrow> e x z = Some True"
    and "obj_eq e a b = Some True" "obj_eq e b c = Some True"
  shows "obj_eq e a c = Some True"
proof -
  have "list_all2 (\<lambda>x y. e x y = Some True) (child_values a) (child_values c)"
  proof (rule list_all2_trans)
    show "list_all2 (\<lambda>x y. e x y = Some True) (child_values a) (child_values b)"
      "list_all2 (\<lambda>x y. e x y = Some True) (child_values b) (child_values c)"
      using assms(2,3) by (simp_all only: obj_eq_True)
  qed (rule assms(1))
  then show ?thesis using assms(2,3) by (simp add: obj_eq_True)
qed

lemma values_eq_n_trans:
  "values_eq_n n st a b = Some True \<Longrightarrow> values_eq_n n st b c = Some True \<Longrightarrow>
     values_eq_n n st a c = Some True"
proof (induction n arbitrary: a b c)
  case 0
  then show ?case
    by (cases a; cases b; cases c) (auto split: if_splits intro: f64_eq_trans)
next
  case (Suc n)
  show ?case
  proof (cases a)
    case (Ref x)
    then obtain y z where yz: "b = Ref y" "c = Ref z"
      using Suc.prems by (cases b; cases c) auto
    show ?thesis
    proof (cases "x = y \<or> y = z \<or> x = z")
      case True
      then show ?thesis using Suc.prems Ref yz by auto
    next
      case False
      then obtain ox oy oz where o: "lookup st x = Some ox" "lookup st y = Some oy" "lookup st z = Some oz"
        "obj_eq (values_eq_n n st) ox oy = Some True" "obj_eq (values_eq_n n st) oy oz = Some True"
        using Suc.prems Ref yz by (auto split: option.splits)
      then have "obj_eq (values_eq_n n st) ox oz = Some True"
        using obj_eq_trans Suc.IH by blast
      then show ?thesis using False o Ref yz by simp
    qed
  qed (use Suc.prems in \<open>(cases b; cases c), auto intro: f64_eq_trans\<close>)+
qed

section \<open>Equal values hash alike\<close>

lemma f64_eqI:
  assumes "f64_neg_bit x = f64_neg_bit y" "f64_mag x = f64_mag y"
  shows "x = y"
proof (rule bit_word_eqI)
  fix n assume n: "n < LENGTH(64)"
  have "take_bit 63 x = take_bit 63 y" using assms(2) unfolding f64_mag_def by (rule unsigned_word_eqI)
  then have "n < 63 \<Longrightarrow> bit x n = bit y n" by (metis bit_take_bit_iff)
  moreover have "n = 63 \<Longrightarrow> bit x n = bit y n" using assms(1) by (simp add: f64_neg_bit_def)
  moreover have "n < 63 \<or> n = 63" using n by auto
  ultimately show "bit x n = bit y n" by blast
qed

lemma f64_eq_zero_or_same:
  assumes "f64_eq x y"
  shows "(if f64_eq x 0 then 0 else x) = (if f64_eq y 0 then 0 else (y :: f64))"
proof -
  have z: "f64_eq w 0 \<longleftrightarrow> f64_key w = 0" if "\<not> f64_is_nan w" for w
    using that by (simp add: f64_eq_def f64_key_def f64_is_nan_def f64_mag_def)
  have "x = y" if "f64_key x \<noteq> 0"
    using assms that by (intro f64_eqI) (auto simp: f64_eq_def f64_key_def split: if_splits)
  then show ?thesis using assms z [of x] z [of y] by (auto simp: f64_eq_def)
qed

lemma hash_vals_cong:
  "list_all2 (\<lambda>x y. \<forall>h. hi x h = hi y h) xs ys \<Longrightarrow> hash_vals hi xs h = hash_vals hi ys h"
proof (induction xs ys arbitrary: h rule: list_all2_induct)
  case (Cons x xs y ys)
  then show ?case by (cases "hi y h") auto
qed simp

lemma hash_obj_cong:
  assumes eq: "obj_eq e a b = Some True"
    and hi: "\<And>x y h. e x y = Some True \<Longrightarrow> hi x h = hi y h"
  shows "hash_obj hi a h = hash_obj hi b h"
proof -
  have head: "obj_head a = obj_head b"
    and vals: "list_all2 (\<lambda>x y. e x y = Some True) (child_values a) (child_values b)"
    using eq by (simp_all only: obj_eq_True)
  have "list_all2 (\<lambda>x y. \<forall>h. hi x h = hi y h) (child_values a) (child_values b)"
    using vals by (rule list_all2_mono) (simp add: hi)
  then have "hash_vals hi (child_values a) k = hash_vals hi (child_values b) k" for k
    by (rule hash_vals_cong)
  then show ?thesis using head by (cases a; cases b) (simp_all add: enum_head_eq)
qed

lemma hash_prim_cong:
  assumes "values_eq_n n st a b = Some True" "\<And>r. a \<noteq> Ref r"
  shows "hash_into_n m st a h = hash_into_n m st b h"
proof (cases a)
  case (Double x)
  then obtain y where y: "b = Double y" "f64_eq x y" using assms(1) by (cases b) auto
  show ?thesis using f64_eq_zero_or_same [OF y(2)] Double y(1) by (simp only: hash_into_n.simps Let_def)
qed (use assms in \<open>cases b; simp\<close>)+

lemma hash_into_n_cong:
  "values_eq_n n st a b = Some True \<Longrightarrow> hash_into_n m st a h = hash_into_n m st b h"
proof (induction n arbitrary: a b m h)
  case 0
  then show ?case
  proof (cases "\<exists>r. a = Ref r")
    case True
    then show ?thesis using 0 by (cases b) (auto split: if_splits)
  next
    case False
    then show ?thesis using hash_prim_cong [OF 0] by blast
  qed
next
  case (Suc n)
  show ?case
  proof (cases a)
    case (Ref x)
    then obtain y where y: "b = Ref y" using Suc.prems by (cases b) auto
    show ?thesis
    proof (cases "x = y \<or> m = 0")
      case True
      then show ?thesis using Ref y by auto
    next
      case False
      then obtain m' ox oy where o: "m = Suc m'" "lookup st x = Some ox" "lookup st y = Some oy"
        "obj_eq (values_eq_n n st) ox oy = Some True"
        using Suc.prems Ref y by (cases m) (auto split: option.splits)
      have "hash_obj (hash_into_n m' st) ox h = hash_obj (hash_into_n m' st) oy h"
        using o(4) Suc.IH by (rule hash_obj_cong)
      then show ?thesis using o Ref y by simp
    qed
  qed (rule hash_prim_cong [OF Suc.prems], simp)+
qed

section \<open>More depth never changes an answer\<close>

lemma all2_opt_mono:
  assumes "\<And>x y r. e x y = Some r \<Longrightarrow> e' x y = Some r"
  shows "all2_opt e xs ys = Some r \<Longrightarrow> all2_opt e' xs ys = Some r"
proof (induction xs ys rule: list_induct2')
  case (4 x xs y ys)
  then obtain b where b: "e x y = Some b" by (cases "e x y") simp_all
  then show ?case using 4 assms [OF b] by (cases b) simp_all
qed simp_all

lemma vec_eq_mono:
  assumes "\<And>x y r. e x y = Some r \<Longrightarrow> e' x y = Some r"
  shows "vec_eq e xs ys = Some r \<Longrightarrow> vec_eq e' xs ys = Some r"
  using all2_opt_mono [of e e', OF assms] by (simp add: vec_eq_def split: if_splits)

lemma pair_eq_mono:
  assumes "\<And>x y r. e x y = Some r \<Longrightarrow> e' x y = Some r"
  shows "pair_eq e p q = Some r \<Longrightarrow> pair_eq e' p q = Some r"
  using assms [of "fst p" "fst q"] assms [of "snd p" "snd q"]
  by (cases "e (fst p) (fst q)") (auto simp: pair_eq_def split: if_splits)

lemma obj_eq_mono:
  assumes e: "\<And>x y r. e x y = Some r \<Longrightarrow> e' x y = Some r"
    and "obj_eq e a b = Some r"
  shows "obj_eq e' a b = Some r"
  using assms(2)
  by (cases a; cases b)
    (auto simp: vec_eq_mono [OF e] vec_eq_mono [OF pair_eq_mono [OF e]] split: if_splits)

lemma values_eq_n_Suc:
  "values_eq_n n st a b = Some r \<Longrightarrow> values_eq_n (Suc n) st a b = Some r"
proof (induction n arbitrary: a b r)
  case 0
  then show ?case by (cases a; cases b) (simp_all split: if_splits)
next
  case (Suc n)
  show ?case
  proof (cases "\<exists>x y. a = Ref x \<and> b = Ref y \<and> x \<noteq> y")
    case True
    then obtain x y where xy: "a = Ref x" "b = Ref y" "x \<noteq> y" by blast
    then obtain ox oy where o: "lookup st x = Some ox" "lookup st y = Some oy"
      "obj_eq (values_eq_n n st) ox oy = Some r"
      using Suc.prems by (auto split: option.splits)
    have "obj_eq (values_eq_n (Suc n) st) ox oy = Some r"
      using Suc.IH o(3) by (rule obj_eq_mono)
    then show ?thesis using xy o by simp
  next
    case False
    then show ?thesis using Suc.prems by (cases a; cases b) auto
  qed
qed

lemma values_eq_n_mono:
  "values_eq_n n st a b = Some r \<Longrightarrow> n \<le> m \<Longrightarrow> values_eq_n m st a b = Some r"
  by (induction m) (auto simp: le_Suc_eq simp del: values_eq_n.simps intro: values_eq_n_Suc)

text \<open>The answers on distinct handles at depth \<open>n\<close>: an increasing chain that is stable as
  soon as one step adds nothing, so it is complete after as many steps as there are pairs.\<close>

definition eq_answers :: "store \<Rightarrow> nat \<Rightarrow> (u32 \<times> u32 \<times> bool) set" where
  "eq_answers st n = {(x, y, r). x \<noteq> y \<and> values_eq_n n st (Ref x) (Ref y) = Some r}"

lemma eq_answers_iff:
  "(x, y, r) \<in> eq_answers st n \<longleftrightarrow> x \<noteq> y \<and> values_eq_n n st (Ref x) (Ref y) = Some r"
  by (simp only: eq_answers_def mem_Collect_eq prod.case)

lemma eq_answers_mono: "mono (eq_answers st)"
  by (rule monoI) (auto simp: eq_answers_def simp del: values_eq_n.simps intro: values_eq_n_mono)

lemma eq_answers_stable:
  assumes "eq_answers st n = eq_answers st (Suc n)"
  shows "eq_answers st (Suc n) = eq_answers st (Suc (Suc n))"
proof -
  have "values_eq_n n st a b = values_eq_n (Suc n) st a b" for a b
  proof (cases "\<exists>x y. a = Ref x \<and> b = Ref y \<and> x \<noteq> y")
    case True
    then obtain x y where xy: "a = Ref x" "b = Ref y" "x \<noteq> y" by blast
    have "values_eq_n n st (Ref x) (Ref y) = Some r \<longleftrightarrow> values_eq_n (Suc n) st (Ref x) (Ref y) = Some r" for r
      using assms xy(3) by (auto simp: eq_answers_def set_eq_iff simp del: values_eq_n.simps)
    then show ?thesis unfolding xy by (metis not_Some_eq)
  next
    case False
    then show ?thesis by (cases a; cases b) auto
  qed
  then have "values_eq_n n st = values_eq_n (Suc n) st" by blast
  then have "values_eq_n (Suc n) st (Ref x) (Ref y) = values_eq_n (Suc (Suc n)) st (Ref x) (Ref y)" for x y
    by (cases "x = y"; cases "lookup st x"; cases "lookup st y") simp_all
  then show ?thesis by (simp only: eq_answers_def)
qed

lemma eq_answers_card:
  "finite (\<Union>n. eq_answers st n)" "card (\<Union>n. eq_answers st n) \<le> length st * length st"
proof -
  let ?S = "\<Union>n. eq_answers st n" and ?f = "\<lambda>(x, y, r :: bool). (unat (x :: u32), unat (y :: u32))"
  show "finite ?S" by simp
  have "inj_on ?f ?S"
  proof (rule inj_onI, clarsimp simp: eq_answers_def simp del: values_eq_n.simps)
    fix x y r n x' y' r' m
    assume a: "values_eq_n n st (Ref x) (Ref y) = Some r" "values_eq_n m st (Ref x') (Ref y') = Some r'"
      and u: "unat x = unat x'" "unat y = unat y'"
    have "x = x'" "y = y'" using u by (auto dest: unsigned_word_eqI)
    then show "x = x' \<and> y = y' \<and> r = r'"
      using a values_eq_n_mono [of _ st _ _ _ "max n m"] by (metis max.cobounded1 max.cobounded2 option.inject)
  qed
  moreover have "?f ` ?S \<subseteq> {..<length st} \<times> {..<length st}"
  proof (clarsimp simp: eq_answers_def simp del: values_eq_n.simps)
    fix x y r n assume "x \<noteq> y" "values_eq_n n st (Ref x) (Ref y) = Some r"
    then show "unat x < length st \<and> unat y < length st"
      by (auto split: nat.splits option.splits dest: lookup_Some_length)
  qed
  ultimately have "card ?S \<le> card ({..<length st} \<times> {..<length st})"
    by (rule card_inj_on_le) simp
  then show "card ?S \<le> length st * length st" by (simp add: card_cartesian_product)
qed

lemma values_eq_complete:
  assumes "values_eq_n n st a b = Some r"
  shows "values_eq st a b = Some r"
proof (cases "\<exists>x y. a = Ref x \<and> b = Ref y \<and> x \<noteq> y")
  case True
  then obtain x y where xy: "a = Ref x" "b = Ref y" "x \<noteq> y" by blast
  let ?S = "\<Union>n. eq_answers st n"
  have "\<exists>N. (\<forall>n\<le>N. \<forall>m\<le>N. m < n \<longrightarrow> eq_answers st m \<subset> eq_answers st n) \<and>
      (\<forall>n\<ge>N. eq_answers st N = eq_answers st n)"
    using eq_answers_mono eq_answers_stable by (intro finite_mono_remains_stable_implies_strict_prefix) auto
  then have "eq_answers st (card ?S) = ?S"
    by (intro finite_mono_strict_prefix_implies_finite_fixpoint) auto
  moreover have "(x, y, r) \<in> eq_answers st n" using assms xy by (simp only: eq_answers_iff simp_thms)
  ultimately have "(x, y, r) \<in> eq_answers st (card ?S)" by blast
  then have "values_eq_n (card ?S) st a b = Some r" unfolding xy(1,2) by (simp only: eq_answers_iff)
  moreover have "card ?S \<le> Suc (length st * length st)" using eq_answers_card(2) [of st] by linarith
  ultimately show ?thesis unfolding values_eq_def by (rule values_eq_n_mono)
next
  case False
  then show ?thesis using assms by (cases a; cases b) (auto simp: values_eq_def)
qed

section \<open>Acyclic values\<close>

text \<open>Following handles from the value reaches only live objects and ends within \<open>n\<close> steps.\<close>

fun depth_le :: "nat \<Rightarrow> store \<Rightarrow> val \<Rightarrow> bool" where
  "depth_le n st (Ref r) =
     (case n of
        0 \<Rightarrow> False
      | Suc n' \<Rightarrow> (case lookup st r of
                     None \<Rightarrow> False
                   | Some obj \<Rightarrow> list_all (depth_le n' st) (child_values obj)))"
| "depth_le n st v = True"

definition grounded :: "store \<Rightarrow> val \<Rightarrow> bool" where
  "grounded st v = depth_le (length st) st v"

lemma depth_le_Ref_Suc:
  "depth_le (Suc n) st (Ref r) \<longleftrightarrow> (\<exists>obj. lookup st r = Some obj \<and> (\<forall>v\<in>set (child_values obj). depth_le n st v))"
  by (auto simp: list_all_iff split: option.splits)

lemma depth_le_Suc: "depth_le n st v \<Longrightarrow> depth_le (Suc n) st v"
proof (induction n arbitrary: v)
  case 0
  then show ?case by (cases v) auto
next
  case (Suc n)
  then show ?case by (cases v) (auto simp only: depth_le_Ref_Suc depth_le.simps(2-5))
qed

lemma depth_le_mono: "depth_le n st v \<Longrightarrow> n \<le> m \<Longrightarrow> depth_le m st v"
  by (induction m) (auto simp: le_Suc_eq simp del: depth_le.simps intro: depth_le_Suc)

definition deep :: "store \<Rightarrow> nat \<Rightarrow> u32 set" where
  "deep st n = {r. depth_le n st (Ref r)}"

lemma deep_stable:
  assumes "deep st n = deep st (Suc n)"
  shows "deep st (Suc n) = deep st (Suc (Suc n))"
proof -
  have "depth_le n st v = depth_le (Suc n) st v" for v
    using assms by (cases v) (auto simp: deep_def set_eq_iff simp del: depth_le.simps(1))
  then show ?thesis by (simp only: deep_def depth_le_Ref_Suc)
qed

lemma grounded_complete:
  assumes "depth_le n st v"
  shows "grounded st v"
proof (cases v)
  case (Ref r)
  let ?S = "\<Union>n. deep st n"
  have mono: "mono (deep st)" by (rule monoI) (auto simp: deep_def simp del: depth_le.simps intro: depth_le_mono)
  have "\<exists>N. (\<forall>n\<le>N. \<forall>m\<le>N. m < n \<longrightarrow> deep st m \<subset> deep st n) \<and> (\<forall>n\<ge>N. deep st N = deep st n)"
    using mono deep_stable by (intro finite_mono_remains_stable_implies_strict_prefix) auto
  then have stable: "deep st (card ?S) = ?S"
    by (intro finite_mono_strict_prefix_implies_finite_fixpoint) auto
  have "unat r < length st" if "depth_le k st (Ref r)" for r k
    using that by (auto split: nat.splits option.splits dest: lookup_Some_length)
  then have "unat ` ?S \<subseteq> {..<length st}"
    by (auto simp: deep_def simp del: depth_le.simps)
  moreover have "inj_on unat ?S" by (rule inj_onI) (rule unsigned_word_eqI)
  ultimately have "card ?S \<le> card {..<length st}" by (intro card_inj_on_le) simp_all
  then have le: "card ?S \<le> length st" by simp
  have "r \<in> deep st n" using assms Ref by (simp only: deep_def mem_Collect_eq)
  then have "r \<in> deep st (card ?S)" unfolding stable by blast
  then have "depth_le (card ?S) st (Ref r)" unfolding deep_def [of st "card ?S"] by simp
  then show ?thesis unfolding grounded_def Ref using le by (rule depth_le_mono)
qed (simp_all add: grounded_def)

section \<open>Equality and hashing return on acyclic values\<close>

lemma all2_opt_returns:
  "(\<And>x y. x \<in> set xs \<Longrightarrow> y \<in> set ys \<Longrightarrow> e x y \<noteq> None) \<Longrightarrow> all2_opt e xs ys \<noteq> None"
proof (induction xs ys rule: list_induct2')
  case (4 x xs y ys)
  then obtain b where "e x y = Some b" by fastforce
  then show ?case using 4 by (cases b) auto
qed auto

lemma vec_eq_returns:
  "(\<And>x y. x \<in> set xs \<Longrightarrow> y \<in> set ys \<Longrightarrow> e x y \<noteq> None) \<Longrightarrow> vec_eq e xs ys \<noteq> None"
  using all2_opt_returns [of xs ys e] by (auto simp: vec_eq_def)

lemma entry_child:
  "p \<in> set (entries m) \<Longrightarrow> fst p \<in> set (child_values (Map m)) \<and> snd p \<in> set (child_values (Map m))"
  by (cases p) force

lemma obj_eq_returns:
  assumes "\<And>x y. x \<in> set (child_values a) \<Longrightarrow> y \<in> set (child_values b) \<Longrightarrow> e x y \<noteq> None"
  shows "obj_eq e a b \<noteq> None"
proof -
  have "vec_eq e (child_values a) (child_values b) \<noteq> None"
    using assms by (rule vec_eq_returns)
  moreover have "vec_eq (pair_eq e) (entries m) (entries m') \<noteq> None" if "a = Map m" "b = Map m'" for m m'
  proof (rule vec_eq_returns)
    fix p q assume "p \<in> set (entries m)" "q \<in> set (entries m')"
    then have "e (fst p) (fst q) \<noteq> None" "e (snd p) (snd q) \<noteq> None"
      using that assms entry_child by blast+
    then show "pair_eq e p q \<noteq> None" by (auto simp: pair_eq_def)
  qed
  ultimately show ?thesis by (cases a; cases b) auto
qed

lemma values_eq_n_returns:
  "depth_le n st a \<Longrightarrow> depth_le n st b \<Longrightarrow> values_eq_n n st a b \<noteq> None"
proof (induction n arbitrary: a b)
  case 0
  then show ?case by (cases a; cases b) auto
next
  case (Suc n)
  show ?case
  proof (cases "\<exists>x y. a = Ref x \<and> b = Ref y \<and> x \<noteq> y")
    case True
    then obtain x y where xy: "a = Ref x" "b = Ref y" "x \<noteq> y" by blast
    then obtain ox oy where o: "lookup st x = Some ox" "lookup st y = Some oy"
      "\<forall>v\<in>set (child_values ox). depth_le n st v" "\<forall>v\<in>set (child_values oy). depth_le n st v"
      using Suc.prems by (auto simp only: depth_le_Ref_Suc)
    then have "obj_eq (values_eq_n n st) ox oy \<noteq> None"
      using Suc.IH by (intro obj_eq_returns) blast
    then show ?thesis using xy o by simp
  next
    case False
    then show ?thesis by (cases a; cases b) auto
  qed
qed

lemma values_eq_returns: "grounded st a \<Longrightarrow> grounded st b \<Longrightarrow> values_eq st a b \<noteq> None"
  using values_eq_n_returns [of "length st" st a b] values_eq_complete [of "length st" st a b]
  by (auto simp: grounded_def)

lemma hash_vals_returns:
  "(\<And>v h. v \<in> set vs \<Longrightarrow> hi v h \<noteq> None) \<Longrightarrow> hash_vals hi vs h \<noteq> None"
proof (induction vs arbitrary: h)
  case (Cons v vs)
  then obtain k where "hi v h = Some k" by fastforce
  then show ?case using Cons by simp
qed simp

lemma hash_obj_returns:
  "(\<And>v h. v \<in> set (child_values obj) \<Longrightarrow> hi v h \<noteq> None) \<Longrightarrow> hash_obj hi obj h \<noteq> None"
  using hash_vals_returns [of "child_values obj" hi] by (cases obj) auto

lemma hash_into_n_returns: "depth_le n st v \<Longrightarrow> n \<le> m \<Longrightarrow> hash_into_n m st v h \<noteq> None"
proof (induction n arbitrary: v m h)
  case 0
  then show ?case by (cases v) auto
next
  case (Suc n)
  show ?case
  proof (cases v)
    case (Ref r)
    then obtain obj where o: "lookup st r = Some obj" "\<forall>v\<in>set (child_values obj). depth_le n st v"
      using Suc.prems(1) by (auto simp only: depth_le_Ref_Suc)
    obtain m' where m: "m = Suc m'" "n \<le> m'" using Suc.prems(2) by (cases m) auto
    then have "hash_obj (hash_into_n m' st) obj h \<noteq> None"
      using Suc.IH o(2) by (intro hash_obj_returns) blast
    then show ?thesis using Ref o(1) m by simp
  qed (simp_all add: Let_def)
qed

lemma hash_value_returns: "grounded st v \<Longrightarrow> hash_value st v \<noteq> None"
  unfolding hash_value_def grounded_def by (erule hash_into_n_returns) (rule le_SucI, rule order_refl)

section \<open>Values as map keys\<close>

interpretation vk: key_laws "values_eq st" "hash_value st" "{v. grounded st v}" for st
proof unfold_locales
  fix a b c assume "values_eq st a b = Some True" "values_eq st b c = Some True"
  then show "values_eq st a c = Some True" unfolding values_eq_def by (rule values_eq_n_trans)
next
  fix a b assume eq: "values_eq st a b = Some True"
  then show "values_eq st b a = Some True" unfolding values_eq_def by (simp only: values_eq_n_sym)
  show "hash_value st a = hash_value st b"
    using eq unfolding values_eq_def hash_value_def by (rule hash_into_n_cong)
qed (simp_all add: values_eq_returns hash_value_returns)

end
