(* ===== verification/Utf8.thy ===== *)
theory Utf8
  imports Prelude
begin

text \<open>
  The part of Rust's \<open>str\<close> the runtime relies on: which byte sequences
  \<open>std::str::from_utf8\<close> accepts (the well-formed sequences of RFC 3629, as in
  the standard library's table), and the decoding of a string into Unicode scalar
  values that \<open>str::chars\<close> performs.
\<close>

section \<open>Well-formed sequences\<close>

definition is_cont :: "u8 \<Rightarrow> bool" where
  "is_cont b \<longleftrightarrow> 0x80 \<le> b \<and> b \<le> 0xBF"

text \<open>One scalar value from the front of a byte sequence, with the bytes after it;
  \<open>None\<close> when the front is not a well-formed sequence.\<close>

fun utf8_next :: "u8 list \<Rightarrow> (nat \<times> u8 list) option" where
  "utf8_next [] = None"
| "utf8_next (a # bs) =
     (if a < 0x80 then Some (unat a, bs)
      else if 0xC2 \<le> a \<and> a \<le> 0xDF then
        (case bs of
           b # r \<Rightarrow> (if is_cont b then Some ((unat a - 0xC0) * 64 + (unat b - 0x80), r) else None)
         | _ \<Rightarrow> None)
      else if 0xE0 \<le> a \<and> a \<le> 0xEF then
        (case bs of
           b # c # r \<Rightarrow>
             (if is_cont b \<and> is_cont c \<and> (a = 0xE0 \<longrightarrow> 0xA0 \<le> b) \<and> (a = 0xED \<longrightarrow> b \<le> 0x9F)
              then Some ((unat a - 0xE0) * 4096 + (unat b - 0x80) * 64 + (unat c - 0x80), r)
              else None)
         | _ \<Rightarrow> None)
      else if 0xF0 \<le> a \<and> a \<le> 0xF4 then
        (case bs of
           b # c # d # r \<Rightarrow>
             (if is_cont b \<and> is_cont c \<and> is_cont d
                 \<and> (a = 0xF0 \<longrightarrow> 0x90 \<le> b) \<and> (a = 0xF4 \<longrightarrow> b \<le> 0x8F)
              then Some ((unat a - 0xF0) * 262144 + (unat b - 0x80) * 4096
                         + (unat c - 0x80) * 64 + (unat d - 0x80), r)
              else None)
         | _ \<Rightarrow> None)
      else None)"

lemma utf8_next_shorter: "utf8_next bs = Some (c, r) \<Longrightarrow> length r < length bs"
  by (cases bs) (auto split: if_splits list.splits)

text \<open>\<open>str::chars\<close>: the scalar values of a byte sequence, \<open>None\<close> unless all of it
  is well formed.\<close>

function utf8_decode :: "u8 list \<Rightarrow> nat list option" where
  "utf8_decode bs =
     (if bs = [] then Some []
      else case utf8_next bs of
             None \<Rightarrow> None
           | Some (c, r) \<Rightarrow> map_option ((#) c) (utf8_decode r))"
  by pat_completeness auto
termination
  by (relation "measure length") (auto dest: utf8_next_shorter)

declare utf8_decode.simps [simp del]

definition valid_utf8 :: "u8 list \<Rightarrow> bool" where
  "valid_utf8 bs \<longleftrightarrow> utf8_decode bs \<noteq> None"

text \<open>A Rust \<open>String\<close> always holds well-formed UTF-8.\<close>

definition valid_str :: "string \<Rightarrow> bool" where
  "valid_str s \<longleftrightarrow> valid_utf8 (as_bytes s)"

text \<open>\<open>std::str::from_utf8\<close>.\<close>

definition from_utf8 :: "u8 list \<Rightarrow> string option" where
  "from_utf8 bs = (if valid_utf8 bs then Some (of_bytes bs) else None)"

section \<open>Encoding a scalar value\<close>

text \<open>\<open>char::encode_utf8\<close>.\<close>

definition utf8_encode_char :: "nat \<Rightarrow> u8 list" where
  "utf8_encode_char c =
     (if c < 0x80 then [word_of_nat c]
      else if c < 0x800 then
        [word_of_nat (0xC0 + c div 64), word_of_nat (0x80 + c mod 64)]
      else if c < 0x10000 then
        [word_of_nat (0xE0 + c div 4096), word_of_nat (0x80 + c div 64 mod 64),
         word_of_nat (0x80 + c mod 64)]
      else
        [word_of_nat (0xF0 + c div 262144), word_of_nat (0x80 + c div 4096 mod 64),
         word_of_nat (0x80 + c div 64 mod 64), word_of_nat (0x80 + c mod 64)])"

text \<open>\<open>char::from_u32\<close> accepts exactly the scalar values.\<close>

definition is_scalar :: "nat \<Rightarrow> bool" where
  "is_scalar c \<longleftrightarrow> c < 0xD800 \<or> (0xE000 \<le> c \<and> c < 0x110000)"

definition utf8_encode :: "nat list \<Rightarrow> u8 list" where
  "utf8_encode cs = concat (map utf8_encode_char cs)"

section \<open>Laws\<close>

lemma from_utf8_valid [simp]: "valid_str s \<Longrightarrow> from_utf8 (as_bytes s) = Some s"
  by (simp add: from_utf8_def valid_str_def)

lemma from_utf8_Some: "from_utf8 bs = Some s \<longleftrightarrow> bs = as_bytes s \<and> valid_str s"
  by (auto simp: from_utf8_def valid_str_def split: if_splits)

lemma utf8_decode_Nil [simp]: "utf8_decode [] = Some []"
  by (simp add: utf8_decode.simps)

lemma utf8_decode_ascii: "\<forall>b \<in> set bs. b < 0x80 \<Longrightarrow> utf8_decode bs = Some (map unat bs)"
  by (induction bs) (simp_all add: utf8_decode.simps)

lemma valid_str_ascii: "\<forall>c \<in> set s. of_char c < (0x80 :: nat) \<Longrightarrow> valid_str s"
proof -
  assume a: "\<forall>c \<in> set s. of_char c < (0x80 :: nat)"
  have "\<forall>b \<in> set (as_bytes s). b < 0x80"
    using a by (auto simp: as_bytes_def byte_of_char_def word_less_nat_alt unat_of_nat)
  then show ?thesis
    by (simp add: valid_str_def valid_utf8_def utf8_decode_ascii)
qed

lemma word8_of_nat: "n < 256 \<Longrightarrow> unat (word_of_nat n :: u8) = n"
  by (simp add: unat_of_nat)

lemmas byte_order = word_less_nat_alt word_le_nat_alt word_unat_eq_iff

lemma utf8_next_2:
  "\<lbrakk>unat a = 0xC0 + x; 2 \<le> x; x < 32; unat b = 0x80 + y; y < 64\<rbrakk>
   \<Longrightarrow> utf8_next (a # b # r) = Some (x * 64 + y, r)"
  by (simp add: byte_order is_cont_def)

lemma utf8_next_3:
  "\<lbrakk>unat a = 0xE0 + x; x < 16; unat b = 0x80 + y; y < 64; unat c = 0x80 + z; z < 64;
    x = 0 \<longrightarrow> 32 \<le> y; x = 13 \<longrightarrow> y \<le> 31\<rbrakk>
   \<Longrightarrow> utf8_next (a # b # c # r) = Some (x * 4096 + y * 64 + z, r)"
  by (simp add: byte_order is_cont_def)

lemma utf8_next_4:
  "\<lbrakk>unat a = 0xF0 + x; x < 5; unat b = 0x80 + y; y < 64; unat c = 0x80 + z; z < 64;
    unat d = 0x80 + w; w < 64; x = 0 \<longrightarrow> 16 \<le> y; x = 4 \<longrightarrow> y \<le> 15\<rbrakk>
   \<Longrightarrow> utf8_next (a # b # c # d # r) = Some (x * 262144 + y * 4096 + z * 64 + w, r)"
  by (simp add: byte_order is_cont_def)

lemma split64:
  "(c :: nat) = c div 64 * 64 + c mod 64"
  "c div 64 = c div 4096 * 64 + c div 64 mod 64"
  "c div 4096 = c div 262144 * 64 + c div 4096 mod 64"
  "c mod 64 < 64" "c div 64 mod 64 < 64" "c div 4096 mod 64 < 64"
proof -
  have "c div 4096 = c div 64 div 64" "c div 262144 = c div 4096 div 64"
    by (simp_all add: div_mult2_eq [symmetric])
  then show "c div 64 = c div 4096 * 64 + c div 64 mod 64"
    and "c div 4096 = c div 262144 * 64 + c div 4096 mod 64"
    by (simp_all only: div_mult_mod_eq)
qed simp_all

lemma mod64_less_128: "(x :: nat) mod 64 < 128"
  by (rule less_le_trans [OF mod_less_divisor]) simp_all

lemma utf8_next_encode_char:
  assumes "is_scalar c"
  shows "utf8_next (utf8_encode_char c @ r) = Some (c, r)"
proof -
  have c: "c < 0x110000" and nsur: "\<not> (0xD800 \<le> c \<and> c < 0xE000)"
    using assms by (auto simp: is_scalar_def)
  consider "c < 0x80" | "0x80 \<le> c" "c < 0x800" | "0x800 \<le> c" "c < 0x10000" | "0x10000 \<le> c"
    by linarith
  then show ?thesis
  proof cases
    case 1
    then show ?thesis
      by (simp add: utf8_encode_char_def byte_order word8_of_nat)
  next
    case 2
    then have "utf8_encode_char c = [word_of_nat (0xC0 + c div 64), word_of_nat (0x80 + c mod 64)]"
      by (simp only: utf8_encode_char_def not_less [symmetric] if_False if_True)
    moreover have "utf8_next (word_of_nat (0xC0 + c div 64) # word_of_nat (0x80 + c mod 64) # r)
        = Some (c div 64 * 64 + c mod 64, r)"
      by (rule utf8_next_2; (subst word8_of_nat)?) (use 2 in auto)
    ultimately show ?thesis by simp
  next
    case 3
    then have "utf8_encode_char c = [word_of_nat (0xE0 + c div 4096),
        word_of_nat (0x80 + c div 64 mod 64), word_of_nat (0x80 + c mod 64)]"
      by (simp add: utf8_encode_char_def)
    moreover have "utf8_next (word_of_nat (0xE0 + c div 4096) # word_of_nat (0x80 + c div 64 mod 64)
          # word_of_nat (0x80 + c mod 64) # r)
        = Some (c div 4096 * 4096 + c div 64 mod 64 * 64 + c mod 64, r)"
    proof (intro utf8_next_3)
      show "c div 4096 = 0 \<longrightarrow> 32 \<le> c div 64 mod 64" "c div 4096 = 13 \<longrightarrow> c div 64 mod 64 \<le> 31"
        using split64 [of c] 3 nsur by linarith+
    qed (use split64 [of c] 3 in \<open>auto simp: mod64_less_128 simp del: of_nat_add intro!: word8_of_nat\<close>)
    moreover have "c div 4096 * 4096 + c div 64 mod 64 * 64 + c mod 64 = c"
      using split64 [of c] by linarith
    ultimately show ?thesis by simp
  next
    case 4
    then have "utf8_encode_char c = [word_of_nat (0xF0 + c div 262144),
        word_of_nat (0x80 + c div 4096 mod 64), word_of_nat (0x80 + c div 64 mod 64),
        word_of_nat (0x80 + c mod 64)]"
      by (simp add: utf8_encode_char_def)
    moreover have "utf8_next (word_of_nat (0xF0 + c div 262144) # word_of_nat (0x80 + c div 4096 mod 64)
          # word_of_nat (0x80 + c div 64 mod 64) # word_of_nat (0x80 + c mod 64) # r)
        = Some (c div 262144 * 262144 + c div 4096 mod 64 * 4096
                + c div 64 mod 64 * 64 + c mod 64, r)"
    proof (intro utf8_next_4)
      show "c div 262144 = 0 \<longrightarrow> 16 \<le> c div 4096 mod 64"
         "c div 262144 = 4 \<longrightarrow> c div 4096 mod 64 \<le> 15"
        using split64 [of c] 4 c by linarith+
    qed (use split64 [of c] 4 c in \<open>auto simp: mod64_less_128 simp del: of_nat_add intro!: word8_of_nat\<close>)
    moreover have "c div 262144 * 262144 + c div 4096 mod 64 * 4096
        + c div 64 mod 64 * 64 + c mod 64 = c"
      using split64 [of c] by linarith
    ultimately show ?thesis by simp
  qed
qed

lemma utf8_encode_char_not_Nil [simp]: "utf8_encode_char c \<noteq> []"
  by (simp add: utf8_encode_char_def)

lemma utf8_decode_encode: "\<forall>c \<in> set cs. is_scalar c \<Longrightarrow> utf8_decode (utf8_encode cs) = Some cs"
proof (induction cs)
  case Nil
  then show ?case by (simp add: utf8_encode_def)
next
  case (Cons c cs)
  have "utf8_decode (utf8_encode (c # cs))
      = map_option ((#) c) (utf8_decode (utf8_encode cs))"
    using Cons.prems
    by (subst utf8_decode.simps) (simp add: utf8_encode_def utf8_next_encode_char)
  with Cons show ?case by simp
qed

end
