(* ===== verification/Wire.thy ===== *)
theory Wire
  imports Prelude Utf8
begin

text \<open>
  Byte-level primitives of the bytecode wire format
  (\<^verbatim>\<open>runtime/src/serialize.rs\<close>): a \<open>Writer\<close> that appends to a buffer, a
  \<open>Reader\<close> that tracks a position in a byte slice, LEB128 varints, fixed
  little-endian fields and length-prefixed strings.

  The locales \<open>wire_reader\<close>, \<open>wire_format\<close> and \<open>wire_codec\<close> state the contract every
  reader/writer pair promises (a read at the bytes a write appended returns the written
  value and moves past exactly those bytes); they are interpreted on every pair of the
  file, and the sequence lemmas proved in them serve the module codec.
\<close>

section \<open>Writer\<close>

record writer =
  buf :: "u8 list"

definition writer_new :: writer where
  "writer_new = \<lparr>buf = []\<rparr>"

definition into_bytes :: "writer \<Rightarrow> u8 list" where
  "into_bytes w = buf w"

definition write_u8 :: "writer \<Rightarrow> u8 \<Rightarrow> writer" where
  "write_u8 w v = w\<lparr>buf := buf w @ [v]\<rparr>"

text \<open>\<open>to_le_bytes\<close> of a 32-bit and a 64-bit word.\<close>

definition le_bytes32 :: "u32 \<Rightarrow> u8 list" where
  "le_bytes32 v = map (\<lambda>i. ucast (drop_bit (8 * i) v)) [0..<4]"

definition le_bytes64 :: "u64 \<Rightarrow> u8 list" where
  "le_bytes64 v = map (\<lambda>i. ucast (drop_bit (8 * i) v)) [0..<8]"

definition write_u32_le :: "writer \<Rightarrow> u32 \<Rightarrow> writer" where
  "write_u32_le w v = w\<lparr>buf := buf w @ le_bytes32 v\<rparr>"

text \<open>A double is its IEEE 754 bit pattern.\<close>

definition write_f64 :: "writer \<Rightarrow> u64 \<Rightarrow> writer" where
  "write_f64 w v = w\<lparr>buf := buf w @ le_bytes64 v\<rparr>"

definition write_raw :: "writer \<Rightarrow> u8 list \<Rightarrow> writer" where
  "write_raw w data = w\<lparr>buf := buf w @ data\<rparr>"

text \<open>Unsigned LEB128: seven bits per byte, low group first, the top bit set on
  every byte but the last.\<close>

function write_uvarint :: "writer \<Rightarrow> u64 \<Rightarrow> writer" where
  "write_uvarint w v =
     (let byte = (ucast (v AND 0x7f) :: u8);
          v' = drop_bit 7 v;
          byte' = (if v' \<noteq> 0 then byte OR 0x80 else byte);
          w' = w\<lparr>buf := buf w @ [byte']\<rparr>
      in if v' = 0 then w' else write_uvarint w' v')"
  by pat_completeness auto
termination
proof (relation "measure (\<lambda>(w, v). unat v)", goal_cases)
  case (2 w v)
  then have "v \<noteq> 0" by auto
  with 2 show ?case by (simp add: unat_drop_bit_less)
qed simp

declare write_uvarint.simps [simp del]

text \<open>Signed LEB128: the shift is arithmetic, and the last byte's bit 6 is the sign.\<close>

definition ivarint_done :: "i64 \<Rightarrow> u8 \<Rightarrow> bool" where
  "ivarint_done v' byte =
     (let sign = (byte AND 0x40 \<noteq> 0) in (v' = 0 \<and> \<not> sign) \<or> (v' = -1 \<and> sign))"

lemma sdrop7_abs_less:
  assumes "\<not> (v = 0 \<or> v = -1)"
  shows "nat \<bar>sint (signed_drop_bit 7 (v :: i64))\<bar> < nat \<bar>sint v\<bar>"
proof -
  have "sint v \<noteq> 0" "sint v \<noteq> -1"
    using assms signed_word_eqI [of v 0] signed_word_eqI [of v "-1"] by auto
  moreover have "sint (signed_drop_bit 7 v) = sint v div 128"
    by (simp add: sint_signed_drop_bit_eq drop_bit_eq_div)
  ultimately show ?thesis by linarith
qed

function write_ivarint :: "writer \<Rightarrow> i64 \<Rightarrow> writer" where
  "write_ivarint w v =
     (let byte = (ucast (v AND 0x7f) :: u8);
          v' = signed_drop_bit 7 v;
          done = ivarint_done v' byte;
          byte' = (if \<not> done then byte OR 0x80 else byte);
          w' = w\<lparr>buf := buf w @ [byte']\<rparr>
      in if done then w' else write_ivarint w' v')"
  by pat_completeness auto
termination
proof (relation "measure (\<lambda>(w, v). nat \<bar>sint v\<bar>)", goal_cases)
  case (2 w v)
  have "\<not> (v = 0 \<or> v = -1)"
    using 2 by (auto simp: ivarint_done_def)
  then show ?case using 2 sdrop7_abs_less [of v] by simp
qed simp

declare write_ivarint.simps [simp del]

definition write_bytes :: "writer \<Rightarrow> u8 list \<Rightarrow> writer" where
  "write_bytes w data =
     (let w' = write_uvarint w (word_of_nat (length data))
      in w'\<lparr>buf := buf w' @ data\<rparr>)"

definition write_str :: "writer \<Rightarrow> string \<Rightarrow> writer" where
  "write_str w s = write_bytes w (as_bytes s)"

section \<open>Decoding errors\<close>

datatype decode_error =
    UnexpectedEof
  | VarintOverflow
  | InvalidUtf8
  | BadMagic
  | UnsupportedVersion u32
  | UnknownOpcode u8
  | ConstIndexOutOfRange
  | UnknownNative string

section \<open>Reader\<close>

record reader =
  bytes :: "u8 list"
  pos :: usize

definition reader_new :: "u8 list \<Rightarrow> reader" where
  "reader_new bs = \<lparr>bytes = bs, pos = 0\<rparr>"

definition remaining :: "reader \<Rightarrow> usize" where
  "remaining r = length (bytes r) - pos r"

definition reader_is_empty :: "reader \<Rightarrow> bool" where
  "reader_is_empty r \<longleftrightarrow> remaining r = 0"

text \<open>\<open>checked_add\<close> on \<open>usize\<close> fails beyond 64 bits; the slice \<open>get\<close> fails beyond
  the end.\<close>

definition take_n :: "reader \<Rightarrow> usize \<Rightarrow> decode_error + u8 list \<times> reader" where
  "take_n r n =
     (let end = pos r + n
      in if end \<ge> 2 ^ 64 then Err UnexpectedEof
         else if end \<le> length (bytes r)
         then Ok (take n (drop (pos r) (bytes r)), r\<lparr>pos := end\<rparr>)
         else Err UnexpectedEof)"

definition read_raw :: "reader \<Rightarrow> usize \<Rightarrow> decode_error + u8 list \<times> reader" where
  "read_raw r n = take_n r n"

definition read_u8 :: "reader \<Rightarrow> decode_error + u8 \<times> reader" where
  "read_u8 r = rbind (take_n r 1) (\<lambda>(b, r'). Ok (b ! 0, r'))"

text \<open>\<open>from_le_bytes\<close>.\<close>

definition from_le_bytes :: "u8 list \<Rightarrow> 'a::len word" where
  "from_le_bytes bs = fold (OR) (map (\<lambda>i. push_bit (8 * i) (ucast (bs ! i))) [0..<length bs]) 0"

definition read_u32_le :: "reader \<Rightarrow> decode_error + u32 \<times> reader" where
  "read_u32_le r = rbind (take_n r 4) (\<lambda>(b, r'). Ok (from_le_bytes b, r'))"

definition read_f64 :: "reader \<Rightarrow> decode_error + u64 \<times> reader" where
  "read_f64 r = rbind (take_n r 8) (\<lambda>(b, r'). Ok (from_le_bytes b, r'))"

text \<open>The loop of \<open>read_uvarint\<close>, over the accumulated result and the shift.\<close>

function read_uvarint_loop :: "reader \<Rightarrow> u64 \<Rightarrow> nat \<Rightarrow> decode_error + u64 \<times> reader" where
  "read_uvarint_loop r result shift =
     rbind (read_u8 r) (\<lambda>(byte, r').
       if shift \<ge> 64 then Err VarintOverflow
       else let result' = result OR push_bit shift (ucast (byte AND 0x7f));
                shift' = shift + 7
            in if byte AND 0x80 = 0 then Ok (result', r')
               else read_uvarint_loop r' result' shift')"
  by pat_completeness auto
termination
  by (relation "measure (\<lambda>(r, result, shift). 64 - shift)") auto

declare read_uvarint_loop.simps [simp del]

definition read_uvarint :: "reader \<Rightarrow> decode_error + u64 \<times> reader" where
  "read_uvarint r = read_uvarint_loop r 0 0"

function read_ivarint_loop :: "reader \<Rightarrow> i64 \<Rightarrow> nat \<Rightarrow> decode_error + i64 \<times> reader" where
  "read_ivarint_loop r result shift =
     rbind (read_u8 r) (\<lambda>(byte, r').
       if shift \<ge> 64 then Err VarintOverflow
       else let result' = result OR push_bit shift (ucast (byte AND 0x7f));
                shift' = shift + 7
            in if byte AND 0x80 = 0
               then Ok (if shift' < 64 \<and> byte AND 0x40 \<noteq> 0
                        then result' OR push_bit shift' (-1) else result', r')
               else read_ivarint_loop r' result' shift')"
  by pat_completeness auto
termination
  by (relation "measure (\<lambda>(r, result, shift). 64 - shift)") auto

declare read_ivarint_loop.simps [simp del]

definition read_ivarint :: "reader \<Rightarrow> decode_error + i64 \<times> reader" where
  "read_ivarint r = read_ivarint_loop r 0 0"

definition read_bytes :: "reader \<Rightarrow> decode_error + u8 list \<times> reader" where
  "read_bytes r = rbind (read_uvarint r) (\<lambda>(len, r'). take_n r' (unat len))"

definition read_str :: "reader \<Rightarrow> decode_error + string \<times> reader" where
  "read_str r =
     rbind (read_bytes r) (\<lambda>(bs, r').
       case from_utf8 bs of None \<Rightarrow> Err InvalidUtf8 | Some s \<Rightarrow> Ok (s, r'))"


section \<open>The contract of a reader and a writer\<close>

text \<open>The reader stands before \<open>bs\<close>, in an input that fits in memory.\<close>

definition at_bytes :: "reader \<Rightarrow> u8 list \<Rightarrow> bool" where
  "at_bytes r bs \<longleftrightarrow>
     pos r \<le> length (bytes r) \<and> drop (pos r) (bytes r) = bs \<and> length (bytes r) < 2 ^ 64"

definition adv :: "reader \<Rightarrow> nat \<Rightarrow> reader" where
  "adv r n = r\<lparr>pos := pos r + n\<rparr>"

text \<open>Reading a counted sequence: \<open>for _ in 0..count { out.push(read(r)?) }\<close>.\<close>

fun read_many :: "(reader \<Rightarrow> decode_error + 'a \<times> reader) \<Rightarrow> nat \<Rightarrow> reader
    \<Rightarrow> decode_error + 'a list \<times> reader" where
  "read_many rd 0 r = Ok ([], r)"
| "read_many rd (Suc n) r =
     rbind (rd r) (\<lambda>(x, r'). rbind (read_many rd n r') (\<lambda>(xs, r''). Ok (x # xs, r'')))"

text \<open>Writing a sequence: \<open>for x in xs { write(w, x) }\<close>.\<close>

definition write_many :: "(writer \<Rightarrow> 'a \<Rightarrow> writer) \<Rightarrow> writer \<Rightarrow> 'a list \<Rightarrow> writer" where
  "write_many wr w xs = foldl wr w xs"

lemma adv_simps [simp]: "adv (adv r m) n = adv r (m + n)" "adv r 0 = r"
  by (simp_all add: adv_def add.assoc)

lemma at_bytes_adv: "at_bytes r (bs @ rest) \<Longrightarrow> at_bytes (adv r (length bs)) rest"
  by (auto simp: at_bytes_def adv_def dest: drop_eq_appendD)

lemma at_bytes_new [simp]: "length bs < 2 ^ 64 \<Longrightarrow> at_bytes (reader_new bs) bs"
  by (simp add: at_bytes_def reader_new_def)

lemma take_n_at: "at_bytes r (bs @ rest) \<Longrightarrow> take_n r (length bs) = Ok (bs, adv r (length bs))"
  using drop_eq_appendD [of "pos r" "bytes r" bs rest]
  by (auto simp: at_bytes_def take_n_def adv_def Let_def)

lemma take_n_Cons: "at_bytes r (b # rest) \<Longrightarrow> take_n r 1 = Ok ([b], adv r 1)"
  using take_n_at [of r "[b]" rest] by simp

lemma at_bytes_adv1: "at_bytes r (b # rest) \<Longrightarrow> at_bytes (adv r 1) rest"
  using at_bytes_adv [of r "[b]" rest] by simp

locale wire_reader =
  fixes rd :: "reader \<Rightarrow> decode_error + 'a \<times> reader"
    and enc :: "'a \<Rightarrow> u8 list"
    and ok :: "'a \<Rightarrow> bool"
  assumes read_at: "ok x \<Longrightarrow> at_bytes r (enc x @ rest) \<Longrightarrow> rd r = Ok (x, adv r (length (enc x)))"
begin

lemma read_many_at:
  "\<lbrakk>\<forall>x \<in> set xs. ok x; at_bytes r (concat (map enc xs) @ rest)\<rbrakk>
   \<Longrightarrow> read_many rd (length xs) r = Ok (xs, adv r (length (concat (map enc xs))))"
proof (induction xs arbitrary: r)
  case Nil
  then show ?case by simp
next
  case (Cons x xs)
  let ?tail = "concat (map enc xs) @ rest"
  from Cons.prems have at: "at_bytes r (enc x @ ?tail)" by simp
  from at Cons.prems have x: "rd r = Ok (x, adv r (length (enc x)))"
    by (intro read_at) simp_all
  have "read_many rd (length xs) (adv r (length (enc x)))
      = Ok (xs, adv (adv r (length (enc x))) (length (concat (map enc xs))))"
    using Cons.prems at_bytes_adv [OF at] by (intro Cons.IH) simp_all
  with x show ?case by simp
qed

end

text \<open>A writer that may panic on values outside \<open>ok\<close>.\<close>

fun try_fold :: "('s \<Rightarrow> 'a \<Rightarrow> 's option) \<Rightarrow> 's \<Rightarrow> 'a list \<Rightarrow> 's option" where
  "try_fold f s [] = Some s"
| "try_fold f s (x # xs) = Option.bind (f s x) (\<lambda>s'. try_fold f s' xs)"

locale wire_codec = wire_reader rd enc ok
  for rd :: "reader \<Rightarrow> decode_error + 'a \<times> reader" and enc ok +
  fixes wrp :: "writer \<Rightarrow> 'a \<Rightarrow> writer option"
  assumes write_ok: "ok x \<Longrightarrow> wrp w x = Some \<lparr>buf = buf w @ enc x\<rparr>"
begin

lemma write_all_ok:
  "\<forall>x \<in> set xs. ok x \<Longrightarrow> try_fold wrp w xs = Some \<lparr>buf = buf w @ concat (map enc xs)\<rparr>"
  by (induction xs arbitrary: w) (simp_all add: write_ok)

end

locale wire_format = wire_reader rd enc ok
  for rd :: "reader \<Rightarrow> decode_error + 'a \<times> reader" and enc ok +
  fixes wr :: "writer \<Rightarrow> 'a \<Rightarrow> writer"
  assumes write_appends: "buf (wr w x) = buf w @ enc x"
begin

lemma write_many_appends: "buf (write_many wr w xs) = buf w @ concat (map enc xs)"
  by (induction xs arbitrary: w) (simp_all add: write_many_def write_appends)

text \<open>Writing and then reading a whole buffer returns the values written.\<close>

lemma roundtrip:
  assumes ok: "\<forall>x \<in> set xs. ok x" and len: "length (buf (write_many wr writer_new xs)) < 2 ^ 64"
  shows "\<exists>r. read_many rd (length xs) (reader_new (into_bytes (write_many wr writer_new xs))) = Ok (xs, r)
    \<and> reader_is_empty r"
proof -
  have buf: "buf (write_many wr writer_new xs) = concat (map enc xs)"
    by (simp add: write_many_appends writer_new_def)
  then have "read_many rd (length xs) (reader_new (concat (map enc xs)))
      = Ok (xs, adv (reader_new (concat (map enc xs))) (length (concat (map enc xs))))"
    using ok len at_bytes_new [of "concat (map enc xs)"]
    by (intro read_many_at [where rest = "[]"]) simp_all
  then show ?thesis
    by (simp add: buf into_bytes_def reader_is_empty_def remaining_def adv_def reader_new_def)
qed

end

sublocale wire_format \<subseteq> wire_codec rd enc ok "\<lambda>w x. Some (wr w x)"
proof
  fix x :: 'a and w
  show "Some (wr w x) = Some \<lparr>buf = buf w @ enc x\<rparr>"
    using write_appends [of w x] by (cases "wr w x") simp
qed

section \<open>The primitives satisfy it\<close>

interpretation u8f: wire_format read_u8 "\<lambda>v. [v]" "\<lambda>_. True" write_u8
  by unfold_locales (simp_all add: write_u8_def read_u8_def take_n_Cons [simplified])

subsection \<open>Unsigned varints\<close>

definition uvarint_bytes :: "u64 \<Rightarrow> u8 list" where
  "uvarint_bytes v = buf (write_uvarint writer_new v)"

lemma write_uvarint_append: "buf (write_uvarint w v) = buf w @ uvarint_bytes v"
proof -
  have "buf (write_uvarint \<lparr>buf = xs @ ys\<rparr> v) = xs @ buf (write_uvarint \<lparr>buf = ys\<rparr> v)" for xs ys
  proof (induction "\<lparr>buf = ys\<rparr>" v arbitrary: ys rule: write_uvarint.induct)
    case (1 v)
    then show ?case
      by (subst (1 2) write_uvarint.simps) (auto simp: Let_def)
  qed
  from this [of "buf w" "[]"] show ?thesis
    by (cases w) (simp add: uvarint_bytes_def writer_new_def)
qed

lemma uvarint_bytes_rec:
  "uvarint_bytes v =
     (if drop_bit 7 v = 0 then [ucast (v AND 0x7f)]
      else (ucast (v AND 0x7f) OR 0x80) # uvarint_bytes (drop_bit 7 v))"
proof -
  have "uvarint_bytes v = (if drop_bit 7 v = 0 then [ucast (v AND 0x7f)]
      else buf (write_uvarint \<lparr>buf = [ucast (v AND 0x7f) OR 0x80]\<rparr> (drop_bit 7 v)))"
    unfolding uvarint_bytes_def writer_new_def
    by (subst write_uvarint.simps) (simp add: Let_def)
  then show ?thesis by (simp add: write_uvarint_append)
qed

lemma byte7_low [simp]:
  "ucast (((ucast (v AND 0x7f) :: u8) OR 0x80) AND 0x7f) = take_bit 7 (v :: u64)"
  "ucast ((ucast (v AND 0x7f) :: u8) AND 0x7f) = take_bit 7 (v :: u64)"
  by (rule bit_word_eqI; force simp: bit_simps and_127_take_bit)+

lemma and_0x80_iff: "(b :: u8) AND 0x80 = 0 \<longleftrightarrow> \<not> bit b 7"
  using bit_iff_and_push_bit_not_eq_0 [of b 7] by simp

lemma and_0x40_iff: "(b :: u8) AND 0x40 = 0 \<longleftrightarrow> \<not> bit b 6"
  using bit_iff_and_push_bit_not_eq_0 [of b 6] by simp

lemma bit_0x80 [simp]: "bit (0x80 :: u8) n \<longleftrightarrow> n = 7"
  using bit_exp_iff [of 7 n, where 'a = "8 word"] by auto

lemma byte7_high [simp]:
  "((ucast ((v :: u64) AND 0x7f) :: u8) OR 0x80) AND 0x80 \<noteq> 0"
  "(ucast ((v :: u64) AND 0x7f) :: u8) AND 0x80 = 0"
  by (auto simp: and_0x80_iff bit_simps and_127_take_bit)

lemma join7: "push_bit s (take_bit 7 v) OR push_bit (s + 7) (drop_bit 7 v) = push_bit s (v :: u64)"
proof (rule bit_word_eqI)
  fix n
  assume "n < LENGTH(64)"
  then show "bit (push_bit s (take_bit 7 v) OR push_bit (s + 7) (drop_bit 7 v)) n
      \<longleftrightarrow> bit (push_bit s v) n"
    by (cases "s + 7 \<le> n") (auto simp: bit_simps)
qed

text \<open>The accumulator collects the groups from bit \<open>s\<close> on; a value that fits in the
  bits left never overflows the shift.\<close>

lemma read_uvarint_loop_at:
  "\<lbrakk>at_bytes r (uvarint_bytes v @ rest); s \<le> 63; unat v < 2 ^ (64 - s)\<rbrakk>
   \<Longrightarrow> read_uvarint_loop r acc s = Ok (acc OR push_bit s v, adv r (length (uvarint_bytes v)))"
proof (induction "unat v" arbitrary: v r acc s rule: less_induct)
  case less
  show ?case
  proof (cases "drop_bit 7 v = 0")
    case True
    then have "push_bit s (take_bit 7 v) = push_bit s v"
      using join7 [of s v] by simp
    moreover have "at_bytes r (ucast (v AND 0x7f) # rest)"
      using less.prems(1) True by (subst (asm) uvarint_bytes_rec) simp
    then have "read_u8 r = Ok (ucast (v AND 0x7f), adv r 1)"
      by (simp add: u8f.read_at)
    ultimately show ?thesis
      using True less.prems(2)
      by (subst read_uvarint_loop.simps) (simp add: uvarint_bytes_rec [of v])
  next
    case False
    let ?b = "ucast (v AND 0x7f) OR 0x80 :: u8"
    have enc: "uvarint_bytes v = ?b # uvarint_bytes (drop_bit 7 v)"
      using False by (simp add: uvarint_bytes_rec [of v])
    have at: "at_bytes r (?b # uvarint_bytes (drop_bit 7 v) @ rest)"
      using less.prems(1) enc by simp
    have lt: "unat (drop_bit 7 v) < unat v"
      using False by (intro unat_drop_bit_less) auto
    have dv: "unat (drop_bit 7 v) = unat v div 2 ^ 7"
      by (simp only: unat_drop_bit_eq drop_bit_nat_def)
    then have "unat v div 2 ^ 7 \<noteq> 0"
      using False by (metis unat_eq_zero)
    then have "2 ^ 7 \<le> unat v" by (metis div_less not_less)
    then have "(2::nat) ^ 7 < 2 ^ (64 - s)"
      using less.prems(3) by (rule le_less_trans)
    then have s: "7 < 64 - s" by (rule power_less_imp_less_exp [rotated]) simp
    have "unat v div 2 ^ 7 < 2 ^ (64 - (s + 7))"
    proof -
      have "(2::nat) ^ (64 - s) = 2 ^ (64 - (s + 7) + 7)"
        using s by (intro arg_cong [where f = "(^) 2"]) simp
      then have "unat v < 2 ^ (64 - (s + 7)) * 2 ^ 7"
        using less.prems(3) by (simp only: power_add)
      then show ?thesis by (simp add: less_mult_imp_div_less)
    qed
    then have "read_uvarint_loop (adv r 1) (acc OR push_bit s (take_bit 7 v)) (s + 7)
        = Ok ((acc OR push_bit s (take_bit 7 v)) OR push_bit (s + 7) (drop_bit 7 v),
              adv (adv r 1) (length (uvarint_bytes (drop_bit 7 v))))"
      using lt dv s at_bytes_adv1 [OF at] by (intro less.hyps) simp_all
    moreover have "read_u8 r = Ok (?b, adv r 1)"
      using at by (simp add: u8f.read_at)
    ultimately show ?thesis
      using less.prems(2) enc join7 [of s v]
      by (subst read_uvarint_loop.simps) (simp add: or.assoc)
  qed
qed

interpretation uvf: wire_format read_uvarint uvarint_bytes "\<lambda>_. True" write_uvarint
proof
  show "buf (write_uvarint w v) = buf w @ uvarint_bytes v" for w v
    by (rule write_uvarint_append)
  fix v r rest
  assume "at_bytes r (uvarint_bytes v @ rest)"
  then show "read_uvarint r = Ok (v, adv r (length (uvarint_bytes v)))"
    using read_uvarint_loop_at [of r v rest 0 0] unsigned_less [of v, where 'a = nat]
    by (simp add: read_uvarint_def)
qed


subsection \<open>Signed varints\<close>

definition ivarint_bytes :: "i64 \<Rightarrow> u8 list" where
  "ivarint_bytes v = buf (write_ivarint writer_new v)"

lemma write_ivarint_append: "buf (write_ivarint w v) = buf w @ ivarint_bytes v"
proof -
  have "buf (write_ivarint \<lparr>buf = xs @ ys\<rparr> v) = xs @ buf (write_ivarint \<lparr>buf = ys\<rparr> v)" for xs ys
  proof (induction "\<lparr>buf = ys\<rparr>" v arbitrary: ys rule: write_ivarint.induct)
    case (1 v)
    then show ?case
      by (subst (1 2) write_ivarint.simps) (auto simp: Let_def)
  qed
  from this [of "buf w" "[]"] show ?thesis
    by (cases w) (simp add: ivarint_bytes_def writer_new_def)
qed

lemma ivarint_bytes_rec:
  "ivarint_bytes v =
     (if ivarint_done (signed_drop_bit 7 v) (ucast (v AND 0x7f)) then [ucast (v AND 0x7f)]
      else (ucast (v AND 0x7f) OR 0x80) # ivarint_bytes (signed_drop_bit 7 v))"
proof -
  have "ivarint_bytes v =
     (if ivarint_done (signed_drop_bit 7 v) (ucast (v AND 0x7f)) then [ucast (v AND 0x7f)]
      else buf (write_ivarint \<lparr>buf = [ucast (v AND 0x7f) OR 0x80]\<rparr> (signed_drop_bit 7 v)))"
    unfolding ivarint_bytes_def writer_new_def
    by (subst write_ivarint.simps) (simp add: Let_def)
  then show ?thesis by (simp add: write_ivarint_append)
qed

lemma sjoin7:
  "push_bit s (take_bit 7 v) OR push_bit (s + 7) (signed_drop_bit 7 v) = push_bit s (v :: i64)"
proof (rule bit_word_eqI)
  fix n
  assume "n < LENGTH(64)"
  then show "bit (push_bit s (take_bit 7 v) OR push_bit (s + 7) (signed_drop_bit 7 v)) n
      \<longleftrightarrow> bit (push_bit s v) n"
    by (cases "s + 7 \<le> n") (auto simp: bit_simps bit_signed_drop_bit_iff)
qed

text \<open>When the loop stops, the bits the reader sign-extends are the bits of the value.\<close>

lemma push_bit_ge_64 [simp]: "64 \<le> s \<Longrightarrow> push_bit s (v :: u64) = 0"
  by (rule bit_word_eqI) (simp add: bit_simps)

lemma ivarint_last:
  assumes "ivarint_done (signed_drop_bit 7 v) (ucast (v AND 0x7f))"
  shows "(if s + 7 < 64 \<and> (ucast (v AND 0x7f) :: u8) AND 0x40 \<noteq> 0
          then (acc OR push_bit s (take_bit 7 v)) OR push_bit (s + 7) (-1)
          else acc OR push_bit s (take_bit 7 v)) = acc OR push_bit s (v :: i64)"
proof -
  have d: "signed_drop_bit 7 v = (if (ucast (v AND 0x7f) :: u8) AND 0x40 \<noteq> 0 then -1 else 0)"
    using assms by (auto simp: ivarint_done_def)
  have "push_bit s v = push_bit s (take_bit 7 v) OR push_bit (s + 7) (signed_drop_bit 7 v)"
    by (simp only: sjoin7)
  then show ?thesis unfolding d
    by (auto simp: or.assoc simp del: push_bit_minus_one_eq_not_mask)
qed

lemma sint_sdrop7: "sint (signed_drop_bit 7 (v :: i64)) = sint v div 128"
  by (simp add: sint_signed_drop_bit_eq drop_bit_eq_div)

lemma ivarint_not_done_range:
  assumes "\<not> ivarint_done (signed_drop_bit 7 v) (ucast (v AND 0x7f))"
  shows "sint v < -1 \<or> 0 < sint (v :: i64)"
proof (rule ccontr)
  assume "\<not> ?thesis"
  then have "sint v = 0 \<or> sint v = -1" by auto
  then have "v = 0 \<or> v = -1"
    using signed_word_eqI [of v 0] signed_word_eqI [of v "-1"] by auto
  with assms show False by (auto simp: ivarint_done_def)
qed

lemma read_ivarint_loop_at:
  "\<lbrakk>at_bytes r (ivarint_bytes v @ rest); s \<le> 63; 7 dvd s;
    - (2 ^ (63 - s)) \<le> sint v; sint v < 2 ^ (63 - s)\<rbrakk>
   \<Longrightarrow> read_ivarint_loop r acc s = Ok (acc OR push_bit s v, adv r (length (ivarint_bytes v)))"
proof (induction "nat \<bar>sint v\<bar>" arbitrary: v r acc s rule: less_induct)
  case less
  show ?case
  proof (cases "ivarint_done (signed_drop_bit 7 v) (ucast (v AND 0x7f))")
    case True
    have "at_bytes r (ucast (v AND 0x7f) # rest)"
      using less.prems(1) True by (subst (asm) ivarint_bytes_rec) simp
    then have "read_u8 r = Ok (ucast (v AND 0x7f), adv r 1)"
      by (simp add: u8f.read_at)
    then show ?thesis
      using True less.prems(2) ivarint_last [OF True, of s acc]
      by (subst read_ivarint_loop.simps)
        (auto simp add: ivarint_bytes_rec [of v] Let_def simp del: push_bit_minus_one_eq_not_mask
          split: if_splits)
  next
    case False
    let ?b = "ucast (v AND 0x7f) OR 0x80 :: u8"
    have enc: "ivarint_bytes v = ?b # ivarint_bytes (signed_drop_bit 7 v)"
      using False by (simp add: ivarint_bytes_rec [of v])
    have at: "at_bytes r (?b # ivarint_bytes (signed_drop_bit 7 v) @ rest)"
      using less.prems(1) enc by simp
    have rng: "sint v < -1 \<or> 0 < sint v" by (rule ivarint_not_done_range [OF False])
    then have lt: "nat \<bar>sint (signed_drop_bit 7 v)\<bar> < nat \<bar>sint v\<bar>"
      by (intro sdrop7_abs_less) auto
    have "s \<noteq> 63" using rng less.prems(4,5) by auto
    then have s: "s \<le> 56" using less.prems(2,3) by presburger
    have "(2::int) ^ (63 - s) = 2 ^ (63 - (s + 7)) * 128"
    proof -
      have "(2::int) ^ (63 - s) = 2 ^ (63 - (s + 7) + 7)"
        using s by (intro arg_cong [where f = "(^) 2"]) simp
      then show ?thesis by (simp only: power_add) simp
    qed
    then have "- (2 ^ (63 - (s + 7))) \<le> sint v div 128" "sint v div 128 < 2 ^ (63 - (s + 7))"
      using less.prems(4,5) by linarith+
    then have "read_ivarint_loop (adv r 1) (acc OR push_bit s (take_bit 7 v)) (s + 7)
        = Ok ((acc OR push_bit s (take_bit 7 v)) OR push_bit (s + 7) (signed_drop_bit 7 v),
              adv (adv r 1) (length (ivarint_bytes (signed_drop_bit 7 v))))"
      using lt s less.prems(3) at_bytes_adv1 [OF at]
      by (intro less.hyps) (simp_all add: sint_sdrop7)
    moreover have "read_u8 r = Ok (?b, adv r 1)"
      using at by (simp add: u8f.read_at)
    ultimately show ?thesis
      using less.prems(2) enc sjoin7 [of s v]
      by (subst read_ivarint_loop.simps) (simp add: or.assoc)
  qed
qed


interpretation ivf: wire_format read_ivarint ivarint_bytes "\<lambda>_. True" write_ivarint
proof
  show "buf (write_ivarint w v) = buf w @ ivarint_bytes v" for w v
    by (rule write_ivarint_append)
  fix v r rest
  assume "at_bytes r (ivarint_bytes v @ rest)"
  then show "read_ivarint r = Ok (v, adv r (length (ivarint_bytes v)))"
    using read_ivarint_loop_at [of r v rest 0 0] sint_greater_eq [of v] sint_less [of v]
    by (simp add: read_ivarint_def)
qed

subsection \<open>Fixed-width fields\<close>

lemma bit_fold_or: "bit (fold (OR) ws a) n \<longleftrightarrow> bit (a :: 'a::len word) n \<or> (\<exists>w \<in> set ws. bit w n)"
  by (induction ws arbitrary: a) (auto simp: bit_simps)

lemma bit_u8_less: "bit (b :: u8) k \<Longrightarrow> k < 8"
  using bit_imp_le_length [of b k] by simp

lemma bit_from_le_bytes:
  "bit (from_le_bytes bs :: 'a::len word) n \<longleftrightarrow>
     n < LENGTH('a) \<and> n div 8 < length bs \<and> bit (bs ! (n div 8)) (n mod 8)"
proof -
  have "bit (from_le_bytes bs :: 'a word) n \<longleftrightarrow>
     (\<exists>i < length bs. bit (push_bit (8 * i) (ucast (bs ! i)) :: 'a word) n)"
    by (auto simp: from_le_bytes_def bit_fold_or)
  also have "\<dots> \<longleftrightarrow> (\<exists>i < length bs. n < LENGTH('a) \<and> 8 * i \<le> n \<and> n - 8 * i < 8 \<and> bit (bs ! i) (n - 8 * i))"
    by (auto simp: bit_simps) (metis bit_u8_less)
  also have "\<dots> \<longleftrightarrow> n < LENGTH('a) \<and> n div 8 < length bs \<and> bit (bs ! (n div 8)) (n mod 8)"
  proof -
    have "8 * i \<le> n \<and> n - 8 * i < 8 \<longleftrightarrow> i = n div 8" for i by linarith
    moreover have "n - 8 * (n div 8) = n mod 8" by (simp add: minus_mult_div_eq_mod)
    ultimately show ?thesis by (metis (no_types))
  qed
  finally show ?thesis .
qed

lemma from_le_bytes32 [simp]: "from_le_bytes (le_bytes32 v) = v"
  by (rule bit_word_eqI) (auto simp: bit_from_le_bytes le_bytes32_def bit_simps add.commute)

lemma from_le_bytes64 [simp]: "from_le_bytes (le_bytes64 v) = v"
  by (rule bit_word_eqI) (auto simp: bit_from_le_bytes le_bytes64_def bit_simps add.commute)

lemma length_le_bytes [simp]: "length (le_bytes32 v) = 4" "length (le_bytes64 x) = 8"
  by (simp_all add: le_bytes32_def le_bytes64_def)

interpretation u32f: wire_format read_u32_le le_bytes32 "\<lambda>_. True" write_u32_le
proof
  fix v r rest
  assume "at_bytes r (le_bytes32 v @ rest)"
  from take_n_at [OF this] show "read_u32_le r = Ok (v, adv r (length (le_bytes32 v)))"
    by (simp add: read_u32_le_def)
qed (simp add: write_u32_le_def)

interpretation f64f: wire_format read_f64 le_bytes64 "\<lambda>_. True" write_f64
proof
  fix v r rest
  assume "at_bytes r (le_bytes64 v @ rest)"
  from take_n_at [OF this] show "read_f64 r = Ok (v, adv r (length (le_bytes64 v)))"
    by (simp add: read_f64_def)
qed (simp add: write_f64_def)

subsection \<open>Length-prefixed fields\<close>

definition blob_bytes :: "u8 list \<Rightarrow> u8 list" where
  "blob_bytes data = uvarint_bytes (word_of_nat (length data)) @ data"

definition str_bytes :: "string \<Rightarrow> u8 list" where
  "str_bytes s = blob_bytes (as_bytes s)"

lemma read_bytes_at:
  assumes "length data < 2 ^ 64" and at: "at_bytes r (blob_bytes data @ rest)"
  shows "read_bytes r = Ok (data, adv r (length (blob_bytes data)))"
proof -
  let ?n = "word_of_nat (length data) :: u64"
  have at': "at_bytes r (uvarint_bytes ?n @ data @ rest)"
    using at by (simp add: blob_bytes_def)
  have n: "unat ?n = length data" using assms(1) by (simp add: unat_of_nat)
  have "read_uvarint r = Ok (?n, adv r (length (uvarint_bytes ?n)))"
    using at' by (rule uvf.read_at [OF TrueI])
  moreover have "take_n (adv r (length (uvarint_bytes ?n))) (length data)
      = Ok (data, adv (adv r (length (uvarint_bytes ?n))) (length data))"
    by (rule take_n_at [OF at_bytes_adv [OF at']])
  ultimately show ?thesis by (simp add: read_bytes_def n blob_bytes_def)
qed

interpretation blobf: wire_format read_bytes blob_bytes "\<lambda>d. length d < 2 ^ 64" write_bytes
  by unfold_locales
    (simp_all add: write_bytes_def uvf.write_appends blob_bytes_def read_bytes_at [unfolded blob_bytes_def])

interpretation strf: wire_format read_str str_bytes
  "\<lambda>s. valid_str s \<and> length s < 2 ^ 64" write_str
proof
  fix s r rest
  assume "valid_str s \<and> length s < 2 ^ 64" and "at_bytes r (str_bytes s @ rest)"
  then show "read_str r = Ok (s, adv r (length (str_bytes s)))"
    using blobf.read_at [of "as_bytes s" r rest] by (simp add: read_str_def str_bytes_def)
qed (simp add: write_str_def str_bytes_def blobf.write_appends)

end
