(* ===== verification/Instr.thy ===== *)
theory Instr
  imports Prelude F64
begin

text \<open>
  The in-memory instruction set (\<^verbatim>\<open>runtime/src/instr.rs\<close>). Constructors carry the
  source's names; \<open>Not\<close>, a HOL constant, is \<open>NotBool\<close>.
\<close>

type_synonym slot = u16
type_synonym addr = usize

datatype instr =
    ConstInt i64
  | ConstDouble f64
  | ConstBool bool
  | ConstUnit
  | ConstStr string
  | Load slot
  | Store slot
  | GlobalGet u32
  | GlobalSet u32
  | AddI64
  | SubI64
  | MulI64
  | DivI64
  | ModI64
  | NegI64
  | AndI64
  | OrI64
  | XorI64
  | BNotI64
  | ShlI64
  | ShrI64
  | UShrI64
  | AddF64
  | SubF64
  | MulF64
  | DivF64
  | NegF64
  | EqI64
  | NeI64
  | LtI64
  | LeI64
  | GtI64
  | GeI64
  | EqF64
  | NeF64
  | LtF64
  | LeF64
  | GtF64
  | GeF64
  | NotBool
  | I64ToF64
  | F64ToI64
  | Pop
  | Dup
  | Call u32 u8
  | CallNative u32 u8
  | CallIndirect u8
  | CallVirtual string u8
  | EnumNew u32 u16 u8
  | EnumTag
  | EnumGet u16
  | StructNew u32
  | FieldGet u16
  | FieldSet u16
  | ListNew u32
  | ListGet
  | ListSet
  | ListLen
  | ClosureNew u32 u8
  | Jump addr
  | JumpIfTrue addr
  | JumpIfFalse addr
  | Return

end
