(* ===== verification/Native_Names.thy ===== *)
theory Native_Names
  imports Prelude
begin

text \<open>
  The native function table by name (\<open>NATIVES\<close>, \<open>native_index\<close> and \<open>native_name\<close> of
  \<^verbatim>\<open>runtime/src/interp/natives.rs\<close>). The wire format binds natives by name; the index is
  the interpreter's dispatch slot.
\<close>

definition native_names :: "string list" where
  "native_names = [
    ''println'', ''print'', ''str_concat'', ''list_index'', ''list_get'', ''list_len'',
    ''list_set'', ''map_new'', ''map_index'', ''map_get'', ''map_len'', ''map_has'', ''map_set'',
    ''eq'', ''str_len'', ''str_byte_len'', ''str_trim'', ''str_compare'', ''str_trim_start'',
    ''str_trim_end'', ''str_contains'', ''str_starts_with'', ''str_ends_with'',
    ''str_to_uppercase'', ''str_to_lowercase'', ''str_lines'', ''str_split_whitespace'',
    ''str_split'', ''str_slice'', ''str_chars'', ''str_bytes'', ''str_from_chars'',
    ''str_try_from_chars'', ''int_to_double'', ''double_to_int'', ''double_to_bits'',
    ''math_sqrt'', ''math_pow'', ''math_floor'', ''math_ceil'', ''math_round'', ''math_trunc'',
    ''math_exp'', ''math_ln'', ''math_log10'', ''math_sin'', ''math_cos'', ''math_tan'',
    ''math_asin'', ''math_acos'', ''math_atan'', ''math_atan2'', ''math_hypot'', ''str_to_int'',
    ''str_to_double'', ''fs_read_text'', ''fs_write_text'', ''fs_read_bytes'', ''fs_write_bytes'',
    ''fs_exists'', ''fs_list_dir'', ''fs_read_dir'', ''fs_metadata'', ''fs_symlink_metadata'',
    ''fs_create_dir'', ''fs_create_dir_all'', ''fs_remove'', ''fs_remove_dir_all'', ''fs_rename'',
    ''fs_copy'', ''fs_temp_dir'', ''fs_temp_file'', ''fs_open'', ''fs_create'', ''file_read'',
    ''file_write'', ''file_seek'', ''file_close'', ''time_now_millis'', ''time_monotonic_nanos'',
    ''time_sleep_millis'', ''random_seed_entropy'', ''env_get'', ''env_set'', ''env_vars'',
    ''env_args'', ''env_current_dir'', ''env_current_exe'', ''env_set_current_dir'', ''env_os'',
    ''env_exit'', ''term_is_tty'', ''term_size'', ''map_keys'', ''map_values'', ''map_remove'',
    ''map_clear'', ''list_join'', ''list_push'', ''list_pop'', ''list_clear'', ''process_run'',
    ''process_exec'', ''process_start'', ''process_wait'', ''process_kill'',
    ''process_stdin_write'', ''process_stdin_close'', ''process_stdout_read'',
    ''process_stderr_read'', ''bytes_len'', ''bytes_get'', ''bytes_slice'', ''bytes_concat'',
    ''bytes_to_string'', ''bytes_to_list'', ''bytes_empty'', ''bytes_from_list'',
    ''bytesbuilder_new'', ''bytesbuilder_write_u8'', ''bytesbuilder_write_bytes'',
    ''bytesbuilder_write_str'', ''bytesbuilder_len'', ''bytesbuilder_finish'', ''io_stdin_read'',
    ''io_stdout_write'', ''io_stderr_write'', ''eprintln'', ''eprint'', ''int_to_string'',
    ''double_to_string'', ''bool_to_string'', ''str_identity'', ''string_debug'', ''bytes_debug'',
    ''test_capture_begin'', ''test_capture_end'', ''fiber_spawn'', ''fiber_join'',
    ''fiber_yield'', ''channel_new'', ''channel_send'', ''channel_receive'', ''channel_close'',
    ''hash_sha256'', ''hash_sha1'', ''hash_md5'', ''hash_crc32'', ''str_byte_slice'',
    ''regex_compile'', ''regex_is_match'', ''regex_find'', ''regex_find_all'', ''regex_captures'',
    ''regex_replace'', ''regex_replace_all'', ''socket_listen'', ''socket_accept'',
    ''socket_connect'', ''socket_connect_finish'', ''socket_read'', ''socket_write'',
    ''socket_close'', ''socket_local_addr'', ''socket_peer_addr'', ''socket_resolve'',
    ''socket_is_ready'', ''fiber_is_done'', ''chan_is_ready'', ''select_park'', ''tls_connect'',
    ''tls_accept'', ''tls_handshake'', ''tls_read'', ''tls_write'', ''tls_close'']"

text \<open>\<open>iter().position(..)\<close>: the first index whose element satisfies the predicate.\<close>

fun position :: "('a \<Rightarrow> bool) \<Rightarrow> 'a list \<Rightarrow> nat option" where
  "position P [] = None"
| "position P (x # xs) = (if P x then Some 0 else map_option Suc (position P xs))"

definition native_index :: "string \<Rightarrow> u32 option" where
  "native_index name = map_option word_of_nat (position (\<lambda>n. n = name) native_names)"

definition native_name :: "u32 \<Rightarrow> string option" where
  "native_name i = get_nth native_names (unat i)"

lemma position_Some:
  "position P xs = Some i \<longleftrightarrow> i < length xs \<and> P (xs ! i) \<and> (\<forall>j<i. \<not> P (xs ! j))"
proof (induction xs arbitrary: i)
  case (Cons x xs)
  then show ?case by (cases i) (auto simp: less_Suc_eq_0_disj)
qed simp

lemma position_None: "position P xs = None \<longleftrightarrow> (\<forall>x\<in>set xs. \<not> P x)"
  by (induction xs) auto

lemma position_distinct:
  assumes "distinct xs" "i < length xs"
  shows "position (\<lambda>n. n = xs ! i) xs = Some i"
  using assms by (auto simp: position_Some nth_eq_iff_index_eq)

text \<open>Distinctness by classes of a key, which keeps the comparison count low.\<close>

lemma distinct_by_key: "(\<And>k. distinct (filter (\<lambda>x. f x = k) xs)) \<Longrightarrow> distinct xs"
proof (induction xs)
  case (Cons x xs)
  have "x \<notin> set xs" using Cons.prems [of "f x"] by simp
  moreover have "distinct (filter (\<lambda>y. f y = k) xs)" for k
    using Cons.prems [of k] by (simp split: if_splits)
  ultimately show ?case using Cons.IH by simp
qed simp

lemma native_names_classes:
  "list_all (\<lambda>c. distinct (filter (\<lambda>x. hd x = c) native_names)) ''bcdefhilmprst''"
  "list_all (\<lambda>x. hd x \<in> set ''bcdefhilmprst'') native_names"
  by code_simp+

lemma native_names_distinct: "distinct native_names"
proof (rule distinct_by_key)
  fix c
  show "distinct (filter (\<lambda>x. hd x = c) native_names)"
  proof (cases "c \<in> set ''bcdefhilmprst''")
    case True
    then show ?thesis using native_names_classes(1) unfolding list_all_iff by blast
  next
    case False
    then have "filter (\<lambda>x. hd x = c) native_names = []"
      using native_names_classes(2) unfolding list_all_iff filter_empty_conv by blast
    then show ?thesis by simp
  qed
qed

lemma native_names_length: "length native_names = 176"
  by (simp add: native_names_def)

end
