(* ===== verification/Module.thy ===== *)
theory Module
  imports Instr Native_Names
begin

text \<open>
  Compiled programs (\<^verbatim>\<open>runtime/src/module.rs\<close>): functions, type and enum tables and the
  dispatch table with its per-type index. The index is private in the source and written
  only by \<open>set_dispatch\<close>; \<open>dispatch_synced\<close> states that invariant, and a lookup through the
  index is shown to be the first match of a scan of the whole table.
\<close>

section \<open>Tables\<close>

record func =
  func_name :: string
  param_count :: u16
  local_count :: u16
  code :: "instr list"

record type_def =
  type_name :: string
  field_count :: u16
  field_names :: "string list"

record enumdef =
  enumdef_ty :: u32
  enumdef_name :: string
  variants :: "string list"

record dispatch_entry =
  disp_ty :: u32
  selector :: string
  disp_func :: u32

record module =
  mod_functions :: "func list"
  types :: "type_def list"
  enums :: "enumdef list"
  dispatch :: "dispatch_entry list"
  dispatch_index :: "u32 \<rightharpoonup> u32 list"
  global_count :: u32
  mod_entry :: "u32 option"
  mod_init :: "u32 option"

definition function_new :: "string \<Rightarrow> u16 \<Rightarrow> u16 \<Rightarrow> instr list \<Rightarrow> func" where
  "function_new name params locals c =
     \<lparr>func_name = name, param_count = params, local_count = locals, code = c\<rparr>"

definition typedef_new :: "string \<Rightarrow> u16 \<Rightarrow> type_def" where
  "typedef_new name n = \<lparr>type_name = name, field_count = n, field_names = []\<rparr>"

definition typedef_named :: "string \<Rightarrow> string list \<Rightarrow> type_def" where
  "typedef_named name names =
     \<lparr>type_name = name, field_count = word_of_nat (length names), field_names = names\<rparr>"

definition enumdef_new :: "u32 \<Rightarrow> string \<Rightarrow> string list \<Rightarrow> enumdef" where
  "enumdef_new ty name vs = \<lparr>enumdef_ty = ty, enumdef_name = name, variants = vs\<rparr>"

definition dispatch_entry_new :: "u32 \<Rightarrow> string \<Rightarrow> u32 \<Rightarrow> dispatch_entry" where
  "dispatch_entry_new ty sel f = \<lparr>disp_ty = ty, selector = sel, disp_func = f\<rparr>"

definition ENUM_DISPATCH_BASE :: u32 where "ENUM_DISPATCH_BASE = push_bit 31 1"

definition module_new :: "func list \<Rightarrow> module" where
  "module_new fs = \<lparr>mod_functions = fs, types = [], enums = [], dispatch = [],
     dispatch_index = Map.empty, global_count = 0, mod_entry = None, mod_init = None\<rparr>"

definition module_with_types :: "func list \<Rightarrow> type_def list \<Rightarrow> module" where
  "module_with_types fs ts = \<lparr>mod_functions = fs, types = ts, enums = [], dispatch = [],
     dispatch_index = Map.empty, global_count = 0, mod_entry = None, mod_init = None\<rparr>"

section \<open>Lookups\<close>

definition enum_def :: "module \<Rightarrow> u32 \<Rightarrow> enumdef option" where
  "enum_def m ty = find (\<lambda>e. enumdef_ty e = ty) (enums m)"

definition function_index :: "module \<Rightarrow> string \<Rightarrow> usize option" where
  "function_index m name = position (\<lambda>f. func_name f = name) (mod_functions m)"

definition entry_index :: "module \<Rightarrow> usize option" where
  "entry_index m =
     (case mod_entry m of Some i \<Rightarrow> Some (unat i) | None \<Rightarrow> function_index m ''main'')"

definition init_index :: "module \<Rightarrow> usize option" where
  "init_index m =
     (case mod_init m of Some i \<Rightarrow> Some (unat i) | None \<Rightarrow> function_index m ''<init>'')"

section \<open>Dispatch\<close>

text \<open>\<open>index.entry(ty).or_default().push(i)\<close> for each row, in order.\<close>

fun index_rows :: "nat \<Rightarrow> dispatch_entry list \<Rightarrow> (u32 \<rightharpoonup> u32 list) \<Rightarrow> (u32 \<rightharpoonup> u32 list)" where
  "index_rows i [] ix = ix"
| "index_rows i (e # es) ix =
     index_rows (Suc i) es
       (ix(disp_ty e \<mapsto> (case ix (disp_ty e) of None \<Rightarrow> [] | Some js \<Rightarrow> js) @ [word_of_nat i]))"

definition set_dispatch :: "module \<Rightarrow> dispatch_entry list \<Rightarrow> module" where
  "set_dispatch m rows =
     m\<lparr>dispatch_index := index_rows 0 rows Map.empty, dispatch := rows\<rparr>"

definition dispatch_rows :: "module \<Rightarrow> dispatch_entry list" where
  "dispatch_rows m = dispatch m"

fun find_map :: "('a \<Rightarrow> 'b option) \<Rightarrow> 'a list \<Rightarrow> 'b option" where
  "find_map f [] = None"
| "find_map f (x # xs) = (case f x of Some y \<Rightarrow> Some y | None \<Rightarrow> find_map f xs)"

definition dispatch_target :: "module \<Rightarrow> u32 \<Rightarrow> string \<Rightarrow> u32 option" where
  "dispatch_target m ty sel =
     Option.bind (dispatch_index m ty)
       (find_map (\<lambda>i. let e = dispatch m ! unat i
                      in if selector e = sel then Some (disp_func e) else None))"

text \<open>The table's own meaning: the first row for the type and the selector.\<close>

definition table_target :: "dispatch_entry list \<Rightarrow> u32 \<Rightarrow> string \<Rightarrow> u32 option" where
  "table_target rows ty sel =
     map_option disp_func (find (\<lambda>e. disp_ty e = ty \<and> selector e = sel) rows)"

definition dispatch_synced :: "module \<Rightarrow> bool" where
  "dispatch_synced m \<longleftrightarrow> dispatch_index m = index_rows 0 (dispatch m) Map.empty"

lemma find_map_append:
  "find_map f (xs @ ys) = (case find_map f xs of Some y \<Rightarrow> Some y | None \<Rightarrow> find_map f ys)"
  by (induction xs) (auto split: option.splits)

text \<open>The rows of one type, through the index.\<close>

abbreviation type_rows :: "(u32 \<rightharpoonup> u32 list) \<Rightarrow> u32 \<Rightarrow> u32 list" where
  "type_rows ix ty \<equiv> (case ix ty of None \<Rightarrow> [] | Some js \<Rightarrow> js)"

abbreviation row_match :: "dispatch_entry list \<Rightarrow> string \<Rightarrow> u32 \<Rightarrow> u32 option" where
  "row_match rows sel i \<equiv>
     (let e = rows ! unat i in if selector e = sel then Some (disp_func e) else None)"

lemma table_target_snoc:
  "table_target (rows @ [e]) ty sel =
     (case table_target rows ty sel of
        Some f \<Rightarrow> Some f
      | None \<Rightarrow> if disp_ty e = ty \<and> selector e = sel then Some (disp_func e) else None)"
  by (induction rows) (auto simp: table_target_def)

lemma index_rows_target:
  assumes "length (pre @ es) \<le> 2 ^ 32"
    and "\<And>ty. find_map (row_match (pre @ es) sel) (type_rows ix ty) = table_target pre ty sel"
  shows "find_map (row_match (pre @ es) sel) (type_rows (index_rows (length pre) es ix) ty) =
    table_target (pre @ es) ty sel"
  using assms
proof (induction es arbitrary: pre ix)
  case (Cons e es)
  let ?i = "word_of_nat (length pre) :: u32"
  let ?ix = "ix(disp_ty e \<mapsto> type_rows ix (disp_ty e) @ [?i])"
  have "unat ?i = length pre"
    using Cons.prems(1) by (simp add: unsigned_of_nat take_bit_nat_eq_self)
  then have row: "(pre @ e # es) ! unat ?i = e" by simp
  have step: "find_map (row_match (pre @ e # es) sel) (type_rows ?ix t) = table_target (pre @ [e]) t sel" for t
    using Cons.prems(2) [of t] row
    by (auto simp: find_map_append table_target_snoc split: option.splits)
  have "find_map (row_match ((pre @ [e]) @ es) sel)
      (type_rows (index_rows (length (pre @ [e])) es ?ix) ty) = table_target ((pre @ [e]) @ es) ty sel"
    using Cons.prems(1) step by (intro Cons.IH) simp_all
  then show ?case by simp
qed simp

lemma dispatch_target_table:
  assumes "dispatch_synced m" "length (dispatch m) \<le> 2 ^ 32"
  shows "dispatch_target m ty sel = table_target (dispatch m) ty sel"
proof -
  have "dispatch_target m ty sel =
      find_map (row_match (dispatch m) sel) (type_rows (index_rows 0 (dispatch m) Map.empty) ty)"
    using assms(1) by (cases "dispatch_index m ty") (auto simp: dispatch_target_def dispatch_synced_def)
  also have "\<dots> = table_target (dispatch m) ty sel"
    using index_rows_target [of "[]" "dispatch m" sel Map.empty ty] assms(2)
    by (simp add: table_target_def)
  finally show ?thesis .
qed

lemma set_dispatch_synced: "dispatch_synced (set_dispatch m rows)"
  by (simp add: dispatch_synced_def set_dispatch_def)

end
