(* ===== verification/Codec.thy ===== *)
theory Codec
  imports Wire Module
begin

text \<open>
  The instruction codec (\<^verbatim>\<open>runtime/src/codec.rs\<close>): opcode and section tags, the string
  pool, \<open>encode_instr\<close> and \<open>decode_instr\<close>. An encoder that would panic (a string missing
  from the pool, a native index outside the table) has no result. Every instruction the
  encoder accepts is read back by the decoder.
\<close>

section \<open>Tags\<close>

definition OP_CONST_INT :: u8 where "OP_CONST_INT = 1"
definition OP_CONST_DOUBLE :: u8 where "OP_CONST_DOUBLE = 2"
definition OP_CONST_BOOL :: u8 where "OP_CONST_BOOL = 3"
definition OP_CONST_UNIT :: u8 where "OP_CONST_UNIT = 4"
definition OP_CONST_STR :: u8 where "OP_CONST_STR = 5"
definition OP_LOAD :: u8 where "OP_LOAD = 6"
definition OP_STORE :: u8 where "OP_STORE = 7"
definition OP_ADD_I64 :: u8 where "OP_ADD_I64 = 8"
definition OP_SUB_I64 :: u8 where "OP_SUB_I64 = 9"
definition OP_MUL_I64 :: u8 where "OP_MUL_I64 = 10"
definition OP_DIV_I64 :: u8 where "OP_DIV_I64 = 11"
definition OP_MOD_I64 :: u8 where "OP_MOD_I64 = 12"
definition OP_NEG_I64 :: u8 where "OP_NEG_I64 = 13"
definition OP_ADD_F64 :: u8 where "OP_ADD_F64 = 14"
definition OP_SUB_F64 :: u8 where "OP_SUB_F64 = 15"
definition OP_MUL_F64 :: u8 where "OP_MUL_F64 = 16"
definition OP_DIV_F64 :: u8 where "OP_DIV_F64 = 17"
definition OP_NEG_F64 :: u8 where "OP_NEG_F64 = 18"
definition OP_EQ_I64 :: u8 where "OP_EQ_I64 = 19"
definition OP_NE_I64 :: u8 where "OP_NE_I64 = 20"
definition OP_LT_I64 :: u8 where "OP_LT_I64 = 21"
definition OP_LE_I64 :: u8 where "OP_LE_I64 = 22"
definition OP_GT_I64 :: u8 where "OP_GT_I64 = 23"
definition OP_GE_I64 :: u8 where "OP_GE_I64 = 24"
definition OP_EQ_F64 :: u8 where "OP_EQ_F64 = 25"
definition OP_NE_F64 :: u8 where "OP_NE_F64 = 26"
definition OP_LT_F64 :: u8 where "OP_LT_F64 = 27"
definition OP_LE_F64 :: u8 where "OP_LE_F64 = 28"
definition OP_GT_F64 :: u8 where "OP_GT_F64 = 29"
definition OP_GE_F64 :: u8 where "OP_GE_F64 = 30"
definition OP_NOT :: u8 where "OP_NOT = 31"
definition OP_I64_TO_F64 :: u8 where "OP_I64_TO_F64 = 32"
definition OP_F64_TO_I64 :: u8 where "OP_F64_TO_I64 = 33"
definition OP_POP :: u8 where "OP_POP = 34"
definition OP_DUP :: u8 where "OP_DUP = 35"
definition OP_CALL :: u8 where "OP_CALL = 36"
definition OP_CALL_NATIVE :: u8 where "OP_CALL_NATIVE = 37"
definition OP_ENUM_NEW :: u8 where "OP_ENUM_NEW = 38"
definition OP_ENUM_TAG :: u8 where "OP_ENUM_TAG = 39"
definition OP_ENUM_GET :: u8 where "OP_ENUM_GET = 40"
definition OP_LIST_NEW :: u8 where "OP_LIST_NEW = 41"
definition OP_JUMP :: u8 where "OP_JUMP = 42"
definition OP_JUMP_IF_TRUE :: u8 where "OP_JUMP_IF_TRUE = 43"
definition OP_JUMP_IF_FALSE :: u8 where "OP_JUMP_IF_FALSE = 44"
definition OP_RETURN :: u8 where "OP_RETURN = 45"
definition OP_STRUCT_NEW :: u8 where "OP_STRUCT_NEW = 46"
definition OP_FIELD_GET :: u8 where "OP_FIELD_GET = 47"
definition OP_FIELD_SET :: u8 where "OP_FIELD_SET = 48"
definition OP_CLOSURE_NEW :: u8 where "OP_CLOSURE_NEW = 49"
definition OP_CALL_INDIRECT :: u8 where "OP_CALL_INDIRECT = 50"
definition OP_CALL_VIRTUAL :: u8 where "OP_CALL_VIRTUAL = 51"
definition OP_LIST_GET :: u8 where "OP_LIST_GET = 52"
definition OP_LIST_SET :: u8 where "OP_LIST_SET = 53"
definition OP_AND_I64 :: u8 where "OP_AND_I64 = 54"
definition OP_OR_I64 :: u8 where "OP_OR_I64 = 55"
definition OP_XOR_I64 :: u8 where "OP_XOR_I64 = 56"
definition OP_BNOT_I64 :: u8 where "OP_BNOT_I64 = 57"
definition OP_SHL_I64 :: u8 where "OP_SHL_I64 = 58"
definition OP_SHR_I64 :: u8 where "OP_SHR_I64 = 59"
definition OP_USHR_I64 :: u8 where "OP_USHR_I64 = 60"
definition OP_LIST_LEN :: u8 where "OP_LIST_LEN = 61"
definition OP_GLOBAL_GET :: u8 where "OP_GLOBAL_GET = 62"
definition OP_GLOBAL_SET :: u8 where "OP_GLOBAL_SET = 63"

lemmas op_defs =
  OP_CONST_INT_def OP_CONST_DOUBLE_def OP_CONST_BOOL_def OP_CONST_UNIT_def OP_CONST_STR_def
  OP_LOAD_def OP_STORE_def OP_ADD_I64_def OP_SUB_I64_def OP_MUL_I64_def
  OP_DIV_I64_def OP_MOD_I64_def OP_NEG_I64_def OP_ADD_F64_def OP_SUB_F64_def
  OP_MUL_F64_def OP_DIV_F64_def OP_NEG_F64_def OP_EQ_I64_def OP_NE_I64_def
  OP_LT_I64_def OP_LE_I64_def OP_GT_I64_def OP_GE_I64_def OP_EQ_F64_def
  OP_NE_F64_def OP_LT_F64_def OP_LE_F64_def OP_GT_F64_def OP_GE_F64_def
  OP_NOT_def OP_I64_TO_F64_def OP_F64_TO_I64_def OP_POP_def OP_DUP_def
  OP_CALL_def OP_CALL_NATIVE_def OP_ENUM_NEW_def OP_ENUM_TAG_def OP_ENUM_GET_def
  OP_LIST_NEW_def OP_JUMP_def OP_JUMP_IF_TRUE_def OP_JUMP_IF_FALSE_def OP_RETURN_def
  OP_STRUCT_NEW_def OP_FIELD_GET_def OP_FIELD_SET_def OP_CLOSURE_NEW_def OP_CALL_INDIRECT_def
  OP_CALL_VIRTUAL_def OP_LIST_GET_def OP_LIST_SET_def OP_AND_I64_def OP_OR_I64_def
  OP_XOR_I64_def OP_BNOT_I64_def OP_SHL_I64_def OP_SHR_I64_def OP_USHR_I64_def
  OP_LIST_LEN_def OP_GLOBAL_GET_def OP_GLOBAL_SET_def

definition SECTION_FUNCTIONS :: u8 where "SECTION_FUNCTIONS = 1"
definition SECTION_CONSTANTS :: u8 where "SECTION_CONSTANTS = 2"
definition SECTION_TYPES :: u8 where "SECTION_TYPES = 3"
definition SECTION_DISPATCH :: u8 where "SECTION_DISPATCH = 4"
definition SECTION_GLOBALS :: u8 where "SECTION_GLOBALS = 5"
definition SECTION_ENTRY :: u8 where "SECTION_ENTRY = 6"
definition SECTION_SYMBOLS :: u8 where "SECTION_SYMBOLS = 7"
definition SECTION_ENUMS :: u8 where "SECTION_ENUMS = 8"

lemmas section_defs =
  SECTION_FUNCTIONS_def SECTION_CONSTANTS_def SECTION_TYPES_def SECTION_DISPATCH_def
  SECTION_GLOBALS_def SECTION_ENTRY_def SECTION_SYMBOLS_def SECTION_ENUMS_def

definition MAGIC :: "u8 list" where "MAGIC = as_bytes ''THERA''"
definition VERSION :: u32 where "VERSION = 3"
definition SUPPORTED_VERSIONS :: "u32 list" where "SUPPORTED_VERSIONS = [2, 3]"

section \<open>String pool\<close>

record string_pool =
  strings :: "string list"
  pool_index :: "string \<rightharpoonup> u32"

definition pool_default :: string_pool where
  "pool_default = \<lparr>strings = [], pool_index = Map.empty\<rparr>"

definition pool_intern :: "string_pool \<Rightarrow> string \<Rightarrow> u32 \<times> string_pool" where
  "pool_intern p s =
     (case pool_index p s of
        Some i \<Rightarrow> (i, p)
      | None \<Rightarrow>
          (let i = word_of_nat (length (strings p))
           in (i, p\<lparr>strings := strings p @ [s], pool_index := (pool_index p)(s \<mapsto> i)\<rparr>)))"

definition intern_all :: "string list \<Rightarrow> string_pool \<Rightarrow> string_pool" where
  "intern_all ss p = fold (\<lambda>s p. snd (pool_intern p s)) ss p"

section \<open>Instructions\<close>

text \<open>\<open>pool.index[s]\<close> panics when \<open>s\<close> is not interned.\<close>

definition write_pooled :: "writer \<Rightarrow> string_pool \<Rightarrow> string \<Rightarrow> writer option" where
  "write_pooled w pool s = map_option (\<lambda>k. write_uvarint w (ucast k)) (pool_index pool s)"

fun encode_instr :: "writer \<Rightarrow> instr \<Rightarrow> string_pool \<Rightarrow> writer option" where
  "encode_instr w (ConstInt n) pool = Some (write_ivarint (write_u8 w OP_CONST_INT) n)"
| "encode_instr w (ConstDouble x) pool = Some (write_f64 (write_u8 w OP_CONST_DOUBLE) x)"
| "encode_instr w (ConstBool b) pool =
     Some (write_u8 (write_u8 w OP_CONST_BOOL) (if b then 1 else 0))"
| "encode_instr w ConstUnit pool = Some (write_u8 w OP_CONST_UNIT)"
| "encode_instr w (ConstStr s) pool = write_pooled (write_u8 w OP_CONST_STR) pool s"
| "encode_instr w (Load a) pool = Some (write_uvarint (write_u8 w OP_LOAD) (ucast a))"
| "encode_instr w (Store a) pool = Some (write_uvarint (write_u8 w OP_STORE) (ucast a))"
| "encode_instr w (GlobalGet a) pool = Some (write_uvarint (write_u8 w OP_GLOBAL_GET) (ucast a))"
| "encode_instr w (GlobalSet a) pool = Some (write_uvarint (write_u8 w OP_GLOBAL_SET) (ucast a))"
| "encode_instr w AddI64 pool = Some (write_u8 w OP_ADD_I64)"
| "encode_instr w SubI64 pool = Some (write_u8 w OP_SUB_I64)"
| "encode_instr w MulI64 pool = Some (write_u8 w OP_MUL_I64)"
| "encode_instr w DivI64 pool = Some (write_u8 w OP_DIV_I64)"
| "encode_instr w ModI64 pool = Some (write_u8 w OP_MOD_I64)"
| "encode_instr w NegI64 pool = Some (write_u8 w OP_NEG_I64)"
| "encode_instr w AndI64 pool = Some (write_u8 w OP_AND_I64)"
| "encode_instr w OrI64 pool = Some (write_u8 w OP_OR_I64)"
| "encode_instr w XorI64 pool = Some (write_u8 w OP_XOR_I64)"
| "encode_instr w BNotI64 pool = Some (write_u8 w OP_BNOT_I64)"
| "encode_instr w ShlI64 pool = Some (write_u8 w OP_SHL_I64)"
| "encode_instr w ShrI64 pool = Some (write_u8 w OP_SHR_I64)"
| "encode_instr w UShrI64 pool = Some (write_u8 w OP_USHR_I64)"
| "encode_instr w AddF64 pool = Some (write_u8 w OP_ADD_F64)"
| "encode_instr w SubF64 pool = Some (write_u8 w OP_SUB_F64)"
| "encode_instr w MulF64 pool = Some (write_u8 w OP_MUL_F64)"
| "encode_instr w DivF64 pool = Some (write_u8 w OP_DIV_F64)"
| "encode_instr w NegF64 pool = Some (write_u8 w OP_NEG_F64)"
| "encode_instr w EqI64 pool = Some (write_u8 w OP_EQ_I64)"
| "encode_instr w NeI64 pool = Some (write_u8 w OP_NE_I64)"
| "encode_instr w LtI64 pool = Some (write_u8 w OP_LT_I64)"
| "encode_instr w LeI64 pool = Some (write_u8 w OP_LE_I64)"
| "encode_instr w GtI64 pool = Some (write_u8 w OP_GT_I64)"
| "encode_instr w GeI64 pool = Some (write_u8 w OP_GE_I64)"
| "encode_instr w EqF64 pool = Some (write_u8 w OP_EQ_F64)"
| "encode_instr w NeF64 pool = Some (write_u8 w OP_NE_F64)"
| "encode_instr w LtF64 pool = Some (write_u8 w OP_LT_F64)"
| "encode_instr w LeF64 pool = Some (write_u8 w OP_LE_F64)"
| "encode_instr w GtF64 pool = Some (write_u8 w OP_GT_F64)"
| "encode_instr w GeF64 pool = Some (write_u8 w OP_GE_F64)"
| "encode_instr w NotBool pool = Some (write_u8 w OP_NOT)"
| "encode_instr w I64ToF64 pool = Some (write_u8 w OP_I64_TO_F64)"
| "encode_instr w F64ToI64 pool = Some (write_u8 w OP_F64_TO_I64)"
| "encode_instr w Pop pool = Some (write_u8 w OP_POP)"
| "encode_instr w Dup pool = Some (write_u8 w OP_DUP)"
| "encode_instr w (Call a b) pool =
     Some (write_uvarint (write_uvarint (write_u8 w OP_CALL) (ucast a)) (ucast b))"
| "encode_instr w (CallNative native argc) pool =
     (case native_name native of
        None \<Rightarrow> None
      | Some name \<Rightarrow>
          map_option (\<lambda>w'. write_uvarint w' (ucast argc))
            (write_pooled (write_u8 w OP_CALL_NATIVE) pool name))"
| "encode_instr w (EnumNew a b c) pool =
     Some (write_uvarint (write_uvarint (write_uvarint (write_u8 w OP_ENUM_NEW) (ucast a)) (ucast b)) (ucast c))"
| "encode_instr w EnumTag pool = Some (write_u8 w OP_ENUM_TAG)"
| "encode_instr w (EnumGet a) pool = Some (write_uvarint (write_u8 w OP_ENUM_GET) (ucast a))"
| "encode_instr w (StructNew a) pool = Some (write_uvarint (write_u8 w OP_STRUCT_NEW) (ucast a))"
| "encode_instr w (FieldGet a) pool = Some (write_uvarint (write_u8 w OP_FIELD_GET) (ucast a))"
| "encode_instr w (FieldSet a) pool = Some (write_uvarint (write_u8 w OP_FIELD_SET) (ucast a))"
| "encode_instr w (ListNew a) pool = Some (write_uvarint (write_u8 w OP_LIST_NEW) (ucast a))"
| "encode_instr w ListGet pool = Some (write_u8 w OP_LIST_GET)"
| "encode_instr w ListSet pool = Some (write_u8 w OP_LIST_SET)"
| "encode_instr w ListLen pool = Some (write_u8 w OP_LIST_LEN)"
| "encode_instr w (ClosureNew a b) pool =
     Some (write_uvarint (write_uvarint (write_u8 w OP_CLOSURE_NEW) (ucast a)) (ucast b))"
| "encode_instr w (CallIndirect a) pool =
     Some (write_uvarint (write_u8 w OP_CALL_INDIRECT) (ucast a))"
| "encode_instr w (CallVirtual sel argc) pool =
     map_option (\<lambda>w'. write_uvarint w' (ucast argc))
       (write_pooled (write_u8 w OP_CALL_VIRTUAL) pool sel)"
| "encode_instr w (Jump t) pool = Some (write_uvarint (write_u8 w OP_JUMP) (word_of_nat t))"
| "encode_instr w (JumpIfTrue t) pool =
     Some (write_uvarint (write_u8 w OP_JUMP_IF_TRUE) (word_of_nat t))"
| "encode_instr w (JumpIfFalse t) pool =
     Some (write_uvarint (write_u8 w OP_JUMP_IF_FALSE) (word_of_nat t))"
| "encode_instr w Return pool = Some (write_u8 w OP_RETURN)"

text \<open>\<open>r.read_uvarint()? as T\<close> followed by the rest of the arm.\<close>

definition read_uv :: "reader \<Rightarrow> (u64 \<Rightarrow> reader \<Rightarrow> decode_error + 'a) \<Rightarrow> decode_error + 'a" where
  "read_uv r k = rbind (read_uvarint r) (\<lambda>(v, r'). k v r')"

definition pool_get :: "string list \<Rightarrow> u64 \<Rightarrow> decode_error + string" where
  "pool_get pool idx = ok_or ConstIndexOutOfRange (get_nth pool (unat idx))"

definition decode_op :: "u8 \<Rightarrow> reader \<Rightarrow> string list \<Rightarrow> decode_error + instr \<times> reader" where
  "decode_op opcode r pool =
     (if opcode = OP_CONST_INT then rbind (read_ivarint r) (\<lambda>(n, r). Ok (ConstInt n, r))
      else if opcode = OP_CONST_DOUBLE
      then rbind (read_f64 r) (\<lambda>(x, r). Ok (ConstDouble x, r))
      else if opcode = OP_CONST_BOOL
      then rbind (read_u8 r) (\<lambda>(b, r). Ok (ConstBool (b \<noteq> 0), r))
      else if opcode = OP_CONST_UNIT then Ok (ConstUnit, r)
      else if opcode = OP_CONST_STR
      then read_uv r (\<lambda>idx r. rbind (pool_get pool idx) (\<lambda>s. Ok (ConstStr s, r)))
      else if opcode = OP_LOAD then read_uv r (\<lambda>a r. Ok (Load (ucast a), r))
      else if opcode = OP_STORE then read_uv r (\<lambda>a r. Ok (Store (ucast a), r))
      else if opcode = OP_GLOBAL_GET then read_uv r (\<lambda>a r. Ok (GlobalGet (ucast a), r))
      else if opcode = OP_GLOBAL_SET then read_uv r (\<lambda>a r. Ok (GlobalSet (ucast a), r))
      else if opcode = OP_ADD_I64 then Ok (AddI64, r)
      else if opcode = OP_SUB_I64 then Ok (SubI64, r)
      else if opcode = OP_MUL_I64 then Ok (MulI64, r)
      else if opcode = OP_DIV_I64 then Ok (DivI64, r)
      else if opcode = OP_MOD_I64 then Ok (ModI64, r)
      else if opcode = OP_NEG_I64 then Ok (NegI64, r)
      else if opcode = OP_AND_I64 then Ok (AndI64, r)
      else if opcode = OP_OR_I64 then Ok (OrI64, r)
      else if opcode = OP_XOR_I64 then Ok (XorI64, r)
      else if opcode = OP_BNOT_I64 then Ok (BNotI64, r)
      else if opcode = OP_SHL_I64 then Ok (ShlI64, r)
      else if opcode = OP_SHR_I64 then Ok (ShrI64, r)
      else if opcode = OP_USHR_I64 then Ok (UShrI64, r)
      else if opcode = OP_ADD_F64 then Ok (AddF64, r)
      else if opcode = OP_SUB_F64 then Ok (SubF64, r)
      else if opcode = OP_MUL_F64 then Ok (MulF64, r)
      else if opcode = OP_DIV_F64 then Ok (DivF64, r)
      else if opcode = OP_NEG_F64 then Ok (NegF64, r)
      else if opcode = OP_EQ_I64 then Ok (EqI64, r)
      else if opcode = OP_NE_I64 then Ok (NeI64, r)
      else if opcode = OP_LT_I64 then Ok (LtI64, r)
      else if opcode = OP_LE_I64 then Ok (LeI64, r)
      else if opcode = OP_GT_I64 then Ok (GtI64, r)
      else if opcode = OP_GE_I64 then Ok (GeI64, r)
      else if opcode = OP_EQ_F64 then Ok (EqF64, r)
      else if opcode = OP_NE_F64 then Ok (NeF64, r)
      else if opcode = OP_LT_F64 then Ok (LtF64, r)
      else if opcode = OP_LE_F64 then Ok (LeF64, r)
      else if opcode = OP_GT_F64 then Ok (GtF64, r)
      else if opcode = OP_GE_F64 then Ok (GeF64, r)
      else if opcode = OP_NOT then Ok (NotBool, r)
      else if opcode = OP_I64_TO_F64 then Ok (I64ToF64, r)
      else if opcode = OP_F64_TO_I64 then Ok (F64ToI64, r)
      else if opcode = OP_POP then Ok (Pop, r)
      else if opcode = OP_DUP then Ok (Dup, r)
      else if opcode = OP_CALL
      then read_uv r (\<lambda>a r. read_uv r (\<lambda>b r. Ok (Call (ucast a) (ucast b), r)))
      else if opcode = OP_CALL_NATIVE then
        read_uv r (\<lambda>idx r. rbind (pool_get pool idx) (\<lambda>name.
        rbind (ok_or (UnknownNative name) (native_index name)) (\<lambda>native.
          read_uv r (\<lambda>argc r. Ok (CallNative native (ucast argc), r)))))
      else if opcode = OP_ENUM_NEW then
        read_uv r (\<lambda>a r. read_uv r (\<lambda>b r. read_uv r (\<lambda>c r.
        Ok (EnumNew (ucast a) (ucast b) (ucast c), r))))
      else if opcode = OP_ENUM_TAG then Ok (EnumTag, r)
      else if opcode = OP_ENUM_GET then read_uv r (\<lambda>a r. Ok (EnumGet (ucast a), r))
      else if opcode = OP_STRUCT_NEW then read_uv r (\<lambda>a r. Ok (StructNew (ucast a), r))
      else if opcode = OP_FIELD_GET then read_uv r (\<lambda>a r. Ok (FieldGet (ucast a), r))
      else if opcode = OP_FIELD_SET then read_uv r (\<lambda>a r. Ok (FieldSet (ucast a), r))
      else if opcode = OP_LIST_NEW then read_uv r (\<lambda>a r. Ok (ListNew (ucast a), r))
      else if opcode = OP_LIST_GET then Ok (ListGet, r)
      else if opcode = OP_LIST_SET then Ok (ListSet, r)
      else if opcode = OP_LIST_LEN then Ok (ListLen, r)
      else if opcode = OP_CLOSURE_NEW
      then read_uv r (\<lambda>a r. read_uv r (\<lambda>b r. Ok (ClosureNew (ucast a) (ucast b), r)))
      else if opcode = OP_CALL_INDIRECT
      then read_uv r (\<lambda>a r. Ok (CallIndirect (ucast a), r))
      else if opcode = OP_CALL_VIRTUAL then
        read_uv r (\<lambda>idx r. rbind (pool_get pool idx) (\<lambda>sel.
        read_uv r (\<lambda>argc r. Ok (CallVirtual sel (ucast argc), r))))
      else if opcode = OP_JUMP then read_uv r (\<lambda>t r. Ok (Jump (unat t), r))
      else if opcode = OP_JUMP_IF_TRUE then read_uv r (\<lambda>t r. Ok (JumpIfTrue (unat t), r))
      else if opcode = OP_JUMP_IF_FALSE
      then read_uv r (\<lambda>t r. Ok (JumpIfFalse (unat t), r))
      else if opcode = OP_RETURN then Ok (Return, r)
      else Err (UnknownOpcode opcode))"

definition decode_instr :: "reader \<Rightarrow> string list \<Rightarrow> decode_error + instr \<times> reader" where
  "decode_instr r pool = rbind (read_u8 r) (\<lambda>(opcode, r). decode_op opcode r pool)"

section \<open>Instructions round-trip\<close>

definition pool_wf :: "string_pool \<Rightarrow> bool" where
  "pool_wf p \<longleftrightarrow> (\<forall>s k. pool_index p s = Some k \<longrightarrow> get_nth (strings p) (unat k) = Some s)"

definition instr_bytes :: "string_pool \<Rightarrow> instr \<Rightarrow> u8 list" where
  "instr_bytes p i = buf (the (encode_instr writer_new i p))"

text \<open>What the encoder needs of an instruction: its strings are interned, its native exists,
  its jump target is a 64-bit index.\<close>

fun instr_ok :: "string_pool \<Rightarrow> instr \<Rightarrow> bool" where
  "instr_ok p (ConstStr s) = (pool_index p s \<noteq> None)"
| "instr_ok p (CallVirtual s _) = (pool_index p s \<noteq> None)"
| "instr_ok p (CallNative n _) =
     (case native_name n of None \<Rightarrow> False | Some name \<Rightarrow> pool_index p name \<noteq> None)"
| "instr_ok p (Jump t) = (t < 2 ^ 64)"
| "instr_ok p (JumpIfTrue t) = (t < 2 ^ 64)"
| "instr_ok p (JumpIfFalse t) = (t < 2 ^ 64)"
| "instr_ok p _ = True"

lemma buf_writes [wire_simps]:
  "buf (write_u8 w b) = buf w @ [b]"
  "buf (write_uvarint w v) = buf w @ uvarint_bytes v"
  "buf (write_ivarint w v) = buf w @ ivarint_bytes v"
  "buf (write_f64 w x) = buf w @ le_bytes64 x"
  "buf (write_str w s) = buf w @ str_bytes s"
  "buf (write_raw w d) = buf w @ d"
  "buf (write_u32_le w n) = buf w @ le_bytes32 n"
  "buf writer_new = []"
  by (simp_all add: u8f.write_appends uvf.write_appends ivf.write_appends f64f.write_appends
      strf.write_appends u32f.write_appends write_raw_def writer_new_def)

lemma writer_eqI: "buf w = bs \<Longrightarrow> w = \<lparr>buf = bs\<rparr>"
  by (cases w) simp

lemma encode_instr_ok:
  assumes "instr_ok p i"
  shows "encode_instr w i p = Some \<lparr>buf = buf w @ instr_bytes p i\<rparr>"
  using assms
  by (cases i) (auto simp: instr_bytes_def wire_simps write_pooled_def split: option.splits intro!: writer_eqI)

lemma ucast_up_down [simp]:
  "(ucast (ucast (x :: u8) :: u64) :: u8) = x"
  "(ucast (ucast (y :: u16) :: u64) :: u16) = y"
  "(ucast (ucast (z :: u32) :: u64) :: u32) = z"
  by (rule bit_word_eqI, simp add: bit_simps)+

lemma unat_ucast_up [simp]: "unat (ucast (z :: u32) :: u64) = unat z"
  using unsigned_less [of z, where 'a = nat] by (simp add: unsigned_ucast_eq take_bit_nat_eq_self_iff)

lemmas codec_simps = instr_bytes_def decode_op_def op_defs write_pooled_def

text \<open>Reading an opcode and its operands, by number of operands.\<close>

lemma read_uv_at: "at_bytes r (uvarint_bytes v @ rest) \<Longrightarrow> read_uv r k = k v (adv r (length (uvarint_bytes v)))"
  by (simp add: read_uv_def uvf.read_at)

lemma decode0: "at_bytes r (b # rest) \<Longrightarrow> decode_instr r pool = decode_op b (adv r (Suc 0)) pool"
  by (simp add: decode_instr_def u8f.read_at)

lemmas at_bytes_tl = at_bytes_adv1 [simplified]

lemma decode1:
  assumes "at_bytes r (b # uvarint_bytes x @ rest)"
  shows "decode_instr r pool = decode_op b (adv r (Suc 0)) pool"
    and "read_uv (adv r (Suc 0)) k = k x (adv r (Suc (length (uvarint_bytes x))))"
    and "at_bytes (adv r (Suc (length (uvarint_bytes x)))) rest"
proof -
  note at1 = at_bytes_tl [OF assms]
  show "decode_instr r pool = decode_op b (adv r (Suc 0)) pool" using assms by (rule decode0)
  show "read_uv (adv r (Suc 0)) k = k x (adv r (Suc (length (uvarint_bytes x))))"
    by (simp add: read_uv_at [OF at1])
  show "at_bytes (adv r (Suc (length (uvarint_bytes x)))) rest"
    using at_bytes_adv [OF at1] by simp
qed

lemma decode2:
  assumes "at_bytes r (b # uvarint_bytes x @ uvarint_bytes y @ rest)"
  shows "decode_instr r pool = decode_op b (adv r (Suc 0)) pool"
    and "read_uv (adv r (Suc 0)) k = k x (adv r (Suc (length (uvarint_bytes x))))"
    and "read_uv (adv r (Suc (length (uvarint_bytes x)))) k' =
      k' y (adv r (Suc (length (uvarint_bytes x) + length (uvarint_bytes y))))"
    and "at_bytes (adv r (Suc (length (uvarint_bytes x) + length (uvarint_bytes y)))) rest"
  using decode1 [OF assms] at_bytes_adv [OF decode1(3) [OF assms]]
  by (simp_all add: read_uv_at [OF decode1(3) [OF assms]])

lemma pool_get_at:
  "pool_wf p \<Longrightarrow> pool_index p s = Some k \<Longrightarrow> pool_get (strings p) (ucast k) = Ok s"
  by (simp add: pool_get_def pool_wf_def)

lemma native_index_name: "native_name n = Some name \<Longrightarrow> native_index name = Some n"
  using position_distinct [OF native_names_distinct, of "unat n"]
  by (auto simp: native_name_def native_index_def get_nth_Some)

text \<open>The instructions with one varint operand: the operand and how it is read back.\<close>

fun one_operand :: "instr \<Rightarrow> (u64 \<times> (u64 \<Rightarrow> instr)) option" where
  "one_operand (Load a) = Some (ucast a, \<lambda>v. Load (ucast v))"
| "one_operand (Store a) = Some (ucast a, \<lambda>v. Store (ucast v))"
| "one_operand (GlobalGet a) = Some (ucast a, \<lambda>v. GlobalGet (ucast v))"
| "one_operand (GlobalSet a) = Some (ucast a, \<lambda>v. GlobalSet (ucast v))"
| "one_operand (EnumGet a) = Some (ucast a, \<lambda>v. EnumGet (ucast v))"
| "one_operand (StructNew a) = Some (ucast a, \<lambda>v. StructNew (ucast v))"
| "one_operand (FieldGet a) = Some (ucast a, \<lambda>v. FieldGet (ucast v))"
| "one_operand (FieldSet a) = Some (ucast a, \<lambda>v. FieldSet (ucast v))"
| "one_operand (ListNew a) = Some (ucast a, \<lambda>v. ListNew (ucast v))"
| "one_operand (CallIndirect a) = Some (ucast a, \<lambda>v. CallIndirect (ucast v))"
| "one_operand (Jump t) = Some (word_of_nat t, \<lambda>v. Jump (unat v))"
| "one_operand (JumpIfTrue t) = Some (word_of_nat t, \<lambda>v. JumpIfTrue (unat v))"
| "one_operand (JumpIfFalse t) = Some (word_of_nat t, \<lambda>v. JumpIfFalse (unat v))"
| "one_operand _ = None"

lemma one_operand_codec:
  assumes "one_operand i = Some (x, f)" "instr_ok p i"
  shows "\<exists>b. instr_bytes p i = b # uvarint_bytes x \<and>
    (\<forall>r. decode_op b r (strings p) = read_uv r (\<lambda>v r. Ok (f v, r))) \<and> f x = i"
  using assms by (cases i) (auto simp: instr_bytes_def wire_simps decode_op_def op_defs unat_of_nat)

lemma decode_one_at:
  assumes "one_operand i = Some (x, f)" "instr_ok p i" and at: "at_bytes r (instr_bytes p i @ rest)"
  shows "decode_instr r (strings p) = Ok (i, adv r (length (instr_bytes p i)))"
proof -
  obtain b where b: "instr_bytes p i = b # uvarint_bytes x" "f x = i"
    "\<forall>r. decode_op b r (strings p) = read_uv r (\<lambda>v r. Ok (f v, r))"
    using one_operand_codec [OF assms(1,2)] by blast
  then have *: "at_bytes r (b # uvarint_bytes x @ rest)" using at by simp
  show ?thesis using b by (simp add: decode1 [OF *])
qed

lemma decode_plain_at:
  assumes "at_bytes r (instr_bytes p i @ rest)" "length (instr_bytes p i) = 1"
    and "\<And>r. decode_op (hd (instr_bytes p i)) r (strings p) = Ok (i, r)"
  shows "decode_instr r (strings p) = Ok (i, adv r (length (instr_bytes p i)))"
  using assms decode0 [of r "hd (instr_bytes p i)" rest] by (cases "instr_bytes p i") simp_all

lemma decode_pooled_at:
  assumes wf: "pool_wf p" and at: "at_bytes r (instr_bytes p i @ rest)"
    and i: "i = ConstStr s \<or> i = CallVirtual s c \<or> (i = CallNative n c \<and> native_name n = Some s)"
    and s: "pool_index p s \<noteq> None"
  shows "decode_instr r (strings p) = Ok (i, adv r (length (instr_bytes p i)))"
proof -
  obtain k where k: "pool_index p s = Some k" using s by auto
  note simps = codec_simps wire_simps
  from i show ?thesis
  proof (elim disjE conjE)
    assume i: "i = ConstStr s"
    then have *: "at_bytes r (OP_CONST_STR # uvarint_bytes (ucast k) @ rest)"
      using at k by (simp add: instr_bytes_def wire_simps write_pooled_def)
    show ?thesis using i k pool_get_at [OF wf k] by (simp add: decode1 [OF *] simps)
  next
    assume i: "i = CallVirtual s c"
    then have *: "at_bytes r (OP_CALL_VIRTUAL # uvarint_bytes (ucast k) @ uvarint_bytes (ucast c) @ rest)"
      using at k by (simp add: instr_bytes_def wire_simps write_pooled_def)
    show ?thesis using i k pool_get_at [OF wf k] by (simp add: decode2 [OF *] simps)
  next
    assume i: "i = CallNative n c" and n: "native_name n = Some s"
    then have *: "at_bytes r (OP_CALL_NATIVE # uvarint_bytes (ucast k) @ uvarint_bytes (ucast c) @ rest)"
      using at k by (simp add: instr_bytes_def wire_simps write_pooled_def)
    show ?thesis using i n k pool_get_at [OF wf k] native_index_name [OF n] by (simp add: decode2 [OF *] simps)
  qed
qed

lemma decode_instr_at:
  assumes wf: "pool_wf p" and ok: "instr_ok p i" and at: "at_bytes r (instr_bytes p i @ rest)"
  shows "decode_instr r (strings p) = Ok (i, adv r (length (instr_bytes p i)))"
proof (cases "one_operand i")
  case (Some xf)
  then show ?thesis using decode_one_at [OF _ ok at] by (cases xf) blast
next
  case None
  show ?thesis
  proof (cases i)
    case (Call a b)
    then have *: "at_bytes r (OP_CALL # uvarint_bytes (ucast a) @ uvarint_bytes (ucast b) @ rest)"
      using at by (simp add: instr_bytes_def wire_simps)
    then show ?thesis using Call by (simp add: decode2 [OF *] codec_simps wire_simps)
  next
    case (ClosureNew a b)
    then have *: "at_bytes r (OP_CLOSURE_NEW # uvarint_bytes (ucast a) @ uvarint_bytes (ucast b) @ rest)"
      using at by (simp add: instr_bytes_def wire_simps)
    then show ?thesis using ClosureNew by (simp add: decode2 [OF *] codec_simps wire_simps)
  next
    case (EnumNew a b c)
    then have *: "at_bytes r (OP_ENUM_NEW # uvarint_bytes (ucast a) @ uvarint_bytes (ucast b) @ uvarint_bytes (ucast c) @ rest)"
      using at by (simp add: instr_bytes_def wire_simps)
    then show ?thesis
      using EnumNew by (simp add: decode2 [OF *] read_uv_at [OF decode2(4) [OF *]] codec_simps wire_simps add.assoc)
  next
    case (ConstInt n)
    then have *: "at_bytes r (OP_CONST_INT # ivarint_bytes n @ rest)" using at by (simp add: instr_bytes_def wire_simps)
    then show ?thesis
      using ConstInt by (simp add: ivf.read_at [OF TrueI at_bytes_tl [OF *]] decode0 [OF *] codec_simps wire_simps)
  next
    case (ConstDouble x)
    then have *: "at_bytes r (OP_CONST_DOUBLE # le_bytes64 x @ rest)" using at by (simp add: instr_bytes_def wire_simps)
    then show ?thesis
      using ConstDouble by (simp add: f64f.read_at [OF TrueI at_bytes_tl [OF *]] decode0 [OF *] codec_simps wire_simps)
  next
    case (ConstBool b)
    then have *: "at_bytes r (OP_CONST_BOOL # [if b then 1 else 0] @ rest)" using at by (simp add: instr_bytes_def wire_simps)
    then show ?thesis
      using ConstBool by (simp add: u8f.read_at [OF TrueI at_bytes_tl [OF *]] decode0 [OF *] codec_simps wire_simps)
  next
    case (ConstStr s)
    then show ?thesis using ok decode_pooled_at [OF wf at, of s] by simp
  next
    case (CallVirtual s c)
    then show ?thesis using ok decode_pooled_at [OF wf at, of s c] by simp
  next
    case (CallNative n c)
    then show ?thesis using ok decode_pooled_at [OF wf at] by (auto split: option.splits)
  qed (rule decode_plain_at [OF at]; use None in \<open>simp add: codec_simps wire_simps\<close>)+
qed

text \<open>Instructions over a fixed pool.\<close>

interpretation insf: wire_codec "\<lambda>r. decode_instr r (strings p)" "instr_bytes p"
  "\<lambda>i. pool_wf p \<and> instr_ok p i" "\<lambda>w i. encode_instr w i p" for p
  by unfold_locales (simp_all add: encode_instr_ok decode_instr_at)

end
