(* ===== verification/ModuleCodec.thy ===== *)
theory ModuleCodec
  imports Codec
begin

text \<open>
  The module container (\<open>encode_module\<close> and \<open>decode_module\<close> of
  \<^verbatim>\<open>runtime/src/codec.rs\<close>): interning pass, length-prefixed sections, per-section
  payloads. Decoding an encoded module returns the module with its entry points resolved.
\<close>

section \<open>Counted sequences\<close>

definition write_counted :: "(writer \<Rightarrow> 'a \<Rightarrow> writer option) \<Rightarrow> writer \<Rightarrow> 'a list \<Rightarrow> writer option" where
  "write_counted wr w xs = try_fold wr (write_uvarint w (word_of_nat (length xs))) xs"

definition read_counted :: "(reader \<Rightarrow> decode_error + 'a \<times> reader) \<Rightarrow> reader
    \<Rightarrow> decode_error + 'a list \<times> reader" where
  "read_counted rd r = read_uv r (\<lambda>count r. read_many rd (unat count) r)"

section \<open>Interning pass\<close>

definition type_strings :: "type_def \<Rightarrow> string list" where
  "type_strings t = type_name t # field_names t"

definition enum_strings :: "enumdef \<Rightarrow> string list" where
  "enum_strings e = enumdef_name e # variants e"

fun instr_strings :: "instr \<Rightarrow> string list" where
  "instr_strings (ConstStr s) = [s]"
| "instr_strings (CallVirtual sel _) = [sel]"
| "instr_strings (CallNative native _) =
     (case native_name native of Some name \<Rightarrow> [name] | None \<Rightarrow> [])"
| "instr_strings _ = []"

definition module_strings :: "module \<Rightarrow> string list" where
  "module_strings m =
     concat (map type_strings (types m))
     @ concat (map enum_strings (enums m))
     @ concat (map (\<lambda>f. concat (map instr_strings (code f))) (mod_functions m))
     @ map selector (dispatch_rows m)"

definition build_pool :: "module \<Rightarrow> string_pool" where
  "build_pool m = intern_all (module_strings m) pool_default"

section \<open>Encoding\<close>

definition encode_function :: "writer \<Rightarrow> func \<Rightarrow> string_pool \<Rightarrow> writer option" where
  "encode_function w f pool =
     write_counted (\<lambda>w i. encode_instr w i pool)
       (write_uvarint (write_uvarint w (ucast (param_count f))) (ucast (local_count f))) (code f)"

definition encode_type :: "writer \<Rightarrow> type_def \<Rightarrow> string_pool \<Rightarrow> writer option" where
  "encode_type w t pool =
     Option.bind (write_pooled w pool (type_name t)) (\<lambda>w.
       write_counted (\<lambda>w s. write_pooled w pool s)
         (write_uvarint w (ucast (field_count t))) (field_names t))"

definition encode_enum :: "writer \<Rightarrow> enumdef \<Rightarrow> string_pool \<Rightarrow> writer option" where
  "encode_enum w e pool =
     Option.bind (write_pooled (write_uvarint w (ucast (enumdef_ty e))) pool (enumdef_name e)) (\<lambda>w.
       write_counted (\<lambda>w s. write_pooled w pool s) w (variants e))"

definition encode_dispatch_row :: "writer \<Rightarrow> dispatch_entry \<Rightarrow> string_pool \<Rightarrow> writer option" where
  "encode_dispatch_row w e pool =
     map_option (\<lambda>w. write_uvarint w (ucast (disp_func e)))
       (write_pooled (write_uvarint w (ucast (disp_ty e))) pool (selector e))"

definition write_section :: "writer \<Rightarrow> u8 \<Rightarrow> u8 list \<Rightarrow> writer" where
  "write_section w sid payload =
     write_raw (write_uvarint (write_u8 w sid) (word_of_nat (length payload))) payload"

definition resolve_index :: "module \<Rightarrow> u32 option \<Rightarrow> string \<Rightarrow> u32 option" where
  "resolve_index m explicit name =
     (case explicit of
        Some i \<Rightarrow> Some i
      | None \<Rightarrow> map_option word_of_nat (function_index m name))"

text \<open>\<open>entry.map_or(0, |i| i + 1)\<close> in 32 bits.\<close>

definition encode_opt_index :: "u32 option \<Rightarrow> u64" where
  "encode_opt_index i = ucast (case i of None \<Rightarrow> 0 | Some i \<Rightarrow> i + 1)"

definition encode_module :: "module \<Rightarrow> u8 list option" where
  "encode_module m =
     (let pool = build_pool m in
      Option.bind (write_counted (\<lambda>w s. Some (write_str w s)) writer_new (strings pool)) (\<lambda>consts.
      Option.bind (write_counted (\<lambda>w t. encode_type w t pool) writer_new (types m)) (\<lambda>typs.
      Option.bind (write_counted (\<lambda>w e. encode_enum w e pool) writer_new (enums m)) (\<lambda>enms.
      Option.bind (write_counted (\<lambda>w f. encode_function w f pool) writer_new (mod_functions m)) (\<lambda>funcs.
      Option.bind (write_counted (\<lambda>w f. Some (write_str w (func_name f))) writer_new (mod_functions m)) (\<lambda>symbols.
      let ent = resolve_index m (mod_entry m) ''main'';
          ini = resolve_index m (mod_init m) ''<init>'' in
      Option.bind (write_counted (\<lambda>w e. encode_dispatch_row w e pool) writer_new (dispatch_rows m)) (\<lambda>disp.
      let w = write_u32_le (write_raw writer_new MAGIC) VERSION;
          w = write_section w SECTION_CONSTANTS (into_bytes consts);
          w = write_section w SECTION_TYPES (into_bytes typs);
          w = (if enums m \<noteq> [] then write_section w SECTION_ENUMS (into_bytes enms) else w);
          w = write_section w SECTION_FUNCTIONS (into_bytes funcs);
          w = write_section w SECTION_SYMBOLS (into_bytes symbols);
          w = (if dispatch_rows m \<noteq> [] then write_section w SECTION_DISPATCH (into_bytes disp) else w);
          w = (if global_count m > 0
               then write_section w SECTION_GLOBALS
                      (into_bytes (write_uvarint writer_new (ucast (global_count m))))
               else w);
          w = (if ent \<noteq> None \<or> ini \<noteq> None
               then write_section w SECTION_ENTRY
                      (into_bytes (write_uvarint (write_uvarint writer_new (encode_opt_index ent))
                                     (encode_opt_index ini)))
               else w)
      in Some (into_bytes w))))))))"

section \<open>Decoding\<close>

definition read_pooled :: "string list \<Rightarrow> reader \<Rightarrow> decode_error + string \<times> reader" where
  "read_pooled pool r = read_uv r (\<lambda>idx r. rbind (pool_get pool idx) (\<lambda>s. Ok (s, r)))"

definition decode_function :: "reader \<Rightarrow> string list \<Rightarrow> decode_error + func \<times> reader" where
  "decode_function r pool =
     read_uv r (\<lambda>params r. read_uv r (\<lambda>locals r.
       rbind (read_counted (\<lambda>r. decode_instr r pool) r) (\<lambda>(c, r).
         Ok (function_new [] (ucast params) (ucast locals) c, r))))"

definition decode_type :: "string list \<Rightarrow> u32 \<Rightarrow> reader \<Rightarrow> decode_error + type_def \<times> reader" where
  "decode_type pool version r =
     rbind (read_pooled pool r) (\<lambda>(name, r).
       read_uv r (\<lambda>n r.
         if version < 3 then Ok (typedef_new name (ucast n), r)
         else rbind (read_counted (read_pooled pool) r) (\<lambda>(names, r).
                Ok (if names = [] then typedef_new name (ucast n) else typedef_named name names, r))))"

definition decode_enum :: "string list \<Rightarrow> reader \<Rightarrow> decode_error + enumdef \<times> reader" where
  "decode_enum pool r =
     read_uv r (\<lambda>ty r. rbind (read_pooled pool r) (\<lambda>(name, r).
       rbind (read_counted (read_pooled pool) r) (\<lambda>(vs, r). Ok (enumdef_new (ucast ty) name vs, r))))"

definition decode_dispatch_row :: "string list \<Rightarrow> reader \<Rightarrow> decode_error + dispatch_entry \<times> reader" where
  "decode_dispatch_row pool r =
     read_uv r (\<lambda>ty r. rbind (read_pooled pool r) (\<lambda>(sel, r).
       read_uv r (\<lambda>f r. Ok (dispatch_entry_new (ucast ty) sel (ucast f), r))))"

text \<open>A whole payload: a counted sequence from the start, trailing bytes ignored.\<close>

definition decode_payload :: "(reader \<Rightarrow> decode_error + 'a \<times> reader) \<Rightarrow> u8 list \<Rightarrow> decode_error + 'a list" where
  "decode_payload rd p = rbind (read_counted rd (reader_new p)) (\<lambda>(xs, _). Ok xs)"

definition decode_pool :: "u8 list \<Rightarrow> decode_error + string list" where
  "decode_pool p = decode_payload read_str p"

definition decode_symbols :: "u8 list \<Rightarrow> decode_error + string list" where
  "decode_symbols p = decode_payload read_str p"

definition decode_types :: "u8 list \<Rightarrow> string list \<Rightarrow> u32 \<Rightarrow> decode_error + type_def list" where
  "decode_types p pool version = decode_payload (decode_type pool version) p"

definition decode_enums :: "u8 list \<Rightarrow> string list \<Rightarrow> decode_error + enumdef list" where
  "decode_enums p pool = decode_payload (decode_enum pool) p"

definition decode_dispatch :: "u8 list \<Rightarrow> string list \<Rightarrow> decode_error + dispatch_entry list" where
  "decode_dispatch p pool = decode_payload (decode_dispatch_row pool) p"

definition decode_functions :: "u8 list \<Rightarrow> string list \<Rightarrow> decode_error + func list" where
  "decode_functions p pool = decode_payload (\<lambda>r. decode_function r pool) p"

definition decode_opt_index :: "u64 \<Rightarrow> u32 option" where
  "decode_opt_index raw = (if raw \<noteq> 0 then Some (ucast (raw - 1)) else None)"

record payloads =
  consts_payload :: "u8 list option"
  types_payload :: "u8 list option"
  enums_payload :: "u8 list option"
  funcs_payload :: "u8 list option"
  symbols_payload :: "u8 list option"
  dispatch_payload :: "u8 list option"
  globals_payload :: "u8 list option"
  entry_payload :: "u8 list option"

definition no_payloads :: payloads where
  "no_payloads = \<lparr>consts_payload = None, types_payload = None, enums_payload = None,
     funcs_payload = None, symbols_payload = None, dispatch_payload = None,
     globals_payload = None, entry_payload = None\<rparr>"

definition store_payload :: "u8 \<Rightarrow> u8 list \<Rightarrow> payloads \<Rightarrow> payloads" where
  "store_payload sid p ps =
     (if sid = SECTION_CONSTANTS then ps\<lparr>consts_payload := Some p\<rparr>
      else if sid = SECTION_TYPES then ps\<lparr>types_payload := Some p\<rparr>
      else if sid = SECTION_ENUMS then ps\<lparr>enums_payload := Some p\<rparr>
      else if sid = SECTION_FUNCTIONS then ps\<lparr>funcs_payload := Some p\<rparr>
      else if sid = SECTION_SYMBOLS then ps\<lparr>symbols_payload := Some p\<rparr>
      else if sid = SECTION_DISPATCH then ps\<lparr>dispatch_payload := Some p\<rparr>
      else if sid = SECTION_GLOBALS then ps\<lparr>globals_payload := Some p\<rparr>
      else if sid = SECTION_ENTRY then ps\<lparr>entry_payload := Some p\<rparr>
      else ps)"

definition read_section :: "reader \<Rightarrow> decode_error + (u8 \<times> u8 list) \<times> reader" where
  "read_section r =
     rbind (read_u8 r) (\<lambda>(sid, r). read_uv r (\<lambda>len r.
       rbind (read_raw r (unat len)) (\<lambda>(p, r). Ok ((sid, p), r))))"

lemma take_n_progress:
  "take_n r n = Ok (bs, r') \<Longrightarrow> bytes r' = bytes r \<and> pos r' = pos r + n \<and> pos r' \<le> length (bytes r)"
  by (auto simp: take_n_def Let_def split: if_splits)

lemma read_uvarint_loop_progress:
  "read_uvarint_loop r acc s = Ok (v, r') \<Longrightarrow>
     bytes r' = bytes r \<and> pos r < pos r' \<and> pos r' \<le> length (bytes r)"
proof (induction r acc s rule: read_uvarint_loop.induct)
  case (1 r acc s)
  then obtain b r1 where b: "read_u8 r = Ok (b, r1)"
    by (subst (asm) read_uvarint_loop.simps) (auto simp: rbind_eq_Inr)
  have p1: "bytes r1 = bytes r" "pos r1 = pos r + 1" "pos r1 \<le> length (bytes r)"
    using b take_n_progress by (auto simp: read_u8_def rbind_eq_Inr)
  show ?case
  proof (cases "b AND 0x80 = 0")
    case True
    then show ?thesis using 1(2) b p1
      by (subst (asm) read_uvarint_loop.simps) (auto split: if_splits)
  next
    case False
    then have "s < 64" "read_uvarint_loop r1 (acc OR push_bit s (ucast (b AND 0x7f))) (s + 7) = Ok (v, r')"
      using 1(2) b by (subst (asm) read_uvarint_loop.simps, auto split: if_splits)+
    then have "bytes r' = bytes r1 \<and> pos r1 < pos r' \<and> pos r' \<le> length (bytes r1)"
      using 1(1) False by force
    then show ?thesis using p1 by simp
  qed
qed

lemma read_section_progress:
  assumes "read_section r = Ok (x, r')"
  shows "remaining r' < remaining r"
proof -
  obtain b r1 n r2 p where s: "read_u8 r = Ok (b, r1)" "read_uvarint r1 = Ok (n, r2)"
    "take_n r2 (unat n) = Ok (p, r')"
    using assms by (auto simp: read_section_def read_uv_def read_raw_def rbind_eq_Inr)
  have "bytes r1 = bytes r" "pos r1 = pos r + 1" "pos r1 \<le> length (bytes r)"
    using s(1) take_n_progress by (auto simp: read_u8_def rbind_eq_Inr)
  moreover have "bytes r2 = bytes r1" "pos r1 < pos r2"
    using s(2) read_uvarint_loop_progress by (auto simp: read_uvarint_def)
  ultimately show ?thesis
    using take_n_progress [OF s(3)] by (auto simp: remaining_def)
qed

function decode_sections :: "reader \<Rightarrow> payloads \<Rightarrow> decode_error + payloads" where
  "decode_sections r ps =
     (if reader_is_empty r then Ok ps
      else case read_section r of
             Inl e \<Rightarrow> Err e
           | Inr ((sid, p), r') \<Rightarrow> decode_sections r' (store_payload sid p ps))"
  by pat_completeness auto
termination
  by (relation "measure (\<lambda>(r, ps). remaining r)") (auto intro: read_section_progress)

declare decode_sections.simps [simp del]

text \<open>An absent section is an empty table.\<close>

definition payload_or :: "u8 list option \<Rightarrow> (u8 list \<Rightarrow> decode_error + 'a list) \<Rightarrow> decode_error + 'a list" where
  "payload_or p f = (case p of Some p \<Rightarrow> f p | None \<Rightarrow> Ok [])"

definition name_functions :: "func list \<Rightarrow> string list \<Rightarrow> func list" where
  "name_functions fs symbols =
     map (\<lambda>(i, f). f\<lparr>func_name :=
         (case get_nth symbols i of Some s \<Rightarrow> s | None \<Rightarrow> ''fn#'' @ nat_digits i)\<rparr>)
       (enumerate 0 fs)"

text \<open>The optional sections, over the module built so far.\<close>

definition decode_optional :: "payloads \<Rightarrow> string list \<Rightarrow> module \<Rightarrow> decode_error + module" where
  "decode_optional ps pool m =
     rbind (case enums_payload ps of
              Some p \<Rightarrow> rbind (decode_enums p pool) (\<lambda>es. Ok (m\<lparr>enums := es\<rparr>))
            | None \<Rightarrow> Ok m) (\<lambda>m.
     rbind (case dispatch_payload ps of
              Some p \<Rightarrow> rbind (decode_dispatch p pool) (\<lambda>rows. Ok (set_dispatch m rows))
            | None \<Rightarrow> Ok m) (\<lambda>m.
     rbind (case globals_payload ps of
              Some p \<Rightarrow> read_uv (reader_new p) (\<lambda>n _. Ok (m\<lparr>global_count := ucast n\<rparr>))
            | None \<Rightarrow> Ok m) (\<lambda>m.
     case entry_payload ps of
       Some p \<Rightarrow> read_uv (reader_new p) (\<lambda>e r. read_uv r (\<lambda>i _.
                   Ok (m\<lparr>mod_entry := decode_opt_index e, mod_init := decode_opt_index i\<rparr>)))
     | None \<Rightarrow> Ok m)))"

definition decode_tables :: "u32 \<Rightarrow> payloads \<Rightarrow> decode_error + module" where
  "decode_tables version ps =
     rbind (payload_or (consts_payload ps) decode_pool) (\<lambda>pool.
     rbind (payload_or (types_payload ps) (\<lambda>p. decode_types p pool version)) (\<lambda>typs.
     rbind (payload_or (funcs_payload ps) (\<lambda>p. decode_functions p pool)) (\<lambda>fs.
     rbind (payload_or (symbols_payload ps) decode_symbols) (\<lambda>symbols.
     decode_optional ps pool (module_with_types (name_functions fs symbols) typs)))))"

definition decode_module :: "u8 list \<Rightarrow> decode_error + module" where
  "decode_module bs =
     rbind (read_raw (reader_new bs) (length MAGIC)) (\<lambda>(magic, r).
       if magic \<noteq> MAGIC then Err BadMagic
       else rbind (read_u32_le r) (\<lambda>(version, r).
         if version \<notin> set SUPPORTED_VERSIONS then Err (UnsupportedVersion version)
         else rbind (decode_sections r no_payloads) (decode_tables version)))"

section \<open>The string pool\<close>

definition pool_covers :: "string_pool \<Rightarrow> string set \<Rightarrow> bool" where
  "pool_covers p S \<longleftrightarrow> (\<forall>s\<in>S. pool_index p s \<noteq> None)"

lemma pool_intern_wf:
  assumes wf: "pool_wf p" and len: "length (strings p) < 2 ^ 32"
  shows "pool_wf (snd (pool_intern p s))"
proof (cases "pool_index p s")
  case None
  have "unat (word_of_nat (length (strings p)) :: u32) = length (strings p)"
    using len by (simp add: unsigned_of_nat take_bit_nat_eq_self)
  then show ?thesis
    using wf None by (auto simp: pool_intern_def Let_def pool_wf_def get_nth_Some nth_append intro: less_SucI)
qed (use wf in \<open>simp add: pool_intern_def\<close>)

lemma intern_all_wf:
  assumes "pool_wf p" "length (strings p) + length ss \<le> 2 ^ 32"
  shows "pool_wf (intern_all ss p)"
  using assms
proof (induction ss arbitrary: p)
  case (Cons s ss)
  have "length (strings (snd (pool_intern p s))) \<le> Suc (length (strings p))"
    by (simp add: pool_intern_def Let_def split: option.split)
  then show ?case
    using Cons pool_intern_wf [of p s] by (simp add: intern_all_def)
qed (simp add: intern_all_def)

lemma intern_all_index:
  "pool_index (intern_all ss p) s \<noteq> None \<longleftrightarrow> s \<in> set ss \<or> pool_index p s \<noteq> None"
proof (induction ss arbitrary: p)
  case (Cons t ss)
  have "pool_index (snd (pool_intern p t)) s \<noteq> None \<longleftrightarrow> s = t \<or> pool_index p s \<noteq> None"
    by (auto simp: pool_intern_def Let_def split: option.split)
  then show ?case using Cons.IH [of "snd (pool_intern p t)"] by (auto simp: intern_all_def)
qed (simp add: intern_all_def)

lemma intern_all_strings: "set (strings (intern_all ss p)) \<subseteq> set (strings p) \<union> set ss"
proof (induction ss arbitrary: p)
  case (Cons t ss)
  have "set (strings (snd (pool_intern p t))) \<subseteq> insert t (set (strings p))"
    by (auto simp: pool_intern_def Let_def split: option.split)
  then show ?case using Cons.IH [of "snd (pool_intern p t)"] by (auto simp: intern_all_def)
qed (simp add: intern_all_def)

lemma intern_all_length: "length (strings (intern_all ss p)) \<le> length (strings p) + length ss"
proof (induction ss arbitrary: p)
  case (Cons t ss)
  have "length (strings (snd (pool_intern p t))) \<le> Suc (length (strings p))"
    by (simp add: pool_intern_def Let_def split: option.split)
  then show ?case using Cons.IH [of "snd (pool_intern p t)"] by (simp add: intern_all_def)
qed (simp add: intern_all_def)

lemma build_pool_wf: "length (module_strings m) \<le> 2 ^ 32 \<Longrightarrow> pool_wf (build_pool m)"
  unfolding build_pool_def by (rule intern_all_wf) (simp_all add: pool_default_def pool_wf_def)

lemma build_pool_covers: "s \<in> set (module_strings m) \<Longrightarrow> pool_index (build_pool m) s \<noteq> None"
  unfolding build_pool_def by (simp only: intern_all_index simp_thms)

section \<open>Tables round-trip\<close>

definition counted_bytes :: "('a \<Rightarrow> u8 list) \<Rightarrow> 'a list \<Rightarrow> u8 list" where
  "counted_bytes enc xs = uvarint_bytes (word_of_nat (length xs)) @ concat (map enc xs)"

context wire_codec
begin

lemma write_counted_ok:
  "\<forall>x\<in>set xs. ok x \<Longrightarrow> write_counted wrp w xs = Some \<lparr>buf = buf w @ counted_bytes enc xs\<rparr>"
  by (simp add: write_counted_def write_all_ok counted_bytes_def uvf.write_appends)

lemma read_counted_at:
  assumes "\<forall>x\<in>set xs. ok x" "length xs < 2 ^ 64" and at: "at_bytes r (counted_bytes enc xs @ rest)"
  shows "read_counted rd r = Ok (xs, adv r (length (counted_bytes enc xs)))"
proof -
  let ?n = "word_of_nat (length xs) :: u64"
  have at': "at_bytes r (uvarint_bytes ?n @ concat (map enc xs) @ rest)"
    using at by (simp add: counted_bytes_def)
  have n: "unat ?n = length xs" using assms(2) by (simp add: unsigned_of_nat take_bit_nat_eq_self)
  show ?thesis
    using read_many_at [OF assms(1) at_bytes_adv [OF at']]
    by (simp add: read_counted_def read_uv_at [OF at'] n counted_bytes_def)
qed

lemma decode_payload_at:
  assumes "\<forall>x\<in>set xs. ok x" "length xs < 2 ^ 64" "length (counted_bytes enc xs) < 2 ^ 64"
  shows "decode_payload rd (counted_bytes enc xs) = Ok xs"
  using read_counted_at [OF assms(1,2), of _ "[]"] assms(3) by (simp add: decode_payload_def)

end

definition pooled_bytes :: "string_pool \<Rightarrow> string \<Rightarrow> u8 list" where
  "pooled_bytes p s = uvarint_bytes (ucast (the (pool_index p s)))"

interpretation poolf: wire_codec "read_pooled (strings p)" "pooled_bytes p"
  "\<lambda>s. pool_wf p \<and> pool_index p s \<noteq> None" "\<lambda>w s. write_pooled w p s" for p
proof
  fix s r rest
  assume ok: "pool_wf p \<and> pool_index p s \<noteq> None" and at: "at_bytes r (pooled_bytes p s @ rest)"
  then obtain k where k: "pool_index p s = Some k" by auto
  then have at': "at_bytes r (uvarint_bytes (ucast k) @ rest)" using at by (simp add: pooled_bytes_def)
  show "read_pooled (strings p) r = Ok (s, adv r (length (pooled_bytes p s)))"
    using ok k by (simp add: read_pooled_def read_uv_at [OF at'] pool_get_at [OF _ k] pooled_bytes_def)
next
  fix s w assume "pool_wf p \<and> pool_index p s \<noteq> None"
  then show "write_pooled w p s = Some \<lparr>buf = buf w @ pooled_bytes p s\<rparr>"
    by (auto simp: write_pooled_def pooled_bytes_def wire_simps intro!: writer_eqI)
qed

definition type_bytes :: "string_pool \<Rightarrow> type_def \<Rightarrow> u8 list" where
  "type_bytes p t = pooled_bytes p (type_name t) @ uvarint_bytes (ucast (field_count t))
     @ counted_bytes (pooled_bytes p) (field_names t)"

definition type_ok :: "string_pool \<Rightarrow> type_def \<Rightarrow> bool" where
  "type_ok p t \<longleftrightarrow> pool_wf p \<and> (\<forall>s\<in>set (type_strings t). pool_index p s \<noteq> None) \<and>
     length (field_names t) < 2 ^ 64 \<and>
     (field_names t = [] \<or> field_count t = word_of_nat (length (field_names t)))"

interpretation typef: wire_codec "decode_type (strings p) 3" "type_bytes p" "type_ok p"
  "\<lambda>w t. encode_type w t p" for p
proof
  fix t r rest
  assume ok: "type_ok p t" and at: "at_bytes r (type_bytes p t @ rest)"
  then have at1: "at_bytes r (pooled_bytes p (type_name t) @ uvarint_bytes (ucast (field_count t))
      @ counted_bytes (pooled_bytes p) (field_names t) @ rest)" by (simp add: type_bytes_def)
  have s: "pool_wf p" "pool_index p (type_name t) \<noteq> None"
    "\<forall>s\<in>set (field_names t). pool_wf p \<and> pool_index p s \<noteq> None" "length (field_names t) < 2 ^ 64"
    using ok by (auto simp: type_ok_def type_strings_def)
  note at2 = at_bytes_adv [OF at1]
  note at3 = at_bytes_adv [OF at2]
  have "decode_type (strings p) 3 r = Ok (if field_names t = [] then typedef_new (type_name t) (field_count t)
      else typedef_named (type_name t) (field_names t), adv r (length (type_bytes p t)))"
    using s poolf.read_at [OF _ at1] poolf.read_counted_at [OF s(3,4) at3]
    by (simp add: decode_type_def read_uv_at [OF at2] type_bytes_def add.assoc)
  then show "decode_type (strings p) 3 r = Ok (t, adv r (length (type_bytes p t)))"
    using ok by (cases t) (auto simp: type_ok_def typedef_new_def typedef_named_def)
next
  fix t w assume "type_ok p t"
  then show "encode_type w t p = Some \<lparr>buf = buf w @ type_bytes p t\<rparr>"
    by (simp add: encode_type_def type_ok_def type_strings_def poolf.write_ok poolf.write_counted_ok
        type_bytes_def wire_simps)
qed

definition enum_bytes :: "string_pool \<Rightarrow> enumdef \<Rightarrow> u8 list" where
  "enum_bytes p e = uvarint_bytes (ucast (enumdef_ty e)) @ pooled_bytes p (enumdef_name e)
     @ counted_bytes (pooled_bytes p) (variants e)"

definition enum_ok :: "string_pool \<Rightarrow> enumdef \<Rightarrow> bool" where
  "enum_ok p e \<longleftrightarrow> pool_wf p \<and> (\<forall>s\<in>set (enum_strings e). pool_index p s \<noteq> None) \<and>
     length (variants e) < 2 ^ 64"

interpretation enumf: wire_codec "decode_enum (strings p)" "enum_bytes p" "enum_ok p"
  "\<lambda>w e. encode_enum w e p" for p
proof
  fix e r rest
  assume ok: "enum_ok p e" and at: "at_bytes r (enum_bytes p e @ rest)"
  then have at1: "at_bytes r (uvarint_bytes (ucast (enumdef_ty e)) @ pooled_bytes p (enumdef_name e)
      @ counted_bytes (pooled_bytes p) (variants e) @ rest)" by (simp add: enum_bytes_def)
  have s: "pool_wf p" "pool_index p (enumdef_name e) \<noteq> None"
    "\<forall>s\<in>set (variants e). pool_wf p \<and> pool_index p s \<noteq> None" "length (variants e) < 2 ^ 64"
    using ok by (auto simp: enum_ok_def enum_strings_def)
  note at2 = at_bytes_adv [OF at1]
  note at3 = at_bytes_adv [OF at2]
  show "decode_enum (strings p) r = Ok (e, adv r (length (enum_bytes p e)))"
    using s poolf.read_at [OF _ at2] poolf.read_counted_at [OF s(3,4) at3]
    by (cases e) (simp add: decode_enum_def read_uv_at [OF at1] enum_bytes_def enumdef_new_def add.assoc)
next
  fix e w assume "enum_ok p e"
  then show "encode_enum w e p = Some \<lparr>buf = buf w @ enum_bytes p e\<rparr>"
    by (simp add: encode_enum_def enum_ok_def enum_strings_def poolf.write_ok poolf.write_counted_ok
        enum_bytes_def wire_simps)
qed

definition row_bytes :: "string_pool \<Rightarrow> dispatch_entry \<Rightarrow> u8 list" where
  "row_bytes p e = uvarint_bytes (ucast (disp_ty e)) @ pooled_bytes p (selector e)
     @ uvarint_bytes (ucast (disp_func e))"

interpretation rowf: wire_codec "decode_dispatch_row (strings p)" "row_bytes p"
  "\<lambda>e. pool_wf p \<and> pool_index p (selector e) \<noteq> None" "\<lambda>w e. encode_dispatch_row w e p" for p
proof
  fix e :: dispatch_entry and r rest
  assume ok: "pool_wf p \<and> pool_index p (selector e) \<noteq> None" and at: "at_bytes r (row_bytes p e @ rest)"
  then have at1: "at_bytes r (uvarint_bytes (ucast (disp_ty e)) @ pooled_bytes p (selector e)
      @ uvarint_bytes (ucast (disp_func e)) @ rest)" by (simp add: row_bytes_def)
  note at2 = at_bytes_adv [OF at1]
  note at3 = at_bytes_adv [OF at2, unfolded adv_simps]
  have "decode_dispatch_row (strings p) r =
      Ok (dispatch_entry_new (disp_ty e) (selector e) (disp_func e), adv r (length (row_bytes p e)))"
    using poolf.read_at [OF ok at2]
    by (simp add: decode_dispatch_row_def read_uv_at [OF at1] read_uv_at [OF at3] row_bytes_def add.assoc)
  then show "decode_dispatch_row (strings p) r = Ok (e, adv r (length (row_bytes p e)))"
    by (cases e) (simp add: dispatch_entry_new_def)
next
  fix e :: dispatch_entry and w assume "pool_wf p \<and> pool_index p (selector e) \<noteq> None"
  then show "encode_dispatch_row w e p = Some \<lparr>buf = buf w @ row_bytes p e\<rparr>"
    by (auto simp: encode_dispatch_row_def poolf.write_ok row_bytes_def wire_simps intro!: writer_eqI)
qed

definition func_bytes :: "string_pool \<Rightarrow> func \<Rightarrow> u8 list" where
  "func_bytes p f = uvarint_bytes (ucast (param_count f)) @ uvarint_bytes (ucast (local_count f))
     @ counted_bytes (instr_bytes p) (code f)"

definition func_ok :: "string_pool \<Rightarrow> func \<Rightarrow> bool" where
  "func_ok p f \<longleftrightarrow> pool_wf p \<and> (\<forall>i\<in>set (code f). instr_ok p i) \<and> length (code f) < 2 ^ 64 \<and>
     func_name f = []"

interpretation funcf: wire_codec "\<lambda>r. decode_function r (strings p)" "func_bytes p" "func_ok p"
  "\<lambda>w f. encode_function w f p" for p
proof
  fix f r rest
  assume ok: "func_ok p f" and at: "at_bytes r (func_bytes p f @ rest)"
  then have at1: "at_bytes r (uvarint_bytes (ucast (param_count f)) @ uvarint_bytes (ucast (local_count f))
      @ counted_bytes (instr_bytes p) (code f) @ rest)" by (simp add: func_bytes_def)
  have s: "\<forall>i\<in>set (code f). pool_wf p \<and> instr_ok p i" "length (code f) < 2 ^ 64"
    using ok by (auto simp: func_ok_def)
  note at2 = at_bytes_adv [OF at1]
  note at3 = at_bytes_adv [OF at2]
  have "decode_function r (strings p) =
      Ok (function_new [] (param_count f) (local_count f) (code f), adv r (length (func_bytes p f)))"
    using insf.read_counted_at [OF s at3]
    by (simp add: decode_function_def read_uv_at [OF at1] read_uv_at [OF at2] func_bytes_def add.assoc)
  then show "decode_function r (strings p) = Ok (f, adv r (length (func_bytes p f)))"
    using ok by (cases f) (simp add: function_new_def func_ok_def)
next
  fix f w assume "func_ok p f"
  then show "encode_function w f p = Some \<lparr>buf = buf w @ func_bytes p f\<rparr>"
    by (simp add: encode_function_def func_ok_def insf.write_counted_ok func_bytes_def wire_simps)
qed

section \<open>Sections round-trip\<close>

definition section_bytes :: "u8 \<times> u8 list \<Rightarrow> u8 list" where
  "section_bytes x = fst x # uvarint_bytes (word_of_nat (length (snd x))) @ snd x"

interpretation sectf: wire_format read_section section_bytes "\<lambda>x. length (snd x) < 2 ^ 64"
  "\<lambda>w x. write_section w (fst x) (snd x)"
proof
  fix x r rest
  assume len: "length (snd x) < 2 ^ 64" and at: "at_bytes r (section_bytes x @ rest)"
  let ?n = "word_of_nat (length (snd x)) :: u64"
  have at1: "at_bytes r (fst x # uvarint_bytes ?n @ snd x @ rest)"
    using at by (simp add: section_bytes_def)
  note at2 = at_bytes_tl [OF at1]
  note at3 = at_bytes_adv [OF at2, unfolded adv_simps]
  have n: "unat ?n = length (snd x)" using len by (simp add: unsigned_of_nat take_bit_nat_eq_self)
  have "read_u8 r = Ok (fst x, adv r (Suc 0))" using at1 by (simp add: u8f.read_at)
  then show "read_section r = Ok (x, adv r (length (section_bytes x)))"
    using take_n_at [OF at3] by (simp add: read_section_def read_uv_at [OF at2] n read_raw_def section_bytes_def)
qed (simp add: write_section_def section_bytes_def wire_simps)

lemma decode_sections_at:
  "\<lbrakk>\<forall>x\<in>set secs. length (snd x) < 2 ^ 64; at_bytes r (concat (map section_bytes secs))\<rbrakk>
   \<Longrightarrow> decode_sections r ps = Ok (fold (\<lambda>(sid, p). store_payload sid p) secs ps)"
proof (induction secs arbitrary: r ps)
  case Nil
  then show ?case
    by (subst decode_sections.simps) (auto simp: at_bytes_def reader_is_empty_def remaining_def)
next
  case (Cons x secs)
  then have at: "at_bytes r (section_bytes x @ concat (map section_bytes secs))" by simp
  then have "\<not> reader_is_empty r"
    by (auto simp: at_bytes_def reader_is_empty_def remaining_def section_bytes_def dest: arg_cong [of _ _ length])
  then show ?case
    using Cons sectf.read_at [OF _ at] at_bytes_adv [OF at]
    by (subst decode_sections.simps) (auto split: prod.splits)
qed

section \<open>The container round-trips\<close>

definition ok_str :: "string \<Rightarrow> bool" where
  "ok_str s \<longleftrightarrow> valid_str s \<and> length s < 2 ^ 64"

fun instr_wf :: "instr \<Rightarrow> bool" where
  "instr_wf (CallNative n _) = (native_name n \<noteq> None)"
| "instr_wf (Jump t) = (t < 2 ^ 64)"
| "instr_wf (JumpIfTrue t) = (t < 2 ^ 64)"
| "instr_wf (JumpIfFalse t) = (t < 2 ^ 64)"
| "instr_wf _ = True"

text \<open>The modules the encoder accepts and loses nothing of: strings are UTF-8, natives exist,
  jump targets and counts are 64-bit, field names are absent or one per field, the dispatch
  index is in step with its table, and the entry indices survive the \<open>+ 1\<close>.\<close>

definition module_ok :: "module \<Rightarrow> bool" where
  "module_ok m \<longleftrightarrow>
     length (module_strings m) \<le> 2 ^ 32 \<and>
     list_all ok_str (module_strings m) \<and>
     length (types m) < 2 ^ 64 \<and> length (enums m) < 2 ^ 64 \<and>
     length (mod_functions m) < 2 ^ 64 \<and> length (dispatch m) < 2 ^ 64 \<and>
     list_all (\<lambda>t. length (field_names t) < 2 ^ 64 \<and>
       (field_names t = [] \<or> field_count t = word_of_nat (length (field_names t)))) (types m) \<and>
     list_all (\<lambda>e. length (variants e) < 2 ^ 64) (enums m) \<and>
     list_all (\<lambda>f. ok_str (func_name f) \<and> length (code f) < 2 ^ 64 \<and>
       list_all instr_wf (code f)) (mod_functions m) \<and>
     dispatch_synced m \<and>
     resolve_index m (mod_entry m) ''main'' \<noteq> Some (- 1) \<and>
     resolve_index m (mod_init m) ''<init>'' \<noteq> Some (- 1)"

definition resolved :: "module \<Rightarrow> module" where
  "resolved m = m\<lparr>mod_entry := resolve_index m (mod_entry m) ''main'',
     mod_init := resolve_index m (mod_init m) ''<init>''\<rparr>"

lemma decode_encode_opt_index:
  assumes "i \<noteq> Some (- 1)"
  shows "decode_opt_index (encode_opt_index i) = i"
proof (cases i)
  case (Some k)
  let ?w = "ucast (k + 1) :: u64"
  have "k + 1 \<noteq> 0" using assms Some by (metis add.right_cancel add.left_inverse)
  then have "unat (k + 1) = unat k + 1" by (simp add: unatSuc add.commute)
  then have w: "unat ?w = unat k + 1" by simp
  then have "?w \<noteq> 0" by (metis Suc_eq_plus1 unat_0 nat.distinct(1))
  moreover have "?w = ucast k + 1"
    using w unsigned_less [of k, where 'a = nat]
    by (simp add: word_unat_eq_iff unat_word_ariths unsigned_ucast_eq take_bit_nat_eq_self)
  ultimately show ?thesis using Some by (simp add: encode_opt_index_def decode_opt_index_def)
qed (simp add: encode_opt_index_def decode_opt_index_def)

lemma name_functions_symbols:
  "name_functions (map (\<lambda>f. f\<lparr>func_name := []\<rparr>) fs) (map func_name fs) = (fs :: func list)"
  by (rule nth_equalityI)
    (simp_all add: name_functions_def nth_enumerate_eq get_nth_def)

lemma instr_wf_ok:
  "instr_wf i \<Longrightarrow> \<forall>s\<in>set (instr_strings i). pool_index p s \<noteq> None \<Longrightarrow> instr_ok p i"
  by (cases i) (auto split: option.splits)

text \<open>The sections of an encoded module, in order.\<close>

definition opt_section :: "bool \<Rightarrow> u8 \<Rightarrow> u8 list \<Rightarrow> (u8 \<times> u8 list) list" where
  "opt_section b sid p = (if b then [(sid, p)] else [])"

definition entry_bytes :: "module \<Rightarrow> u8 list" where
  "entry_bytes m =
     uvarint_bytes (encode_opt_index (resolve_index m (mod_entry m) ''main''))
     @ uvarint_bytes (encode_opt_index (resolve_index m (mod_init m) ''<init>''))"

definition module_sections :: "module \<Rightarrow> (u8 \<times> u8 list) list" where
  "module_sections m =
     (let p = build_pool m in
      [(SECTION_CONSTANTS, counted_bytes str_bytes (strings p)),
       (SECTION_TYPES, counted_bytes (type_bytes p) (types m))]
      @ opt_section (enums m \<noteq> []) SECTION_ENUMS (counted_bytes (enum_bytes p) (enums m))
      @ [(SECTION_FUNCTIONS, counted_bytes (func_bytes p) (mod_functions m)),
         (SECTION_SYMBOLS, counted_bytes str_bytes (map func_name (mod_functions m)))]
      @ opt_section (dispatch_rows m \<noteq> []) SECTION_DISPATCH (counted_bytes (row_bytes p) (dispatch_rows m))
      @ opt_section (global_count m > 0) SECTION_GLOBALS (uvarint_bytes (ucast (global_count m)))
      @ opt_section (resolve_index m (mod_entry m) ''main'' \<noteq> None \<or>
                     resolve_index m (mod_init m) ''<init>'' \<noteq> None) SECTION_ENTRY (entry_bytes m))"

text \<open>What the section codecs need of a well-formed module's tables.\<close>

lemma module_ok_tables:
  assumes ok: "module_ok m"
  defines "p \<equiv> build_pool m"
  shows "\<forall>s\<in>set (strings p). valid_str s \<and> length s < 2 ^ 64" "length (strings p) < 2 ^ 64"
    "\<forall>t\<in>set (types m). type_ok p t" "\<forall>e\<in>set (enums m). enum_ok p e"
    "\<forall>f\<in>set (mod_functions m). func_ok p (f\<lparr>func_name := []\<rparr>)"
    "\<forall>e\<in>set (dispatch_rows m). pool_wf p \<and> pool_index p (selector e) \<noteq> None"
proof -
  have wf: "pool_wf p" using ok by (simp add: module_ok_def p_def build_pool_wf)
  have cov: "\<And>s. s \<in> set (module_strings m) \<Longrightarrow> pool_index p s \<noteq> None"
    unfolding p_def by (rule build_pool_covers)
  have sub: "set (strings p) \<subseteq> set (module_strings m)"
    using intern_all_strings [of "module_strings m" pool_default] by (simp add: p_def build_pool_def pool_default_def)
  then show "\<forall>s\<in>set (strings p). valid_str s \<and> length s < 2 ^ 64"
    using ok by (auto simp: module_ok_def list_all_iff ok_str_def)
  show "length (strings p) < 2 ^ 64"
    using ok intern_all_length [of "module_strings m" pool_default]
    by (simp add: module_ok_def p_def build_pool_def pool_default_def)
  have "pool_index p s \<noteq> None" if "t \<in> set (types m)" "s \<in> set (type_strings t)" for t s
    using that by (intro cov) (auto simp: module_strings_def)
  then show "\<forall>t\<in>set (types m). type_ok p t"
    using ok wf unfolding module_ok_def list_all_iff type_ok_def by blast
  have "pool_index p s \<noteq> None" if "e \<in> set (enums m)" "s \<in> set (enum_strings e)" for e s
    using that by (intro cov) (auto simp: module_strings_def)
  then show "\<forall>e\<in>set (enums m). enum_ok p e"
    using ok wf unfolding module_ok_def list_all_iff enum_ok_def by blast
  have "pool_index p (selector e) \<noteq> None" if "e \<in> set (dispatch_rows m)" for e
    using that by (intro cov) (auto simp: module_strings_def)
  then show "\<forall>e\<in>set (dispatch_rows m). pool_wf p \<and> pool_index p (selector e) \<noteq> None"
    using wf by blast
  have "instr_ok p i" if "f \<in> set (mod_functions m)" "i \<in> set (code f)" for f i
  proof (rule instr_wf_ok)
    show "instr_wf i" using ok that by (auto simp: module_ok_def list_all_iff)
    show "\<forall>s\<in>set (instr_strings i). pool_index p s \<noteq> None"
      using that by (intro ballI cov) (auto simp: module_strings_def)
  qed
  then show "\<forall>f\<in>set (mod_functions m). func_ok p (f\<lparr>func_name := []\<rparr>)"
    using ok wf by (simp add: module_ok_def list_all_iff func_ok_def)
qed

lemma func_bytes_unnamed: "func_bytes p (f\<lparr>func_name := []\<rparr>) = func_bytes p f"
  "encode_function w (f\<lparr>func_name := []\<rparr>) p = encode_function w f p"
  by (simp_all add: func_bytes_def encode_function_def)

lemma counted_bytes_map: "counted_bytes enc (map f xs) = counted_bytes (\<lambda>x. enc (f x)) xs"
  by (simp add: counted_bytes_def comp_def)

lemma try_fold_map: "try_fold f w (map g xs) = try_fold (\<lambda>w x. f w (g x)) w xs"
  by (induction xs arbitrary: w) (auto simp: bind_eq_Some_conv split: option.splits)

lemma write_counted_map: "write_counted f w (map g xs) = write_counted (\<lambda>w x. f w (g x)) w xs"
  by (simp add: write_counted_def try_fold_map)

lemma encode_module_sections:
  assumes ok: "module_ok m"
  shows "encode_module m =
    Some (MAGIC @ le_bytes32 VERSION @ concat (map section_bytes (module_sections m)))"
proof -
  let ?p = "build_pool m" and ?strip = "\<lambda>f :: func. f\<lparr>func_name := []\<rparr>"
  note t = module_ok_tables [OF ok]
  have f: "write_counted (\<lambda>w f. encode_function w f ?p) writer_new (mod_functions m) =
      Some \<lparr>buf = counted_bytes (func_bytes ?p) (mod_functions m)\<rparr>"
    using funcf.write_counted_ok [of "map ?strip (mod_functions m)" ?p writer_new] t(5)
    by (simp add: write_counted_map counted_bytes_map func_bytes_unnamed wire_simps)
  have "\<forall>s\<in>set (map func_name (mod_functions m)). valid_str s \<and> length s < 2 ^ 64"
    using ok by (auto simp: module_ok_def list_all_iff ok_str_def)
  then have s: "write_counted (\<lambda>w f. Some (write_str w (func_name f))) writer_new (mod_functions m) =
      Some \<lparr>buf = counted_bytes str_bytes (map func_name (mod_functions m))\<rparr>"
    using strf.write_counted_ok [of "map func_name (mod_functions m)" writer_new]
    by (simp add: write_counted_map wire_simps)
  show ?thesis
    unfolding encode_module_def Let_def
    using f s strf.write_counted_ok [OF t(1)] typef.write_counted_ok [OF t(3)]
      enumf.write_counted_ok [OF t(4)] rowf.write_counted_ok [OF t(6)]
    by (simp add: module_sections_def Let_def opt_section_def into_bytes_def wire_simps
        sectf.write_appends [where x = "(_, _)", simplified] entry_bytes_def)
qed

text \<open>What the section loop collects from them.\<close>

lemma module_payloads:
  "fold (\<lambda>(sid, p). store_payload sid p) (module_sections m) no_payloads =
    (let p = build_pool m; opt = (\<lambda>b x. if b then Some x else None) in
     \<lparr>consts_payload = Some (counted_bytes str_bytes (strings p)),
      types_payload = Some (counted_bytes (type_bytes p) (types m)),
      enums_payload = opt (enums m \<noteq> []) (counted_bytes (enum_bytes p) (enums m)),
      funcs_payload = Some (counted_bytes (func_bytes p) (mod_functions m)),
      symbols_payload = Some (counted_bytes str_bytes (map func_name (mod_functions m))),
      dispatch_payload = opt (dispatch_rows m \<noteq> []) (counted_bytes (row_bytes p) (dispatch_rows m)),
      globals_payload = opt (global_count m > 0) (uvarint_bytes (ucast (global_count m))),
      entry_payload = opt (resolve_index m (mod_entry m) ''main'' \<noteq> None \<or>
        resolve_index m (mod_init m) ''<init>'' \<noteq> None) (entry_bytes m)\<rparr>)"
  by (simp add: module_sections_def Let_def opt_section_def store_payload_def section_defs no_payloads_def)

lemma sections_small:
  assumes "length (concat (map section_bytes secs)) < 2 ^ 64"
  shows "\<forall>x\<in>set secs. length (snd x) < 2 ^ 64"
proof
  fix x assume "x \<in> set secs"
  then have "length (section_bytes x) \<le> length (concat (map section_bytes secs))"
    by (auto simp: length_concat comp_def intro!: member_le_sum_list)
  then show "length (snd x) < 2 ^ 64" using assms by (simp add: section_bytes_def)
qed

lemma read_uv_payload:
  "length (uvarint_bytes v) < 2 ^ 64 \<Longrightarrow> read_uv (reader_new (uvarint_bytes v)) k =
     k v (adv (reader_new (uvarint_bytes v)) (length (uvarint_bytes v)))"
  using read_uv_at [of "reader_new (uvarint_bytes v)" v "[]"] at_bytes_new [of "uvarint_bytes v"] by simp

lemma read_entry_payload:
  assumes "length (entry_bytes m) < 2 ^ 64"
  shows "read_uv (reader_new (entry_bytes m)) (\<lambda>e r. read_uv r (\<lambda>i _. k e i)) =
    k (encode_opt_index (resolve_index m (mod_entry m) ''main''))
      (encode_opt_index (resolve_index m (mod_init m) ''<init>''))"
proof -
  let ?e = "uvarint_bytes (encode_opt_index (resolve_index m (mod_entry m) ''main''))"
  let ?i = "uvarint_bytes (encode_opt_index (resolve_index m (mod_init m) ''<init>''))"
  have at: "at_bytes (reader_new (?e @ ?i)) (?e @ ?i @ [])"
    using assms at_bytes_new [of "?e @ ?i"] by (simp add: entry_bytes_def)
  show ?thesis
    by (simp add: entry_bytes_def read_uv_at [OF at] read_uv_at [OF at_bytes_adv [OF at]])
qed

text \<open>Each absent section leaves a default, and the encoder omits a section only when the
  module holds that default.\<close>

lemma decode_optional_payloads:
  fixes m defines "p \<equiv> build_pool m"
  assumes ok: "module_ok m"
    and ps: "ps = fold (\<lambda>(sid, p). store_payload sid p) (module_sections m) no_payloads"
    and small: "\<forall>x\<in>set (module_sections m). length (snd x) < 2 ^ 64"
  shows "decode_optional ps (strings p) (module_with_types (mod_functions m) (types m)) = Ok (resolved m)"
proof -
  let ?m0 = "module_with_types (mod_functions m) (types m)"
  note t = module_ok_tables [OF ok, folded p_def]
  note sm = small [unfolded module_sections_def Let_def opt_section_def, folded p_def]
  have idx: "resolve_index m (mod_entry m) ''main'' \<noteq> Some (- 1)"
      "resolve_index m (mod_init m) ''<init>'' \<noteq> Some (- 1)" and sync: "dispatch_synced m"
    using ok by (simp_all add: module_ok_def)
  have e: "(case enums_payload ps of Some q \<Rightarrow> rbind (decode_enums q (strings p)) (\<lambda>es. Ok (?m0\<lparr>enums := es\<rparr>))
      | None \<Rightarrow> Ok ?m0) = Ok (?m0\<lparr>enums := enums m\<rparr>)"
  proof (cases "enums m = []")
    case True
    then show ?thesis by (simp add: ps module_payloads Let_def module_with_types_def)
  next
    case False
    then have "decode_enums (counted_bytes (enum_bytes p) (enums m)) (strings p) = Ok (enums m)"
      unfolding decode_enums_def using t(4) ok sm
      by (intro enumf.decode_payload_at) (simp_all add: module_ok_def)
    then show ?thesis using False by (simp add: ps module_payloads Let_def p_def)
  qed
  have d: "(case dispatch_payload ps of Some q \<Rightarrow> rbind (decode_dispatch q (strings p)) (\<lambda>rows. Ok (set_dispatch m1 rows))
      | None \<Rightarrow> Ok m1) = Ok (m1\<lparr>dispatch := dispatch m, dispatch_index := dispatch_index m\<rparr>)"
    if "dispatch m1 = []" "dispatch_index m1 = Map.empty" for m1
  proof (cases "dispatch m = []")
    case True
    then show ?thesis using that sync
      by (cases m1) (simp add: ps module_payloads Let_def dispatch_rows_def dispatch_synced_def)
  next
    case False
    then have "decode_dispatch (counted_bytes (row_bytes p) (dispatch m)) (strings p) = Ok (dispatch m)"
      unfolding decode_dispatch_def using t(6) ok sm
      by (intro rowf.decode_payload_at) (simp_all add: module_ok_def dispatch_rows_def)
    then show ?thesis using False sync
      by (simp add: ps module_payloads Let_def p_def dispatch_rows_def set_dispatch_def dispatch_synced_def)
  qed
  have g: "(case globals_payload ps of Some q \<Rightarrow> read_uv (reader_new q) (\<lambda>n _. Ok (m1\<lparr>global_count := ucast n\<rparr>))
      | None \<Rightarrow> Ok m1) = Ok (m1\<lparr>global_count := global_count m\<rparr>)" if "global_count m1 = 0" for m1
    using that sm by (cases m1) (auto simp: ps module_payloads Let_def read_uv_payload word_gt_0)
  have i: "(case entry_payload ps of Some q \<Rightarrow> read_uv (reader_new q) (\<lambda>e r. read_uv r (\<lambda>i _.
        Ok (m1\<lparr>mod_entry := decode_opt_index e, mod_init := decode_opt_index i\<rparr>)))
      | None \<Rightarrow> Ok m1) = Ok (m1\<lparr>mod_entry := resolve_index m (mod_entry m) ''main'',
          mod_init := resolve_index m (mod_init m) ''<init>''\<rparr>)"
    if "mod_entry m1 = None" "mod_init m1 = None" for m1
    using that sm idx by (cases m1)
      (auto simp: ps module_payloads Let_def read_entry_payload decode_encode_opt_index)
  show ?thesis
    unfolding decode_optional_def e rbind_simps
    by (cases m) (simp add: d g i module_with_types_def resolved_def)
qed

lemma decode_tables_payloads:
  assumes ok: "module_ok m" and small: "\<forall>x\<in>set (module_sections m). length (snd x) < 2 ^ 64"
  shows "decode_tables 3 (fold (\<lambda>(sid, p). store_payload sid p) (module_sections m) no_payloads) =
    Ok (resolved m)"
proof -
  let ?p = "build_pool m" and ?strip = "\<lambda>f :: func. f\<lparr>func_name := []\<rparr>"
  note t = module_ok_tables [OF ok]
  note sm = small [unfolded module_sections_def Let_def opt_section_def, simplified]
  have names: "\<forall>s\<in>set (map func_name (mod_functions m)). valid_str s \<and> length s < 2 ^ 64"
    and lens: "length (types m) < 2 ^ 64" "length (mod_functions m) < 2 ^ 64"
    using ok by (auto simp: module_ok_def list_all_iff ok_str_def)
  have pool: "decode_pool (counted_bytes str_bytes (strings ?p)) = Ok (strings ?p)"
    unfolding decode_pool_def using t(1,2) sm by (intro strf.decode_payload_at) simp_all
  have typs: "decode_types (counted_bytes (type_bytes ?p) (types m)) (strings ?p) 3 = Ok (types m)"
    unfolding decode_types_def using t(3) lens(1) sm by (intro typef.decode_payload_at) simp_all
  have syms: "decode_symbols (counted_bytes str_bytes (map func_name (mod_functions m))) =
      Ok (map func_name (mod_functions m))"
    unfolding decode_symbols_def using names lens(2) sm by (intro strf.decode_payload_at) simp_all
  have funs: "decode_functions (counted_bytes (func_bytes ?p) (mod_functions m)) (strings ?p) =
      Ok (map ?strip (mod_functions m))"
    unfolding decode_functions_def
    using funcf.decode_payload_at [of "map ?strip (mod_functions m)" ?p] t(5) lens(2) sm
    by (simp add: counted_bytes_map func_bytes_unnamed)
  show ?thesis
    using decode_optional_payloads [OF ok refl small] unfolding decode_tables_def
    by (simp add: module_payloads Let_def payload_or_def pool typs funs syms name_functions_symbols)
qed

lemma decode_encode_module:
  assumes ok: "module_ok m" and enc: "encode_module m = Some bs" and len: "length bs < 2 ^ 64"
  shows "decode_module bs = Ok (resolved m)"
proof -
  let ?s = "concat (map section_bytes (module_sections m))"
  have bs: "bs = MAGIC @ le_bytes32 VERSION @ ?s"
    using encode_module_sections [OF ok] enc by simp
  have at: "at_bytes (reader_new bs) (MAGIC @ le_bytes32 VERSION @ ?s)"
    using at_bytes_new [OF len] bs by simp
  note at1 = at_bytes_adv [OF at]
  note at2 = at_bytes_adv [OF at1]
  have small: "\<forall>x\<in>set (module_sections m). length (snd x) < 2 ^ 64"
    using len bs by (intro sections_small) simp
  have "read_raw (reader_new bs) (length MAGIC) = Ok (MAGIC, adv (reader_new bs) (length MAGIC))"
    unfolding read_raw_def by (rule take_n_at [OF at])
  moreover have "read_u32_le (adv (reader_new bs) (length MAGIC)) =
      Ok (3, adv (adv (reader_new bs) (length MAGIC)) (length (le_bytes32 VERSION)))"
    using u32f.read_at [OF TrueI at1] by (simp add: VERSION_def)
  ultimately show ?thesis
    using decode_sections_at [OF small at2] decode_tables_payloads [OF ok small]
    by (simp add: decode_module_def SUPPORTED_VERSIONS_def)
qed

end
