(* ===== verification/Trap.thy ===== *)
theory Trap
  imports Heap Module
begin

text \<open>
  Runtime faults and the type names their messages use (the opening part of
  \<^verbatim>\<open>runtime/src/interp/mod.rs\<close>). A Rust panic (a dangling handle, an \<open>unwrap\<close> or index
  out of range, or the host stack overflowing in an unbounded recursion) is a fault of its
  own, apart from the traps the runtime reports. \<open>Diverge\<close> is no fault of the program: the
  evaluation was not finished within the number of steps the model was given, or the process exited.
\<close>

datatype trap =
    DivByZero
  | IndexOutOfBounds i64 usize
  | MissingKey string
  | ClosedChannel
  | OutOfMemory usize usize
  | StackOverflow
  | TypeError string string
  | Bug string

datatype fault = Trap trap | Panic | Diverge

type_synonym 'a res = "fault + 'a"

definition MAX_CALL_DEPTH :: usize where "MAX_CALL_DEPTH = 1000000"

definition bug :: "string \<Rightarrow> fault" where
  "bug msg = Trap (Bug msg)"

text \<open>An operation that panics has no result in the heap model.\<close>

abbreviation or_panic :: "'a option \<Rightarrow> 'a res" where
  "or_panic x \<equiv> ok_or Panic x"

definition obj_type_name :: "obj \<Rightarrow> module option \<Rightarrow> string" where
  "obj_type_name obj m =
     (case obj of
        Str _ \<Rightarrow> ''String''
      | Bytes _ \<Rightarrow> ''Bytes''
      | BytesBuilder _ \<Rightarrow> ''BytesBuilder''
      | List _ \<Rightarrow> ''List''
      | Map _ \<Rightarrow> ''Map''
      | Closure _ _ \<Rightarrow> ''a function''
      | Struct ty _ \<Rightarrow>
          (case Option.bind m (\<lambda>m. get_nth (types m) (unat ty)) of
             None \<Rightarrow> ''a struct'' | Some t \<Rightarrow> type_name t)
      | Enum e \<Rightarrow>
          (case Option.bind m (\<lambda>m. enum_def m (enum_ty e)) of
             None \<Rightarrow> ''an enum'' | Some d \<Rightarrow> enumdef_name d))"

definition value_type_name :: "store \<Rightarrow> val \<Rightarrow> module option \<Rightarrow> string res" where
  "value_type_name st v m =
     (case v of
        IntV _ \<Rightarrow> Ok ''Int''
      | Double _ \<Rightarrow> Ok ''Double''
      | Bool _ \<Rightarrow> Ok ''Bool''
      | Unit \<Rightarrow> Ok ''Unit''
      | Ref h \<Rightarrow> rbind (or_panic (lookup st h)) (\<lambda>obj. Ok (obj_type_name obj m)))"

text \<open>\<open>Err(type_error(expected, found, module))\<close>.\<close>

definition type_error :: "string \<Rightarrow> val \<Rightarrow> module \<Rightarrow> store \<Rightarrow> 'a res" where
  "type_error expected found m st =
     rbind (value_type_name st found (Some m)) (\<lambda>name. Err (Trap (TypeError expected name)))"

text \<open>An activation record.\<close>

record frame =
  frame_func :: usize
  pc :: usize
  base :: usize

end
