(* ===== verification/Sched.thy ===== *)
theory Sched
  imports Wire Trap
begin

text \<open>
  The cooperative fiber scheduler (\<open>Scheduler\<close> of \<^verbatim>\<open>runtime/src/interp/mod.rs\<close>): fibers
  and their park lists, idempotent waking, timers, socket waits, worker completions and
  bounded channels. An index out of range panics in the source; the operation then has no
  result. \<open>'p\<close> is the payload a worker returns, \<open>'j\<close> the job shipped to it; neither is
  looked at by the scheduler. Time is counted in ticks since an epoch.
\<close>

section \<open>State\<close>

type_synonym instant = nat

text \<open>\<open>IoFinish\<close>: turns a worker's payload into a value, allocating on the heap; it may reach the process-wide
  registries, which are part of the outside.\<close>

type_synonym 'p io_finish = "'p \<Rightarrow> rt \<Rightarrow> 'p \<Rightarrow> val res \<times> rt \<times> 'p"

datatype ('j, 'p) park_request =
    BlockRetry
  | YieldReady
  | Timer instant
  | Await 'j "'p io_finish"
  | Ready i64
  | Multi "instant option" "i64 list"

datatype fiber_state =
    NotStarted val
  | Suspended "val list" "frame list"
  | Running
  | Done val

record park_srcs =
  src_timer :: bool
  src_handles :: "i64 list"

record 'p fiber =
  fstate :: fiber_state
  pending :: "'p io_finish option"
  queued :: bool
  park_sources :: "park_srcs option"

record chan =
  buffer :: "val list"
  chan_capacity :: usize
  closed :: bool

record 'p scheduler =
  fibers :: "'p fiber list"
  ready :: "usize list"
  blocked :: "usize list"
  timers :: "(instant \<times> usize) list"
  io_blocked :: usize
  poll_blocked :: "i64 \<rightharpoonup> usize list"
  channels :: "chan list"

datatype send_outcome = Sent | Full | Closed
datatype recv_outcome = Got val | Empty | Drained

definition MAIN_FIBER :: usize where "MAIN_FIBER = 0"

definition sched_new :: "'p scheduler" where
  "sched_new = \<lparr>fibers = [], ready = [], blocked = [], timers = [], io_blocked = 0,
     poll_blocked = Map.empty, channels = []\<rparr>"

text \<open>\<open>Vm::run\<close> registers the main fiber as running.\<close>

definition sched_start :: "'p scheduler" where
  "sched_start = sched_new\<lparr>fibers :=
     [\<lparr>fstate = Running, pending = None, queued = False, park_sources = None\<rparr>]\<rparr>"

definition upd_fiber :: "usize \<Rightarrow> ('p fiber \<Rightarrow> 'p fiber) \<Rightarrow> 'p scheduler \<Rightarrow> 'p scheduler option" where
  "upd_fiber i f s =
     (if i < length (fibers s) then Some (s\<lparr>fibers := (fibers s)[i := f (fibers s ! i)]\<rparr>) else None)"

section \<open>Waking\<close>

definition make_ready :: "'p scheduler \<Rightarrow> usize \<Rightarrow> 'p scheduler option" where
  "make_ready s i =
     Option.bind (get_nth (fibers s) i) (\<lambda>f.
       if queued f then Some s
       else map_option (\<lambda>s. s\<lparr>ready := ready s @ [i]\<rparr>) (upd_fiber i (\<lambda>f. f\<lparr>queued := True\<rparr>) s))"

definition wake_all :: "'p scheduler \<Rightarrow> 'p scheduler option" where
  "wake_all s = try_fold make_ready (s\<lparr>blocked := []\<rparr>) (blocked s)"

definition wake_poll :: "i64 \<Rightarrow> 'p scheduler \<Rightarrow> 'p scheduler option" where
  "wake_poll handle s =
     (case poll_blocked s handle of
        None \<Rightarrow> Some s
      | Some waiters \<Rightarrow>
          try_fold make_ready (s\<lparr>poll_blocked := (poll_blocked s)(handle := None)\<rparr>) waiters)"

definition earliest_deadline :: "'p scheduler \<Rightarrow> instant option" where
  "earliest_deadline s = (if timers s = [] then None else Some (Min (set (map fst (timers s)))))"

definition wake_due_timers :: "instant \<Rightarrow> 'p scheduler \<Rightarrow> (bool \<times> 'p scheduler) option" where
  "wake_due_timers now s =
     (let due = map snd (filter (\<lambda>(d, i). d \<le> now) (timers s));
          s' = s\<lparr>timers := filter (\<lambda>(d, i). \<not> d \<le> now) (timers s)\<rparr>
      in map_option (\<lambda>s. (due \<noteq> [], s)) (try_fold make_ready s' due))"

section \<open>Channels\<close>

definition channel_new :: "usize \<Rightarrow> 'p scheduler \<Rightarrow> usize \<times> 'p scheduler" where
  "channel_new cap s =
     (length (channels s),
      s\<lparr>channels := channels s @ [\<lparr>buffer = [], chan_capacity = max cap 1, closed = False\<rparr>]\<rparr>)"

definition chan_send :: "usize \<Rightarrow> val \<Rightarrow> 'p scheduler \<Rightarrow> (send_outcome \<times> 'p scheduler) option" where
  "chan_send i v s =
     Option.bind (get_nth (channels s) i) (\<lambda>ch.
       if closed ch then Some (Closed, s)
       else if length (buffer ch) < chan_capacity ch
       then map_option (\<lambda>s. (Sent, s))
              (wake_all (s\<lparr>channels := (channels s)[i := ch\<lparr>buffer := buffer ch @ [v]\<rparr>]\<rparr>))
       else Some (Full, s))"

definition chan_receive :: "usize \<Rightarrow> 'p scheduler \<Rightarrow> (recv_outcome \<times> 'p scheduler) option" where
  "chan_receive i s =
     Option.bind (get_nth (channels s) i) (\<lambda>ch.
       case buffer ch of
         v # rest \<Rightarrow>
           map_option (\<lambda>s. (Got v, s))
             (wake_all (s\<lparr>channels := (channels s)[i := ch\<lparr>buffer := rest\<rparr>]\<rparr>))
       | [] \<Rightarrow> Some (if closed ch then Drained else Empty, s))"

definition chan_close :: "usize \<Rightarrow> 'p scheduler \<Rightarrow> 'p scheduler option" where
  "chan_close i s =
     Option.bind (get_nth (channels s) i) (\<lambda>ch.
       wake_all (s\<lparr>channels := (channels s)[i := ch\<lparr>closed := True\<rparr>]\<rparr>))"

definition chan_ready :: "usize \<Rightarrow> 'p scheduler \<Rightarrow> bool option" where
  "chan_ready i s =
     map_option (\<lambda>ch. buffer ch \<noteq> [] \<or> closed ch) (get_nth (channels s) i)"

section \<open>Fibers\<close>

definition spawn :: "val \<Rightarrow> 'p scheduler \<Rightarrow> (usize \<times> 'p scheduler) option" where
  "spawn closure s =
     (let i = length (fibers s);
          f = \<lparr>fstate = NotStarted closure, pending = None, queued = False, park_sources = None\<rparr>
      in map_option (\<lambda>s. (i, s)) (make_ready (s\<lparr>fibers := fibers s @ [f]\<rparr>) i))"

definition fiber_result :: "usize \<Rightarrow> 'p scheduler \<Rightarrow> val option" where
  "fiber_result i s =
     (case map_option fstate (get_nth (fibers s) i) of Some (Done v) \<Rightarrow> Some v | _ \<Rightarrow> None)"

definition complete :: "usize \<Rightarrow> val \<Rightarrow> 'p scheduler \<Rightarrow> 'p scheduler option" where
  "complete i v s = Option.bind (upd_fiber i (\<lambda>f. f\<lparr>fstate := Done v\<rparr>) s) wake_all"

text \<open>\<open>poll_blocked.entry(handle).or_default().push(id)\<close>.\<close>

definition poll_push :: "usize \<Rightarrow> i64 \<Rightarrow> 'p scheduler \<Rightarrow> 'p scheduler" where
  "poll_push i h s =
     s\<lparr>poll_blocked := (poll_blocked s)(h \<mapsto>
         (case poll_blocked s h of None \<Rightarrow> [] | Some ws \<Rightarrow> ws) @ [i])\<rparr>"

text \<open>\<open>Await\<close> is routed through \<open>park_io\<close>; reaching it here is unreachable.\<close>

definition park :: "usize \<Rightarrow> val list \<Rightarrow> frame list \<Rightarrow> ('j, 'p) park_request
    \<Rightarrow> 'p scheduler \<Rightarrow> 'p scheduler option" where
  "park i vstack frames req s =
     Option.bind (upd_fiber i (\<lambda>f. f\<lparr>fstate := Suspended vstack frames\<rparr>) s) (\<lambda>s.
       case req of
         YieldReady \<Rightarrow> make_ready s i
       | BlockRetry \<Rightarrow> Some (s\<lparr>blocked := blocked s @ [i]\<rparr>)
       | Timer d \<Rightarrow> Some (s\<lparr>timers := timers s @ [(d, i)]\<rparr>)
       | Ready h \<Rightarrow> Some (poll_push i h s)
       | Multi deadline handles \<Rightarrow>
           (let s = s\<lparr>blocked := blocked s @ [i]\<rparr>;
                s = (case deadline of Some d \<Rightarrow> s\<lparr>timers := timers s @ [(d, i)]\<rparr> | None \<Rightarrow> s);
                s = fold (poll_push i) handles s
            in upd_fiber i (\<lambda>f. f\<lparr>park_sources :=
                   Some \<lparr>src_timer = (deadline \<noteq> None), src_handles = handles\<rparr>\<rparr>) s)
       | Await _ _ \<Rightarrow> None)"

definition park_io :: "usize \<Rightarrow> val list \<Rightarrow> frame list \<Rightarrow> 'p io_finish
    \<Rightarrow> 'p scheduler \<Rightarrow> 'p scheduler option" where
  "park_io i vstack frames finish s =
     map_option (\<lambda>s. s\<lparr>io_blocked := io_blocked s + 1\<rparr>)
       (upd_fiber i (\<lambda>f. f\<lparr>fstate := Suspended vstack frames, pending := Some finish\<rparr>) s)"

text \<open>\<open>retain\<close> on a handle's waiters, dropping an entry left empty.\<close>

definition poll_drop :: "usize \<Rightarrow> i64 \<Rightarrow> 'p scheduler \<Rightarrow> 'p scheduler" where
  "poll_drop i h s =
     (case poll_blocked s h of
        None \<Rightarrow> s
      | Some ws \<Rightarrow>
          (let ws' = filter (\<lambda>f. f \<noteq> i) ws
           in s\<lparr>poll_blocked := (poll_blocked s)(h := (if ws' = [] then None else Some ws'))\<rparr>))"

definition unlist :: "usize \<Rightarrow> 'p scheduler \<Rightarrow> 'p scheduler option" where
  "unlist i s =
     Option.bind (get_nth (fibers s) i) (\<lambda>f.
       case park_sources f of
         None \<Rightarrow> Some s
       | Some src \<Rightarrow>
           Option.bind (upd_fiber i (\<lambda>f. f\<lparr>park_sources := None\<rparr>) s) (\<lambda>s.
             let s = s\<lparr>blocked := filter (\<lambda>f. f \<noteq> i) (blocked s)\<rparr>;
                 s = (if src_timer src then s\<lparr>timers := filter (\<lambda>(d, f). f \<noteq> i) (timers s)\<rparr> else s)
             in Some (fold (poll_drop i) (src_handles src) s)))"

definition take_pending :: "usize \<Rightarrow> 'p scheduler \<Rightarrow> ('p io_finish \<times> 'p scheduler) option" where
  "take_pending i s =
     Option.bind (get_nth (fibers s) i) (\<lambda>f.
     Option.bind (pending f) (\<lambda>finish.
       map_option (\<lambda>s. (finish, s)) (upd_fiber i (\<lambda>f. f\<lparr>pending := None\<rparr>) s)))"

definition deliver :: "usize \<Rightarrow> val \<Rightarrow> 'p scheduler \<Rightarrow> 'p scheduler option" where
  "deliver i v s =
     Option.bind (get_nth (fibers s) i) (\<lambda>f.
       case fstate f of
         Suspended vstack frames \<Rightarrow>
           if vstack = [] \<or> io_blocked s = 0 then None
           else Option.bind (upd_fiber i (\<lambda>f. f\<lparr>fstate := Suspended (butlast vstack @ [v]) frames\<rparr>) s)
                  (\<lambda>s. make_ready (s\<lparr>io_blocked := io_blocked s - 1\<rparr>) i)
       | _ \<Rightarrow> None)"

text \<open>The scheduler's part of \<open>next_ready\<close>: dequeue, clear the flag, sweep the losing
  sources, mark it running and hand out the state it was saved in.\<close>

definition dequeue :: "'p scheduler \<Rightarrow> ((usize \<times> fiber_state) option \<times> 'p scheduler) option" where
  "dequeue s =
     (case ready s of
        [] \<Rightarrow> Some (None, s)
      | i # rest \<Rightarrow>
          Option.bind (upd_fiber i (\<lambda>f. f\<lparr>queued := False\<rparr>) (s\<lparr>ready := rest\<rparr>)) (\<lambda>s.
          Option.bind (unlist i s) (\<lambda>s.
          Option.bind (get_nth (fibers s) i) (\<lambda>f.
            map_option (\<lambda>s. (Some (i, fstate f), s)) (upd_fiber i (\<lambda>f. f\<lparr>fstate := Running\<rparr>) s)))))"

section \<open>Roots\<close>

definition fiber_roots :: "'p fiber \<Rightarrow> val list" where
  "fiber_roots f =
     (case fstate f of
        NotStarted c \<Rightarrow> [c] | Done v \<Rightarrow> [v] | Suspended vstack _ \<Rightarrow> vstack | Running \<Rightarrow> [])"

definition gather_scheduler_roots :: "'p scheduler \<Rightarrow> val list" where
  "gather_scheduler_roots s =
     concat (map fiber_roots (fibers s)) @ concat (map buffer (channels s))"

end
