(* ===== verification/SchedInv.thy ===== *)
theory SchedInv
  imports Sched
begin

text \<open>
  The scheduler's invariant and that every operation keeps it without panicking: the ready
  queue holds each runnable fiber once and exactly the fibers flagged \<open>queued\<close>, no running
  or finished fiber is queued or listed, a fiber parked on a worker is on no list, a parked
  fiber is always findable by whatever should wake it, and a fiber about to run has no
  stale listing left.
\<close>

section \<open>The invariant\<close>

definition in_timers :: "'p scheduler \<Rightarrow> usize \<Rightarrow> bool" where
  "in_timers s i \<longleftrightarrow> i \<in> set (map snd (timers s))"

definition in_poll :: "'p scheduler \<Rightarrow> i64 \<Rightarrow> usize \<Rightarrow> bool" where
  "in_poll s h i = (case poll_blocked s h of None \<Rightarrow> False | Some ws \<Rightarrow> i \<in> set ws)"

definition listed :: "'p scheduler \<Rightarrow> usize \<Rightarrow> bool" where
  "listed s i \<longleftrightarrow> i \<in> set (blocked s) \<or> in_timers s i \<or> (\<exists>h. in_poll s h i)"

text \<open>A single-source park lists a fiber in one place only; a \<open>Multi\<close> park records where.\<close>

definition sources_ok :: "'p scheduler \<Rightarrow> usize \<Rightarrow> 'p fiber \<Rightarrow> bool" where
  "sources_ok s i f \<longleftrightarrow>
     (case park_sources f of
        None \<Rightarrow>
          (queued f \<longrightarrow> \<not> listed s i) \<and>
          (i \<in> set (blocked s) \<longrightarrow> \<not> in_timers s i \<and> (\<forall>h. \<not> in_poll s h i)) \<and>
          (in_timers s i \<longrightarrow> (\<forall>h. \<not> in_poll s h i)) \<and>
          (\<forall>h h'. in_poll s h i \<longrightarrow> in_poll s h' i \<longrightarrow> h = h')
      | Some src \<Rightarrow>
          (in_timers s i \<longrightarrow> src_timer src) \<and> (\<forall>h. in_poll s h i \<longrightarrow> h \<in> set (src_handles src)))"

text \<open>\<open>W\<close> are the fibers just taken off a list and not yet queued.\<close>

definition fiber_inv :: "usize set \<Rightarrow> 'p scheduler \<Rightarrow> usize \<Rightarrow> 'p fiber \<Rightarrow> bool" where
  "fiber_inv W s i f \<longleftrightarrow>
     (queued f \<longleftrightarrow> i \<in> set (ready s)) \<and>
     (case fstate f of
        NotStarted _ \<Rightarrow>
          queued f \<and> \<not> listed s i \<and> pending f = None \<and> park_sources f = None \<and> i \<notin> W
      | Suspended vstack frames \<Rightarrow>
          frames \<noteq> [] \<and>
          (if pending f = None
           then (queued f \<or> listed s i \<or> i \<in> W) \<and> sources_ok s i f \<and>
                (i \<in> W \<longrightarrow> park_sources f = None \<longrightarrow> \<not> listed s i)
           else \<not> queued f \<and> \<not> listed s i \<and> park_sources f = None \<and> vstack \<noteq> [] \<and> i \<notin> W)
      | _ \<Rightarrow> \<not> queued f \<and> \<not> listed s i \<and> pending f = None \<and> park_sources f = None \<and> i \<notin> W)"

definition ids_ok :: "'p scheduler \<Rightarrow> bool" where
  "ids_ok s \<longleftrightarrow>
     (\<forall>i. i \<in> set (ready s) \<or> listed s i \<longrightarrow> i < length (fibers s)) \<and>
     distinct (ready s) \<and> distinct (map snd (timers s)) \<and>
     (\<forall>h. poll_blocked s h \<noteq> Some []) \<and>
     io_blocked s = length (filter (\<lambda>f. pending f \<noteq> None) (fibers s))"

definition sched_inv :: "usize set \<Rightarrow> 'p scheduler \<Rightarrow> bool" where
  "sched_inv W s \<longleftrightarrow>
     ids_ok s \<and> (\<forall>i \<in> W. i < length (fibers s)) \<and>
     (\<forall>i < length (fibers s). fiber_inv W s i (fibers s ! i))"

definition sched_ok :: "'p scheduler \<Rightarrow> bool" where
  "sched_ok s = sched_inv {} s"

lemma sched_invD:
  "sched_inv W s \<Longrightarrow> i < length (fibers s) \<Longrightarrow> fiber_inv W s i (fibers s ! i)"
  by (simp add: sched_inv_def)

section \<open>Waking is idempotent\<close>

lemma length_filter_update:
  "i < length xs \<Longrightarrow> P y = P (xs ! i) \<Longrightarrow> length (filter P (xs[i := y])) = length (filter P xs)"
  by (induction xs arbitrary: i) (auto split: nat.splits)

lemma lists_simps [simp]:
  "in_timers (s\<lparr>fibers := fs\<rparr>) = in_timers s" "in_poll (s\<lparr>fibers := fs\<rparr>) = in_poll s"
  "listed (s\<lparr>fibers := fs\<rparr>) = listed s"
  "in_timers (s\<lparr>ready := r\<rparr>) = in_timers s" "in_poll (s\<lparr>ready := r\<rparr>) = in_poll s"
  "listed (s\<lparr>ready := r\<rparr>) = listed s"
  "in_timers (s\<lparr>channels := c\<rparr>) = in_timers s" "in_poll (s\<lparr>channels := c\<rparr>) = in_poll s"
  "listed (s\<lparr>channels := c\<rparr>) = listed s"
  "in_timers (s\<lparr>io_blocked := n\<rparr>) = in_timers s" "in_poll (s\<lparr>io_blocked := n\<rparr>) = in_poll s"
  "listed (s\<lparr>io_blocked := n\<rparr>) = listed s"
  by (auto simp: fun_eq_iff in_timers_def in_poll_def listed_def)

lemma sources_ok_simps [simp]:
  "sources_ok (s\<lparr>fibers := fs\<rparr>) = sources_ok s"
  "sources_ok (s\<lparr>ready := r\<rparr>) = sources_ok s"
  "sources_ok (s\<lparr>channels := c\<rparr>) = sources_ok s"
  "sources_ok (s\<lparr>io_blocked := n\<rparr>) = sources_ok s"
  by (auto simp: fun_eq_iff sources_ok_def split: option.splits)

text \<open>A fiber the operation does not touch.\<close>

lemma fiber_inv_transfer:
  assumes "j \<in> set (ready s') \<longleftrightarrow> j \<in> set (ready s)" "listed s' j = listed s j"
    "sources_ok s' j f = sources_ok s j f" "j \<in> W' \<longleftrightarrow> j \<in> W"
  shows "fiber_inv W' s' j f = fiber_inv W s j f"
  unfolding fiber_inv_def assms ..

lemma make_ready_inv:
  assumes inv: "sched_inv (insert i W) s"
  shows "\<exists>s'. make_ready s i = Some s' \<and> sched_inv W s'"
proof -
  have i: "i < length (fibers s)" using inv by (simp add: sched_inv_def)
  let ?f = "fibers s ! i"
  have fi: "fiber_inv (insert i W) s i ?f" using inv i by (rule sched_invD)
  then obtain vs fr where st: "fstate ?f = Suspended vs fr" and pend: "pending ?f = None"
    by (auto simp: fiber_inv_def split: fiber_state.splits if_splits)
  show ?thesis
  proof (cases "queued ?f")
    case True
    have "fiber_inv W s i ?f"
      using fi True st pend by (simp add: fiber_inv_def)
    moreover have "fiber_inv W s j (fibers s ! j)" if "j < length (fibers s)" "j \<noteq> i" for j
      using sched_invD [OF inv that(1)] fiber_inv_transfer [of j s s "fibers s ! j" W "insert i W"] that(2)
      by simp
    ultimately have "\<forall>j < length (fibers s). fiber_inv W s j (fibers s ! j)" by blast
    then have "sched_inv W s" using inv by (simp add: sched_inv_def)
    then show ?thesis using True i by (simp add: make_ready_def get_nth_def)
  next
    case False
    let ?s' = "s\<lparr>fibers := (fibers s)[i := ?f\<lparr>queued := True\<rparr>], ready := ready s @ [i]\<rparr>"
    have nr: "i \<notin> set (ready s)" using fi False by (simp add: fiber_inv_def)
    have "sources_ok s i (?f\<lparr>queued := True\<rparr>)"
      using fi st pend by (cases "park_sources ?f") (simp_all add: fiber_inv_def sources_ok_def)
    then have "fiber_inv W ?s' i (?f\<lparr>queued := True\<rparr>)"
      using fi st pend by (simp add: fiber_inv_def)
    moreover have "fiber_inv W ?s' j (fibers s ! j)" if "j < length (fibers s)" "j \<noteq> i" for j
      using sched_invD [OF inv that(1)] fiber_inv_transfer [of j ?s' s "fibers s ! j" W "insert i W"] that(2)
      by simp
    ultimately have fj: "\<forall>j < length (fibers s). fiber_inv W ?s' j (fibers ?s' ! j)"
      using i by (simp add: nth_list_update)
    have "ids_ok ?s'"
      using inv i nr length_filter_update [of i "fibers s" "\<lambda>f. pending f \<noteq> None"]
      by (auto simp: sched_inv_def ids_ok_def)
    then have "sched_inv W ?s'" using inv fj by (simp add: sched_inv_def)
    moreover have "make_ready s i = Some ?s'"
      using False i by (simp add: make_ready_def get_nth_def upd_fiber_def)
    ultimately show ?thesis by blast
  qed
qed

lemma wake_inv:
  "sched_inv (set ws) s \<Longrightarrow> \<exists>s'. try_fold make_ready s ws = Some s' \<and> sched_ok s'"
proof (induction ws arbitrary: s)
  case Nil
  then show ?case by (simp add: sched_ok_def)
next
  case (Cons i ws)
  then obtain s' where "make_ready s i = Some s'" "sched_inv (set ws) s'"
    using make_ready_inv [of i "set ws" s] by auto
  then show ?case using Cons.IH by simp
qed

section \<open>Taking fibers off their lists\<close>

lemma listed_suspended:
  assumes ok: "sched_ok s" and l: "listed s i"
  shows "i < length (fibers s)" "\<exists>vs fr. fstate (fibers s ! i) = Suspended vs fr"
    "pending (fibers s ! i) = None" "sources_ok s i (fibers s ! i)"
proof -
  show i: "i < length (fibers s)" using assms by (auto simp: sched_ok_def sched_inv_def ids_ok_def)
  have "fiber_inv {} s i (fibers s ! i)" using ok i by (simp add: sched_ok_def sched_inv_def)
  then show "\<exists>vs fr. fstate (fibers s ! i) = Suspended vs fr" "pending (fibers s ! i) = None"
    "sources_ok s i (fibers s ! i)"
    using l by (auto simp: fiber_inv_def split: fiber_state.splits if_splits)
qed

lemma unlist_inv:
  assumes ok: "sched_ok s"
    and same: "fibers s' = fibers s" "ready s' = ready s" "io_blocked s' = io_blocked s"
    and sub: "\<And>i. in_timers s' i \<Longrightarrow> in_timers s i" "\<And>h i. in_poll s' h i \<Longrightarrow> in_poll s h i"
      "\<And>i. listed s' i \<Longrightarrow> listed s i"
    and keep: "\<And>i. i \<notin> W \<Longrightarrow> listed s' i = listed s i \<and> sources_ok s' i = sources_ok s i"
    and gone: "\<And>i. i \<in> W \<Longrightarrow> listed s i \<and> (park_sources (fibers s ! i) = None \<longrightarrow> \<not> listed s' i)"
    and fine: "distinct (map snd (timers s'))" "\<And>h. poll_blocked s' h \<noteq> Some []"
  shows "sched_inv W s'"
proof -
  have inv: "sched_inv {} s" using ok by (simp add: sched_ok_def)
  have "fiber_inv W s' i (fibers s ! i)" if i: "i < length (fibers s)" for i
  proof (cases "i \<in> W")
    case False
    then show ?thesis
      using sched_invD [OF inv i] fiber_inv_transfer [of i s' s "fibers s ! i" W "{}"] keep [OF False] same
      by simp
  next
    case True
    let ?f = "fibers s ! i"
    have l: "listed s i" using gone True by blast
    note L = listed_suspended [OF ok l]
    obtain vs fr where st: "fstate ?f = Suspended vs fr" using L(2) by blast
    have q: "queued ?f \<longleftrightarrow> i \<in> set (ready s')" "fr \<noteq> []"
      using sched_invD [OF inv i] same st by (simp_all add: fiber_inv_def)
    have src: "sources_ok s' i ?f"
    proof (cases "park_sources ?f")
      case None
      then have "\<not> listed s' i" using gone True by blast
      then show ?thesis using None by (simp add: sources_ok_def listed_def)
    next
      case (Some x)
      then show ?thesis using L(4) sub(1,2) by (simp add: sources_ok_def)
    qed
    have w: "park_sources ?f = None \<longrightarrow> \<not> listed s' i" using gone True by blast
    show ?thesis using st L(3) q src w True by (simp add: fiber_inv_def)
  qed
  moreover have "ids_ok s'"
    using inv same sub(3) fine unfolding sched_inv_def ids_ok_def by simp
  moreover have "\<forall>i\<in>W. i < length (fibers s)" using gone listed_suspended(1) [OF ok] by blast
  ultimately show ?thesis using same by (simp add: sched_inv_def)
qed

lemma blocked_exclusive:
  "sched_ok s \<Longrightarrow> i \<in> set (blocked s) \<Longrightarrow> park_sources (fibers s ! i) = None \<Longrightarrow>
     \<not> in_timers s i \<and> (\<forall>h. \<not> in_poll s h i)"
  using listed_suspended(4) [of s i] by (auto simp: sources_ok_def listed_def)

lemma timer_exclusive:
  "sched_ok s \<Longrightarrow> in_timers s i \<Longrightarrow> park_sources (fibers s ! i) = None \<Longrightarrow>
     i \<notin> set (blocked s) \<and> (\<forall>h. \<not> in_poll s h i)"
  using listed_suspended(4) [of s i] by (auto simp: sources_ok_def listed_def)

lemma poll_exclusive:
  "sched_ok s \<Longrightarrow> in_poll s h i \<Longrightarrow> park_sources (fibers s ! i) = None \<Longrightarrow>
     i \<notin> set (blocked s) \<and> \<not> in_timers s i \<and> (\<forall>h'. in_poll s h' i \<longrightarrow> h' = h)"
proof -
  assume ok: "sched_ok s" and p: "in_poll s h i" and n: "park_sources (fibers s ! i) = None"
  have "listed s i" using p by (auto simp: listed_def)
  from listed_suspended(4) [OF ok this] show ?thesis
    using p n unfolding sources_ok_def by (simp only: option.case) blast
qed

lemma sched_ok_fine:
  assumes "sched_ok s"
  shows "distinct (map snd (timers s))" "poll_blocked s h \<noteq> Some []"
  using assms by (simp_all add: sched_ok_def sched_inv_def ids_ok_def)

lemma wake_all_ok:
  assumes ok: "sched_ok s"
  shows "\<exists>s'. wake_all s = Some s' \<and> sched_ok s'"
proof -
  let ?s = "s\<lparr>blocked := []\<rparr>"
  have t: "in_timers ?s = in_timers s" "in_poll ?s = in_poll s"
    by (simp_all add: fun_eq_iff in_timers_def in_poll_def)
  have l: "listed ?s i \<longleftrightarrow> in_timers s i \<or> (\<exists>h. in_poll s h i)" for i by (simp add: listed_def t)
  have "sched_inv (set (blocked s)) ?s"
  proof (rule unlist_inv [OF ok])
    fix i assume i: "i \<notin> set (blocked s)"
    then have "listed ?s i = listed s i" by (simp add: l) (simp add: listed_def)
    then show "listed ?s i = listed s i \<and> sources_ok ?s i = sources_ok s i"
      using i by (simp add: fun_eq_iff sources_ok_def t split: option.split)
  next
    fix i assume i: "i \<in> set (blocked s)"
    then have "park_sources (fibers s ! i) = None \<longrightarrow> \<not> listed ?s i"
      using blocked_exclusive [OF ok] by (simp add: l)
    then show "listed s i \<and> (park_sources (fibers s ! i) = None \<longrightarrow> \<not> listed ?s i)"
      using i by (simp add: listed_def)
  qed (use sched_ok_fine [OF ok] t l in \<open>auto simp: listed_def\<close>)
  then show ?thesis using wake_inv by (simp add: wake_all_def)
qed

lemma wake_poll_ok:
  assumes ok: "sched_ok s"
  shows "\<exists>s'. wake_poll h s = Some s' \<and> sched_ok s'"
proof (cases "poll_blocked s h")
  case None
  then show ?thesis using ok by (simp add: wake_poll_def)
next
  case (Some ws)
  let ?s = "s\<lparr>poll_blocked := (poll_blocked s)(h := None)\<rparr>"
  have t: "in_timers ?s = in_timers s" by (simp add: fun_eq_iff in_timers_def)
  have p: "in_poll ?s h' i \<longleftrightarrow> h' \<noteq> h \<and> in_poll s h' i" for h' i by (simp add: in_poll_def)
  have ph: "in_poll s h i \<longleftrightarrow> i \<in> set ws" for i using Some by (simp add: in_poll_def)
  have "sched_inv (set ws) ?s"
  proof (rule unlist_inv [OF ok])
    fix i assume "i \<notin> set ws"
    then have pi: "in_poll ?s h' i = in_poll s h' i" for h' using p [of h' i] ph [of i] by (cases "h' = h") auto
    then have "listed ?s i = listed s i" by (simp add: listed_def t)
    then show "listed ?s i = listed s i \<and> sources_ok ?s i = sources_ok s i"
      by (simp add: fun_eq_iff sources_ok_def t pi split: option.split)
  next
    fix i assume i: "i \<in> set ws"
    then have ps: "in_poll s h i" using ph by simp
    have "park_sources (fibers s ! i) = None \<longrightarrow> \<not> listed ?s i"
      using poll_exclusive [OF ok ps] p t by (simp add: listed_def) blast
    moreover have "listed s i" using ps unfolding listed_def by blast
    ultimately show "listed s i \<and> (park_sources (fibers s ! i) = None \<longrightarrow> \<not> listed ?s i)" by blast
  next
    fix i assume "listed ?s i"
    then show "listed s i" using p t by (simp add: listed_def) blast
  qed (use sched_ok_fine [OF ok] t p in simp_all)
  then show ?thesis using wake_inv Some by (simp add: wake_poll_def)
qed

lemma wake_due_timers_ok:
  assumes ok: "sched_ok s"
  shows "\<exists>b s'. wake_due_timers now s = Some (b, s') \<and> sched_ok s'"
proof -
  let ?due = "map snd (filter (\<lambda>(d, i). d \<le> now) (timers s))"
  let ?s = "s\<lparr>timers := filter (\<lambda>(d, i). \<not> d \<le> now) (timers s)\<rparr>"
  have d: "distinct (map snd (timers s))" by (rule sched_ok_fine [OF ok])
  have p: "in_poll ?s = in_poll s" by (simp add: fun_eq_iff in_poll_def)
  have split: "in_timers s i \<longleftrightarrow> i \<in> set ?due \<or> in_timers ?s i" for i
    by (force simp: in_timers_def)
  have excl: "\<not> in_timers ?s i" if "i \<in> set ?due" for i
    using that d by (force simp: in_timers_def distinct_map inj_on_def)
  have "sched_inv (set ?due) ?s"
  proof (rule unlist_inv [OF ok])
    fix i assume "i \<notin> set ?due"
    then have ti: "in_timers ?s i = in_timers s i" using split by simp
    then have "listed ?s i = listed s i" by (simp add: listed_def p)
    then show "listed ?s i = listed s i \<and> sources_ok ?s i = sources_ok s i"
      by (simp add: fun_eq_iff sources_ok_def p ti split: option.split)
  next
    fix i assume i: "i \<in> set ?due"
    then have "in_timers s i" using split by simp
    moreover have "park_sources (fibers s ! i) = None \<longrightarrow> \<not> listed ?s i"
      using timer_exclusive [OF ok \<open>in_timers s i\<close>] excl [OF i] by (simp add: listed_def p)
    ultimately show "listed s i \<and> (park_sources (fibers s ! i) = None \<longrightarrow> \<not> listed ?s i)"
      by (simp add: listed_def)
  next
    show "distinct (map snd (timers ?s))" using d by (simp add: distinct_map_filter)
  next
    fix i assume "in_timers ?s i"
    then show "in_timers s i" using split by simp
  next
    fix i assume "listed ?s i"
    then show "listed s i" using split p by (auto simp: listed_def)
  qed (use sched_ok_fine [OF ok] p in simp_all)
  then obtain s' where "try_fold make_ready ?s ?due = Some s'" "sched_ok s'" using wake_inv by blast
  then show ?thesis by (simp add: wake_due_timers_def Let_def)
qed

section \<open>Channels\<close>

lemma sched_ok_channels [simp]: "sched_ok (s\<lparr>channels := c\<rparr>) = sched_ok s"
proof -
  have "fiber_inv {} (s\<lparr>channels := c\<rparr>) i f = fiber_inv {} s i f" for i f
    by (rule fiber_inv_transfer) simp_all
  then show ?thesis by (simp add: sched_ok_def sched_inv_def ids_ok_def)
qed

lemma chan_send_ok:
  assumes "sched_ok s" "i < length (channels s)"
  shows "\<exists>r s'. chan_send i v s = Some (r, s') \<and> sched_ok s'"
proof -
  let ?ch = "channels s ! i"
  obtain s' where "wake_all (s\<lparr>channels := (channels s)[i := ?ch\<lparr>buffer := buffer ?ch @ [v]\<rparr>]\<rparr>) = Some s'"
    "sched_ok s'"
    using wake_all_ok [of "s\<lparr>channels := (channels s)[i := ?ch\<lparr>buffer := buffer ?ch @ [v]\<rparr>]\<rparr>"] assms(1) by auto
  then show ?thesis using assms by (simp add: chan_send_def get_nth_def)
qed

lemma chan_receive_ok:
  assumes "sched_ok s" "i < length (channels s)"
  shows "\<exists>r s'. chan_receive i s = Some (r, s') \<and> sched_ok s'"
proof -
  let ?s = "s\<lparr>channels := (channels s)[i := (channels s ! i)\<lparr>buffer := tl (buffer (channels s ! i))\<rparr>]\<rparr>"
  obtain s' where "wake_all ?s = Some s'" "sched_ok s'" using wake_all_ok [of ?s] assms(1) by auto
  then show ?thesis using assms
    by (cases "buffer (channels s ! i)") (auto simp: chan_receive_def get_nth_def)
qed

lemma chan_close_ok:
  assumes "sched_ok s" "i < length (channels s)"
  shows "\<exists>s'. chan_close i s = Some s' \<and> sched_ok s'"
  using assms wake_all_ok [of "s\<lparr>channels := (channels s)[i := (channels s ! i)\<lparr>closed := True\<rparr>]\<rparr>"]
  by (simp add: chan_close_def get_nth_def)

section \<open>Changing one fiber\<close>

text \<open>What an operation on fiber \<open>i\<close> leaves alone for another fiber.\<close>

definition same_for :: "'p scheduler \<Rightarrow> 'p scheduler \<Rightarrow> usize \<Rightarrow> bool" where
  "same_for s s' j \<longleftrightarrow>
     (j \<in> set (ready s') \<longleftrightarrow> j \<in> set (ready s)) \<and> (j \<in> set (blocked s') \<longleftrightarrow> j \<in> set (blocked s)) \<and>
     in_timers s' j = in_timers s j \<and> (\<forall>h. in_poll s' h j = in_poll s h j)"

lemma same_forD:
  assumes "same_for s s' j"
  shows "j \<in> set (ready s') \<longleftrightarrow> j \<in> set (ready s)" "listed s' j = listed s j"
    "sources_ok s' j f = sources_ok s j f"
  using assms by (simp_all add: same_for_def listed_def sources_ok_def split: option.split)

lemma sched_inv_update:
  assumes inv: "sched_inv W s" and i: "i < length (fibers s)"
    and fs: "fibers s' = (fibers s)[i := f']"
    and same: "\<And>j. j \<noteq> i \<Longrightarrow> same_for s s' j" and W: "\<And>j. j \<noteq> i \<Longrightarrow> j \<in> W' \<longleftrightarrow> j \<in> W"
    and fi: "fiber_inv W' s' i f'" and ids: "ids_ok s'"
  shows "sched_inv W' s'"
proof -
  have "fiber_inv W' s' j (fibers s' ! j)" if "j < length (fibers s')" for j
  proof (cases "j = i")
    case True
    then show ?thesis using fi fs i by simp
  next
    case False
    then show ?thesis
      using sched_invD [OF inv, of j] that fs same_forD [OF same [OF False]] W [OF False]
        fiber_inv_transfer [of j s' s "fibers s ! j" W' W] by simp
  qed
  moreover have "j < length (fibers s')" if "j \<in> W'" for j
    using that inv W [of j] fs i by (cases "j = i") (auto simp: sched_inv_def)
  ultimately show ?thesis using ids by (simp add: sched_inv_def)
qed

lemma ids_okI:
  assumes "ids_ok s" "i < length (fibers s)" "length (fibers s') = length (fibers s)"
    and "\<And>j. j \<noteq> i \<Longrightarrow> same_for s s' j"
    and "distinct (ready s')" "distinct (map snd (timers s'))" "\<And>h. poll_blocked s' h \<noteq> Some []"
    and "io_blocked s' = length (filter (\<lambda>f. pending f \<noteq> None) (fibers s'))"
  shows "ids_ok s'"
proof -
  have "j < length (fibers s')" if "j \<in> set (ready s') \<or> listed s' j" for j
    using assms(1-3) that same_forD [OF assms(4)] by (cases "j = i") (auto simp: ids_ok_def)
  then show ?thesis using assms(5-8) by (simp add: ids_ok_def)
qed

lemma running_free:
  assumes "sched_ok s" "i < length (fibers s)" "fstate (fibers s ! i) = Running"
  shows "\<not> queued (fibers s ! i)" "i \<notin> set (ready s)" "\<not> listed s i" "i \<notin> set (blocked s)"
    "\<not> in_timers s i" "\<not> in_poll s h i" "pending (fibers s ! i) = None" "park_sources (fibers s ! i) = None"
  using assms sched_invD [of "{}" s i] by (auto simp: sched_ok_def fiber_inv_def listed_def)

lemma length_filter_flip:
  assumes "i < length xs"
  shows "P y \<Longrightarrow> \<not> P (xs ! i) \<Longrightarrow> length (filter P (xs[i := y])) = Suc (length (filter P xs))"
    and "\<not> P y \<Longrightarrow> P (xs ! i) \<Longrightarrow> Suc (length (filter P (xs[i := y]))) = length (filter P xs)"
  using assms by (induction xs arbitrary: i) (auto split: nat.splits)

lemma sched_ok_ids: "sched_ok s \<Longrightarrow> ids_ok s" by (simp add: sched_ok_def sched_inv_def)

lemma same_for_simps [simp]:
  "same_for s (s\<lparr>fibers := fs\<rparr>) j"
  "same_for s (s\<lparr>fibers := fs, io_blocked := n\<rparr>) j"
  "j \<noteq> i \<Longrightarrow> same_for s (s\<lparr>fibers := fs, ready := ready s @ [i]\<rparr>) j"
  "j \<noteq> i \<Longrightarrow> same_for s (s\<lparr>fibers := fs, io_blocked := n, ready := ready s @ [i]\<rparr>) j"
  "j \<noteq> i \<Longrightarrow> same_for s (s\<lparr>fibers := fs, blocked := blocked s @ [i]\<rparr>) j"
  "j \<noteq> i \<Longrightarrow> same_for s (s\<lparr>fibers := fs, timers := timers s @ [(d, i)]\<rparr>) j"
  by (simp_all add: same_for_def in_timers_def in_poll_def)

section \<open>Spawning and completing\<close>

lemma spawn_ok:
  assumes ok: "sched_ok s"
  shows "\<exists>s'. spawn c s = Some (length (fibers s), s') \<and> sched_ok s'"
proof -
  let ?i = "length (fibers s)"
  let ?f = "\<lparr>fstate = NotStarted c, pending = None, queued = True, park_sources = None\<rparr>"
  let ?s' = "s\<lparr>fibers := fibers s @ [?f], ready := ready s @ [?i]\<rparr>"
  have ids: "ids_ok s" by (rule sched_ok_ids [OF ok])
  then have fresh: "?i \<notin> set (ready s)" "\<not> listed s ?i" by (auto simp: ids_ok_def)
  have "fiber_inv {} ?s' j (fibers ?s' ! j)" if "j < Suc ?i" for j
  proof (cases "j = ?i")
    case True
    then show ?thesis using fresh by (simp add: fiber_inv_def)
  next
    case False
    then have j: "j < ?i" using that by simp
    show ?thesis
      using sched_invD [OF ok [unfolded sched_ok_def] j] False
        fiber_inv_transfer [of j ?s' s "fibers s ! j" "{}" "{}"] j by (simp add: nth_append)
  qed
  moreover have "ids_ok ?s'" using ids fresh by (auto simp: ids_ok_def less_Suc_eq)
  ultimately have "sched_ok ?s'" by (simp add: sched_ok_def sched_inv_def)
  moreover have "spawn c s = Some (?i, ?s')"
    by (simp add: spawn_def Let_def make_ready_def get_nth_def upd_fiber_def nth_append)
  ultimately show ?thesis by blast
qed

lemma complete_ok:
  assumes ok: "sched_ok s" and i: "i < length (fibers s)" and run: "fstate (fibers s ! i) = Running"
  shows "\<exists>s'. complete i v s = Some s' \<and> sched_ok s'"
proof -
  let ?f = "(fibers s ! i)\<lparr>fstate := Done v\<rparr>"
  let ?s = "s\<lparr>fibers := (fibers s)[i := ?f]\<rparr>"
  have ids: "ids_ok ?s"
    using sched_ok_ids [OF ok] i length_filter_update [of i "fibers s" "\<lambda>f. pending f \<noteq> None" ?f]
    by (simp add: ids_ok_def)
  have "sched_inv {} ?s"
    by (rule sched_inv_update [where s = s and i = i and W = "{}" and f' = ?f])
      (use ok i ids running_free [OF ok i run] in \<open>simp_all add: sched_ok_def fiber_inv_def\<close>)
  then show ?thesis
    using wake_all_ok [of ?s] i by (simp add: sched_ok_def complete_def upd_fiber_def)
qed

section \<open>Parking\<close>

lemma park_io_ok:
  assumes ok: "sched_ok s" and i: "i < length (fibers s)" and run: "fstate (fibers s ! i) = Running"
    and ne: "fr \<noteq> []" "vs \<noteq> []"
  shows "\<exists>s'. park_io i vs fr fin s = Some s' \<and> sched_ok s'"
proof -
  let ?f = "(fibers s ! i)\<lparr>fstate := Suspended vs fr, pending := Some fin\<rparr>"
  let ?s = "s\<lparr>fibers := (fibers s)[i := ?f], io_blocked := io_blocked s + 1\<rparr>"
  note free = running_free [OF ok i run]
  have ids: "ids_ok ?s"
    using sched_ok_ids [OF ok] i free length_filter_flip(1) [of i "fibers s" "\<lambda>f. pending f \<noteq> None" ?f]
    by (simp add: ids_ok_def)
  have "sched_inv {} ?s"
    by (rule sched_inv_update [where s = s and i = i and W = "{}" and f' = ?f])
      (use ok i ids free ne in \<open>simp_all add: sched_ok_def fiber_inv_def\<close>)
  then show ?thesis using i by (simp add: sched_ok_def park_io_def upd_fiber_def)
qed

lemma in_poll_push: "in_poll (poll_push i h s) h' j \<longleftrightarrow> in_poll s h' j \<or> (h' = h \<and> j = i)"
  by (auto simp: in_poll_def poll_push_def split: option.splits)

lemma poll_push_simps [simp]:
  "fibers (poll_push i h s) = fibers s" "ready (poll_push i h s) = ready s"
  "blocked (poll_push i h s) = blocked s" "timers (poll_push i h s) = timers s"
  "io_blocked (poll_push i h s) = io_blocked s"
  by (simp_all add: poll_push_def)

lemma fold_poll_push:
  "in_poll (fold (poll_push i) hs s) h' j \<longleftrightarrow> in_poll s h' j \<or> (h' \<in> set hs \<and> j = i)"
  "fibers (fold (poll_push i) hs s) = fibers s" "ready (fold (poll_push i) hs s) = ready s"
  "blocked (fold (poll_push i) hs s) = blocked s" "timers (fold (poll_push i) hs s) = timers s"
  "io_blocked (fold (poll_push i) hs s) = io_blocked s"
  by (induction hs arbitrary: s) (auto simp: in_poll_push)

lemma poll_push_nonempty:
  "\<forall>h. poll_blocked s h \<noteq> Some [] \<Longrightarrow> \<forall>h. poll_blocked (fold (poll_push i) hs s) h \<noteq> Some []"
  by (induction hs arbitrary: s) (auto simp: poll_push_def)

lemma park_ok_aux:
  assumes ok: "sched_ok s" and i: "i < length (fibers s)" and run: "fstate (fibers s ! i) = Running"
    and f: "fstate f = Suspended vs fr" "fr \<noteq> []" "pending f = None" "\<not> queued f"
    and fs: "fibers s' = (fibers s)[i := f]" and r: "ready s' = ready s" and io: "io_blocked s' = io_blocked s"
    and same: "\<And>j. j \<noteq> i \<Longrightarrow> same_for s s' j"
    and fine: "distinct (map snd (timers s'))" "\<forall>h. poll_blocked s' h \<noteq> Some []"
    and l: "listed s' i" "sources_ok s' i f"
  shows "sched_ok s'"
proof -
  note free = running_free [OF ok i run]
  have "ids_ok s'"
  proof (rule ids_okI [OF sched_ok_ids [OF ok] i _ same])
    show "io_blocked s' = length (filter (\<lambda>f. pending f \<noteq> None) (fibers s'))"
      using sched_ok_ids [OF ok] fs io i free f length_filter_update [of i "fibers s" "\<lambda>f. pending f \<noteq> None" f]
      by (simp add: ids_ok_def)
  qed (use fs r fine sched_ok_ids [OF ok] in \<open>simp_all add: ids_ok_def\<close>)
  moreover have "fiber_inv {} s' i f" using f l r free by (simp add: fiber_inv_def)
  ultimately show ?thesis
    unfolding sched_ok_def
    by (intro sched_inv_update [where W = "{}", OF ok [unfolded sched_ok_def] i fs same]) simp_all
qed

lemma in_poll_frame [simp]:
  "in_poll (s\<lparr>fibers := x\<rparr>) = in_poll s" "in_poll (s\<lparr>blocked := b\<rparr>) = in_poll s"
  "in_poll (s\<lparr>timers := t\<rparr>) = in_poll s" "in_poll (s\<lparr>ready := r\<rparr>) = in_poll s"
  by (simp_all add: fun_eq_iff in_poll_def)

lemma in_timers_frame [simp]:
  "in_timers (s\<lparr>fibers := x\<rparr>) = in_timers s" "in_timers (s\<lparr>blocked := b\<rparr>) = in_timers s"
  "in_timers (s\<lparr>poll_blocked := p\<rparr>) = in_timers s" "in_timers (s\<lparr>ready := r\<rparr>) = in_timers s"
  by (simp_all add: fun_eq_iff in_timers_def)

lemma park_yield_ok:
  assumes ok: "sched_ok s" and i: "i < length (fibers s)" and run: "fstate (fibers s ! i) = Running"
    and ne: "fr \<noteq> []"
  shows "\<exists>s'. make_ready (s\<lparr>fibers := (fibers s)[i := (fibers s ! i)\<lparr>fstate := Suspended vs fr\<rparr>]\<rparr>) i = Some s' \<and>
    sched_ok s'"
proof -
  let ?f = "(fibers s ! i)\<lparr>fstate := Suspended vs fr\<rparr>"
  let ?s = "s\<lparr>fibers := (fibers s)[i := ?f]\<rparr>"
  note free = running_free [OF ok i run]
  have ids: "ids_ok ?s"
    using sched_ok_ids [OF ok] i length_filter_update [of i "fibers s" "\<lambda>f. pending f \<noteq> None" ?f]
    by (simp add: ids_ok_def)
  have "sched_inv {i} ?s"
    by (rule sched_inv_update [where s = s and i = i and W = "{}" and f' = ?f])
      (use ok i ids free ne in \<open>simp_all add: sched_ok_def fiber_inv_def sources_ok_def\<close>)
  then show ?thesis using make_ready_inv [of i "{}" ?s] by (simp add: sched_ok_def)
qed

text \<open>Every request but \<open>Await\<close>, from a running fiber with a frame to resume.\<close>

lemma park_ok:
  assumes ok: "sched_ok s" and i: "i < length (fibers s)" and run: "fstate (fibers s ! i) = Running"
    and ne: "fr \<noteq> []" and req: "\<And>j fin. req \<noteq> Await j fin"
  shows "\<exists>s'. park i vs fr req s = Some s' \<and> sched_ok s'"
proof -
  let ?f = "(fibers s ! i)\<lparr>fstate := Suspended vs fr\<rparr>"
  let ?s = "s\<lparr>fibers := (fibers s)[i := ?f]\<rparr>"
  note free = running_free [OF ok i run]
  note fine = sched_ok_fine [OF ok]
  note aux = park_ok_aux [OF ok i run, of _ vs fr]
  have d: "distinct (map snd (timers s @ [(d, i)]))" for d
    using fine free by (simp add: in_timers_def)
  show ?thesis
  proof (cases req)
    case BlockRetry
    let ?s' = "?s\<lparr>blocked := blocked s @ [i]\<rparr>"
    have l: "in_timers ?s' = in_timers s" "in_poll ?s' = in_poll s"
      by (simp_all add: fun_eq_iff in_timers_def in_poll_def)
    have "sched_ok ?s'"
      by (rule aux [of ?f]) (use ne free fine l in \<open>simp_all add: listed_def sources_ok_def\<close>)
    then show ?thesis using BlockRetry i by (simp add: park_def upd_fiber_def)
  next
    case YieldReady
    then show ?thesis using park_yield_ok [OF ok i run ne] i by (simp add: park_def upd_fiber_def)
  next
    case (Timer t)
    let ?s' = "?s\<lparr>timers := timers s @ [(t, i)]\<rparr>"
    have l: "in_timers ?s' i" "in_poll ?s' = in_poll s" by (simp_all add: fun_eq_iff in_timers_def in_poll_def)
    have "sched_ok ?s'"
      by (rule aux [of ?f]) (use ne free fine d l in \<open>simp_all add: listed_def sources_ok_def\<close>)
    then show ?thesis using Timer i by (simp add: park_def upd_fiber_def)
  next
    case (Ready h)
    let ?s' = "poll_push i h ?s"
    have l: "in_timers ?s' = in_timers s" "in_poll ?s' h' j \<longleftrightarrow> in_poll s h' j \<or> h' = h \<and> j = i" for h' j
      by (simp_all add: fun_eq_iff in_timers_def in_poll_push)
    have ne': "\<forall>h. poll_blocked ?s' h \<noteq> Some []"
      using poll_push_nonempty [of ?s i "[h]"] fine by simp
    have "sched_ok ?s'"
      by (rule aux [of ?f])
        (use ne free fine l ne' in \<open>simp_all add: listed_def sources_ok_def same_for_def\<close>)
    then show ?thesis using Ready i by (simp add: park_def upd_fiber_def)
  next
    case (Multi dl hs)
    let ?src = "\<lparr>src_timer = (dl \<noteq> None), src_handles = hs\<rparr>"
    let ?t = "(case dl of None \<Rightarrow> timers s | Some d \<Rightarrow> timers s @ [(d, i)])"
    let ?f' = "?f\<lparr>park_sources := Some ?src\<rparr>"
    let ?s1 = "fold (poll_push i) hs (?s\<lparr>blocked := blocked s @ [i], timers := ?t\<rparr>)"
    let ?s' = "?s1\<lparr>fibers := (fibers s)[i := ?f']\<rparr>"
    have p: "in_poll ?s' h' j \<longleftrightarrow> in_poll s h' j \<or> (h' \<in> set hs \<and> j = i)" for h' j
      by (simp add: fold_poll_push)
    have t: "in_timers ?s' j \<longleftrightarrow> in_timers s j \<or> (dl \<noteq> None \<and> j = i)" for j
      by (auto simp: in_timers_def fold_poll_push split: option.split)
    have b: "set (blocked ?s') = insert i (set (blocked s))" by (simp add: fold_poll_push)
    have ne': "\<forall>h. poll_blocked ?s' h \<noteq> Some []"
      using poll_push_nonempty [of "?s\<lparr>blocked := blocked s @ [i], timers := ?t\<rparr>" i hs] fine by simp
    have dt: "distinct (map snd (timers ?s'))" using fine d by (simp add: fold_poll_push split: option.split)
    have "sched_ok ?s'"
      by (rule aux [of ?f'])
        (use ne free ne' dt b p t in \<open>simp_all add: listed_def sources_ok_def same_for_def fold_poll_push\<close>)
    moreover have "park i vs fr req s = Some ?s'"
      using Multi i by (cases dl) (simp_all add: park_def upd_fiber_def Let_def fold_poll_push)
    ultimately show ?thesis by blast
  qed (use req in simp)
qed

section \<open>Completions\<close>

text \<open>The driver takes the continuation of a completed worker job and, when it yields a value,
  delivers it: the fiber is runnable again, with the value on top of its stack.\<close>

lemma deliver_ok:
  assumes ok: "sched_ok s" and i: "i < length (fibers s)" and p: "pending (fibers s ! i) = Some fin"
  obtains vs fr s1 s' where "fstate (fibers s ! i) = Suspended vs fr" "vs \<noteq> []"
    "take_pending i s = Some (fin, s1)" "deliver i v s1 = Some s'" "sched_ok s'"
proof -
  let ?f = "fibers s ! i"
  have fi: "fiber_inv {} s i ?f" using ok i by (simp add: sched_ok_def sched_invD)
  then obtain vs fr where st: "fstate ?f = Suspended vs fr" "vs \<noteq> []" "fr \<noteq> []"
    and free: "\<not> queued ?f" "\<not> listed s i" "park_sources ?f = None" "i \<notin> set (ready s)"
    using p by (auto simp: fiber_inv_def split: fiber_state.splits)
  let ?f' = "?f\<lparr>pending := None, fstate := Suspended (butlast vs @ [v]) fr\<rparr>"
  let ?s2 = "s\<lparr>fibers := (fibers s)[i := ?f'], io_blocked := io_blocked s - 1\<rparr>"
  have count: "Suc (length (filter (\<lambda>f. pending f \<noteq> None) ((fibers s)[i := ?f']))) = io_blocked s"
    using sched_ok_ids [OF ok] p length_filter_flip(2) [OF i, of "\<lambda>f. pending f \<noteq> None" ?f']
    by (simp add: ids_ok_def)
  then have ids: "ids_ok ?s2" using sched_ok_ids [OF ok] by (auto simp: ids_ok_def)
  have "sched_inv {i} ?s2"
    by (rule sched_inv_update [where s = s and i = i and W = "{}" and f' = ?f'])
      (use ok i ids free st in \<open>simp_all add: sched_ok_def fiber_inv_def sources_ok_def listed_def\<close>)
  then obtain s' where s': "make_ready ?s2 i = Some s'" "sched_ok s'"
    using make_ready_inv [of i "{}" ?s2] by (auto simp: sched_ok_def)
  have "io_blocked s \<noteq> 0" using count by simp
  then show ?thesis
    using that [of vs fr "s\<lparr>fibers := (fibers s)[i := ?f\<lparr>pending := None\<rparr>]\<rparr>" s'] st p i s'
    by (simp add: take_pending_def deliver_def upd_fiber_def get_nth_def)
qed

section \<open>Scheduling the next fiber\<close>

lemma fold_poll_drop:
  "in_poll (fold (poll_drop i) hs s) h j \<longleftrightarrow> in_poll s h j \<and> \<not> (h \<in> set hs \<and> j = i)"
  "fibers (fold (poll_drop i) hs s) = fibers s" "ready (fold (poll_drop i) hs s) = ready s"
  "blocked (fold (poll_drop i) hs s) = blocked s" "timers (fold (poll_drop i) hs s) = timers s"
  "io_blocked (fold (poll_drop i) hs s) = io_blocked s" "channels (fold (poll_drop i) hs s) = channels s"
proof -
  have d: "in_poll (poll_drop i h s) h' j \<longleftrightarrow> in_poll s h' j \<and> \<not> (h' = h \<and> j = i)"
    "fibers (poll_drop i h s) = fibers s" "ready (poll_drop i h s) = ready s"
    "blocked (poll_drop i h s) = blocked s" "timers (poll_drop i h s) = timers s"
    "io_blocked (poll_drop i h s) = io_blocked s" "channels (poll_drop i h s) = channels s" for h h' and s :: "'a scheduler"
    by (auto simp: poll_drop_def in_poll_def Let_def filter_empty_conv split: option.splits)
  show "in_poll (fold (poll_drop i) hs s) h j \<longleftrightarrow> in_poll s h j \<and> \<not> (h \<in> set hs \<and> j = i)"
    by (induction hs arbitrary: s) (auto simp: d)
  show "fibers (fold (poll_drop i) hs s) = fibers s" "ready (fold (poll_drop i) hs s) = ready s"
    "blocked (fold (poll_drop i) hs s) = blocked s" "timers (fold (poll_drop i) hs s) = timers s"
    "io_blocked (fold (poll_drop i) hs s) = io_blocked s" "channels (fold (poll_drop i) hs s) = channels s"
    by (induction hs arbitrary: s) (simp_all add: d)
qed

lemma poll_drop_nonempty:
  "\<forall>h. poll_blocked s h \<noteq> Some [] \<Longrightarrow> \<forall>h. poll_blocked (fold (poll_drop i) hs s) h \<noteq> Some []"
  by (induction hs arbitrary: s) (auto simp: poll_drop_def Let_def split: option.splits)

text \<open>After \<open>unlist\<close> a fiber about to run is on no list; the other fibers' listings stay.\<close>

lemma unlist_effect:
  assumes i: "i < length (fibers s)" and src: "sources_ok s i (fibers s ! i)" "park_sources (fibers s ! i) = None \<longrightarrow> \<not> listed s i"
    and fine: "distinct (map snd (timers s))" "\<forall>h. poll_blocked s h \<noteq> Some []"
  obtains s' where "unlist i s = Some s'" "fibers s' = (fibers s)[i := (fibers s ! i)\<lparr>park_sources := None\<rparr>]"
    "ready s' = ready s" "io_blocked s' = io_blocked s" "\<not> listed s' i" "channels s' = channels s"
    "\<And>j. j \<noteq> i \<Longrightarrow> (j \<in> set (blocked s') \<longleftrightarrow> j \<in> set (blocked s)) \<and> in_timers s' j = in_timers s j \<and>
       (\<forall>h. in_poll s' h j = in_poll s h j)"
    "distinct (map snd (timers s'))" "\<forall>h. poll_blocked s' h \<noteq> Some []"
proof (cases "park_sources (fibers s ! i)")
  case None
  then have "(fibers s ! i)\<lparr>park_sources := None\<rparr> = fibers s ! i" by simp
  then have "(fibers s)[i := (fibers s ! i)\<lparr>park_sources := None\<rparr>] = fibers s"
    by (metis list_update_id)
  then show ?thesis
    using that [of s] None src fine i by (simp add: unlist_def get_nth_def)
next
  case (Some x)
  let ?t = "if src_timer x then filter (\<lambda>(d, f). f \<noteq> i) (timers s) else timers s"
  let ?s1 = "s\<lparr>fibers := (fibers s)[i := (fibers s ! i)\<lparr>park_sources := None\<rparr>],
    blocked := filter (\<lambda>f. f \<noteq> i) (blocked s), timers := ?t\<rparr>"
  let ?s' = "fold (poll_drop i) (src_handles x) ?s1"
  have run: "unlist i s = Some ?s'"
    using Some i by (cases "src_timer x") (simp_all add: unlist_def get_nth_def upd_fiber_def Let_def)
  have t: "in_timers ?s' j \<longleftrightarrow> in_timers s j \<and> \<not> (src_timer x \<and> j = i)" for j
    by (force simp: in_timers_def fold_poll_drop)
  have p: "in_poll ?s' h j \<longleftrightarrow> in_poll s h j \<and> \<not> (h \<in> set (src_handles x) \<and> j = i)" for h j
    by (simp add: fold_poll_drop)
  have "\<not> listed ?s' i" using src(1) Some t p by (auto simp: listed_def sources_ok_def fold_poll_drop)
  moreover have "distinct (map snd (timers ?s'))"
    using fine(1) by (auto simp: fold_poll_drop distinct_map intro: inj_on_subset)
  moreover have "\<forall>h. poll_blocked ?s' h \<noteq> Some []" using poll_drop_nonempty [of ?s1 i] fine(2) by simp
  ultimately show ?thesis
    using run t p by (intro that [of ?s']) (simp_all add: fold_poll_drop)
qed

lemma dequeue_ok:
  assumes ok: "sched_ok s" and ready: "ready s = i # rest"
  obtains st s' where "dequeue s = Some (Some (i, st), s')" "sched_ok s'" "i < length (fibers s)"
    "st = fstate (fibers s ! i)" "\<forall>v. st \<noteq> Done v" "st \<noteq> Running" "\<forall>vs fr. st = Suspended vs fr \<longrightarrow> fr \<noteq> []"
    "fstate (fibers s' ! i) = Running" "\<not> listed s' i" "ready s' = rest" "channels s' = channels s"
    "length (fibers s') = length (fibers s)"
    "\<And>j. j \<noteq> i \<Longrightarrow> j < length (fibers s) \<Longrightarrow> fibers s' ! j = fibers s ! j"
proof -
  have i: "i < length (fibers s)" using sched_ok_ids [OF ok] ready by (simp add: ids_ok_def)
  let ?f = "fibers s ! i"
  have fi: "fiber_inv {} s i ?f" using ok i by (simp add: sched_ok_def sched_invD)
  have q: "queued ?f" using fi ready by (simp add: fiber_inv_def)
  have nr: "i \<notin> set rest" using sched_ok_ids [OF ok] ready by (simp add: ids_ok_def)
  have st: "\<forall>v. fstate ?f \<noteq> Done v" "fstate ?f \<noteq> Running" "pending ?f = None"
    "\<forall>vs fr. fstate ?f = Suspended vs fr \<longrightarrow> fr \<noteq> []"
    "sources_ok s i ?f" "park_sources ?f = None \<longrightarrow> \<not> listed s i"
    using fi q by (auto simp: fiber_inv_def sources_ok_def listed_def split: fiber_state.splits if_splits option.splits)
  let ?s1 = "s\<lparr>ready := rest, fibers := (fibers s)[i := ?f\<lparr>queued := False\<rparr>]\<rparr>"
  obtain s2 where u: "unlist i ?s1 = Some s2" "fibers s2 = (fibers s)[i := ?f\<lparr>queued := False, park_sources := None\<rparr>]"
    "ready s2 = rest" "io_blocked s2 = io_blocked s" "\<not> listed s2 i" "channels s2 = channels s"
    "\<And>j. j \<noteq> i \<Longrightarrow> (j \<in> set (blocked s2) \<longleftrightarrow> j \<in> set (blocked s)) \<and> in_timers s2 j = in_timers s j \<and>
       (\<forall>h. in_poll s2 h j = in_poll s h j)"
    "distinct (map snd (timers s2))" "\<forall>h. poll_blocked s2 h \<noteq> Some []"
    by (rule unlist_effect [of i ?s1])
      (use i st sched_ok_fine [OF ok] in \<open>simp_all add: sources_ok_def split: option.splits\<close>)
  let ?f' = "?f\<lparr>queued := False, park_sources := None, fstate := Running\<rparr>"
  let ?s' = "s2\<lparr>fibers := (fibers s)[i := ?f']\<rparr>"
  have run: "dequeue s = Some (Some (i, fstate ?f), ?s')"
    using ready i u(1,2) by (simp add: dequeue_def upd_fiber_def get_nth_def)
  have "length (filter (\<lambda>f. pending f \<noteq> None) ((fibers s)[i := ?f'])) = io_blocked s"
    using sched_ok_ids [OF ok] length_filter_update [OF i, of "\<lambda>f. pending f \<noteq> None" ?f'] by (simp add: ids_ok_def)
  moreover have "listed s2 j \<Longrightarrow> listed s j" for j
    using u(5,7) by (cases "j = i") (auto simp: listed_def)
  ultimately have ids: "ids_ok ?s'"
    using sched_ok_ids [OF ok] ready u by (auto simp: ids_ok_def)
  have "sched_inv {} ?s'"
    by (rule sched_inv_update [where s = s and i = i and W = "{}" and f' = ?f'])
      (use ok i ids u nr ready st(3) in \<open>simp_all add: sched_ok_def fiber_inv_def same_for_def\<close>)
  then show ?thesis using that [OF run] st u i by (simp add: sched_ok_def)
qed

lemma sched_new_ok: "sched_ok sched_new"
  by (simp add: sched_ok_def sched_inv_def ids_ok_def sched_new_def listed_def in_timers_def in_poll_def)

end
