(* ===== verification/SchedRun.thy ===== *)
theory SchedRun
  imports SchedInv
begin

text \<open>
  Runs of the scheduler. \<open>sched_step\<close> is the transition relation the interpreter drives:
  what a running fiber asks for (spawn, channel operations, a park), what the outside world
  reports (a due timer, a ready socket, a finished worker job) and the choice of the next
  fiber. Every reachable state satisfies the invariant, the ready queue is served first in
  first out, and a channel is a bounded queue whatever else happens between its operations.
\<close>

section \<open>Transitions\<close>

definition is_running :: "'p scheduler \<Rightarrow> usize \<Rightarrow> bool" where
  "is_running s i \<longleftrightarrow> i < length (fibers s) \<and> fstate (fibers s ! i) = Running"

text \<open>A park request that is not \<open>Await\<close> carries no job, so the job type is immaterial.\<close>

inductive sched_step :: "usize list \<Rightarrow> 'p scheduler \<Rightarrow> 'p scheduler \<Rightarrow> bool" where
  spawn: "spawn c s = Some (i, s') \<Longrightarrow> sched_step [] s s'"
| channel_new: "sched_step [] s (snd (channel_new cap s))"
| send: "chan_send i v s = Some (r, s') \<Longrightarrow> sched_step [] s s'"
| receive: "chan_receive i s = Some (q, s') \<Longrightarrow> sched_step [] s s'"
| close: "chan_close i s = Some s' \<Longrightarrow> sched_step [] s s'"
| timers: "wake_due_timers now s = Some (b, s') \<Longrightarrow> sched_step [] s s'"
| poll: "wake_poll h s = Some s' \<Longrightarrow> sched_step [] s s'"
| park: "is_running s i \<Longrightarrow> fr \<noteq> [] \<Longrightarrow> (\<forall>j fin. req \<noteq> Await j fin) \<Longrightarrow> park i vs fr (req :: (unit, 'p) park_request) s = Some s' \<Longrightarrow>
    sched_step [] s s'"
| park_io: "is_running s i \<Longrightarrow> fr \<noteq> [] \<Longrightarrow> vs \<noteq> [] \<Longrightarrow> park_io i vs fr fin s = Some s' \<Longrightarrow> sched_step [] s s'"
| deliver: "take_pending i s = Some (fin, s1) \<Longrightarrow> deliver i v s1 = Some s' \<Longrightarrow> sched_step [] s s'"
| complete: "is_running s i \<Longrightarrow> complete i v s = Some s' \<Longrightarrow> sched_step [] s s'"
| dequeue: "dequeue s = Some (Some (i, st), s') \<Longrightarrow> sched_step [i] s s'"

inductive_cases sched_stepE: "sched_step ps s s'"

text \<open>A run, with the fibers it schedules, in order.\<close>

inductive sched_run :: "usize list \<Rightarrow> 'p scheduler \<Rightarrow> 'p scheduler \<Rightarrow> bool" where
  refl: "sched_run [] s s"
| step: "sched_run ps s s1 \<Longrightarrow> sched_step qs s1 s2 \<Longrightarrow> sched_run (ps @ qs) s s2"

section \<open>The invariant holds in every reachable state\<close>

lemma sched_start_ok: "sched_ok sched_start"
  by (simp add: sched_ok_def sched_inv_def ids_ok_def sched_start_def sched_new_def listed_def
      in_timers_def in_poll_def fiber_inv_def)

lemma take_pending_Some:
  "take_pending i s = Some (fin, s1) \<Longrightarrow> i < length (fibers s) \<and> pending (fibers s ! i) = Some fin"
  by (auto simp: take_pending_def get_nth_Some Option.bind_eq_Some_conv)

lemma sched_step_ok:
  assumes "sched_step ps s s'" and ok: "sched_ok s"
  shows "sched_ok s'"
  using assms(1)
proof (cases rule: sched_step.cases)
  case (spawn c i)
  then show ?thesis using spawn_ok [OF ok, of c] by auto
next
  case (channel_new cap)
  then show ?thesis using ok by (simp add: channel_new_def)
next
  case (send i v r)
  then have "i < length (channels s)" by (auto simp: chan_send_def get_nth_Some Option.bind_eq_Some_conv)
  then show ?thesis using chan_send_ok [OF ok, of i v] send by auto
next
  case (receive i q)
  then have "i < length (channels s)" by (auto simp: chan_receive_def get_nth_Some Option.bind_eq_Some_conv)
  then show ?thesis using chan_receive_ok [OF ok, of i] receive by auto
next
  case (close i)
  then have "i < length (channels s)" by (auto simp: chan_close_def get_nth_Some Option.bind_eq_Some_conv)
  then show ?thesis using chan_close_ok [OF ok, of i] close by auto
next
  case (timers now b)
  then show ?thesis using wake_due_timers_ok [OF ok, of now] by auto
next
  case (poll h)
  then show ?thesis using wake_poll_ok [OF ok, of h] by auto
next
  case (park i fr req vs)
  then show ?thesis using park_ok [OF ok, of i fr req vs] by (auto simp: is_running_def)
next
  case (park_io i fr vs fin)
  then show ?thesis using park_io_ok [OF ok, of i fr vs fin] by (auto simp: is_running_def)
next
  case (deliver i fin s1 v)
  then show ?thesis
    using take_pending_Some [OF deliver(2)] deliver_ok [OF ok, of i fin v] by (metis Pair_inject option.inject)
next
  case (complete i v)
  then show ?thesis using complete_ok [OF ok, of i v] by (auto simp: is_running_def)
next
  case (dequeue i st)
  then obtain rest where "ready s = i # rest"
    by (auto simp: dequeue_def Option.bind_eq_Some_conv split: list.splits)
  then show ?thesis using dequeue_ok [OF ok] dequeue by (metis Pair_inject option.inject)
qed

lemma sched_run_ok: "sched_run ps s s' \<Longrightarrow> sched_ok s \<Longrightarrow> sched_ok s'"
  by (induction rule: sched_run.induct) (auto dest: sched_step_ok)

section \<open>The ready queue is served in order\<close>

lemma make_ready_frame:
  "make_ready s i = Some s' \<Longrightarrow> (\<exists>xs. ready s' = ready s @ xs) \<and> channels s' = channels s"
  by (auto simp: make_ready_def upd_fiber_def Option.bind_eq_Some_conv split: if_splits)

lemma wake_frame:
  "try_fold make_ready s is = Some s' \<Longrightarrow> (\<exists>xs. ready s' = ready s @ xs) \<and> channels s' = channels s"
proof (induction "is" arbitrary: s)
  case (Cons i "is")
  then obtain s1 where "make_ready s i = Some s1" "try_fold make_ready s1 is = Some s'"
    by (auto simp: Option.bind_eq_Some_conv)
  then show ?case using make_ready_frame [of s i s1] Cons.IH [of s1] by fastforce
qed simp

lemma wake_all_frame:
  "wake_all s = Some s' \<Longrightarrow> (\<exists>xs. ready s' = ready s @ xs) \<and> channels s' = channels s"
  unfolding wake_all_def by (drule wake_frame) simp

text \<open>What a send and a receive do to the channel, on every branch.\<close>

lemma chan_send_effect:
  assumes "chan_send i v s = Some (r, s')"
  shows "i < length (channels s)" "\<exists>xs. ready s' = ready s @ xs"
    "channels s' = (channels s)[i := (channels s ! i)\<lparr>buffer := buffer (channels s ! i) @ (if r = Sent then [v] else [])\<rparr>]"
    "r = (if closed (channels s ! i) then Closed
      else if length (buffer (channels s ! i)) < chan_capacity (channels s ! i) then Sent else Full)"
proof -
  let ?ch = "channels s ! i"
  show i: "i < length (channels s)"
    using assms by (auto simp: chan_send_def get_nth_Some Option.bind_eq_Some_conv)
  show r: "r = (if closed ?ch then Closed else if length (buffer ?ch) < chan_capacity ?ch then Sent else Full)"
    using assms i by (auto simp: chan_send_def get_nth_def split: if_splits)
  let ?s = "s\<lparr>channels := (channels s)[i := ?ch\<lparr>buffer := buffer ?ch @ [v]\<rparr>]\<rparr>"
  have eff: "(if r = Sent then wake_all ?s = Some s' else s' = s)"
    using assms i r by (cases "closed ?ch"; cases "length (buffer ?ch) < chan_capacity ?ch")
      (simp_all add: chan_send_def get_nth_def)
  then show "\<exists>xs. ready s' = ready s @ xs"
    using wake_all_frame [of ?s s'] by (cases "r = Sent") simp_all
  show "channels s' = (channels s)[i := ?ch\<lparr>buffer := buffer ?ch @ (if r = Sent then [v] else [])\<rparr>]"
    using eff wake_all_frame [of ?s s'] by (cases "r = Sent") simp_all
qed

lemma chan_receive_effect:
  assumes "chan_receive i s = Some (r, s')"
  shows "i < length (channels s)" "\<exists>xs. ready s' = ready s @ xs"
    "channels s' = (channels s)[i := (channels s ! i)\<lparr>buffer := tl (buffer (channels s ! i))\<rparr>]"
    "r = (case buffer (channels s ! i) of v # _ \<Rightarrow> Got v
      | [] \<Rightarrow> if closed (channels s ! i) then Drained else Empty)"
proof -
  let ?ch = "channels s ! i"
  show i: "i < length (channels s)"
    using assms by (auto simp: chan_receive_def get_nth_Some Option.bind_eq_Some_conv)
  show "r = (case buffer ?ch of v # _ \<Rightarrow> Got v | [] \<Rightarrow> if closed ?ch then Drained else Empty)"
    using assms i by (cases "buffer ?ch") (auto simp: chan_receive_def get_nth_def)
  let ?s = "s\<lparr>channels := (channels s)[i := ?ch\<lparr>buffer := tl (buffer ?ch)\<rparr>]\<rparr>"
  have "(channels s)[i := ?ch\<lparr>buffer := tl (buffer ?ch)\<rparr>] = channels s" if "buffer ?ch = []"
  proof -
    have "?ch\<lparr>buffer := tl (buffer ?ch)\<rparr> = ?ch" using that by simp
    then show ?thesis by (metis list_update_id)
  qed
  moreover have "(if buffer ?ch = [] then s' = s else wake_all ?s = Some s')"
    using assms i by (cases "buffer ?ch") (auto simp: chan_receive_def get_nth_def)
  ultimately show "\<exists>xs. ready s' = ready s @ xs" "channels s' = (channels s)[i := ?ch\<lparr>buffer := tl (buffer ?ch)\<rparr>]"
    using wake_all_frame [of ?s s'] by (cases "buffer ?ch = []"; simp)+
qed

lemma park_ready:
  assumes "park i vs fr req s = Some s'"
  shows "\<exists>xs. ready s' = ready s @ xs"
proof (cases req)
  case YieldReady
  then show ?thesis
    using assms make_ready_frame by (fastforce simp: park_def upd_fiber_def split: if_splits)
qed (use assms in \<open>auto simp: park_def upd_fiber_def Let_def fold_poll_push split: if_splits option.splits\<close>)

lemma sched_step_fifo:
  assumes "sched_step ps s s'" "sched_ok s"
  shows "\<exists>xs. ready s @ xs = ps @ ready s'"
  using assms(1)
proof (cases rule: sched_step.cases)
  case (spawn c i)
  then show ?thesis using make_ready_frame by (fastforce simp: spawn_def Let_def)
next
  case (send i v r)
  then show ?thesis
    using chan_send_effect(2) by fastforce
next
  case (receive i q)
  then show ?thesis
    using chan_receive_effect(2) by fastforce
next
  case (close i)
  then show ?thesis using wake_all_frame by (fastforce simp: chan_close_def Option.bind_eq_Some_conv)
next
  case (timers now b)
  then show ?thesis using wake_frame by (fastforce simp: wake_due_timers_def Let_def)
next
  case (poll h)
  then show ?thesis using wake_frame by (fastforce simp: wake_poll_def split: option.splits)
next
  case (park i fr req vs)
  then show ?thesis using park_ready by fastforce
next
  case (deliver i fin s1 v)
  then show ?thesis
    using make_ready_frame
    by (fastforce simp: deliver_def take_pending_def upd_fiber_def Option.bind_eq_Some_conv
        split: if_splits fiber_state.splits)
next
  case (complete i v)
  then show ?thesis
    using wake_all_frame by (fastforce simp: complete_def upd_fiber_def Option.bind_eq_Some_conv split: if_splits)
next
  case (dequeue i st)
  then obtain rest where r: "ready s = i # rest"
    by (auto simp: dequeue_def Option.bind_eq_Some_conv split: list.splits)
  show ?thesis using dequeue_ok [OF assms(2) r] dequeue r by (metis Pair_inject append_Cons append_Nil append_Nil2 option.inject)
qed (auto simp: channel_new_def park_io_def upd_fiber_def split: if_splits)

lemma sched_run_fifo:
  assumes "sched_run ps s s'" "sched_ok s"
  shows "\<exists>xs. ready s @ xs = ps @ ready s'"
  using assms
proof (induction rule: sched_run.induct)
  case (step ps s s1 qs s2)
  then obtain xs where xs: "ready s @ xs = ps @ ready s1" by blast
  obtain ys where "ready s1 @ ys = qs @ ready s2"
    using sched_step_fifo [OF step.hyps(2)] sched_run_ok [OF step.hyps(1) step.prems] by blast
  then have "ready s @ xs @ ys = (ps @ qs) @ ready s2" using xs by (metis append.assoc)
  then show ?case by blast
qed simp

section \<open>No wake-up is lost\<close>

definition queue_flags :: "'p scheduler \<Rightarrow> bool" where
  "queue_flags s \<longleftrightarrow> (\<forall>i < length (fibers s). queued (fibers s ! i) \<longleftrightarrow> i \<in> set (ready s))"

lemma sched_ok_flags: "sched_ok s \<Longrightarrow> queue_flags s"
  by (simp add: queue_flags_def sched_ok_def sched_inv_def fiber_inv_def)

lemma make_ready_queued:
  assumes "queue_flags s" "make_ready s i = Some s'"
  shows "queue_flags s' \<and> i \<in> set (ready s') \<and> length (fibers s') = length (fibers s)"
  using assms
  by (auto simp: queue_flags_def make_ready_def upd_fiber_def get_nth_Some Option.bind_eq_Some_conv nth_list_update
      split: if_splits)

lemma wake_queued:
  "queue_flags s \<Longrightarrow> try_fold make_ready s is = Some s' \<Longrightarrow> set is \<subseteq> set (ready s')"
proof (induction "is" arbitrary: s)
  case (Cons i "is")
  then obtain s1 where s1: "make_ready s i = Some s1" "try_fold make_ready s1 is = Some s'"
    by (auto simp: Option.bind_eq_Some_conv)
  have "queue_flags s1" "i \<in> set (ready s1)" using make_ready_queued [OF Cons.prems(1) s1(1)] by auto
  moreover obtain xs where "ready s' = ready s1 @ xs" using wake_frame [OF s1(2)] by blast
  ultimately show ?case using Cons.IH [of s1] s1(2) by auto
qed simp

lemma wake_all_queued:
  assumes "sched_ok s" "wake_all s = Some s'"
  shows "set (blocked s) \<subseteq> set (ready s')"
proof -
  have "queue_flags (s\<lparr>blocked := []\<rparr>)" using sched_ok_flags [OF assms(1)] by (simp add: queue_flags_def)
  then show ?thesis using assms(2) unfolding wake_all_def by (rule wake_queued)
qed

lemma wake_poll_queued:
  assumes "sched_ok s" "wake_poll h s = Some s'" "in_poll s h i"
  shows "i \<in> set (ready s')"
proof -
  obtain ws where ws: "poll_blocked s h = Some ws" "i \<in> set ws"
    using assms(3) by (auto simp: in_poll_def split: option.splits)
  have "queue_flags (s\<lparr>poll_blocked := (poll_blocked s)(h := None)\<rparr>)"
    using sched_ok_flags [OF assms(1)] by (simp add: queue_flags_def)
  then show ?thesis using wake_queued [of _ ws s'] assms(2) ws by (auto simp: wake_poll_def)
qed

lemma wake_due_timers_queued:
  assumes "sched_ok s" "wake_due_timers now s = Some (b, s')" "(d, i) \<in> set (timers s)" "d \<le> now"
  shows "i \<in> set (ready s')"
proof -
  let ?s = "s\<lparr>timers := filter (\<lambda>(d, i). \<not> d \<le> now) (timers s)\<rparr>"
  let ?due = "map snd (filter (\<lambda>(d, i). d \<le> now) (timers s))"
  have "queue_flags ?s" using sched_ok_flags [OF assms(1)] by (simp add: queue_flags_def)
  moreover have "try_fold make_ready ?s ?due = Some s'" using assms(2) by (auto simp: wake_due_timers_def Let_def)
  ultimately show ?thesis using wake_queued [of ?s ?due s'] assms(3,4) by force
qed

section \<open>Channels are bounded queues\<close>

datatype 'a fifo_op = Put 'a | Take

text \<open>The interface of a bounded queue inside a larger state: a put is accepted only when there is
  room and then goes last, a take yields the first element or finds none.\<close>

locale bounded_fifo =
  fixes put :: "'a \<Rightarrow> 's \<Rightarrow> (bool \<times> 's) option"
    and tak :: "'s \<Rightarrow> ('a option \<times> 's) option"
    and contents :: "'s \<Rightarrow> 'a list"
    and bound :: "'s \<Rightarrow> nat"
    and ok :: "'s \<Rightarrow> bool"
  assumes put_law: "ok s \<Longrightarrow> \<exists>b s'. put v s = Some (b, s') \<and> ok s' \<and> bound s' = bound s \<and>
      contents s' = contents s @ (if b then [v] else []) \<and> (b \<longrightarrow> length (contents s) < bound s)"
    and take_law: "ok s \<Longrightarrow> \<exists>r s'. tak s = Some (r, s') \<and> ok s' \<and> bound s' = bound s \<and>
      contents s = (case r of Some v \<Rightarrow> [v] | None \<Rightarrow> []) @ contents s' \<and> (r = None \<longrightarrow> contents s = [])"
begin

fun fifo_run :: "'a fifo_op list \<Rightarrow> 's \<Rightarrow> ('a list \<times> 'a list \<times> 's) option" where
  "fifo_run [] s = Some ([], [], s)"
| "fifo_run (Put v # ops) s =
     Option.bind (put v s) (\<lambda>(b, s).
       map_option (\<lambda>(sent, got, s). ((if b then [v] else []) @ sent, got, s)) (fifo_run ops s))"
| "fifo_run (Take # ops) s =
     Option.bind (tak s) (\<lambda>(r, s).
       map_option (\<lambda>(sent, got, s). (sent, (case r of Some v \<Rightarrow> [v] | None \<Rightarrow> []) @ got, s)) (fifo_run ops s))"

text \<open>What comes out is what went in, in that order, and the queue never exceeds its bound.\<close>

lemma fifo_order:
  assumes "ok s" "length (contents s) \<le> bound s"
  shows "\<exists>sent got s'. fifo_run ops s = Some (sent, got, s') \<and> ok s' \<and>
    contents s @ sent = got @ contents s' \<and> length (contents s') \<le> bound s"
  using assms
proof (induction ops arbitrary: s)
  case (Cons op ops)
  show ?case
  proof (cases op)
    case (Put v)
    obtain b s1 where s1: "put v s = Some (b, s1)" "ok s1" "bound s1 = bound s"
      "contents s1 = contents s @ (if b then [v] else [])" "b \<longrightarrow> length (contents s) < bound s"
      using put_law [OF Cons.prems(1), of v] by blast
    then have "length (contents s1) \<le> bound s1" using Cons.prems(2) by auto
    from Cons.IH [OF s1(2) this] obtain sent got s' where "fifo_run ops s1 = Some (sent, got, s')" "ok s'"
      "contents s1 @ sent = got @ contents s'" "length (contents s') \<le> bound s"
      unfolding s1(3) by blast
    then show ?thesis using Put s1(1,4) by simp
  next
    case Take
    obtain r s1 where s1: "tak s = Some (r, s1)" "ok s1" "bound s1 = bound s"
      "contents s = (case r of Some v \<Rightarrow> [v] | None \<Rightarrow> []) @ contents s1"
      using take_law [OF Cons.prems(1)] by blast
    then have "length (contents s1) \<le> bound s1" using Cons.prems(2) by (auto split: option.splits)
    from Cons.IH [OF s1(2) this] obtain sent got s' where "fifo_run ops s1 = Some (sent, got, s')" "ok s'"
      "contents s1 @ sent = got @ contents s'" "length (contents s') \<le> bound s"
      unfolding s1(3) by blast
    then show ?thesis using Take s1(1,4) by simp
  qed
qed simp

end

definition chan_put :: "usize \<Rightarrow> val \<Rightarrow> 'p scheduler \<Rightarrow> (bool \<times> 'p scheduler) option" where
  "chan_put i v s = map_option (\<lambda>(r, s). (r = Sent, s)) (chan_send i v s)"

definition chan_take :: "usize \<Rightarrow> 'p scheduler \<Rightarrow> (val option \<times> 'p scheduler) option" where
  "chan_take i s = map_option (\<lambda>(r, s). (case r of Got v \<Rightarrow> Some v | _ \<Rightarrow> None, s)) (chan_receive i s)"

interpretation cq: bounded_fifo "chan_put i" "chan_take i" "\<lambda>s. buffer (channels s ! i)"
  "\<lambda>s. chan_capacity (channels s ! i)" "\<lambda>s. sched_ok s \<and> i < length (channels s)" for i
proof
  fix s :: "'a scheduler" and v
  assume ok: "sched_ok s \<and> i < length (channels s)"
  obtain r s' where "chan_send i v s = Some (r, s')" "sched_ok s'" using chan_send_ok ok by blast
  then show "\<exists>b s'. chan_put i v s = Some (b, s') \<and> (sched_ok s' \<and> i < length (channels s')) \<and>
      chan_capacity (channels s' ! i) = chan_capacity (channels s ! i) \<and>
      buffer (channels s' ! i) = buffer (channels s ! i) @ (if b then [v] else []) \<and>
      (b \<longrightarrow> length (buffer (channels s ! i)) < chan_capacity (channels s ! i))"
    using chan_send_effect [of i v s r s'] by (auto simp: chan_put_def split: if_splits)
  obtain q s'' where r: "chan_receive i s = Some (q, s'')" "sched_ok s''" using chan_receive_ok ok by blast
  show "\<exists>r s'. chan_take i s = Some (r, s') \<and> (sched_ok s' \<and> i < length (channels s')) \<and>
      chan_capacity (channels s' ! i) = chan_capacity (channels s ! i) \<and>
      buffer (channels s ! i) = (case r of Some v \<Rightarrow> [v] | None \<Rightarrow> []) @ buffer (channels s' ! i) \<and>
      (r = None \<longrightarrow> buffer (channels s ! i) = [])"
    using r chan_receive_effect [OF r(1)]
    by (cases "buffer (channels s ! i)") (auto simp: chan_take_def)
qed

end
