(* ===== verification/Format.thy ===== *)
theory Format
  imports Value
begin

text \<open>
  Text rendering: \<open>format_double\<close> of \<^verbatim>\<open>runtime/src/value.rs\<close> with the standard library's
  shortest decimal form of an \<open>f64\<close> underneath, and the debug renderings \<open>quote_str\<close> and
  \<open>hex_join\<close> of \<^verbatim>\<open>runtime/src/interp/mod.rs\<close>. A quoted string reads back as the string.
\<close>

section \<open>Doubles\<close>

text \<open>\<open>v = u / 2\<^sup>1\<^sup>0\<^sup>7\<^sup>4\<close> lies in \<open>[10\<^sup>e\<^sup>-\<^sup>1, 10\<^sup>e)\<close>; the smallest positive \<open>f64\<close> has \<open>e = -323\<close>.\<close>

definition F64_ONE :: nat where "F64_ONE = 2 ^ 1074"

definition dec_exponent :: "nat \<Rightarrow> int" where
  "dec_exponent u =
     (if u \<ge> F64_ONE then int (length (nat_digits (u div F64_ONE)))
      else - int (length (takeWhile (\<lambda>j. u * 10 ^ Suc j < F64_ONE) [0..<400])))"

text \<open>The magnitude a decimal \<open>d * 10\<^sup>p\<close> rounds to.\<close>

definition dec_to_mag :: "nat \<Rightarrow> int \<Rightarrow> nat" where
  "dec_to_mag d p = round_mag (d * 10 ^ nat p * F64_ONE) (10 ^ nat (- p))"

text \<open>The decimal with \<open>k\<close> digits closest to the value among those that read back as it; with 17
  digits one always does.\<close>

fun shortest_from :: "nat \<Rightarrow> nat \<Rightarrow> nat \<Rightarrow> nat \<Rightarrow> int \<Rightarrow> nat \<times> int" where
  "shortest_from 0 k mag u e = (0, 0)"
| "shortest_from (Suc n) k mag u e =
     (let p = e - int k;
          num = u * 10 ^ nat (- p);
          den = F64_ONE * 10 ^ nat p;
          lo = num div den;
          up = (2 * (num mod den) \<ge> den);
          lo_ok = (dec_to_mag lo p = mag);
          hi_ok = (dec_to_mag (Suc lo) p = mag)
      in if lo_ok \<and> hi_ok then (if up then Suc lo else lo, p)
         else if lo_ok then (lo, p)
         else if hi_ok then (Suc lo, p)
         else if n = 0 then (if up then Suc lo else lo, p)
         else shortest_from n (Suc k) mag u e)"

definition f64_shortest :: "f64 \<Rightarrow> nat \<times> int" where
  "f64_shortest x = (let u = mag_units (f64_mag x) in shortest_from 17 1 (f64_mag x) u (dec_exponent u))"

definition strip_zeros :: "string \<Rightarrow> string" where
  "strip_zeros s = rev (dropWhile (\<lambda>c. c = CHR ''0'') (rev s))"

definition positional :: "nat \<Rightarrow> int \<Rightarrow> string" where
  "positional d p =
     (let ds = nat_digits d; k = nat (- p)
      in if p \<ge> 0 then ds @ replicate (nat p) CHR ''0''
         else let ip = (if length ds > k then take (length ds - k) ds else ''0'');
                  fp = strip_zeros (if length ds > k then drop (length ds - k) ds
                                    else replicate (k - length ds) CHR ''0'' @ ds)
              in if fp = [] then ip else ip @ ''.'' @ fp)"

text \<open>\<open>f64::to_string\<close>.\<close>

definition f64_to_string :: "f64 \<Rightarrow> string" where
  "f64_to_string x =
     (if f64_is_nan x then ''NaN''
      else (if f64_neg_bit x then ''-'' else []) @
           (if f64_is_inf x then ''inf''
            else if f64_is_zero x then ''0''
            else let (d, p) = f64_shortest x in positional d p))"

definition format_double :: "f64 \<Rightarrow> string" where
  "format_double x =
     (let s = f64_to_string x
      in if f64_is_finite x \<and> CHR ''.'' \<notin> set s \<and> CHR ''e'' \<notin> set s \<and> CHR ''E'' \<notin> set s
         then s @ ''.0'' else s)"

text \<open>The standard library's \<open>{:?}\<close> of an \<open>f64\<close>: exponential outside \<open>[10\<^sup>-\<^sup>4, 10\<^sup>1\<^sup>6)\<close>.\<close>

definition exponential :: "nat \<Rightarrow> int \<Rightarrow> string" where
  "exponential d p =
     (let ds = nat_digits d; fp = strip_zeros (tl ds)
      in hd ds # (if fp = [] then [] else CHR ''.'' # fp) @ ''e'' @ int_digits (p + int (length ds) - 1))"

definition f64_debug :: "f64 \<Rightarrow> string" where
  "f64_debug x =
     (if f64_is_finite x \<and> \<not> f64_is_zero x \<and> (f64_mag x < dec_to_mag 1 (- 4) \<or> f64_mag x \<ge> dec_to_mag 1 16)
      then (if f64_neg_bit x then ''-'' else []) @ (let (d, p) = f64_shortest x in exponential d p)
      else format_double x)"

text \<open>The derived \<open>{:?}\<close> of a \<open>Value\<close>.\<close>

definition bool_string :: "bool \<Rightarrow> string" where
  "bool_string b = (if b then ''true'' else ''false'')"

definition value_debug :: "val \<Rightarrow> string" where
  "value_debug v =
     (case v of
        IntV n \<Rightarrow> ''Int('' @ int_digits (sint n) @ '')''
      | Double x \<Rightarrow> ''Double('' @ f64_debug x @ '')''
      | Bool b \<Rightarrow> ''Bool('' @ bool_string b @ '')''
      | Unit \<Rightarrow> ''Unit''
      | Ref h \<Rightarrow> ''Ref('' @ nat_digits (unat h) @ '')'')"

section \<open>Strings and bytes\<close>

definition hex_digit :: "nat \<Rightarrow> char" where
  "hex_digit n = (if n < 10 then char_of (48 + n) else char_of (87 + n))"

text \<open>\<open>{:x}\<close> of a byte below \<open>0x80\<close>, and \<open>{:02x}\<close>.\<close>

definition hex_byte :: "nat \<Rightarrow> string" where
  "hex_byte n = (if n < 16 then [hex_digit n] else [hex_digit (n div 16), hex_digit (n mod 16)])"

definition hex_byte2 :: "nat \<Rightarrow> string" where
  "hex_byte2 n = [hex_digit (n div 16), hex_digit (n mod 16)]"

fun join_with :: "string \<Rightarrow> string list \<Rightarrow> string" where
  "join_with sep [] = []"
| "join_with sep [s] = s"
| "join_with sep (s # t # rest) = s @ sep @ join_with sep (t # rest)"

definition hex_join :: "u8 list \<Rightarrow> string" where
  "hex_join bs = join_with '' '' (map (\<lambda>b. hex_byte2 (unat b)) bs)"

text \<open>The escapes of one character; every escaped character is a single byte, so the scan may go
  byte by byte.\<close>

definition BACKSLASH :: char where "BACKSLASH = CHR 0x5C"
definition QUOTE :: char where "QUOTE = CHR 0x27"

definition quote_char :: "char \<Rightarrow> string \<Rightarrow> string" where
  "quote_char c rest =
     (let n = of_char c :: nat
      in if n = 0x5C then [BACKSLASH, BACKSLASH]
         else if n = 0x27 then [BACKSLASH, QUOTE]
         else if c = CHR ''$'' \<and> (case rest of d # _ \<Rightarrow> d = CHR ''{'' | [] \<Rightarrow> False) then [BACKSLASH, CHR ''$'']
         else if n = 10 then [BACKSLASH, CHR ''n'']
         else if n = 9 then [BACKSLASH, CHR ''t'']
         else if n = 13 then [BACKSLASH, CHR ''r'']
         else if n = 8 then [BACKSLASH, CHR ''b'']
         else if n = 12 then [BACKSLASH, CHR ''f'']
         else if n = 11 then [BACKSLASH, CHR ''v'']
         else if n = 0 then [BACKSLASH, CHR ''0'']
         else if n < 0x20 \<or> n = 0x7f then [BACKSLASH, CHR ''u'', CHR ''{''] @ hex_byte n @ ''}''
         else [c])"

fun quote_chars :: "string \<Rightarrow> string" where
  "quote_chars [] = []"
| "quote_chars (c # rest) = quote_char c rest @ quote_chars rest"

definition quote_str :: "string \<Rightarrow> string" where
  "quote_str s = QUOTE # quote_chars s @ [QUOTE]"

section \<open>Quoting reads back\<close>

text \<open>A reader of the language's single-quoted literals: the named escapes and \<open>\\u{..}\<close>; an
  interpolation or a bare quote ends it.\<close>

definition unhex :: "char \<Rightarrow> nat option" where
  "unhex c =
     (let n = of_char c :: nat
      in if 48 \<le> n \<and> n \<le> 57 then Some (n - 48) else if 97 \<le> n \<and> n \<le> 102 then Some (n - 87) else None)"

fun read_hex :: "nat \<Rightarrow> string \<Rightarrow> (nat \<times> string) option" where
  "read_hex acc [] = None"
| "read_hex acc (c # rest) =
     (if c = CHR ''}'' then Some (acc, rest)
      else Option.bind (unhex c) (\<lambda>d. read_hex (16 * acc + d) rest))"

definition escape_code :: "char \<Rightarrow> char option" where
  "escape_code c =
     (if c = BACKSLASH \<or> c = QUOTE \<or> c = CHR ''$'' then Some c
      else if c = CHR ''n'' then Some (CHR 0x0A)
      else if c = CHR ''t'' then Some (CHR 0x09)
      else if c = CHR ''r'' then Some (CHR 0x0D)
      else if c = CHR ''b'' then Some (CHR 0x08)
      else if c = CHR ''f'' then Some (CHR 0x0C)
      else if c = CHR ''v'' then Some (CHR 0x0B)
      else if c = CHR ''0'' then Some (CHR 0x00)
      else None)"

lemma read_hex_shorter: "read_hex acc s = Some (n, rest) \<Longrightarrow> length rest < length s"
proof (induction acc s rule: read_hex.induct)
  case (2 acc c s)
  then show ?case by (cases "c = CHR ''}''") (fastforce simp: Option.bind_eq_Some_conv)+
qed simp

function read_literal :: "string \<Rightarrow> string option" where
  "read_literal s =
     (case s of
        [] \<Rightarrow> None
      | c # rest \<Rightarrow>
          if c = QUOTE then (if rest = [] then Some [] else None)
          else if c = CHR ''$'' \<and> (case rest of d # _ \<Rightarrow> d = CHR ''{'' | [] \<Rightarrow> False) then None
          else if c \<noteq> BACKSLASH then map_option ((#) c) (read_literal rest)
          else (case rest of
                  [] \<Rightarrow> None
                | e # rest' \<Rightarrow>
                    (case escape_code e of
                       Some d \<Rightarrow> map_option ((#) d) (read_literal rest')
                     | None \<Rightarrow>
                         if e = CHR ''u'' \<and> rest' \<noteq> [] \<and> hd rest' = CHR ''{''
                         then (case read_hex 0 (tl rest') of
                                 None \<Rightarrow> None
                               | Some (n, rest'') \<Rightarrow> map_option ((#) (char_of n)) (read_literal rest''))
                         else None)))"
  by pat_completeness auto
termination
  by (relation "measure length") (auto dest!: read_hex_shorter simp: neq_Nil_conv)

declare read_literal.simps [simp del]

definition unquote :: "string \<Rightarrow> string option" where
  "unquote s = (case s of [] \<Rightarrow> None | c # rest \<Rightarrow> if c = QUOTE then read_literal rest else None)"

lemma hex_digit_read:
  assumes "d < 16"
  shows "unhex (hex_digit d) = Some d \<and> hex_digit d \<noteq> CHR ''}''"
proof -
  have code: "of_char (hex_digit d) = (if d < 10 then 48 + d else 87 + d)"
    using assms by (simp add: hex_digit_def)
  moreover have "hex_digit d \<noteq> CHR ''}''"
  proof
    assume "hex_digit d = CHR ''}''"
    then have "of_char (hex_digit d) = (125 :: nat)" by simp
    then show False using code assms by (simp split: if_splits)
  qed
  ultimately show ?thesis using assms by (simp add: unhex_def Let_def)
qed

lemma read_hex_byte: "n < 256 \<Longrightarrow> read_hex 0 (hex_byte n @ CHR ''}'' # t) = Some (n, t)"
  using hex_digit_read [of n] hex_digit_read [of "n div 16"] hex_digit_read [of "n mod 16"]
  by (simp add: hex_byte_def)

lemma read_plain:
  "c \<noteq> QUOTE \<Longrightarrow> c \<noteq> BACKSLASH \<Longrightarrow> \<not> (c = CHR ''$'' \<and> t \<noteq> [] \<and> hd t = CHR ''{'') \<Longrightarrow>
     read_literal (c # t) = map_option ((#) c) (read_literal t)"
  by (subst read_literal.simps) (auto split: list.splits)

lemma read_escape:
  "escape_code e = Some d \<Longrightarrow> read_literal (BACKSLASH # e # t) = map_option ((#) d) (read_literal t)"
  by (subst read_literal.simps) (simp add: BACKSLASH_def QUOTE_def)

lemma read_hex_escape:
  "n < 256 \<Longrightarrow> read_literal (BACKSLASH # CHR ''u'' # CHR ''{'' # hex_byte n @ CHR ''}'' # t) =
     map_option ((#) (char_of n)) (read_literal t)"
  using read_hex_byte [of n t]
  by (subst read_literal.simps) (simp add: BACKSLASH_def QUOTE_def escape_code_def)

lemma named_escapes:
  assumes "of_char c \<in> {0, 8, 9, 10, 11, 12, 13, 0x5C, 0x27 :: nat}"
  shows "c \<in> {CHR 0x00, CHR 0x08, CHR 0x09, CHR 0x0A, CHR 0x0B, CHR 0x0C, CHR 0x0D, BACKSLASH, QUOTE}"
    (is "c \<in> ?S")
proof -
  have "(of_char c :: nat) \<in> of_char ` ?S" using assms by (simp add: BACKSLASH_def QUOTE_def)
  then obtain d where "d \<in> ?S" "(of_char c :: nat) = of_char d" by blast
  then show ?thesis by (simp only: of_char_eq_iff)
qed

lemma read_quote_char:
  assumes "t \<noteq> [] \<and> hd t = CHR ''{'' \<longrightarrow> rest \<noteq> [] \<and> hd rest = CHR ''{''"
  shows "read_literal (quote_char c rest @ t) = map_option ((#) c) (read_literal t)"
proof -
  let ?n = "of_char c :: nat"
  have n: "?n < 256" by simp
  show ?thesis
  proof (cases "?n < 0x20 \<or> ?n = 0x7f \<or> ?n = 0x5C \<or> ?n = 0x27 \<or> c = CHR ''$''")
    case False
    then have "c \<noteq> QUOTE" "c \<noteq> BACKSLASH" by (auto simp: QUOTE_def BACKSLASH_def)
    then show ?thesis using False read_plain [of c t] by (simp add: quote_char_def Let_def)
  next
    case True
    let ?named = "{0, 8, 9, 10, 11, 12, 13, 0x5C, 0x27}"
    have "?n \<in> ?named" if "?n = 0x5C \<or> ?n = 0x27" using that by auto
    then consider "?n \<in> ?named" | "c = CHR ''$''"
      | "?n \<notin> ?named" "?n < 0x20 \<or> ?n = 0x7f" "c \<noteq> CHR ''$''"
      using True by blast
    then show ?thesis
    proof cases
      case 1
      from named_escapes [OF 1] show ?thesis
        by (elim insertE) (simp_all add: quote_char_def read_escape escape_code_def BACKSLASH_def QUOTE_def
            read_escape [unfolded BACKSLASH_def])
    next
      case 2
      then show ?thesis
        using assms read_escape [of "CHR ''$''" "CHR ''$''" t] read_plain [of "CHR ''$''" t]
        by (auto simp: quote_char_def Let_def escape_code_def QUOTE_def BACKSLASH_def split: list.splits)
    next
      case 3
      then have "quote_char c rest @ t = BACKSLASH # CHR ''u'' # CHR ''{'' # hex_byte ?n @ CHR ''}'' # t"
        by (auto simp: quote_char_def Let_def)
      then show ?thesis using read_hex_escape [OF n, of t] by simp
    qed
  qed
qed

lemma quote_char_head: "quote_char d r \<noteq> [] \<and> (hd (quote_char d r) = CHR ''{'' \<longrightarrow> d = CHR ''{'')"
  by (simp add: quote_char_def Let_def BACKSLASH_def)

lemma read_literal_quote: "read_literal (quote_chars s @ [QUOTE]) = Some s"
proof (induction s)
  case Nil
  then show ?case by (subst read_literal.simps) simp
next
  case (Cons c s)
  have "hd (quote_chars s @ [QUOTE]) = CHR ''{'' \<longrightarrow> s \<noteq> [] \<and> hd s = CHR ''{''"
    using quote_char_head by (cases s) (auto simp: QUOTE_def hd_append)
  then show ?case using read_quote_char [of "quote_chars s @ [QUOTE]" s c] Cons by simp
qed

lemma unquote_quote: "unquote (quote_str s) = Some s"
  by (simp add: unquote_def quote_str_def read_literal_quote)

end
