(* ===== verification/Interp.thy ===== *)
theory Interp
  imports Collector Sched Format
begin

text \<open>
  The bytecode interpreter (\<^verbatim>\<open>runtime/src/interp/mod.rs\<close>): the operand-stack helpers, the
  instruction loop over one value stack and an explicit stack of frames, calls and their
  depth limit, the safepoints at which a collection may run, parking, and the structural
  fallbacks of a virtual call, which re-enter the loop.

  \<open>world\<close> is what natives see (the thread-local heap, scheduler, park cell and capture
  buffers, the output sink, the jobs handed to the worker pool, and the state \<open>'e\<close> of the
  outside); \<open>vm\<close> adds the stacks of the
  running fiber, top at the end. Every operation returns a result and the state. After a
  fault the stacks are never read again; what is in the world stays. The loop is indexed by
  a number of steps, and \<open>Diverge\<close> says that they did not suffice.
\<close>

section \<open>State\<close>

record 'e world =
  mem :: rt
  sched :: "'e scheduler"
  park_cell :: "('e, 'e) park_request option"
  out :: "u8 list"
  err_out :: "u8 list"
  capture :: "u8 list list"
  jobs :: "(usize \<times> 'e) list"
  env :: 'e

type_synonym 'e native = "val list \<Rightarrow> 'e world \<Rightarrow> val res \<times> 'e world"

text \<open>What a run does not change: the size parameters, the program, the native table, and what the end of a run does to
  the outside (\<open>reset_poller\<close>, \<open>reset_sockets\<close>).\<close>

record 'e cfg =
  lay :: layout
  prog :: module
  natives :: "'e native list"
  teardown :: "'e \<Rightarrow> 'e"

record 'e vm =
  world :: "'e world"
  vstack :: "val list"
  frames :: "frame list"

abbreviation slots_of :: "'e vm \<Rightarrow> store" where
  "slots_of s \<equiv> rt_slots (mem (world s))"

type_synonym ('e, 'a) exec = "'e vm \<Rightarrow> 'a res \<times> 'e vm"

definition eret :: "'a \<Rightarrow> ('e, 'a) exec" where
  "eret x s = (Ok x, s)"

definition elift :: "'a res \<Rightarrow> ('e, 'a) exec" where
  "elift r s = (r, s)"

definition ebind :: "('e, 'a) exec \<Rightarrow> ('a \<Rightarrow> ('e, 'b) exec) \<Rightarrow> ('e, 'b) exec" where
  "ebind m f s = (case m s of (Inl e, s') \<Rightarrow> (Err e, s') | (Inr x, s') \<Rightarrow> f x s')"

text \<open>A computation on the value stack that may read the heap.\<close>

definition on_stack :: "(store \<Rightarrow> val list \<Rightarrow> ('a \<times> val list) res) \<Rightarrow> ('e, 'a) exec" where
  "on_stack f s =
     (case f (slots_of s) (vstack s) of
        Inl e \<Rightarrow> (Err e, s)
      | Inr (x, vs) \<Rightarrow> (Ok x, s\<lparr>vstack := vs\<rparr>))"

definition on_mem :: "(rt \<Rightarrow> 'a res \<times> rt) \<Rightarrow> ('e, 'a) exec" where
  "on_mem f s = (let (r, m) = f (mem (world s)) in (r, s\<lparr>world := (world s)\<lparr>mem := m\<rparr>\<rparr>))"

definition push :: "val \<Rightarrow> ('e, unit) exec" where
  "push v s = (Ok (), s\<lparr>vstack := vstack s @ [v]\<rparr>)"

section \<open>Operand-stack helpers\<close>

definition pop :: "val list \<Rightarrow> (val \<times> val list) res" where
  "pop vs = (if vs = [] then Err (bug ''stack underflow'') else Ok (last vs, butlast vs))"

definition pop_int :: "module \<Rightarrow> store \<Rightarrow> val list \<Rightarrow> (i64 \<times> val list) res" where
  "pop_int m st vs =
     rbind (pop vs) (\<lambda>(v, vs). case v of IntV n \<Rightarrow> Ok (n, vs) | _ \<Rightarrow> type_error ''Int'' v m st)"

definition pop_double :: "module \<Rightarrow> store \<Rightarrow> val list \<Rightarrow> (f64 \<times> val list) res" where
  "pop_double m st vs =
     rbind (pop vs) (\<lambda>(v, vs). case v of Double x \<Rightarrow> Ok (x, vs) | _ \<Rightarrow> type_error ''Double'' v m st)"

definition pop_bool :: "module \<Rightarrow> store \<Rightarrow> val list \<Rightarrow> (bool \<times> val list) res" where
  "pop_bool m st vs =
     rbind (pop vs) (\<lambda>(v, vs). case v of Bool b \<Rightarrow> Ok (b, vs) | _ \<Rightarrow> type_error ''Bool'' v m st)"

definition pop_two_int :: "module \<Rightarrow> store \<Rightarrow> val list \<Rightarrow> ((i64 \<times> i64) \<times> val list) res" where
  "pop_two_int m st vs =
     rbind (pop_int m st vs) (\<lambda>(b, vs). rbind (pop_int m st vs) (\<lambda>(a, vs). Ok ((a, b), vs)))"

definition pop_two_double :: "module \<Rightarrow> store \<Rightarrow> val list \<Rightarrow> ((f64 \<times> f64) \<times> val list) res" where
  "pop_two_double m st vs =
     rbind (pop_double m st vs) (\<lambda>(b, vs). rbind (pop_double m st vs) (\<lambda>(a, vs). Ok ((a, b), vs)))"

definition cmp_int :: "module \<Rightarrow> (i64 \<Rightarrow> i64 \<Rightarrow> bool) \<Rightarrow> store \<Rightarrow> val list \<Rightarrow> (unit \<times> val list) res" where
  "cmp_int m f st vs = rbind (pop_two_int m st vs) (\<lambda>((a, b), vs). Ok ((), vs @ [Bool (f a b)]))"

definition cmp_double :: "module \<Rightarrow> (f64 \<Rightarrow> f64 \<Rightarrow> bool) \<Rightarrow> store \<Rightarrow> val list \<Rightarrow> (unit \<times> val list) res" where
  "cmp_double m f st vs = rbind (pop_two_double m st vs) (\<lambda>((a, b), vs). Ok ((), vs @ [Bool (f a b)]))"

definition checked_list_index :: "i64 \<Rightarrow> usize \<Rightarrow> usize res" where
  "checked_list_index i len =
     (if sint i < 0 \<or> unat i \<ge> len then Err (Trap (IndexOutOfBounds i len)) else Ok (unat i))"

text \<open>Take the top \<open>n\<close> values off (\<open>checked_sub\<close>, then \<open>split_off\<close>).\<close>

definition split_top :: "usize \<Rightarrow> string \<Rightarrow> val list \<Rightarrow> (val list \<times> val list) res" where
  "split_top n msg vs =
     (if length vs < n then Err (bug msg)
      else Ok (drop (length vs - n) vs, take (length vs - n) vs))"

text \<open>Reading through a handle: a missing object panics, another kind is a type error.\<close>

definition read_obj :: "string \<Rightarrow> module option \<Rightarrow> (obj \<Rightarrow> 'a res option) \<Rightarrow> store \<Rightarrow> val \<Rightarrow> 'a res" where
  "read_obj expected m f st v =
     (case v of
        Ref h \<Rightarrow>
          rbind (or_panic (lookup st h)) (\<lambda>obj.
            case f obj of
              Some r \<Rightarrow> r
            | None \<Rightarrow> Err (Trap (TypeError expected (obj_type_name obj m))))
      | _ \<Rightarrow> rbind (value_type_name st v m) (\<lambda>name. Err (Trap (TypeError expected name))))"

definition pop_enum_variant :: "module \<Rightarrow> store \<Rightarrow> val list \<Rightarrow> (u16 \<times> val list) res" where
  "pop_enum_variant m st vs =
     rbind (pop vs) (\<lambda>(v, vs).
     rbind (read_obj ''an enum'' (Some m)
              (\<lambda>obj. case obj of Enum e \<Rightarrow> Some (Ok (enum_variant e)) | _ \<Rightarrow> None) st v) (\<lambda>t. Ok (t, vs)))"

definition closure_parts :: "module \<Rightarrow> store \<Rightarrow> val \<Rightarrow> (u32 \<times> val list) res" where
  "closure_parts m st v =
     read_obj ''a function'' (Some m)
       (\<lambda>obj. case obj of Closure func captures \<Rightarrow> Some (Ok (func, captures)) | _ \<Rightarrow> None) st v"

definition enum_field :: "module \<Rightarrow> usize \<Rightarrow> store \<Rightarrow> val \<Rightarrow> val res" where
  "enum_field m idx st v =
     read_obj ''an enum'' (Some m)
       (\<lambda>obj. case obj of
          Enum e \<Rightarrow> Some (ok_or (bug (''enum.get: field '' @ nat_digits idx @ '' out of range''))
                                (get_nth (enum_fields e) idx))
        | _ \<Rightarrow> None) st v"

definition struct_field :: "module option \<Rightarrow> usize \<Rightarrow> store \<Rightarrow> val \<Rightarrow> val res" where
  "struct_field m idx st v =
     read_obj ''a struct'' m
       (\<lambda>obj. case obj of
          Struct ty fs \<Rightarrow> Some (ok_or (bug (''field.get: field '' @ nat_digits idx @ '' out of range''))
                                      (get_nth fs idx))
        | _ \<Rightarrow> None) st v"

text \<open>Writing through a handle, in place.\<close>

definition write_obj :: "string \<Rightarrow> module \<Rightarrow> (obj \<Rightarrow> obj res option) \<Rightarrow> val \<Rightarrow> rt \<Rightarrow> unit res \<times> rt" where
  "write_obj expected m f v s =
     (case read_obj expected (Some m) f (rt_slots s) v of
        Inl e \<Rightarrow> (Err e, s)
      | Inr obj \<Rightarrow> (Ok (), (case v of Ref h \<Rightarrow> put_slot h (Some obj) s | _ \<Rightarrow> s)))"

definition set_struct_field :: "module \<Rightarrow> usize \<Rightarrow> val \<Rightarrow> val \<Rightarrow> rt \<Rightarrow> unit res \<times> rt" where
  "set_struct_field m idx x v =
     write_obj ''a struct'' m
       (\<lambda>obj. case obj of
          Struct ty fs \<Rightarrow>
            Some (if idx < length fs then Ok (Struct ty (fs[idx := x]))
                  else Err (bug (''field.set: field '' @ nat_digits idx @ '' out of range'')))
        | _ \<Rightarrow> None) v"

definition dispatch_type_id :: "store \<Rightarrow> val \<Rightarrow> u32 option res" where
  "dispatch_type_id st v =
     (case v of
        Ref h \<Rightarrow>
          rbind (or_panic (lookup st h)) (\<lambda>obj.
            Ok (case obj of
                  Struct ty _ \<Rightarrow> Some ty
                | Enum e \<Rightarrow> Some (ENUM_DISPATCH_BASE OR enum_ty e)
                | _ \<Rightarrow> None))
      | _ \<Rightarrow> Ok None)"

section \<open>Operators\<close>

text \<open>Rust's division truncates toward zero; the wrapping forms take the result modulo \<open>2\<^sup>6\<^sup>4\<close>,
  which matters for \<open>i64::MIN / -1\<close> only.\<close>

definition trunc_div :: "int \<Rightarrow> int \<Rightarrow> int" where
  "trunc_div a b = (if (a < 0) = (b < 0) then \<bar>a\<bar> div \<bar>b\<bar> else - (\<bar>a\<bar> div \<bar>b\<bar>))"

definition wrapping_div :: "i64 \<Rightarrow> i64 \<Rightarrow> i64" where
  "wrapping_div a b = word_of_int (trunc_div (sint a) (sint b))"

definition wrapping_rem :: "i64 \<Rightarrow> i64 \<Rightarrow> i64" where
  "wrapping_rem a b = word_of_int (sint a - sint b * trunc_div (sint a) (sint b))"

definition int_binop :: "instr \<Rightarrow> (i64 \<Rightarrow> i64 \<Rightarrow> i64 res) option" where
  "int_binop i =
     (case i of
        AddI64 \<Rightarrow> Some (\<lambda>a b. Ok (a + b))
      | SubI64 \<Rightarrow> Some (\<lambda>a b. Ok (a - b))
      | MulI64 \<Rightarrow> Some (\<lambda>a b. Ok (a * b))
      | DivI64 \<Rightarrow> Some (\<lambda>a b. if b = 0 then Err (Trap DivByZero) else Ok (wrapping_div a b))
      | ModI64 \<Rightarrow> Some (\<lambda>a b. if b = 0 then Err (Trap DivByZero) else Ok (wrapping_rem a b))
      | AndI64 \<Rightarrow> Some (\<lambda>a b. Ok (a AND b))
      | OrI64 \<Rightarrow> Some (\<lambda>a b. Ok (a OR b))
      | XorI64 \<Rightarrow> Some (\<lambda>a b. Ok (a XOR b))
      | ShlI64 \<Rightarrow> Some (\<lambda>a b. Ok (push_bit (unat (b AND 63)) a))
      | ShrI64 \<Rightarrow> Some (\<lambda>a b. Ok (signed_drop_bit (unat (b AND 63)) a))
      | UShrI64 \<Rightarrow> Some (\<lambda>a b. Ok (drop_bit (unat (b AND 63)) a))
      | _ \<Rightarrow> None)"

definition int_unop :: "instr \<Rightarrow> (i64 \<Rightarrow> val) option" where
  "int_unop i =
     (case i of
        NegI64 \<Rightarrow> Some (\<lambda>a. IntV (- a))
      | BNotI64 \<Rightarrow> Some (\<lambda>a. IntV (NOT a))
      | I64ToF64 \<Rightarrow> Some (\<lambda>a. Double (i64_to_f64 a))
      | _ \<Rightarrow> None)"

definition double_binop :: "instr \<Rightarrow> (f64 \<Rightarrow> f64 \<Rightarrow> f64) option" where
  "double_binop i =
     (case i of
        AddF64 \<Rightarrow> Some f64_add
      | SubF64 \<Rightarrow> Some f64_sub
      | MulF64 \<Rightarrow> Some f64_mul
      | DivF64 \<Rightarrow> Some f64_div
      | _ \<Rightarrow> None)"

definition double_unop :: "instr \<Rightarrow> (f64 \<Rightarrow> val) option" where
  "double_unop i =
     (case i of
        NegF64 \<Rightarrow> Some (\<lambda>a. Double (f64_neg a))
      | F64ToI64 \<Rightarrow> Some (\<lambda>a. IntV (f64_to_i64 a))
      | _ \<Rightarrow> None)"

definition int_cmp :: "instr \<Rightarrow> (i64 \<Rightarrow> i64 \<Rightarrow> bool) option" where
  "int_cmp i =
     (case i of
        EqI64 \<Rightarrow> Some (\<lambda>a b. a = b)
      | NeI64 \<Rightarrow> Some (\<lambda>a b. a \<noteq> b)
      | LtI64 \<Rightarrow> Some (\<lambda>a b. sint a < sint b)
      | LeI64 \<Rightarrow> Some (\<lambda>a b. sint a \<le> sint b)
      | GtI64 \<Rightarrow> Some (\<lambda>a b. sint a > sint b)
      | GeI64 \<Rightarrow> Some (\<lambda>a b. sint a \<ge> sint b)
      | _ \<Rightarrow> None)"

definition double_cmp :: "instr \<Rightarrow> (f64 \<Rightarrow> f64 \<Rightarrow> bool) option" where
  "double_cmp i =
     (case i of
        EqF64 \<Rightarrow> Some f64_eq
      | NeF64 \<Rightarrow> Some (\<lambda>a b. \<not> f64_eq a b)
      | LtF64 \<Rightarrow> Some f64_lt
      | LeF64 \<Rightarrow> Some f64_le
      | GtF64 \<Rightarrow> Some (\<lambda>a b. f64_lt b a)
      | GeF64 \<Rightarrow> Some (\<lambda>a b. f64_le b a)
      | _ \<Rightarrow> None)"

text \<open>The instructions that only compute on the value stack. The last equation is the rest of the
  instruction set, which \<open>step\<close> handles itself.\<close>

definition exec_operator :: "module \<Rightarrow> instr \<Rightarrow> (store \<Rightarrow> val list \<Rightarrow> (unit \<times> val list) res) option" where
  "exec_operator m i =
     (case int_binop i of
        Some f \<Rightarrow> Some (\<lambda>st vs. rbind (pop_two_int m st vs) (\<lambda>((a, b), vs).
                    rbind (f a b) (\<lambda>r. Ok ((), vs @ [IntV r]))))
      | None \<Rightarrow>
      (case int_unop i of
        Some f \<Rightarrow> Some (\<lambda>st vs. rbind (pop_int m st vs) (\<lambda>(a, vs). Ok ((), vs @ [f a])))
      | None \<Rightarrow>
      (case double_binop i of
        Some f \<Rightarrow> Some (\<lambda>st vs. rbind (pop_two_double m st vs) (\<lambda>((a, b), vs). Ok ((), vs @ [Double (f a b)])))
      | None \<Rightarrow>
      (case double_unop i of
        Some f \<Rightarrow> Some (\<lambda>st vs. rbind (pop_double m st vs) (\<lambda>(a, vs). Ok ((), vs @ [f a])))
      | None \<Rightarrow>
      (case int_cmp i of
        Some f \<Rightarrow> Some (cmp_int m f)
      | None \<Rightarrow>
      (case double_cmp i of
        Some f \<Rightarrow> Some (cmp_double m f)
      | None \<Rightarrow>
      (case i of
        ConstInt n \<Rightarrow> Some (\<lambda>st vs. Ok ((), vs @ [IntV n]))
      | ConstDouble x \<Rightarrow> Some (\<lambda>st vs. Ok ((), vs @ [Double x]))
      | ConstBool b \<Rightarrow> Some (\<lambda>st vs. Ok ((), vs @ [Bool b]))
      | ConstUnit \<Rightarrow> Some (\<lambda>st vs. Ok ((), vs @ [Unit]))
      | NotBool \<Rightarrow> Some (\<lambda>st vs. rbind (pop_bool m st vs) (\<lambda>(b, vs). Ok ((), vs @ [Bool (\<not> b)])))
      | Pop \<Rightarrow> Some (\<lambda>st vs. rbind (pop vs) (\<lambda>(_, vs). Ok ((), vs)))
      | Dup \<Rightarrow> Some (\<lambda>st vs. if vs = [] then Err (bug ''dup: empty stack'') else Ok ((), vs @ [last vs]))
      | EnumTag \<Rightarrow> Some (\<lambda>st vs. rbind (pop_enum_variant m st vs) (\<lambda>(t, vs). Ok ((), vs @ [IntV (ucast t)])))
      | EnumGet idx \<Rightarrow> Some (\<lambda>st vs. rbind (pop vs) (\<lambda>(v, vs).
                         rbind (enum_field m (unat idx) st v) (\<lambda>x. Ok ((), vs @ [x]))))
      | FieldGet idx \<Rightarrow> Some (\<lambda>st vs. rbind (pop vs) (\<lambda>(v, vs).
                         rbind (struct_field (Some m) (unat idx) st v) (\<lambda>x. Ok ((), vs @ [x]))))
      | ListGet \<Rightarrow> Some (\<lambda>st vs. rbind (pop_int m st vs) (\<lambda>(idx, vs). rbind (pop vs) (\<lambda>(v, vs).
                     rbind (read_obj ''a List'' (Some m)
                              (\<lambda>obj. case obj of
                                 List items \<Rightarrow> Some (rbind (checked_list_index idx (length items)) (\<lambda>k. Ok (items ! k)))
                               | _ \<Rightarrow> None) st v) (\<lambda>x. Ok ((), vs @ [x])))))
      | ListLen \<Rightarrow> Some (\<lambda>st vs. rbind (pop vs) (\<lambda>(v, vs).
                     rbind (read_obj ''a List'' (Some m)
                              (\<lambda>obj. case obj of List items \<Rightarrow> Some (Ok (word_of_nat (length items))) | _ \<Rightarrow> None) st v)
                       (\<lambda>n. Ok ((), vs @ [IntV n]))))
      | _ \<Rightarrow> None)))))))"

section \<open>Safepoints and allocation\<close>

text \<open>\<open>poll_gc!\<close>: when a collection is due, trace the fiber's value stack and every value the scheduler
  holds; the heap ceiling is enforced right after.\<close>

definition poll_gc :: "'e cfg \<Rightarrow> ('e, unit) exec" where
  "poll_gc c s =
     (let w = world s
      in if should_collect (mem w)
         then case collect (lay c) (vstack s @ gather_scheduler_roots (sched w)) (mem w) of
                None \<Rightarrow> (Err Panic, s)
              | Some m \<Rightarrow>
                  (case over_ceiling m of
                     Some (live, limit) \<Rightarrow> (Err (Trap (OutOfMemory live limit)), s\<lparr>world := w\<lparr>mem := m\<rparr>\<rparr>)
                   | None \<Rightarrow> (Ok (), s\<lparr>world := w\<lparr>mem := m\<rparr>\<rparr>))
         else (Ok (), s))"

definition new_obj :: "'e cfg \<Rightarrow> obj \<Rightarrow> ('e, val) exec" where
  "new_obj c obj = on_mem (\<lambda>m. let (v, m') = alloc (lay c) obj m in (Ok v, m'))"

definition const_str :: "'e cfg \<Rightarrow> string \<Rightarrow> ('e, unit) exec" where
  "const_str c str =
     ebind (poll_gc c) (\<lambda>_.
     ebind (on_mem (\<lambda>m. let (v, m') = intern_str (lay c) str m in (Ok v, m'))) push)"

text \<open>The four constructors: collect if due, take the operands off, allocate, push the handle.\<close>

definition make_obj :: "'e cfg \<Rightarrow> usize \<Rightarrow> string \<Rightarrow> (val list \<Rightarrow> obj) \<Rightarrow> ('e, unit) exec" where
  "make_obj c n msg mk =
     ebind (on_stack (\<lambda>st. split_top n msg)) (\<lambda>items.
     ebind (new_obj c (mk items)) push)"

definition enum_new :: "'e cfg \<Rightarrow> u32 \<Rightarrow> u16 \<Rightarrow> u8 \<Rightarrow> ('e, unit) exec" where
  "enum_new c ty tag n =
     ebind (poll_gc c) (\<lambda>_.
       make_obj c (unat n) ''enum.new: operand stack underflow''
         (\<lambda>fs. Enum \<lparr>enum_ty = ty, enum_variant = tag, enum_fields = fs\<rparr>))"

definition struct_new :: "'e cfg \<Rightarrow> u32 \<Rightarrow> ('e, unit) exec" where
  "struct_new c ty =
     ebind (poll_gc c) (\<lambda>_.
     ebind (elift (ok_or (bug (''struct.new: no type at index '' @ nat_digits (unat ty)))
                     (get_nth (types (prog c)) (unat ty)))) (\<lambda>t.
       make_obj c (unat (field_count t)) ''struct.new: operand stack underflow'' (Struct ty)))"

definition list_new :: "'e cfg \<Rightarrow> u32 \<Rightarrow> ('e, unit) exec" where
  "list_new c n =
     ebind (poll_gc c) (\<lambda>_. make_obj c (unat n) ''list.new: operand stack underflow'' List)"

definition closure_new :: "'e cfg \<Rightarrow> u32 \<Rightarrow> u8 \<Rightarrow> ('e, unit) exec" where
  "closure_new c func n =
     ebind (poll_gc c) (\<lambda>_.
       make_obj c (unat n) ''closure.new: operand stack underflow'' (Closure func))"

section \<open>Locals, globals and in-place updates\<close>

definition load_slot :: "frame \<Rightarrow> u16 \<Rightarrow> ('e, unit) exec" where
  "load_slot fr slot =
     on_stack (\<lambda>st vs.
       rbind (ok_or (bug (''load: slot '' @ nat_digits (unat slot) @ '' out of range''))
                (get_nth vs (base fr + unat slot))) (\<lambda>v. Ok ((), vs @ [v])))"

definition store_slot :: "frame \<Rightarrow> u16 \<Rightarrow> ('e, unit) exec" where
  "store_slot fr slot =
     on_stack (\<lambda>st vs.
       rbind (pop vs) (\<lambda>(v, vs).
         if base fr + unat slot < length vs then Ok ((), vs[base fr + unat slot := v])
         else Err (bug (''store: slot '' @ nat_digits (unat slot) @ '' out of range''))))"

definition get_global :: "u32 \<Rightarrow> ('e, unit) exec" where
  "get_global idx =
     ebind (on_mem (\<lambda>m. (ok_or (bug (''global.get: slot '' @ nat_digits (unat idx) @ '' out of range''))
                           (global_get idx m), m))) push"

definition set_global :: "u32 \<Rightarrow> ('e, unit) exec" where
  "set_global idx =
     ebind (on_stack (\<lambda>st. pop)) (\<lambda>v.
     on_mem (\<lambda>m. case global_set idx v m of
                   None \<Rightarrow> (Err (bug (''global.set: slot '' @ nat_digits (unat idx) @ '' out of range'')), m)
                 | Some m' \<Rightarrow> (Ok (), m')))"

definition field_set :: "'e cfg \<Rightarrow> u16 \<Rightarrow> ('e, unit) exec" where
  "field_set c idx =
     ebind (on_stack (\<lambda>st. pop)) (\<lambda>x.
     ebind (on_stack (\<lambda>st. pop)) (\<lambda>obj.
     on_mem (set_struct_field (prog c) (unat idx) x obj)))"

definition list_set :: "'e cfg \<Rightarrow> ('e, unit) exec" where
  "list_set c =
     ebind (on_stack (\<lambda>st. pop)) (\<lambda>x.
     ebind (on_stack (pop_int (prog c))) (\<lambda>idx.
     ebind (on_stack (\<lambda>st. pop)) (\<lambda>xs.
     on_mem (write_obj ''a List'' (prog c)
       (\<lambda>obj. case obj of
          List items \<Rightarrow> Some (rbind (checked_list_index idx (length items)) (\<lambda>k. Ok (List (items[k := x]))))
        | _ \<Rightarrow> None) xs))))"

section \<open>Calls\<close>

text \<open>\<open>Vec::resize\<close>.\<close>

definition resize :: "nat \<Rightarrow> 'a \<Rightarrow> 'a list \<Rightarrow> 'a list" where
  "resize n x xs = take n xs @ replicate (n - length xs) x"

definition enter_frame :: "module \<Rightarrow> usize \<Rightarrow> usize \<Rightarrow> val list \<Rightarrow> (frame \<times> val list) res" where
  "enter_frame m func argc vs =
     rbind (ok_or (bug (''call: no function at index '' @ nat_digits func)) (get_nth (mod_functions m) func)) (\<lambda>f.
       if argc \<noteq> unat (param_count f)
       then Err (bug (''call: function '' @ QUOTE # func_name f @ QUOTE # '' expects '' @ nat_digits (unat (param_count f)) @
                      '' args, got '' @ nat_digits argc))
       else if length vs < argc then Err (bug ''call: operand stack underflow'')
       else let b = length vs - argc
            in Ok (\<lparr>frame_func = func, pc = 0, base = b\<rparr>, resize (b + unat (local_count f)) Unit vs))"

definition push_frame :: "module \<Rightarrow> usize \<Rightarrow> val list \<Rightarrow> val list \<Rightarrow> (frame \<times> val list) res" where
  "push_frame m func args vs = enter_frame m func (length args) (vs @ args)"

text \<open>\<open>RunOutcome\<close>; its \<open>Done\<close> is \<open>Finished\<close> here.\<close>

datatype 'e outcome = Finished val | Parked "('e, 'e) park_request"

datatype 'e flow = Cont frame | Exit "'e outcome"

text \<open>\<open>enter_call!\<close>: suspend the current frame, depth-capped, and continue in the callee.\<close>

definition enter_call :: "frame \<Rightarrow> frame \<Rightarrow> ('e, 'e flow) exec" where
  "enter_call cur callee s =
     (if length (frames s) \<ge> MAX_CALL_DEPTH then (Err (Trap StackOverflow), s)
      else (Ok (Cont callee), s\<lparr>frames := frames s @ [cur]\<rparr>))"

definition exec_call :: "'e cfg \<Rightarrow> frame \<Rightarrow> u32 \<Rightarrow> u8 \<Rightarrow> ('e, 'e flow) exec" where
  "exec_call c fr func argc =
     ebind (poll_gc c) (\<lambda>_.
     ebind (on_stack (\<lambda>st. enter_frame (prog c) (unat func) (unat argc))) (enter_call fr))"

text \<open>A native runs on the top \<open>argc\<close> values, which stay on the stack meanwhile. A request to wait for a
  resource rewinds the program counter, so that the call runs again on resumption.\<close>

definition run_native :: "'e cfg \<Rightarrow> frame \<Rightarrow> u32 \<Rightarrow> u8 \<Rightarrow> ('e, 'e flow) exec" where
  "run_native c fr native argc s =
     (if length (vstack s) < unat argc then (Err (bug ''call.native: operand stack underflow''), s)
      else
        let b = length (vstack s) - unat argc
        in case get_nth (natives c) (unat native) of
             None \<Rightarrow> (Err (bug (''call.native: no native at index '' @ nat_digits (unat native))), s)
           | Some f \<Rightarrow>
               (case f (drop b (vstack s)) (world s) of
                  (Inl e, w) \<Rightarrow> (Err e, s\<lparr>world := w\<rparr>)
                | (Inr ret, w) \<Rightarrow>
                    let s = s\<lparr>world := w\<lparr>park_cell := None\<rparr>\<rparr>;
                        s' = s\<lparr>vstack := take b (vstack s) @ [ret]\<rparr>
                    in case park_cell w of
                         None \<Rightarrow> (Ok (Cont fr), s')
                       | Some req \<Rightarrow>
                           (case req of
                              BlockRetry \<Rightarrow>
                                (Ok (Exit (Parked req)), s\<lparr>frames := frames s @ [fr\<lparr>pc := pc fr - 1\<rparr>]\<rparr>)
                            | Ready _ \<Rightarrow>
                                (Ok (Exit (Parked req)), s\<lparr>frames := frames s @ [fr\<lparr>pc := pc fr - 1\<rparr>]\<rparr>)
                            | _ \<Rightarrow> (Ok (Exit (Parked req)), s'\<lparr>frames := frames s @ [fr]\<rparr>))))"

definition exec_call_native :: "'e cfg \<Rightarrow> frame \<Rightarrow> u32 \<Rightarrow> u8 \<Rightarrow> ('e, 'e flow) exec" where
  "exec_call_native c fr native argc = ebind (poll_gc c) (\<lambda>_. run_native c fr native argc)"

text \<open>The callee's locals are the captures followed by the arguments: the closure's slot is replaced in place.\<close>

definition exec_call_indirect :: "'e cfg \<Rightarrow> frame \<Rightarrow> u8 \<Rightarrow> ('e, 'e flow) exec" where
  "exec_call_indirect c fr argc =
     ebind (poll_gc c) (\<lambda>_.
     ebind (on_stack (\<lambda>st vs.
       if length vs < Suc (unat argc) then Err (bug ''call.indirect: operand stack underflow'')
       else let slot = length vs - Suc (unat argc)
            in rbind (closure_parts (prog c) st (vs ! slot)) (\<lambda>(func, captures).
                 enter_frame (prog c) (unat func) (length captures + unat argc)
                   (take slot vs @ captures @ drop (Suc slot) vs)))) (enter_call fr))"

definition exec_call_virtual :: "'e cfg \<Rightarrow> (string \<Rightarrow> val list \<Rightarrow> ('e, val) exec) \<Rightarrow> frame \<Rightarrow> string \<Rightarrow> u8
    \<Rightarrow> ('e, 'e flow) exec" where
  "exec_call_virtual c fallback fr sel argc =
     ebind (poll_gc c) (\<lambda>_.
     ebind (on_stack (\<lambda>st vs.
       if length vs < unat argc then Err (bug ''call.virtual: operand stack underflow'')
       else rbind (or_panic (get_nth vs (length vs - unat argc))) (\<lambda>recv.
              rbind (dispatch_type_id st recv) (\<lambda>ty.
                Ok (Option.bind ty (\<lambda>ty. dispatch_target (prog c) ty sel), vs))))) (\<lambda>target.
     case target of
       Some func \<Rightarrow>
         ebind (on_stack (\<lambda>st. enter_frame (prog c) (unat func) (unat argc))) (enter_call fr)
     | None \<Rightarrow>
         ebind (on_stack (\<lambda>st. split_top (unat argc) ''call.virtual: operand stack underflow'')) (\<lambda>args.
         ebind (fallback sel args) (\<lambda>ret.
         ebind (push ret) (\<lambda>_. eret (Cont fr))))))"

section \<open>Control\<close>

text \<open>A backward jump is a safepoint.\<close>

definition jump_to :: "'e cfg \<Rightarrow> frame \<Rightarrow> usize \<Rightarrow> ('e, 'e flow) exec" where
  "jump_to c fr target =
     ebind (if target < pc fr then poll_gc c else eret ()) (\<lambda>_. eret (Cont (fr\<lparr>pc := target\<rparr>)))"

definition jump_if :: "'e cfg \<Rightarrow> bool \<Rightarrow> frame \<Rightarrow> usize \<Rightarrow> ('e, 'e flow) exec" where
  "jump_if c want fr target =
     ebind (on_stack (pop_bool (prog c))) (\<lambda>b.
       if b = want then jump_to c fr target else eret (Cont fr))"

text \<open>The result is the top operand, or \<open>Unit\<close> when there is none above the locals; the whole slot region of
  the frame goes. At the depth the loop was entered at, the loop is done.\<close>

definition exec_return :: "'e cfg \<Rightarrow> usize \<Rightarrow> frame \<Rightarrow> ('e, 'e flow) exec" where
  "exec_return c base_depth fr s =
     (case get_nth (mod_functions (prog c)) (frame_func fr) of
        None \<Rightarrow> (Err Panic, s)
      | Some f \<Rightarrow>
          let floor = base fr + unat (local_count f);
              ret = (if length (vstack s) > floor then last (vstack s) else Unit);
              s = s\<lparr>vstack := take (base fr) (vstack s)\<rparr>
          in if length (frames s) = base_depth then (Ok (Exit (Finished ret)), s)
             else if frames s = [] then (Err Panic, s)
             else (Ok (Cont (last (frames s))),
                   s\<lparr>vstack := vstack s @ [ret], frames := butlast (frames s)\<rparr>))"

section \<open>Structural fallbacks of a virtual call\<close>

definition has_builtin_display :: "store \<Rightarrow> val \<Rightarrow> bool res" where
  "has_builtin_display st v =
     (case v of
        Ref h \<Rightarrow> rbind (or_panic (lookup st h)) (\<lambda>obj. Ok (case obj of Str _ \<Rightarrow> True | _ \<Rightarrow> False))
      | _ \<Rightarrow> Ok True)"

definition display_string :: "store \<Rightarrow> val \<Rightarrow> string res" where
  "display_string st v =
     (case v of
        IntV n \<Rightarrow> Ok (int_digits (sint n))
      | Double x \<Rightarrow> Ok (format_double x)
      | Bool b \<Rightarrow> Ok (bool_string b)
      | Unit \<Rightarrow> Ok ''()''
      | Ref h \<Rightarrow> rbind (or_panic (lookup st h)) (\<lambda>obj.
          case obj of Str s \<Rightarrow> Ok s | _ \<Rightarrow> Err (bug ''display: type has no built-in Display'')))"

definition str_contents :: "store \<Rightarrow> val \<Rightarrow> string res" where
  "str_contents st v =
     (case v of
        Ref h \<Rightarrow> rbind (or_panic (lookup st h)) (\<lambda>obj.
          case obj of Str s \<Rightarrow> Ok s | _ \<Rightarrow> Err (bug ''expected string''))
      | _ \<Rightarrow> Err (bug (''expected string, found '' @ value_debug v)))"

text \<open>The byte-wise order of two strings, and the built-in \<open>Ordering\<close> of a comparison.\<close>

fun str_less :: "string \<Rightarrow> string \<Rightarrow> bool" where
  "str_less (a # s) (b # t) =
     (byte_of_char a < byte_of_char b \<or> (a = b \<and> str_less s t))"
| "str_less [] (b # t) = True"
| "str_less s [] = False"

definition ordering_obj :: "bool \<Rightarrow> bool \<Rightarrow> obj" where
  "ordering_obj lt eq =
     Enum \<lparr>enum_ty = TY_ORDERING, enum_variant = (if lt then TAG_LESS else if eq then TAG_EQUAL else TAG_GREATER),
       enum_fields = []\<rparr>"

definition primitive_ordering :: "store \<Rightarrow> val \<Rightarrow> val \<Rightarrow> obj res" where
  "primitive_ordering st a b =
     (case (a, b) of
        (IntV x, IntV y) \<Rightarrow> Ok (ordering_obj (sint x < sint y) (x = y))
      | (Double x, Double y) \<Rightarrow> Ok (ordering_obj (f64_total_key x < f64_total_key y) (x = y))
      | (Bool x, Bool y) \<Rightarrow> Ok (ordering_obj (\<not> x \<and> y) (x = y))
      | (Ref _, Ref _) \<Rightarrow>
          rbind (str_contents st a) (\<lambda>s. rbind (str_contents st b) (\<lambda>t.
            Ok (ordering_obj (str_less s t) (s = t))))
      | _ \<Rightarrow> Err (bug (''call.virtual compare: no Ord impl for the receiver'' @ QUOTE # ''s type'')))"

text \<open>\<open>a == b\<close> on values. On live handles \<open>values_eq\<close> is without an answer only when the recursion does not end.\<close>

definition structural_eq :: "store \<Rightarrow> val \<Rightarrow> val \<Rightarrow> bool res" where
  "structural_eq st a b = ok_or Diverge (values_eq st a b)"

fun emap :: "('a \<Rightarrow> ('e, 'b) exec) \<Rightarrow> 'a list \<Rightarrow> ('e, 'b list) exec" where
  "emap f [] = eret []"
| "emap f (x # xs) = ebind (f x) (\<lambda>y. ebind (emap f xs) (\<lambda>ys. eret (y # ys)))"

definition variant_name :: "module \<Rightarrow> enumobj \<Rightarrow> string" where
  "variant_name m e =
     (case Option.bind (enum_def m (enum_ty e)) (\<lambda>d. get_nth (variants d) (unat (enum_variant e))) of
        Some s \<Rightarrow> s
      | None \<Rightarrow>
          if enum_ty e = TY_RESULT then (if enum_variant e = TAG_OK then ''Ok'' else ''Err'')
          else if enum_ty e = TY_OPTION then (if enum_variant e = TAG_SOME then ''Some'' else ''None'')
          else ''variant'' @ nat_digits (unat (enum_variant e)))"

text \<open>The structural rendering of an object, given the rendering of its children.\<close>

definition debug_obj :: "module \<Rightarrow> (val \<Rightarrow> ('e, string) exec) \<Rightarrow> obj \<Rightarrow> ('e, string) exec" where
  "debug_obj m dbg obj =
     (case obj of
        Str s \<Rightarrow> eret (quote_str s)
      | Bytes b \<Rightarrow> eret (''Bytes['' @ hex_join b @ '']'')
      | BytesBuilder b \<Rightarrow> eret (''BytesBuilder['' @ hex_join b @ '']'')
      | List items \<Rightarrow> ebind (emap dbg items) (\<lambda>ps. eret (''['' @ join_with '', '' ps @ '']''))
      | Map mp \<Rightarrow>
          if entries mp = [] then eret ''[:]''
          else ebind (emap (\<lambda>(k, x). ebind (dbg k) (\<lambda>ks. ebind (dbg x) (\<lambda>vs. eret (ks @ '': '' @ vs)))) (entries mp))
                 (\<lambda>ps. eret (''['' @ join_with '', '' ps @ '']''))
      | Struct ty fs \<Rightarrow>
          (let def = get_nth (types m) (unat ty);
               name = (case def of None \<Rightarrow> ''<struct>'' | Some t \<Rightarrow> type_name t)
           in if fs = [] then eret (name @ '' {}'')
              else case def of
                     Some t \<Rightarrow>
                       if length (field_names t) = length fs
                       then ebind (emap (\<lambda>(n, x). ebind (dbg x) (\<lambda>d. eret (n @ '': '' @ d))) (zip (field_names t) fs))
                              (\<lambda>ps. eret (name @ '' { '' @ join_with '', '' ps @ '' }''))
                       else ebind (emap dbg fs) (\<lambda>ps. eret (name @ '' { '' @ join_with '', '' ps @ '' }''))
                   | None \<Rightarrow> ebind (emap dbg fs) (\<lambda>ps. eret (name @ '' { '' @ join_with '', '' ps @ '' }'')))
      | Enum e \<Rightarrow>
          if enum_fields e = [] then eret (variant_name m e)
          else ebind (emap dbg (enum_fields e)) (\<lambda>ps. eret (variant_name m e @ ''('' @ join_with '', '' ps @ '')''))
      | Closure _ _ \<Rightarrow> eret ''<fn>'')"

text \<open>\<open>callf\<close> is \<open>Vm::call\<close>, which an explicit \<open>debug\<close> implementation is reached through. The recursion follows
  the object graph, so a cyclic value has no rendering.\<close>

fun debug_value :: "(usize \<Rightarrow> val list \<Rightarrow> ('e, val) exec) \<Rightarrow> 'e cfg \<Rightarrow> nat \<Rightarrow> val \<Rightarrow> ('e, string) exec" where
  "debug_value callf c 0 v = elift (Err Diverge)"
| "debug_value callf c (Suc n) v =
     ebind (\<lambda>s. (dispatch_type_id (slots_of s) v, s)) (\<lambda>ty.
     case Option.bind ty (\<lambda>ty. dispatch_target (prog c) ty ''debug'') of
       Some func \<Rightarrow>
         ebind (callf (unat func) [v]) (\<lambda>ret s.
           (case ret of
              Ref h \<Rightarrow> rbind (or_panic (lookup (slots_of s) h)) (\<lambda>obj.
                case obj of Str t \<Rightarrow> Ok t | _ \<Rightarrow> Err (bug ''debug impl did not return a String''))
            | _ \<Rightarrow> Err (bug ''debug impl did not return a String''), s))
     | None \<Rightarrow>
         (case v of
            IntV n \<Rightarrow> eret (int_digits (sint n))
          | Double x \<Rightarrow> eret (format_double x)
          | Bool b \<Rightarrow> eret (bool_string b)
          | Unit \<Rightarrow> eret ''()''
          | Ref h \<Rightarrow> ebind (\<lambda>s. (or_panic (lookup (slots_of s) h), s)) (debug_obj (prog c) (debug_value callf c n))))"

text \<open>The \<open>GcPause\<close> guard: paused on entry, resumed on every way out.\<close>

definition with_gc_paused :: "('e, 'a) exec \<Rightarrow> ('e, 'a) exec" where
  "with_gc_paused m s =
     (let (r, s') = m (s\<lparr>world := (world s)\<lparr>mem := pause_gc (mem (world s))\<rparr>\<rparr>)
      in (r, s'\<lparr>world := (world s')\<lparr>mem := resume_gc (mem (world s'))\<rparr>\<rparr>))"

definition virtual_fallback :: "(usize \<Rightarrow> val list \<Rightarrow> ('e, val) exec) \<Rightarrow> 'e cfg \<Rightarrow> nat \<Rightarrow> string
    \<Rightarrow> val list \<Rightarrow> ('e, val) exec" where
  "virtual_fallback callf c n sel args =
     with_gc_paused
       (ebind (elift (or_panic (get_nth args 0))) (\<lambda>recv.
        if sel = ''to_string'' then
          ebind (\<lambda>s. (has_builtin_display (slots_of s) recv, s)) (\<lambda>builtin.
          ebind (if builtin then \<lambda>s. (display_string (slots_of s) recv, s) else debug_value callf c n recv) (\<lambda>t.
          new_obj c (Str t)))
        else if sel = ''debug'' then ebind (debug_value callf c n recv) (\<lambda>t. new_obj c (Str t))
        else if sel = ''eq'' then
          (case args of
             [a, b] \<Rightarrow> (\<lambda>s. (rbind (structural_eq (slots_of s) a b) (\<lambda>r. Ok (Bool r)), s))
           | _ \<Rightarrow> elift (Err (bug ''call.virtual eq: expected 2 args'')))
        else if sel = ''compare'' then
          (case args of
             [a, b] \<Rightarrow> ebind (\<lambda>s. (primitive_ordering (slots_of s) a b, s)) (new_obj c)
           | _ \<Rightarrow> elift (Err (bug ''call.virtual compare: expected 2 args'')))
        else elift (Err (bug (''call.virtual: no impl of '' @ QUOTE # sel @ QUOTE # '' for the receiver'' @ QUOTE # ''s type'')))))"

section \<open>The loop\<close>

definition step :: "'e cfg \<Rightarrow> (string \<Rightarrow> val list \<Rightarrow> ('e, val) exec) \<Rightarrow> usize \<Rightarrow> frame \<Rightarrow> ('e, 'e flow) exec" where
  "step c fallback base_depth cur =
     ebind (elift (rbind (or_panic (get_nth (mod_functions (prog c)) (frame_func cur))) (\<lambda>f.
              ok_or (bug ''pc ran off the end of the instruction stream'') (get_nth (code f) (pc cur))))) (\<lambda>i.
     let fr = cur\<lparr>pc := pc cur + 1\<rparr>;
         next = (\<lambda>m. ebind m (\<lambda>_ :: unit. eret (Cont fr)))
     in case exec_operator (prog c) i of
          Some f \<Rightarrow> next (on_stack f)
        | None \<Rightarrow>
            (case i of
               ConstStr str \<Rightarrow> next (const_str c str)
             | Load slot \<Rightarrow> next (load_slot fr slot)
             | Store slot \<Rightarrow> next (store_slot fr slot)
             | GlobalGet idx \<Rightarrow> next (get_global idx)
             | GlobalSet idx \<Rightarrow> next (set_global idx)
             | Call func argc \<Rightarrow> exec_call c fr func argc
             | CallNative native argc \<Rightarrow> exec_call_native c fr native argc
             | CallIndirect argc \<Rightarrow> exec_call_indirect c fr argc
             | CallVirtual sel argc \<Rightarrow> exec_call_virtual c fallback fr sel argc
             | EnumNew ty tag n \<Rightarrow> next (enum_new c ty tag n)
             | StructNew ty \<Rightarrow> next (struct_new c ty)
             | FieldSet idx \<Rightarrow> next (field_set c idx)
             | ListNew n \<Rightarrow> next (list_new c n)
             | ListSet \<Rightarrow> next (list_set c)
             | ClosureNew func n \<Rightarrow> next (closure_new c func n)
             | Jump target \<Rightarrow> jump_to c fr target
             | JumpIfTrue target \<Rightarrow> jump_if c True fr target
             | JumpIfFalse target \<Rightarrow> jump_if c False fr target
             | Return \<Rightarrow> exec_return c base_depth fr
             | _ \<Rightarrow> elift (Err Panic)))"

text \<open>\<open>Vm::call\<close>: run one function to completion inside the loop; a park is not allowed there.\<close>

definition call :: "(usize \<Rightarrow> frame \<Rightarrow> ('e, 'e outcome) exec) \<Rightarrow> 'e cfg \<Rightarrow> usize \<Rightarrow> val list \<Rightarrow> ('e, val) exec" where
  "call loop c func args =
     ebind (on_stack (\<lambda>st. push_frame (prog c) func args)) (\<lambda>fr s.
       ebind (loop (length (frames s)) fr) (\<lambda>oc.
         elift (case oc of
                  Finished v \<Rightarrow> Ok v
                | Parked _ \<Rightarrow> Err (bug ''fiber parked in a non-schedulable context''))) s)"

fun run_loop :: "'e cfg \<Rightarrow> nat \<Rightarrow> usize \<Rightarrow> frame \<Rightarrow> ('e, 'e outcome) exec" where
  "run_loop c 0 base_depth fr = elift (Err Diverge)"
| "run_loop c (Suc n) base_depth fr =
     ebind (step c (virtual_fallback (call (run_loop c n) c) c n) base_depth fr) (\<lambda>fl.
       case fl of
         Cont fr' \<Rightarrow> run_loop c n base_depth fr'
       | Exit oc \<Rightarrow> eret oc)"

end
