(* ===== verification/InterpSafe.thy ===== *)
theory InterpSafe
  imports Interp SchedInv
begin

text \<open>
  Memory safety of the interpreter: from a state in which every value on the fiber's stack,
  in the scheduler and in the heap is live, no instruction meets a dangling handle or an
  index out of range, across collections, calls and the re-entrant fallbacks. \<open>safe\<close> is the
  triple the proofs compose; the only resource assumption is that no more than \<open>2\<^sup>3\<^sup>2\<close>
  slots were ever issued, which is what a handle can name.
\<close>

section \<open>The invariant\<close>

abbreviation vals_ok :: "store \<Rightarrow> val list \<Rightarrow> bool" where
  "vals_ok st \<equiv> list_all (valid_val st)"

definition world_ok :: "'e world \<Rightarrow> bool" where
  "world_ok w \<longleftrightarrow>
     heap_ok (mem w) \<and> vals_ok (rt_slots (mem w)) (gather_scheduler_roots (sched w)) \<and> sched_ok (sched w)"

definition frame_ok :: "'e cfg \<Rightarrow> frame \<Rightarrow> bool" where
  "frame_ok c fr \<longleftrightarrow> frame_func fr < length (mod_functions (prog c))"

definition vm_ok :: "'e cfg \<Rightarrow> 'e vm \<Rightarrow> bool" where
  "vm_ok c s \<longleftrightarrow> world_ok (world s) \<and> vals_ok (slots_of s) (vstack s) \<and> (\<forall>fr\<in>set (frames s). frame_ok c fr)"

definition slots_fit :: "'e world \<Rightarrow> bool" where
  "slots_fit w \<longleftrightarrow> length (rt_slots (mem w)) \<le> 2 ^ 32"

definition paused :: "'e vm \<Rightarrow> bool" where
  "paused s \<longleftrightarrow> 0 < gc_paused (mem (world s))"

text \<open>While collection is paused every live handle stays live.\<close>

definition mem_rel :: "'e vm \<Rightarrow> 'e vm \<Rightarrow> bool" where
  "mem_rel s s' \<longleftrightarrow>
     gc_paused (mem (world s')) = gc_paused (mem (world s)) \<and> (paused s \<longrightarrow> store_le (slots_of s) (slots_of s'))"

lemma mem_rel_refl [simp]: "mem_rel s s" by (simp add: mem_rel_def)

lemma mem_rel_trans: "mem_rel a b \<Longrightarrow> mem_rel b c \<Longrightarrow> mem_rel a c"
  by (auto simp: mem_rel_def paused_def intro: store_le_trans)

definition safe :: "'e cfg \<Rightarrow> ('e vm \<Rightarrow> bool) \<Rightarrow> ('e, 'a) exec \<Rightarrow> ('a \<Rightarrow> 'e vm \<Rightarrow> bool) \<Rightarrow> bool" where
  "safe c P m Q \<longleftrightarrow>
     (\<forall>s r s'. m s = (r, s') \<longrightarrow>
        length (slots_of s) \<le> length (slots_of s') \<and>
        (vm_ok c s \<and> P s \<and> slots_fit (world s') \<longrightarrow>
           mem_rel s s' \<and> r \<noteq> Err Panic \<and> (\<forall>x. r = Ok x \<longrightarrow> vm_ok c s' \<and> Q x s')))"

lemma safeI:
  assumes "\<And>s r s'. m s = (r, s') \<Longrightarrow> length (slots_of s) \<le> length (slots_of s')"
    and "\<And>s r s'. m s = (r, s') \<Longrightarrow> vm_ok c s \<Longrightarrow> P s \<Longrightarrow> slots_fit (world s') \<Longrightarrow>
      mem_rel s s' \<and> r \<noteq> Err Panic \<and> (\<forall>x. r = Ok x \<longrightarrow> vm_ok c s' \<and> Q x s')"
  shows "safe c P m Q"
  using assms unfolding safe_def by blast

lemma safeD:
  assumes "safe c P m Q" "m s = (r, s')"
  shows "length (slots_of s) \<le> length (slots_of s')"
    and "vm_ok c s \<Longrightarrow> P s \<Longrightarrow> slots_fit (world s') \<Longrightarrow>
      mem_rel s s' \<and> r \<noteq> Err Panic \<and> (\<forall>x. r = Ok x \<longrightarrow> vm_ok c s' \<and> Q x s')"
  using assms unfolding safe_def by blast+

lemma slots_fit_mono:
  "length (slots_of s) \<le> length (slots_of s') \<Longrightarrow> slots_fit (world s') \<Longrightarrow> slots_fit (world s)"
  by (simp add: slots_fit_def)

lemma safe_conseq:
  assumes "safe c P m Q" "\<And>s. vm_ok c s \<Longrightarrow> P' s \<Longrightarrow> P s" "\<And>x s. vm_ok c s \<Longrightarrow> Q x s \<Longrightarrow> Q' x s"
  shows "safe c P' m Q'"
proof (rule safeI)
  fix s r s' assume m: "m s = (r, s')"
  show "length (slots_of s) \<le> length (slots_of s')" by (rule safeD(1) [OF assms(1) m])
  assume "vm_ok c s" "P' s" "slots_fit (world s')"
  then have *: "mem_rel s s' \<and> r \<noteq> Err Panic \<and> (\<forall>x. r = Ok x \<longrightarrow> vm_ok c s' \<and> Q x s')"
    using assms(2) safeD(2) [OF assms(1) m] by blast
  then show "mem_rel s s' \<and> r \<noteq> Err Panic \<and> (\<forall>x. r = Ok x \<longrightarrow> vm_ok c s' \<and> Q' x s')"
    using assms(3) by blast
qed

lemma safe_bind:
  assumes m: "safe c P m Q" and f: "\<And>x. safe c (Q x) (f x) R"
  shows "safe c P (ebind m f) R"
proof (rule safeI)
  fix s r s' assume run: "ebind m f s = (r, s')"
  obtain r1 s1 where m1: "m s = (r1, s1)" by fastforce
  note len1 = safeD(1) [OF m m1] and ok1 = safeD(2) [OF m m1]
  show "length (slots_of s) \<le> length (slots_of s')"
  proof (cases r1)
    case (Inl e)
    then show ?thesis using run m1 len1 by (simp add: ebind_def)
  next
    case (Inr x)
    then have "f x s1 = (r, s')" using run m1 by (simp add: ebind_def)
    then show ?thesis using safeD(1) [OF f] len1 by (meson order_trans)
  qed
  assume s: "vm_ok c s" "P s" "slots_fit (world s')"
  show "mem_rel s s' \<and> r \<noteq> Err Panic \<and> (\<forall>x. r = Ok x \<longrightarrow> vm_ok c s' \<and> R x s')"
  proof (cases r1)
    case (Inl e)
    then show ?thesis using run m1 ok1 s by (auto simp: ebind_def)
  next
    case (Inr x)
    then have f1: "f x s1 = (r, s')" using run m1 by (simp add: ebind_def)
    have "slots_fit (world s1)" using slots_fit_mono [OF safeD(1) [OF f f1] s(3)] .
    then have 1: "mem_rel s s1" "vm_ok c s1" "Q x s1" using ok1 s Inr by simp_all
    then show ?thesis using safeD(2) [OF f f1 1(2,3) s(3)] mem_rel_trans by blast
  qed
qed

lemma safe_ret: "(\<And>s. vm_ok c s \<Longrightarrow> P s \<Longrightarrow> Q x s) \<Longrightarrow> safe c P (eret x) Q"
  by (auto simp: safe_def eret_def)

lemma safe_lift: "r \<noteq> Err Panic \<Longrightarrow> (\<And>x s. r = Ok x \<Longrightarrow> P s \<Longrightarrow> Q x s) \<Longrightarrow> safe c P (elift r) Q"
  by (auto simp: safe_def elift_def)

text \<open>Values held outside the stacks survive while collection is paused.\<close>

definition holds :: "val list \<Rightarrow> 'e vm \<Rightarrow> bool" where
  "holds vs s \<longleftrightarrow> paused s \<and> vals_ok (slots_of s) vs"

lemma holds_mem_rel: "mem_rel s s' \<Longrightarrow> holds vs s \<Longrightarrow> holds vs s'"
  by (auto simp: holds_def mem_rel_def paused_def intro: valid_vals_mono)

lemma safe_frame:
  assumes "safe c P m Q"
  shows "safe c (\<lambda>s. P s \<and> holds vs s) m (\<lambda>x s. Q x s \<and> holds vs s)"
proof (rule safeI)
  fix s r s' assume m: "m s = (r, s')"
  show "length (slots_of s) \<le> length (slots_of s')" by (rule safeD(1) [OF assms m])
  assume s: "vm_ok c s" "P s \<and> holds vs s" "slots_fit (world s')"
  then have *: "mem_rel s s' \<and> r \<noteq> Err Panic \<and> (\<forall>x. r = Ok x \<longrightarrow> vm_ok c s' \<and> Q x s')"
    using safeD(2) [OF assms m] by blast
  then show "mem_rel s s' \<and> r \<noteq> Err Panic \<and> (\<forall>x. r = Ok x \<longrightarrow> vm_ok c s' \<and> Q x s' \<and> holds vs s')"
    using s(2) holds_mem_rel by blast
qed

section \<open>The value stack\<close>

definition safe_res :: "('a \<Rightarrow> bool) \<Rightarrow> 'a res \<Rightarrow> bool" where
  "safe_res Q r = (case r of Inl e \<Rightarrow> e \<noteq> Panic | Inr x \<Rightarrow> Q x)"

lemma safe_res_simps [simp]:
  "safe_res Q (Inl e) = (e \<noteq> Panic)" "safe_res Q (Inr x) = Q x"
  by (simp_all add: safe_res_def)

lemma safe_res_bind:
  "safe_res Q r \<Longrightarrow> (\<And>x. Q x \<Longrightarrow> safe_res Q' (g x)) \<Longrightarrow> safe_res Q' (rbind r g)"
  by (cases r) simp_all

lemma safe_res_weaken: "safe_res Q r \<Longrightarrow> (\<And>x. Q x \<Longrightarrow> Q' x) \<Longrightarrow> safe_res Q' r"
  by (cases r) simp_all

lemma bug_not_Panic [simp]: "bug msg \<noteq> Panic"
  by (simp add: bug_def)

lemma safe_res_ok_or: "e \<noteq> Panic \<Longrightarrow> (\<And>v. x = Some v \<Longrightarrow> Q v) \<Longrightarrow> safe_res Q (ok_or e x)"
  by (cases x) simp_all

text \<open>A stack computation on live values ends in live values or a trap.\<close>

abbreviation stack_post :: "store \<Rightarrow> (store \<Rightarrow> 'a \<Rightarrow> bool) \<Rightarrow> 'a \<times> val list \<Rightarrow> bool" where
  "stack_post st R \<equiv> \<lambda>(x, vs). vals_ok st vs \<and> R st x"

definition stack_safe :: "(store \<Rightarrow> val list \<Rightarrow> ('a \<times> val list) res) \<Rightarrow> (store \<Rightarrow> 'a \<Rightarrow> bool) \<Rightarrow> bool" where
  "stack_safe f R \<longleftrightarrow>
     (\<forall>st vs. store_closed st \<longrightarrow> vals_ok st vs \<longrightarrow> safe_res (stack_post st R) (f st vs))"

lemma stack_safeI:
  "(\<And>st vs. store_closed st \<Longrightarrow> vals_ok st vs \<Longrightarrow> safe_res (stack_post st R) (f st vs)) \<Longrightarrow> stack_safe f R"
  by (simp add: stack_safe_def)

lemma stack_safeD:
  assumes "stack_safe f R" "store_closed st" "vals_ok st vs"
  shows "f st vs \<noteq> Err Panic" "f st vs = Ok (x, vs') \<Longrightarrow> vals_ok st vs' \<and> R st x"
  using assms unfolding stack_safe_def safe_res_def by (auto split: sum.splits)

lemma vm_ok_closed: "vm_ok c s \<Longrightarrow> store_closed (slots_of s)"
  by (simp add: vm_ok_def world_ok_def heap_ok_def)

lemma safe_on_stack:
  fixes c :: "'e cfg"
  assumes "stack_safe f R"
  shows "safe c (\<lambda>_. True) (on_stack f) (\<lambda>x s. R (slots_of s) x)"
proof (rule safeI)
  fix s :: "'e vm" and r s' assume m: "on_stack f s = (r, s')"
  then show "length (slots_of s) \<le> length (slots_of s')"
    by (auto simp: on_stack_def split: sum.splits prod.splits)
  assume s: "vm_ok c s"
  then have vs: "vals_ok (slots_of s) (vstack s)" by (simp add: vm_ok_def)
  note f = stack_safeD [OF assms vm_ok_closed [OF s] vs]
  show "mem_rel s s' \<and> r \<noteq> Err Panic \<and> (\<forall>x. r = Ok x \<longrightarrow> vm_ok c s' \<and> R (slots_of s') x)"
  proof (cases "f (slots_of s) (vstack s)")
    case (Inl e)
    then show ?thesis using m f(1) by (auto simp: on_stack_def)
  next
    case (Inr p)
    obtain x vs' where p: "p = (x, vs')" by (cases p)
    then have "vals_ok (slots_of s) vs' \<and> R (slots_of s) x" using f(2) Inr by simp
    then show ?thesis using m Inr p s by (auto simp: on_stack_def vm_ok_def mem_rel_def)
  qed
qed

abbreviation any :: "store \<Rightarrow> 'a \<Rightarrow> bool" where
  "any \<equiv> \<lambda>_ _. True"

lemma pop_safe: "vals_ok st vs \<Longrightarrow> safe_res (stack_post st valid_val) (pop vs)"
  by (cases vs rule: rev_cases) (auto simp: pop_def)

lemma value_type_name_safe: "valid_val st v \<Longrightarrow> safe_res (\<lambda>_. True) (value_type_name st v m)"
  by (cases v) (auto simp: value_type_name_def)

lemma type_error_safe: "valid_val st v \<Longrightarrow> safe_res Q (type_error e v m st)"
  unfolding type_error_def by (rule safe_res_bind [OF value_type_name_safe]) simp_all

lemma pop_int_safe: "vals_ok st vs \<Longrightarrow> safe_res (stack_post st any) (pop_int m st vs)"
  unfolding pop_int_def
  by (rule safe_res_bind [OF pop_safe]) (auto simp: type_error_safe split: "val.splits")

lemma pop_double_safe: "vals_ok st vs \<Longrightarrow> safe_res (stack_post st any) (pop_double m st vs)"
  unfolding pop_double_def
  by (rule safe_res_bind [OF pop_safe]) (auto simp: type_error_safe split: "val.splits")

lemma pop_bool_safe: "vals_ok st vs \<Longrightarrow> safe_res (stack_post st any) (pop_bool m st vs)"
  unfolding pop_bool_def
  by (rule safe_res_bind [OF pop_safe]) (auto simp: type_error_safe split: "val.splits")

lemma pop_two_int_safe: "vals_ok st vs \<Longrightarrow> safe_res (stack_post st any) (pop_two_int m st vs)"
  unfolding pop_two_int_def
  by (rule safe_res_bind [OF pop_int_safe]) (auto intro: safe_res_bind [OF pop_int_safe])

lemma pop_two_double_safe: "vals_ok st vs \<Longrightarrow> safe_res (stack_post st any) (pop_two_double m st vs)"
  unfolding pop_two_double_def
  by (rule safe_res_bind [OF pop_double_safe]) (auto intro: safe_res_bind [OF pop_double_safe])

lemma read_obj_safe:
  assumes "valid_val st v" "\<And>h obj r. v = Ref h \<Longrightarrow> lookup st h = Some obj \<Longrightarrow> f obj = Some r \<Longrightarrow> safe_res Q r"
  shows "safe_res Q (read_obj e m f st v)"
proof (cases v)
  case (Ref h)
  then obtain obj where "lookup st h = Some obj" using assms(1) by auto
  then show ?thesis using assms(2) [OF Ref] Ref by (auto simp: read_obj_def split: option.splits)
qed (auto simp: read_obj_def value_type_name_def)

lemma checked_list_index_safe: "safe_res (\<lambda>k. k < n) (checked_list_index i n)"
  by (simp add: checked_list_index_def)

lemma child_valid:
  "store_closed st \<Longrightarrow> lookup st h = Some obj \<Longrightarrow> vals_ok st (child_values obj)"
  using store_closedD by (fastforce simp: list_all_iff)

lemma nth_valid: "vals_ok st vs \<Longrightarrow> k < length vs \<Longrightarrow> valid_val st (vs ! k)"
  by (simp add: list_all_length)

lemma enum_field_safe: "store_closed st \<Longrightarrow> valid_val st v \<Longrightarrow> safe_res (valid_val st) (enum_field m idx st v)"
  unfolding enum_field_def
  by (rule read_obj_safe) (auto split: obj.splits intro!: safe_res_ok_or
      dest!: child_valid simp: get_nth_Some nth_valid)

lemma struct_field_safe: "store_closed st \<Longrightarrow> valid_val st v \<Longrightarrow> safe_res (valid_val st) (struct_field m idx st v)"
  unfolding struct_field_def
  by (rule read_obj_safe) (auto split: obj.splits intro!: safe_res_ok_or
      dest!: child_valid simp: get_nth_Some nth_valid)

lemma pop_enum_variant_safe: "vals_ok st vs \<Longrightarrow> safe_res (stack_post st any) (pop_enum_variant m st vs)"
  unfolding pop_enum_variant_def
  by (rule safe_res_bind [OF pop_safe])
    (auto intro!: safe_res_bind [where Q = "\<lambda>_. True"] read_obj_safe split: obj.splits)

lemma closure_parts_safe:
  "store_closed st \<Longrightarrow> valid_val st v \<Longrightarrow> safe_res (\<lambda>(f, cs). vals_ok st cs) (closure_parts m st v)"
  unfolding closure_parts_def
  by (rule read_obj_safe) (auto split: obj.splits dest!: child_valid)

section \<open>Operators\<close>

lemma int_binop_safe: "int_binop i = Some f \<Longrightarrow> safe_res (\<lambda>_. True) (f a b)"
  by (auto simp: int_binop_def split: instr.splits)

lemma int_unop_value: "int_unop i = Some f \<Longrightarrow> valid_val st (f a)"
  by (auto simp: int_unop_def split: instr.splits)

lemma double_unop_value: "double_unop i = Some f \<Longrightarrow> valid_val st (f a)"
  by (auto simp: double_unop_def split: instr.splits)

lemma cmp_int_safe: "stack_safe (cmp_int m f) any"
  by (rule stack_safeI) (auto simp: cmp_int_def intro!: safe_res_bind [OF pop_two_int_safe])

lemma cmp_double_safe: "stack_safe (cmp_double m f) any"
  by (rule stack_safeI) (auto simp: cmp_double_def intro!: safe_res_bind [OF pop_two_double_safe])

lemma last_valid: "vals_ok st vs \<Longrightarrow> vs \<noteq> [] \<Longrightarrow> valid_val st (last vs)"
  by (simp add: list_all_iff)

lemma list_elem_safe:
  "store_closed st \<Longrightarrow> valid_val st v \<Longrightarrow>
     safe_res (valid_val st) (read_obj e m
       (\<lambda>obj. case obj of
          List items \<Rightarrow> Some (rbind (checked_list_index idx (length items)) (\<lambda>k. Ok (items ! k))) | _ \<Rightarrow> None) st v)"
  by (rule read_obj_safe)
    (auto split: obj.splits intro!: safe_res_bind [OF checked_list_index_safe] dest!: child_valid simp: nth_valid)

lemma list_len_safe:
  "valid_val st v \<Longrightarrow> safe_res (\<lambda>_. True) (read_obj e m
     (\<lambda>obj. case obj of List items \<Rightarrow> Some (Ok (word_of_nat (length items) :: i64)) | _ \<Rightarrow> None) st v)"
  by (rule read_obj_safe) (auto split: obj.splits)

lemma exec_operator_safe:
  assumes "exec_operator m i = Some f"
  shows "stack_safe f any"
proof -
  consider g where "int_binop i = Some g" | g where "int_unop i = Some g" | g where "double_binop i = Some g"
    | g where "double_unop i = Some g" | g where "int_cmp i = Some g" | g where "double_cmp i = Some g"
    | "int_binop i = None" "int_unop i = None" "double_binop i = None" "double_unop i = None" "int_cmp i = None"
      "double_cmp i = None" by (meson not_None_eq)
  then show ?thesis
  proof cases
    case (1 g)
    then have "f = (\<lambda>st vs. rbind (pop_two_int m st vs) (\<lambda>((a, b), vs). rbind (g a b) (\<lambda>r. Ok ((), vs @ [IntV r]))))"
      using assms by (simp add: exec_operator_def)
    then show ?thesis
      by (auto intro!: stack_safeI safe_res_bind [OF pop_two_int_safe] safe_res_bind [OF int_binop_safe [OF 1]])
  next
    case (2 g)
    then have "f = (\<lambda>st vs. rbind (pop_int m st vs) (\<lambda>(a, vs). Ok ((), vs @ [g a])))" "int_binop i = None"
      using assms by (auto simp: exec_operator_def int_binop_def int_unop_def split: instr.splits)
    then show ?thesis using int_unop_value [OF 2] by (auto intro!: stack_safeI safe_res_bind [OF pop_int_safe])
  next
    case (3 g)
    then have "f = (\<lambda>st vs. rbind (pop_two_double m st vs) (\<lambda>((a, b), vs). Ok ((), vs @ [Double (g a b)])))"
      using assms by (auto simp: exec_operator_def int_binop_def int_unop_def double_binop_def split: instr.splits)
    then show ?thesis by (auto intro!: stack_safeI safe_res_bind [OF pop_two_double_safe])
  next
    case (4 g)
    then have "f = (\<lambda>st vs. rbind (pop_double m st vs) (\<lambda>(a, vs). Ok ((), vs @ [g a])))"
      using assms
      by (auto simp: exec_operator_def int_binop_def int_unop_def double_binop_def double_unop_def split: instr.splits)
    then show ?thesis using double_unop_value [OF 4] by (auto intro!: stack_safeI safe_res_bind [OF pop_double_safe])
  next
    case (5 g)
    then have "f = cmp_int m g"
      using assms
      by (auto simp: exec_operator_def int_binop_def int_unop_def double_binop_def double_unop_def int_cmp_def
          split: instr.splits)
    then show ?thesis using cmp_int_safe by simp
  next
    case (6 g)
    then have "f = cmp_double m g"
      using assms
      by (auto simp: exec_operator_def int_binop_def int_unop_def double_binop_def double_unop_def int_cmp_def
          double_cmp_def split: instr.splits)
    then show ?thesis using cmp_double_safe by simp
  next
    case 7
    then have rest: "(case i of
        ConstInt n \<Rightarrow> True | ConstDouble x \<Rightarrow> True | ConstBool b \<Rightarrow> True | ConstUnit \<Rightarrow> True | NotBool \<Rightarrow> True
      | Pop \<Rightarrow> True | Dup \<Rightarrow> True | EnumTag \<Rightarrow> True | EnumGet idx \<Rightarrow> True | FieldGet idx \<Rightarrow> True | ListGet \<Rightarrow> True
      | ListLen \<Rightarrow> True | _ \<Rightarrow> False)"
      using assms by (auto simp: exec_operator_def split: instr.splits)
    show ?thesis
    proof (cases i)
      case Pop
      then show ?thesis using assms 7
        by (auto simp: exec_operator_def intro!: stack_safeI safe_res_bind [OF pop_safe])
    next
      case Dup
      then show ?thesis using assms 7 by (auto simp: exec_operator_def last_valid intro!: stack_safeI)
    next
      case EnumTag
      then show ?thesis using assms 7
        by (auto simp: exec_operator_def intro!: stack_safeI safe_res_bind [OF pop_enum_variant_safe])
    next
      case (EnumGet idx)
      then show ?thesis using assms 7
        by (auto simp: exec_operator_def
            intro!: stack_safeI safe_res_bind [OF pop_safe] safe_res_bind [OF enum_field_safe])
    next
      case (FieldGet idx)
      then show ?thesis using assms 7
        by (auto simp: exec_operator_def
            intro!: stack_safeI safe_res_bind [OF pop_safe] safe_res_bind [OF struct_field_safe])
    next
      case ListGet
      then show ?thesis using assms 7
        by (auto simp: exec_operator_def intro!: stack_safeI safe_res_bind [OF pop_int_safe]
            safe_res_bind [OF pop_safe] safe_res_bind [OF list_elem_safe])
    next
      case ListLen
      then show ?thesis using assms 7
        by (auto simp: exec_operator_def intro!: stack_safeI safe_res_bind [OF pop_safe]
            safe_res_bind [OF list_len_safe])
    next
      case NotBool
      then show ?thesis using assms 7
        by (auto simp: exec_operator_def intro!: stack_safeI safe_res_bind [OF pop_bool_safe])
    qed (use assms 7 rest in \<open>auto simp: exec_operator_def intro!: stack_safeI\<close>)
  qed
qed

end
