(* ===== verification/LoopSafe.thy ===== *)
theory LoopSafe
  imports InterpSafe
begin

text \<open>
  Memory safety of the whole instruction loop: safepoints, allocation, in-place updates,
  calls, natives that keep the contract \<open>native_safe\<close>, the re-entrant fallbacks and
  \<open>run_loop\<close> itself.
\<close>

section \<open>Safepoints\<close>

lemma vals_ok_append [simp]: "vals_ok st (xs @ ys) \<longleftrightarrow> vals_ok st xs \<and> vals_ok st ys"
  by (rule list_all_append)

lemma poll_gc_length: "poll_gc c s = (r, s') \<Longrightarrow> length (slots_of s') = length (slots_of s)"
  by (auto simp: poll_gc_def Let_def dest!: collect_length split: if_splits option.splits)

lemma poll_gc_safe:
  fixes c :: "'e cfg"
  shows "safe c (\<lambda>_. True) (poll_gc c) (\<lambda>_ _. True)"
proof (rule safeI)
  fix s :: "'e vm" and r s' assume run: "poll_gc c s = (r, s')"
  show "length (slots_of s) \<le> length (slots_of s')" using poll_gc_length [OF run] by simp
  assume ok: "vm_ok c s"
  show "mem_rel s s' \<and> r \<noteq> Err Panic \<and> (\<forall>x. r = Ok x \<longrightarrow> vm_ok c s' \<and> True)"
  proof (cases "should_collect (mem (world s))")
    case False
    then show ?thesis using run ok by (auto simp: poll_gc_def)
  next
    case True
    let ?roots = "vstack s @ gather_scheduler_roots (sched (world s))"
    have heap: "heap_ok (mem (world s))" and roots: "vals_ok (slots_of s) ?roots"
      using ok by (simp_all add: vm_ok_def world_ok_def)
    obtain m where m: "collect (lay c) ?roots (mem (world s)) = Some m" "heap_ok m"
      "vals_ok (rt_slots m) ?roots" "gc_paused m = gc_paused (mem (world s))"
      by (rule collect_correct [OF heap roots, of "lay c"]) blast
    have "vm_ok c (s\<lparr>world := (world s)\<lparr>mem := m\<rparr>\<rparr>)"
      using ok m by (simp add: vm_ok_def world_ok_def)
    moreover have "\<not> paused s" using True by (simp add: should_collect_def paused_def)
    ultimately show ?thesis
      using run True m by (auto simp: poll_gc_def Let_def mem_rel_def split: option.splits)
  qed
qed

lemma safe_poll: "safe c P m Q \<Longrightarrow> (\<And>s. P s) \<Longrightarrow> safe c (\<lambda>_. True) (ebind (poll_gc c) (\<lambda>_. m)) Q"
  by (rule safe_bind [OF poll_gc_safe]) (erule safe_conseq, simp_all)

section \<open>Allocation\<close>

lemma alloc_length:
  "alloc L obj s = (v, s') \<Longrightarrow>
     length (rt_slots s) \<le> length (rt_slots s') \<and> (length (rt_slots s') \<le> 2 ^ 32 \<longrightarrow> heap_ok s \<longrightarrow> room s)"
  by (auto simp: alloc_def Let_def room_def heap_ok_def split: if_splits)

lemma safe_on_mem:
  fixes c :: "'e cfg"
  assumes "\<And>m r m'. f m = (r, m') \<Longrightarrow> length (rt_slots m) \<le> length (rt_slots m')"
    and "\<And>s r m'. vm_ok c s \<Longrightarrow> P s \<Longrightarrow> f (mem (world s)) = (r, m') \<Longrightarrow> length (rt_slots m') \<le> 2 ^ 32 \<Longrightarrow>
      r \<noteq> Err Panic \<and> heap_ok m' \<and> store_le (slots_of s) (rt_slots m') \<and> gc_paused m' = gc_paused (mem (world s)) \<and>
      (\<forall>x. r = Ok x \<longrightarrow> Q x (s\<lparr>world := (world s)\<lparr>mem := m'\<rparr>\<rparr>))"
  shows "safe c P (on_mem f) Q"
proof (rule safeI)
  fix s :: "'e vm" and r s' assume run: "on_mem f s = (r, s')"
  obtain m' where m': "f (mem (world s)) = (r, m')" "s' = s\<lparr>world := (world s)\<lparr>mem := m'\<rparr>\<rparr>"
    using run by (auto simp: on_mem_def split: prod.splits)
  show "length (slots_of s) \<le> length (slots_of s')" using assms(1) [OF m'(1)] m'(2) by simp
  assume ok: "vm_ok c s" and P: "P s" and fit: "slots_fit (world s')"
  have len: "length (rt_slots m') \<le> 2 ^ 32" using fit m'(2) by (simp add: slots_fit_def)
  note post = assms(2) [OF ok P m'(1) len]
  have le: "store_le (slots_of s) (rt_slots m')" using post by blast
  have "vm_ok c s'"
    using ok post valid_vals_mono [OF le] m'(2) by (simp add: vm_ok_def world_ok_def)
  moreover have "mem_rel s s'" using post m'(2) by (simp add: mem_rel_def)
  ultimately show "mem_rel s s' \<and> r \<noteq> Err Panic \<and> (\<forall>x. r = Ok x \<longrightarrow> vm_ok c s' \<and> Q x s')"
    using post m'(2) by simp
qed

lemma new_obj_safe:
  fixes c :: "'e cfg"
  shows "safe c (\<lambda>s. vals_ok (slots_of s) (child_values obj)) (new_obj c obj) (\<lambda>v s. valid_val (slots_of s) v)"
  unfolding new_obj_def
proof (rule safe_on_mem)
  fix m m' :: rt and r :: "val res"
  assume "(let (v, m') = alloc (lay c) obj m in (Ok v, m')) = (r, m')"
  then show "length (rt_slots m) \<le> length (rt_slots m')"
    using alloc_length by (auto simp: Let_def split: prod.splits)
next
  fix s :: "'e vm" and r :: "val res" and m'
  assume ok: "vm_ok c s" and ch: "vals_ok (slots_of s) (child_values obj)"
    and run: "(let (v, m') = alloc (lay c) obj (mem (world s)) in (Ok v, m')) = (r, m')"
    and len: "length (rt_slots m') \<le> 2 ^ 32"
  have heap: "heap_ok (mem (world s))" using ok by (simp add: vm_ok_def world_ok_def)
  obtain v where v: "alloc (lay c) obj (mem (world s)) = (v, m')" "r = Ok v"
    using run by (auto simp: Let_def split: prod.splits)
  then have "room (mem (world s))" using alloc_length len heap by blast
  from heap_ok_alloc [OF heap this ch, of "lay c"] obtain h s1 where
    "alloc (lay c) obj (mem (world s)) = (Ref h, s1)" "heap_ok s1"
    "\<And>k. lookup (rt_slots s1) k = (if k = h then Some obj else lookup (slots_of s) k)"
    "gc_paused s1 = gc_paused (mem (world s))" "store_le (slots_of s) (rt_slots s1)" by metis
  then show "r \<noteq> Err Panic \<and> heap_ok m' \<and> store_le (slots_of s) (rt_slots m') \<and>
      gc_paused m' = gc_paused (mem (world s)) \<and>
      (\<forall>x. r = Ok x \<longrightarrow> valid_val (slots_of (s\<lparr>world := (world s)\<lparr>mem := m'\<rparr>\<rparr>)) x)"
    using v by auto
qed

lemma push_safe: "safe c (\<lambda>s. valid_val (slots_of s) v) (push v) (\<lambda>_ _. True)"
  by (rule safeI) (auto simp: push_def vm_ok_def mem_rel_def)

lemma safe_on_stack_frame:
  fixes c :: "'e cfg"
  assumes "stack_safe f R"
  shows "safe c (\<lambda>s. I (slots_of s)) (on_stack f) (\<lambda>x s. I (slots_of s) \<and> R (slots_of s) x)"
proof (rule safeI)
  fix s :: "'e vm" and r s' assume m: "on_stack f s = (r, s')"
  show "length (slots_of s) \<le> length (slots_of s')" by (rule safeD(1) [OF safe_on_stack [OF assms] m])
  have same: "slots_of s' = slots_of s" using m by (auto simp: on_stack_def split: sum.splits prod.splits)
  assume "vm_ok c s" "I (slots_of s)" "slots_fit (world s')"
  then show "mem_rel s s' \<and> r \<noteq> Err Panic \<and> (\<forall>x. r = Ok x \<longrightarrow> vm_ok c s' \<and> I (slots_of s') \<and> R (slots_of s') x)"
    using safeD(2) [OF safe_on_stack [OF assms] m] same by simp
qed

lemma split_top_safe: "stack_safe (\<lambda>st. split_top n msg) vals_ok"
proof (rule stack_safeI)
  fix st vs assume "vals_ok st vs"
  then have "vals_ok st (take k vs @ drop k vs)" for k by simp
  then show "safe_res (stack_post st vals_ok) (split_top n msg vs)"
    unfolding vals_ok_append by (auto simp: split_top_def)
qed

lemma make_obj_safe:
  assumes "\<And>items. child_values (mk items) = items"
  shows "safe c (\<lambda>_. True) (make_obj c n msg mk) (\<lambda>_ _. True)"
  unfolding make_obj_def
  by (rule safe_bind [OF safe_on_stack [OF split_top_safe]])
    (rule safe_bind [OF safe_conseq [OF new_obj_safe] push_safe], simp_all add: assms)

lemma enum_new_safe: "safe c (\<lambda>_. True) (enum_new c ty tag n) (\<lambda>_ _. True)"
  unfolding enum_new_def by (rule safe_poll [OF make_obj_safe]) simp_all

lemma list_new_safe: "safe c (\<lambda>_. True) (list_new c n) (\<lambda>_ _. True)"
  unfolding list_new_def by (rule safe_poll [OF make_obj_safe]) simp_all

lemma closure_new_safe: "safe c (\<lambda>_. True) (closure_new c func n) (\<lambda>_ _. True)"
  unfolding closure_new_def by (rule safe_poll [OF make_obj_safe]) simp_all

lemma struct_new_safe: "safe c (\<lambda>_. True) (struct_new c ty) (\<lambda>_ _. True)"
  unfolding struct_new_def
proof (rule safe_poll, rule safe_bind)
  show "safe c (\<lambda>_. True) (elift (ok_or (bug (''struct.new: no type at index '' @ nat_digits (unat ty)))
      (get_nth (types (prog c)) (unat ty)))) (\<lambda>_ _. True)"
    by (rule safe_lift) (simp_all add: ok_or_def split: option.split)
  show "safe c (\<lambda>_. True) (make_obj c (unat (field_count t)) ''struct.new: operand stack underflow'' (Struct ty)) (\<lambda>_ _. True)" for t
    by (rule make_obj_safe) simp
qed simp

lemma intern_valid: "heap_ok m \<Longrightarrow> map_of (intern m) str = Some v \<Longrightarrow> valid_val (rt_slots m) v"
  by (force simp: heap_ok_def perm_roots_def list_all_iff dest!: map_of_SomeD)

lemma const_str_safe:
  fixes c :: "'e cfg"
  shows "safe c (\<lambda>_. True) (const_str c str) (\<lambda>_ _. True)"
  unfolding const_str_def
proof (rule safe_poll, rule safe_bind [OF _ push_safe], rule safe_on_mem)
  fix m m' :: rt and r :: "val res"
  assume "(let (v, m') = intern_str (lay c) str m in (Ok v, m')) = (r, m')"
  then show "length (rt_slots m) \<le> length (rt_slots m')"
    using alloc_length by (auto simp: intern_str_def Let_def split: option.splits prod.splits)
next
  fix s :: "'e vm" and r :: "val res" and m'
  assume ok: "vm_ok c s" and run: "(let (v, m') = intern_str (lay c) str (mem (world s)) in (Ok v, m')) = (r, m')"
    and len: "length (rt_slots m') \<le> 2 ^ 32"
  have heap: "heap_ok (mem (world s))" using ok by (simp add: vm_ok_def world_ok_def)
  show "r \<noteq> Err Panic \<and> heap_ok m' \<and> store_le (slots_of s) (rt_slots m') \<and>
      gc_paused m' = gc_paused (mem (world s)) \<and>
      (\<forall>x. r = Ok x \<longrightarrow> valid_val (slots_of (s\<lparr>world := (world s)\<lparr>mem := m'\<rparr>\<rparr>)) x)"
  proof (cases "map_of (intern (mem (world s))) str")
    case (Some v)
    then show ?thesis using run heap intern_valid [OF heap Some] by (auto simp: intern_str_def)
  next
    case None
    obtain v m1 where v: "alloc (lay c) (Str str) (mem (world s)) = (v, m1)" by fastforce
    then have m': "r = Ok v" "m' = m1\<lparr>intern := (str, v) # intern m1\<rparr>"
      using run None by (auto simp: intern_str_def)
    have rm: "room (mem (world s))" using alloc_length [OF v] len heap m' by simp
    have "vals_ok (slots_of s) (child_values (Str str))" by simp
    from heap_ok_alloc [OF heap rm this, of "lay c"] obtain h s1 where
      "alloc (lay c) (Str str) (mem (world s)) = (Ref h, s1)" "heap_ok s1"
      "\<And>k. lookup (rt_slots s1) k = (if k = h then Some (Str str) else lookup (slots_of s) k)"
      "gc_paused s1 = gc_paused (mem (world s))" "store_le (slots_of s) (rt_slots s1)" by metis
    then have 1: "v = Ref h" "heap_ok m1" "lookup (rt_slots m1) h = Some (Str str)"
      "gc_paused m1 = gc_paused (mem (world s))" "store_le (slots_of s) (rt_slots m1)" using v by auto
    then have "heap_ok m'" using m' by (simp add: heap_ok_def perm_roots_def)
    then show ?thesis using 1 m' by simp
  qed
qed simp

section \<open>Locals, globals and in-place updates\<close>

lemma vals_ok_update: "vals_ok st vs \<Longrightarrow> valid_val st v \<Longrightarrow> vals_ok st (vs[i := v])"
  by (auto simp: list_all_iff dest: set_update_subset_insert [THEN subsetD])

lemma load_slot_safe: "safe c (\<lambda>_. True) (load_slot fr slot) (\<lambda>_ _. True)"
  unfolding load_slot_def
  by (rule safe_on_stack, rule stack_safeI, rule safe_res_bind [where Q = "valid_val _"])
    (auto intro!: safe_res_ok_or simp: get_nth_Some nth_valid)

lemma store_slot_safe: "safe c (\<lambda>_. True) (store_slot fr slot) (\<lambda>_ _. True)"
  unfolding store_slot_def
  by (rule safe_on_stack, rule stack_safeI, rule safe_res_bind [OF pop_safe])
    (auto simp: vals_ok_update)

lemma pop_stack_safe: "stack_safe (\<lambda>st. pop) valid_val"
  by (rule stack_safeI) (rule pop_safe)

lemma pop_int_stack_safe: "stack_safe (pop_int m) any"
  by (rule stack_safeI) (rule pop_int_safe)

lemma pop_bool_stack_safe: "stack_safe (pop_bool m) any"
  by (rule stack_safeI) (rule pop_bool_safe)

lemma get_global_safe: "safe c (\<lambda>_. True) (get_global idx) (\<lambda>_ _. True)"
  unfolding get_global_def
proof (rule safe_bind [OF _ push_safe], rule safe_on_mem)
  fix s r m'
  assume "vm_ok c s" "(ok_or (bug (''global.get: slot '' @ nat_digits (unat idx) @ '' out of range''))
      (global_get idx (mem (world s))), mem (world s)) = (r, m')"
  moreover have "valid_val (slots_of s) v" if "vm_ok c s" "global_get idx (mem (world s)) = Some v" for v
    using that by (auto simp: vm_ok_def world_ok_def heap_ok_def perm_roots_def global_get_def list_all_iff
        dest!: get_nth_in_set)
  ultimately show "r \<noteq> Err Panic \<and> heap_ok m' \<and> store_le (slots_of s) (rt_slots m') \<and>
      gc_paused m' = gc_paused (mem (world s)) \<and>
      (\<forall>x. r = Ok x \<longrightarrow> valid_val (slots_of (s\<lparr>world := (world s)\<lparr>mem := m'\<rparr>\<rparr>)) x)"
    by (cases "global_get idx (mem (world s))") (auto simp: vm_ok_def world_ok_def)
qed simp

lemma global_set_ok:
  "heap_ok m \<Longrightarrow> valid_val (rt_slots m) v \<Longrightarrow> global_set idx v m = Some m' \<Longrightarrow>
     heap_ok m' \<and> rt_slots m' = rt_slots m \<and> gc_paused m' = gc_paused m"
  by (auto simp: global_set_def heap_ok_def perm_roots_def vals_ok_update split: if_splits)

lemma set_global_safe: "safe c (\<lambda>_. True) (set_global idx) (\<lambda>_ _. True)"
  unfolding set_global_def
proof (rule safe_bind [OF safe_on_stack [OF pop_stack_safe]], rule safe_on_mem)
  fix v m r m'
  assume "(case global_set idx v m of
      None \<Rightarrow> (Err (bug (''global.set: slot '' @ nat_digits (unat idx) @ '' out of range'')), m)
    | Some m' \<Rightarrow> (Ok (), m')) = (r :: unit res, m')"
  then show "length (rt_slots m) \<le> length (rt_slots m')"
    by (auto simp: global_set_def split: if_splits)
next
  fix v s and r :: "unit res" and m'
  assume "vm_ok c s" "valid_val (slots_of s) v" "(case global_set idx v (mem (world s)) of
      None \<Rightarrow> (Err (bug (''global.set: slot '' @ nat_digits (unat idx) @ '' out of range'')), mem (world s))
    | Some m' \<Rightarrow> (Ok (), m')) = (r, m')"
  then show "r \<noteq> Err Panic \<and> heap_ok m' \<and> store_le (slots_of s) (rt_slots m') \<and>
      gc_paused m' = gc_paused (mem (world s)) \<and> (\<forall>x. r = Ok x \<longrightarrow> True)"
    using global_set_ok [of "mem (world s)" v idx]
    by (auto simp: vm_ok_def world_ok_def split: option.splits)
qed

text \<open>An in-place update of an object through a live handle.\<close>

lemma write_obj_safe:
  fixes c :: "'e cfg"
  assumes "\<And>st obj r. vals_ok st (child_values obj) \<Longrightarrow> I st \<Longrightarrow> f obj = Some r \<Longrightarrow>
      safe_res (\<lambda>obj'. vals_ok st (child_values obj')) r"
  shows "safe c (\<lambda>s. I (slots_of s) \<and> valid_val (slots_of s) v) (on_mem (write_obj e m f v)) (\<lambda>_ _. True)"
proof (rule safe_on_mem)
  fix s :: rt and r s' assume "write_obj e m f v s = (r, s')"
  then show "length (rt_slots s) \<le> length (rt_slots s')"
    by (auto simp: write_obj_def put_slot_def split: sum.splits "val.splits")
next
  fix s :: "'e vm" and r s'
  assume ok: "vm_ok c s" and pre: "I (slots_of s) \<and> valid_val (slots_of s) v"
    and run: "write_obj e m f v (mem (world s)) = (r, s')"
  have heap: "heap_ok (mem (world s))" using ok by (simp add: vm_ok_def world_ok_def)
  have rd: "safe_res (\<lambda>obj. (\<exists>h. v = Ref h) \<and> vals_ok (slots_of s) (child_values obj))
      (read_obj e (Some m) f (slots_of s) v)"
  proof (rule read_obj_safe)
    fix h obj r assume o: "v = Ref h" "lookup (slots_of s) h = Some obj" "f obj = Some r"
    then have "safe_res (\<lambda>obj'. vals_ok (slots_of s) (child_values obj')) r"
      using assms child_valid [OF vm_ok_closed [OF ok]] pre by blast
    then show "safe_res (\<lambda>obj. (\<exists>h. v = Ref h) \<and> vals_ok (slots_of s) (child_values obj)) r"
      using o(1) by (cases r) auto
  qed (use pre in simp)
  show "r \<noteq> Err Panic \<and> heap_ok s' \<and> store_le (slots_of s) (rt_slots s') \<and>
      gc_paused s' = gc_paused (mem (world s)) \<and> (\<forall>x. r = Ok x \<longrightarrow> True)"
  proof (cases "read_obj e (Some m) f (slots_of s) v")
    case (Inl x)
    then show ?thesis using run rd heap by (auto simp: write_obj_def)
  next
    case (Inr obj)
    then obtain h where h: "v = Ref h" "vals_ok (slots_of s) (child_values obj)" using rd by auto
    then have "lookup (slots_of s) h \<noteq> None" using pre by simp
    from heap_ok_put [OF heap this h(2)] show ?thesis using run Inr h by (auto simp: write_obj_def put_slot_def)
  qed
qed

lemma field_set_safe: "safe c (\<lambda>_. True) (field_set c idx) (\<lambda>_ _. True)"
  unfolding field_set_def
proof (rule safe_bind [OF safe_on_stack [OF pop_stack_safe]])
  fix x
  let ?I = "\<lambda>st. valid_val st x"
  show "safe c (\<lambda>s. ?I (slots_of s)) (ebind (on_stack (\<lambda>st. pop)) (\<lambda>obj. on_mem (set_struct_field (prog c) (unat idx) x obj)))
      (\<lambda>_ _. True)"
    unfolding set_struct_field_def
    by (rule safe_bind [OF safe_on_stack_frame [where I = ?I, OF pop_stack_safe]],
        rule write_obj_safe [where I = ?I]) (auto split: obj.splits simp: vals_ok_update)
qed

lemma list_set_safe: "safe c (\<lambda>_. True) (list_set c) (\<lambda>_ _. True)"
  unfolding list_set_def
proof (rule safe_bind [OF safe_on_stack [OF pop_stack_safe]])
  fix x
  let ?I = "\<lambda>st. valid_val st x"
  let ?w = "\<lambda>idx xs. on_mem (write_obj ''a List'' (prog c)
      (\<lambda>obj. case obj of
         List items \<Rightarrow> Some (rbind (checked_list_index idx (length items)) (\<lambda>k. Ok (List (items[k := x]))))
       | _ \<Rightarrow> None) xs)"
  have w: "safe c (\<lambda>s. ?I (slots_of s) \<and> valid_val (slots_of s) xs) (?w idx xs) (\<lambda>_ _. True)" for idx xs
    by (rule write_obj_safe [where I = ?I])
      (auto split: obj.splits intro!: safe_res_bind [OF checked_list_index_safe] simp: vals_ok_update)
  have p: "safe c (\<lambda>s. ?I (slots_of s)) (ebind (on_stack (\<lambda>st. pop)) (?w idx)) (\<lambda>_ _. True)" for idx
    by (rule safe_bind [OF safe_on_stack_frame [where I = ?I, OF pop_stack_safe] w])
  show "safe c (\<lambda>s. ?I (slots_of s)) (ebind (on_stack (pop_int (prog c))) (\<lambda>idx. ebind (on_stack (\<lambda>st. pop)) (?w idx)))
      (\<lambda>_ _. True)"
    by (rule safe_bind [OF safe_on_stack_frame [where I = ?I, OF pop_int_stack_safe]],
        rule safe_conseq [OF p]) simp_all
qed

section \<open>Calls\<close>

definition flow_ok :: "'e cfg \<Rightarrow> 'e flow \<Rightarrow> 'e vm \<Rightarrow> bool" where
  "flow_ok c fl s =
     (case fl of
        Cont fr \<Rightarrow> frame_ok c fr
      | Exit (Finished v) \<Rightarrow> valid_val (slots_of s) v
      | Exit (Parked _) \<Rightarrow> frames s \<noteq> [])"

lemma resize_valid: "vals_ok st vs \<Longrightarrow> vals_ok st (resize n Unit vs)"
  using set_take_subset [of n vs] by (auto simp: resize_def list_all_iff)

lemma enter_frame_safe:
  "vals_ok st vs \<Longrightarrow> safe_res (stack_post st (\<lambda>_ fr. frame_func fr < length (mod_functions m))) (enter_frame m func argc vs)"
  by (auto simp: enter_frame_def Let_def resize_valid get_nth_Some
      intro!: safe_res_bind [where Q = "\<lambda>_. func < length (mod_functions m)"] safe_res_ok_or)

lemma enter_frame_stack_safe:
  "stack_safe (\<lambda>st. enter_frame (prog c) func argc) (\<lambda>_. frame_ok c)"
  unfolding frame_ok_def by (rule stack_safeI) (rule enter_frame_safe)

lemma enter_call_safe: "frame_ok c cur \<Longrightarrow> safe c (\<lambda>_. frame_ok c callee) (enter_call cur callee) (flow_ok c)"
  by (rule safeI) (auto simp: enter_call_def vm_ok_def mem_rel_def flow_ok_def split: if_splits)

lemma exec_call_safe: "frame_ok c fr \<Longrightarrow> safe c (\<lambda>_. True) (exec_call c fr func argc) (flow_ok c)"
  unfolding exec_call_def
  by (rule safe_poll, rule safe_bind [OF safe_on_stack [OF enter_frame_stack_safe] enter_call_safe]) simp_all

lemma take_drop_valid:
  assumes "vals_ok st vs"
  shows "vals_ok st (take n vs)" "vals_ok st (drop n vs)"
  using assms set_take_subset [of n vs] set_drop_subset [of n vs] by (auto simp: list_all_iff)

lemma exec_call_indirect_safe: "frame_ok c fr \<Longrightarrow> safe c (\<lambda>_. True) (exec_call_indirect c fr argc) (flow_ok c)"
  unfolding exec_call_indirect_def
proof (rule safe_poll, rule safe_bind [OF safe_on_stack enter_call_safe], rule stack_safeI)
  fix st vs assume st: "store_closed st" "vals_ok st vs"
  let ?slot = "length vs - Suc (unat argc)"
  have *: "safe_res (stack_post st (\<lambda>_. frame_ok c)) (rbind (closure_parts (prog c) st (vs ! ?slot)) (\<lambda>(func, captures).
        enter_frame (prog c) (unat func) (length captures + unat argc) (take ?slot vs @ captures @ drop (Suc ?slot) vs)))"
    if "\<not> length vs < Suc (unat argc)"
    using st that take_drop_valid [OF st(2)]
    by (intro safe_res_bind [OF closure_parts_safe]) (auto simp: nth_valid frame_ok_def intro!: enter_frame_safe)
  then show "safe_res (stack_post st (\<lambda>_. frame_ok c))
      (if length vs < Suc (unat argc) then Err (bug ''call.indirect: operand stack underflow'')
       else let slot = length vs - Suc (unat argc)
            in rbind (closure_parts (prog c) st (vs ! slot)) (\<lambda>(func, captures).
                 enter_frame (prog c) (unat func) (length captures + unat argc)
                   (take slot vs @ captures @ drop (Suc slot) vs)))"
    by (simp add: Let_def)
qed simp_all

section \<open>Natives\<close>

text \<open>What the loop relies on of a native: it never collects and issues handles only through the allocator, keeps
  the heap and the scheduler's values live, and answers a live value.\<close>

definition native_safe :: "'e native \<Rightarrow> bool" where
  "native_safe f \<longleftrightarrow>
     (\<forall>args w r w'. f args w = (r, w') \<longrightarrow>
        length (rt_slots (mem w)) \<le> length (rt_slots (mem w')) \<and>
        (world_ok w \<and> vals_ok (rt_slots (mem w)) args \<and> slots_fit w' \<longrightarrow>
           r \<noteq> Err Panic \<and> world_ok w' \<and> store_le (rt_slots (mem w)) (rt_slots (mem w')) \<and>
           gc_paused (mem w') = gc_paused (mem w) \<and> (\<forall>v. r = Ok v \<longrightarrow> valid_val (rt_slots (mem w')) v)))"

lemma native_safeD:
  assumes "native_safe f" "f args w = (r, w')"
  shows "length (rt_slots (mem w)) \<le> length (rt_slots (mem w'))"
    and "world_ok w \<Longrightarrow> vals_ok (rt_slots (mem w)) args \<Longrightarrow> slots_fit w' \<Longrightarrow>
      r \<noteq> Err Panic \<and> world_ok w' \<and> store_le (rt_slots (mem w)) (rt_slots (mem w')) \<and>
      gc_paused (mem w') = gc_paused (mem w) \<and> (\<forall>v. r = Ok v \<longrightarrow> valid_val (rt_slots (mem w')) v)"
  using assms unfolding native_safe_def by blast+

lemma world_ok_park [simp]: "world_ok (w\<lparr>park_cell := p\<rparr>) = world_ok w"
  by (simp add: world_ok_def)

text \<open>The state after a native: its world, and a stack and frames made of what was there and the answer.\<close>

lemma run_native_cases:
  assumes "run_native c fr native argc s = (r, s')"
  obtains (trap) e where "r = Err e" "e \<noteq> Panic" "s' = s"
  | (fault) f e w b where "f \<in> set (natives c)" "f (drop b (vstack s)) (world s) = (Err e, w)" "r = Err e" "s' = s\<lparr>world := w\<rparr>"
  | (ret) f v w b where "f \<in> set (natives c)" "f (drop b (vstack s)) (world s) = (Ok v, w)"
      "world s' = w\<lparr>park_cell := None\<rparr>" "vstack s' = vstack s \<or> vstack s' = take b (vstack s) @ [v]"
      "frames s' = frames s \<and> r = Ok (Cont fr) \<or>
       (\<exists>k req. frames s' = frames s @ [fr\<lparr>pc := k\<rparr>] \<and> r = Ok (Exit (Parked req)))"
proof -
  let ?b = "length (vstack s) - unat argc"
  consider "r = Err (bug ''call.native: operand stack underflow'')" "s' = s"
    | "r = Err (bug (''call.native: no native at index '' @ nat_digits (unat native)))" "s' = s"
    | f where "get_nth (natives c) (unat native) = Some f" "\<not> length (vstack s) < unat argc"
    using assms by (fastforce simp: run_native_def Let_def split: if_splits option.splits)
  then show thesis
  proof cases
    case (3 f)
    then have f: "f \<in> set (natives c)" by (simp add: get_nth_in_set)
    obtain q w where fw: "f (drop ?b (vstack s)) (world s) = (q, w)" by fastforce
    show thesis
    proof (cases q)
      case (Inl e)
      then show thesis using assms 3 fw fault [OF f, of ?b e w] by (simp add: run_native_def Let_def)
    next
      case (Inr v)
      have fr: "fr\<lparr>pc := pc fr\<rparr> = fr" by simp
      show thesis
        using assms 3 fw Inr
        by (intro ret [OF f, of ?b v w])
          (auto simp: run_native_def Let_def split: option.splits park_request.splits intro: exI [of _ "pc fr"])
    qed
  qed (use trap in auto)
qed

lemma run_native_safe:
  fixes c :: "'e cfg"
  assumes nat: "\<forall>f\<in>set (natives c). native_safe f" and fr: "frame_ok c fr"
  shows "safe c (\<lambda>_. True) (run_native c fr native argc) (flow_ok c)"
proof (rule safeI)
  fix s :: "'e vm" and r s' assume run: "run_native c fr native argc s = (r, s')"
  from run show "length (slots_of s) \<le> length (slots_of s')"
    by (cases rule: run_native_cases) (use nat native_safeD(1) in fastforce)+
  assume ok: "vm_ok c s" and fit: "slots_fit (world s')"
  have w: "world_ok (world s)" "vals_ok (slots_of s) (drop b (vstack s))" "vals_ok (slots_of s) (take b (vstack s))" for b
    using ok take_drop_valid by (auto simp: vm_ok_def)
  have fok: "frame_ok c (fr\<lparr>pc := k\<rparr>)" for k using fr by (simp add: frame_ok_def)
  from run show "mem_rel s s' \<and> r \<noteq> Err Panic \<and> (\<forall>x. r = Ok x \<longrightarrow> vm_ok c s' \<and> flow_ok c x s')"
  proof (cases rule: run_native_cases)
    case (fault f e w' b)
    then have "native_safe f" using nat by blast
    from native_safeD(2) [OF this fault(2) w(1,2)] show ?thesis
      using fault fit by (simp add: mem_rel_def)
  next
    case (ret f v w' b)
    then have "native_safe f" using nat by blast
    from native_safeD(2) [OF this ret(2) w(1,2)]
    have post: "world_ok w'" "store_le (slots_of s) (rt_slots (mem w'))" "gc_paused (mem w') = gc_paused (mem (world s))"
      "valid_val (rt_slots (mem w')) v"
      using ret(3) fit by (simp_all add: slots_fit_def)
    have "vals_ok (slots_of s') (vstack s')"
      using ret(3,4) post valid_vals_mono [OF post(2)] w(3) ok by (auto simp: vm_ok_def)
    then have "vm_ok c s'" using ret(3,5) post ok fok by (auto simp: vm_ok_def)
    moreover have "mem_rel s s'" using ret(3) post by (simp add: mem_rel_def)
    ultimately show ?thesis using ret(5) fr by (auto simp: flow_ok_def)
  qed simp
qed

lemma exec_call_native_safe:
  "\<forall>f\<in>set (natives c). native_safe f \<Longrightarrow> frame_ok c fr \<Longrightarrow>
     safe c (\<lambda>_. True) (exec_call_native c fr native argc) (flow_ok c)"
  unfolding exec_call_native_def by (rule safe_poll [OF run_native_safe]) simp_all

end
