(* ===== verification/RunSafe.thy ===== *)
theory RunSafe
  imports LoopSafe
begin

text \<open>
  Memory safety of \<open>run_loop\<close>, re-entrance included: control flow and the depth of the frame
  stack, the structural fallbacks, which hold values outside the stacks while collection is
  paused, and the induction over the number of steps.
\<close>

section \<open>Computations that leave the frame stack alone\<close>

definition keeps_frames :: "('e, 'a) exec \<Rightarrow> bool" where
  "keeps_frames m \<longleftrightarrow> (\<forall>s r s'. m s = (r, s') \<longrightarrow> frames s' = frames s)"

lemma keeps_frames_bind: "keeps_frames m \<Longrightarrow> (\<And>x. keeps_frames (f x)) \<Longrightarrow> keeps_frames (ebind m f)"
  unfolding keeps_frames_def ebind_def by (auto split: prod.splits sum.splits)

lemma keeps_frames_basic:
  "keeps_frames (eret x)" "keeps_frames (elift r)" "keeps_frames (push v)" "keeps_frames (on_stack f)"
  "keeps_frames (on_mem g)" "keeps_frames (poll_gc c)" "keeps_frames (\<lambda>s. (h s, s))"
  by (auto simp: keeps_frames_def eret_def elift_def push_def on_stack_def on_mem_def poll_gc_def Let_def
      split: sum.splits prod.splits option.splits if_splits)

lemmas keeps_frames_intros = keeps_frames_bind keeps_frames_basic

lemma keeps_frames_new_obj: "keeps_frames (new_obj c obj)"
  unfolding new_obj_def by (rule keeps_frames_basic)

lemma keeps_frames_make_obj: "keeps_frames (make_obj c n msg mk)"
  unfolding make_obj_def by (intro keeps_frames_intros keeps_frames_new_obj)

lemma safe_keeps:
  assumes "safe c P m Q" "keeps_frames m"
  shows "safe c (\<lambda>s. P s \<and> F (frames s)) m (\<lambda>x s. Q x s \<and> F (frames s))"
proof (rule safeI)
  fix s r s' assume m: "m s = (r, s')"
  show "length (slots_of s) \<le> length (slots_of s')" by (rule safeD(1) [OF assms(1) m])
  have "frames s' = frames s" using assms(2) m by (simp add: keeps_frames_def)
  moreover assume "vm_ok c s" "P s \<and> F (frames s)" "slots_fit (world s')"
  ultimately show "mem_rel s s' \<and> r \<noteq> Err Panic \<and> (\<forall>x. r = Ok x \<longrightarrow> vm_ok c s' \<and> Q x s' \<and> F (frames s'))"
    using safeD(2) [OF assms(1) m] by simp
qed

lemma safe_read:
  "(\<And>s. vm_ok c s \<Longrightarrow> P s \<Longrightarrow> safe_res (\<lambda>x. Q x s) (f s)) \<Longrightarrow> safe c P (\<lambda>s. (f s, s)) Q"
  unfolding safe_def by (metis mem_rel_refl order_refl prod.inject safe_res_simps)

lemma safe_map_ret: "safe c P m (\<lambda>_. Q) \<Longrightarrow> safe c P (ebind m (\<lambda>x. eret (h x))) (\<lambda>_. Q)"
  by (erule safe_bind) (rule safe_ret)

abbreviation at_depth :: "nat \<Rightarrow> 'e vm \<Rightarrow> bool" where
  "at_depth k s \<equiv> length (frames s) = k"

lemma safe_depth_ret [simp]: "safe c (\<lambda>s. P s \<and> at_depth k s) (eret x) (\<lambda>_ s. at_depth k s)"
  by (rule safe_ret) simp

section \<open>The structural fallbacks\<close>

lemma holds_Cons: "holds (v # vs) s \<longleftrightarrow> holds [v] s \<and> holds vs s"
  by (auto simp: holds_def)

lemma holds_append: "holds (us @ vs) s \<longleftrightarrow> holds us s \<and> holds vs s"
  by (auto simp: holds_def)

lemma emap_safe:
  fixes c :: "'e cfg"
  assumes "\<And>x. x \<in> set xs \<Longrightarrow> safe c (\<lambda>s. holds (g x) s \<and> at_depth k s) (f x) (\<lambda>_ s. at_depth k s)"
  shows "safe c (\<lambda>s. holds (concat (map g xs)) s \<and> at_depth k s) (emap f xs) (\<lambda>_ s. at_depth k s)"
  using assms
proof (induction xs)
  case Nil
  then show ?case by (auto intro: safe_ret)
next
  case (Cons x xs)
  let ?R = "\<lambda>s. holds (concat (map g xs)) s"
  have head: "safe c (\<lambda>s. (holds (g x) s \<and> at_depth k s) \<and> ?R s) (f x) (\<lambda>_ s. at_depth k s \<and> ?R s)"
    by (rule safe_frame [OF Cons.prems]) simp
  have tail: "safe c (\<lambda>s. at_depth k s \<and> ?R s) (emap f xs) (\<lambda>_ s. at_depth k s)"
    by (rule safe_conseq [OF Cons.IH [OF Cons.prems]]) auto
  have "safe c (\<lambda>s. (holds (g x) s \<and> at_depth k s) \<and> ?R s) (emap f (x # xs)) (\<lambda>_ s. at_depth k s)"
    unfolding emap.simps by (rule safe_bind [OF head]) (rule safe_map_ret [OF tail])
  then show ?case by (rule safe_conseq) (auto simp: holds_append)
qed

lemma emap_values_safe:
  assumes "\<And>x. x \<in> set xs \<Longrightarrow> safe c (\<lambda>s. holds [x] s \<and> at_depth k s) (f x) (\<lambda>_ s. at_depth k s)"
  shows "safe c (\<lambda>s. holds xs s \<and> at_depth k s) (ebind (emap f xs) (\<lambda>ps. eret (h ps))) (\<lambda>_ s. at_depth k s)"
proof -
  have "concat (map (\<lambda>x. [x]) xs) = xs" by (induction xs) simp_all
  then show ?thesis
    using emap_safe [of xs c "\<lambda>x. [x]" k f] assms by (intro safe_map_ret) simp
qed

lemma emap_entries_safe:
  assumes "\<And>a x. (a, x) \<in> set es \<Longrightarrow>
      safe c (\<lambda>s. holds [a] s \<and> at_depth k s) (dbg a) (\<lambda>_ s. at_depth k s) \<and>
      safe c (\<lambda>s. holds [x] s \<and> at_depth k s) (dbg x) (\<lambda>_ s. at_depth k s)"
  shows "safe c (\<lambda>s. holds (concat (map (\<lambda>(a, x). [a, x]) es)) s \<and> at_depth k s)
      (emap (\<lambda>(a, x). ebind (dbg a) (\<lambda>ks. ebind (dbg x) (\<lambda>vs. eret (h ks vs)))) es) (\<lambda>_ s. at_depth k s)"
proof (rule emap_safe, clarsimp)
  fix a x assume "(a, x) \<in> set es"
  then have a: "safe c (\<lambda>s. holds [a] s \<and> at_depth k s) (dbg a) (\<lambda>_ s. at_depth k s)"
    and x: "safe c (\<lambda>s. holds [x] s \<and> at_depth k s) (dbg x) (\<lambda>_ s. at_depth k s)"
    using assms by blast+
  have x': "safe c (\<lambda>s. at_depth k s \<and> holds [x] s) (dbg x) (\<lambda>_ s. at_depth k s)"
    by (rule safe_conseq [OF x]) auto
  show "safe c (\<lambda>s. holds [a, x] s \<and> at_depth k s) (ebind (dbg a) (\<lambda>ks. ebind (dbg x) (\<lambda>vs. eret (h ks vs))))
      (\<lambda>_ s. at_depth k s)"
    by (rule safe_conseq [OF safe_bind [OF safe_frame [OF a, where vs = "[x]"] safe_map_ret [OF x']]])
      (auto simp: holds_Cons [of a "[x]"])
qed

lemma emap_fields_safe:
  assumes "length ns = length fs"
    and "\<And>x. x \<in> set fs \<Longrightarrow> safe c (\<lambda>s. holds [x] s \<and> at_depth k s) (dbg x) (\<lambda>_ s. at_depth k s)"
  shows "safe c (\<lambda>s. holds fs s \<and> at_depth k s)
      (emap (\<lambda>(n, x). ebind (dbg x) (\<lambda>d. eret (h n d))) (zip ns fs)) (\<lambda>_ s. at_depth k s)"
proof -
  have "concat (map (\<lambda>p. [snd p]) (zip ns fs)) = fs" using assms(1) by (induction ns fs rule: list_induct2) simp_all
  moreover have "safe c (\<lambda>s. holds [snd p] s \<and> at_depth k s) ((\<lambda>(n, x). ebind (dbg x) (\<lambda>d. eret (h n d))) p)
      (\<lambda>_ s. at_depth k s)" if "p \<in> set (zip ns fs)" for p
  proof -
    obtain n x where p: "p = (n, x)" by (cases p)
    then have "x \<in> set fs" using that by (auto dest: set_zip_rightD)
    then show ?thesis unfolding p case_prod_conv snd_conv by (rule safe_map_ret [OF assms(2)])
  qed
  ultimately show ?thesis
    using emap_safe [of "zip ns fs" c "\<lambda>p. [snd p]" k "\<lambda>(n, x). ebind (dbg x) (\<lambda>d. eret (h n d))"] by simp
qed

lemma debug_obj_safe:
  assumes "\<And>x. x \<in> set (child_values obj) \<Longrightarrow> safe c (\<lambda>s. holds [x] s \<and> at_depth k s) (dbg x) (\<lambda>_ s. at_depth k s)"
  shows "safe c (\<lambda>s. holds (child_values obj) s \<and> at_depth k s) (debug_obj m dbg obj) (\<lambda>_ s. at_depth k s)"
proof (cases obj)
  case (Map mp)
  have "safe c (\<lambda>s. holds (concat (map (\<lambda>(a, x). [a, x]) (entries mp))) s \<and> at_depth k s)
      (emap (\<lambda>(a, x). ebind (dbg a) (\<lambda>ks. ebind (dbg x) (\<lambda>vs. eret (ks @ '': '' @ vs)))) (entries mp)) (\<lambda>_ s. at_depth k s)"
    using Map assms by (intro emap_entries_safe) force
  then show ?thesis
    using Map by (cases "entries mp = []") (auto simp: debug_obj_def intro: safe_ret safe_map_ret)
next
  case (Struct ty fs)
  have pos: "safe c (\<lambda>s. holds fs s \<and> at_depth k s) (ebind (emap dbg fs) (\<lambda>ps. eret (h ps))) (\<lambda>_ s. at_depth k s)" for h
    using Struct assms by (intro emap_values_safe) simp
  have named: "safe c (\<lambda>s. holds fs s \<and> at_depth k s)
      (emap (\<lambda>(n, x). ebind (dbg x) (\<lambda>d. eret (n @ '': '' @ d))) (zip (field_names t) fs)) (\<lambda>_ s. at_depth k s)"
    if "length (field_names t) = length fs" for t
    using Struct assms by (intro emap_fields_safe [OF that]) simp
  show ?thesis
    using Struct pos safe_map_ret [OF named]
    by (cases "get_nth (types m) (unat ty)"; cases "fs = []") (auto simp: debug_obj_def Let_def intro: safe_ret)
qed (use assms in \<open>simp_all add: debug_obj_def emap_values_safe\<close>)

text \<open>What the loop relies on of a nested call: it answers a live value and leaves the depth as it was.\<close>

definition calls_safe :: "'e cfg \<Rightarrow> (usize \<Rightarrow> val list \<Rightarrow> ('e, val) exec) \<Rightarrow> bool" where
  "calls_safe c callf \<longleftrightarrow>
     (\<forall>func args k. safe c (\<lambda>s. vals_ok (slots_of s) args \<and> at_depth k s) (callf func args)
        (\<lambda>v s. valid_val (slots_of s) v \<and> at_depth k s))"

lemma calls_safeD:
  "calls_safe c callf \<Longrightarrow> safe c (\<lambda>s. vals_ok (slots_of s) args \<and> at_depth k s) (callf func args)
     (\<lambda>v s. valid_val (slots_of s) v \<and> at_depth k s)"
  by (simp add: calls_safe_def)

lemma lookup_safe: "valid_val st (Ref h) \<Longrightarrow> (\<And>obj. lookup st h = Some obj \<Longrightarrow> Q obj) \<Longrightarrow> safe_res Q (or_panic (lookup st h))"
  by (cases "lookup st h") auto

lemma dispatch_type_id_safe: "valid_val st v \<Longrightarrow> safe_res (\<lambda>_. True) (dispatch_type_id st v)"
  by (cases v) (auto simp: dispatch_type_id_def intro!: safe_res_bind [OF lookup_safe])

lemma debug_ret_safe:
  "safe c (\<lambda>s. valid_val (slots_of s) ret \<and> at_depth k s)
     (\<lambda>s. (case ret of
        Ref h \<Rightarrow> rbind (or_panic (lookup (slots_of s) h)) (\<lambda>obj.
          case obj of Str t \<Rightarrow> Ok t | _ \<Rightarrow> Err (bug ''debug impl did not return a String''))
      | _ \<Rightarrow> Err (bug ''debug impl did not return a String''), s)) (\<lambda>_ s. at_depth k s)"
  by (rule safe_read) (auto split: "val.splits" obj.splits intro!: safe_res_bind [OF lookup_safe])

lemma debug_children_safe:
  assumes "\<And>x. safe c (\<lambda>s. holds [x] s \<and> at_depth k s) (dbg x) (\<lambda>_ s. at_depth k s)"
  shows "safe c (\<lambda>s. holds [Ref h] s \<and> at_depth k s)
     (ebind (\<lambda>s. (or_panic (lookup (slots_of s) h), s)) (debug_obj m dbg)) (\<lambda>_ s. at_depth k s)"
proof (rule safe_bind [where Q = "\<lambda>obj s. holds (child_values obj) s \<and> at_depth k s"])
  show "safe c (\<lambda>s. holds [Ref h] s \<and> at_depth k s) (\<lambda>s. (or_panic (lookup (slots_of s) h), s))
      (\<lambda>obj s. holds (child_values obj) s \<and> at_depth k s)"
    by (rule safe_read, rule lookup_safe) (auto simp: holds_def intro: child_valid vm_ok_closed)
qed (rule debug_obj_safe [OF assms])

lemma debug_value_safe:
  assumes "calls_safe c callf"
  shows "safe c (\<lambda>s. holds [v] s \<and> at_depth k s) (debug_value callf c n v) (\<lambda>_ s. at_depth k s)"
proof (induction n arbitrary: v)
  case 0
  show ?case by (auto intro: safe_lift)
next
  case (Suc n)
  have ty: "safe c (\<lambda>s. holds [v] s \<and> at_depth k s) (\<lambda>s. (dispatch_type_id (slots_of s) v, s))
      (\<lambda>_ s. holds [v] s \<and> at_depth k s)"
    by (rule safe_read) (auto simp: holds_def intro: safe_res_weaken [OF dispatch_type_id_safe])
  have impl: "safe c (\<lambda>s. holds [v] s \<and> at_depth k s) (callf func [v]) (\<lambda>r s. valid_val (slots_of s) r \<and> at_depth k s)" for func
    by (rule safe_conseq [OF calls_safeD [OF assms]]) (auto simp: holds_def)
  show ?case
    unfolding debug_value.simps
  proof (rule safe_bind [OF ty])
    fix ty
    show "safe c (\<lambda>s. holds [v] s \<and> at_depth k s)
        (case Option.bind ty (\<lambda>ty. dispatch_target (prog c) ty ''debug'') of
           Some func \<Rightarrow> ebind (callf (unat func) [v]) (\<lambda>ret s.
             (case ret of
                Ref h \<Rightarrow> rbind (or_panic (lookup (slots_of s) h)) (\<lambda>obj.
                  case obj of Str t \<Rightarrow> Ok t | _ \<Rightarrow> Err (bug ''debug impl did not return a String''))
              | _ \<Rightarrow> Err (bug ''debug impl did not return a String''), s))
         | None \<Rightarrow>
             (case v of
                IntV n \<Rightarrow> eret (int_digits (sint n))
              | Double x \<Rightarrow> eret (format_double x)
              | Bool b \<Rightarrow> eret (bool_string b)
              | Unit \<Rightarrow> eret ''()''
              | Ref h \<Rightarrow> ebind (\<lambda>s. (or_panic (lookup (slots_of s) h), s)) (debug_obj (prog c) (debug_value callf c n))))
        (\<lambda>_ s. at_depth k s)"
    proof (cases "Option.bind ty (\<lambda>ty. dispatch_target (prog c) ty ''debug'')")
      case None
      then show ?thesis by (cases v) (simp_all add: debug_children_safe [OF Suc.IH])
    next
      case (Some func)
      then show ?thesis by (simp only: option.case) (rule safe_bind [OF impl debug_ret_safe])
    qed
  qed
qed

text \<open>Pausing changes no slot, so a condition on the slots and the frames passes through the guard.\<close>

lemma with_gc_paused_safe:
  fixes c :: "'e cfg"
  assumes "safe c (\<lambda>s. paused s \<and> P (slots_of s) (frames s)) m (\<lambda>x s. Q x (slots_of s) (frames s))"
  shows "safe c (\<lambda>s. P (slots_of s) (frames s)) (with_gc_paused m) (\<lambda>x s. Q x (slots_of s) (frames s))"
proof (rule safeI)
  fix s :: "'e vm" and r s'' assume "with_gc_paused m s = (r, s'')"
  then obtain s' where m: "m (s\<lparr>world := (world s)\<lparr>mem := pause_gc (mem (world s))\<rparr>\<rparr>) = (r, s')"
    and s'': "s'' = s'\<lparr>world := (world s')\<lparr>mem := resume_gc (mem (world s'))\<rparr>\<rparr>"
    by (auto simp: with_gc_paused_def split: prod.splits)
  let ?s = "s\<lparr>world := (world s)\<lparr>mem := pause_gc (mem (world s))\<rparr>\<rparr>"
  have same: "slots_of ?s = slots_of s" "slots_of s'' = slots_of s'" "frames s'' = frames s'"
    by (simp_all add: s'' pause_gc_def resume_gc_def)
  show "length (slots_of s) \<le> length (slots_of s'')" using safeD(1) [OF assms m] same by simp
  assume ok: "vm_ok c s" "P (slots_of s) (frames s)" "slots_fit (world s'')"
  have "vm_ok c ?s" "paused ?s" "slots_fit (world s')"
    using ok by (auto simp: vm_ok_def world_ok_def heap_ok_def perm_roots_def paused_def slots_fit_def s'' pause_gc_def resume_gc_def)
  then have *: "mem_rel ?s s' \<and> r \<noteq> Err Panic \<and> (\<forall>x. r = Ok x \<longrightarrow> vm_ok c s' \<and> Q x (slots_of s') (frames s'))"
    using safeD(2) [OF assms m] ok(2) same by simp
  have "vm_ok c s''" if "vm_ok c s'"
    using that by (simp add: vm_ok_def world_ok_def heap_ok_def perm_roots_def s'' resume_gc_def)
  then show "mem_rel s s'' \<and> r \<noteq> Err Panic \<and> (\<forall>x. r = Ok x \<longrightarrow> vm_ok c s'' \<and> Q x (slots_of s'') (frames s''))"
    using * same \<open>paused ?s\<close> by (auto simp: mem_rel_def s'' pause_gc_def resume_gc_def)
qed

lemma new_obj_depth:
  "safe c (\<lambda>s. vals_ok (slots_of s) (child_values obj) \<and> at_depth k s) (new_obj c obj)
     (\<lambda>v s. valid_val (slots_of s) v \<and> at_depth k s)"
  by (rule safe_keeps [OF new_obj_safe keeps_frames_new_obj])

lemma new_leaf_depth:
  assumes "child_values obj = []"
  shows "safe c (\<lambda>s. P s \<and> at_depth k s) (new_obj c obj) (\<lambda>v s. valid_val (slots_of s) v \<and> at_depth k s)"
  by (rule safe_conseq [OF new_obj_depth]) (auto simp: assms)

lemma new_str_depth: "safe c (at_depth k) (new_obj c (Str t)) (\<lambda>v s. valid_val (slots_of s) v \<and> at_depth k s)"
  by (rule safe_conseq [OF new_obj_depth]) auto

lemma str_contents_safe: "valid_val st v \<Longrightarrow> safe_res (\<lambda>_. True) (str_contents st v)"
  by (cases v) (auto simp: str_contents_def split: obj.splits intro!: safe_res_bind [OF lookup_safe])

lemma child_values_ordering [simp]: "child_values (ordering_obj lt eq) = []"
  by (simp add: ordering_obj_def)

lemma primitive_ordering_safe:
  "valid_val st a \<Longrightarrow> valid_val st b \<Longrightarrow> safe_res (\<lambda>obj. child_values obj = []) (primitive_ordering st a b)"
  by (cases a; cases b)
    (auto simp: primitive_ordering_def intro!: safe_res_bind [OF str_contents_safe])

lemma to_string_safe:
  assumes "calls_safe c callf"
  shows "safe c (\<lambda>s. holds [v] s \<and> at_depth k s)
     (ebind (\<lambda>s. (has_builtin_display (slots_of s) v, s)) (\<lambda>builtin.
      ebind (if builtin then \<lambda>s. (display_string (slots_of s) v, s) else debug_value callf c n v) (\<lambda>t. new_obj c (Str t))))
     (\<lambda>v s. valid_val (slots_of s) v \<and> at_depth k s)"
proof (rule safe_bind [where Q = "\<lambda>_ s. holds [v] s \<and> at_depth k s"])
  show "safe c (\<lambda>s. holds [v] s \<and> at_depth k s) (\<lambda>s. (has_builtin_display (slots_of s) v, s))
      (\<lambda>_ s. holds [v] s \<and> at_depth k s)"
    by (rule safe_read, cases v)
      (auto simp: has_builtin_display_def holds_def intro!: safe_res_bind [OF lookup_safe])
  have disp: "safe c (\<lambda>s. holds [v] s \<and> at_depth k s) (\<lambda>s. (display_string (slots_of s) v, s)) (\<lambda>_ s. at_depth k s)"
    by (rule safe_read, cases v)
      (auto simp: display_string_def holds_def split: obj.splits intro!: safe_res_bind [OF lookup_safe])
  show "safe c (\<lambda>s. holds [v] s \<and> at_depth k s)
      (ebind (if b then \<lambda>s. (display_string (slots_of s) v, s) else debug_value callf c n v) (\<lambda>t. new_obj c (Str t)))
      (\<lambda>v s. valid_val (slots_of s) v \<and> at_depth k s)" for b
    by (rule safe_bind [OF _ new_str_depth]) (cases b, simp_all add: disp debug_value_safe [OF assms])
qed

lemma bug_safe: "safe c P (elift (Err (bug msg))) Q"
  by (rule safe_lift) simp_all

lemma safe_if:
  "(b \<Longrightarrow> safe c P m Q) \<Longrightarrow> (\<not> b \<Longrightarrow> safe c P m' Q) \<Longrightarrow> safe c P (if b then m else m') Q"
  by simp

lemma safe_two:
  "(\<And>a b. xs = [a, b] \<Longrightarrow> safe c P (f a b) Q) \<Longrightarrow> safe c P m Q \<Longrightarrow> safe c P (case xs of [a, b] \<Rightarrow> f a b | _ \<Rightarrow> m) Q"
  by (auto split: list.splits)

lemma ebind_eret: "ebind (eret x) f = f x"
  by (simp add: ebind_def eret_def fun_eq_iff)

lemma virtual_fallback_safe:
  assumes calls: "calls_safe c callf" and ne: "args \<noteq> []"
  shows "safe c (\<lambda>s. vals_ok (slots_of s) args \<and> at_depth k s) (virtual_fallback callf c n sel args)
     (\<lambda>v s. valid_val (slots_of s) v \<and> at_depth k s)"
proof -
  obtain v vs where args: "args = v # vs" using ne by (cases args) auto
  let ?P = "\<lambda>s. holds args s \<and> at_depth k s"
  have P: "safe c (\<lambda>s. paused s \<and> vals_ok (slots_of s) args \<and> at_depth k s) m Q" if "safe c ?P m Q" for m and Q :: "val \<Rightarrow> 'a vm \<Rightarrow> bool"
    by (rule safe_conseq [OF that]) (auto simp: holds_def)
  have v: "safe c ?P m Q" if "safe c (\<lambda>s. holds [v] s \<and> at_depth k s) m Q" for m and Q :: "val \<Rightarrow> 'a vm \<Rightarrow> bool"
    by (rule safe_conseq [OF that]) (auto simp: holds_def args)
  have dbg: "safe c ?P (ebind (debug_value callf c n v) (\<lambda>t. new_obj c (Str t)))
      (\<lambda>v s. valid_val (slots_of s) v \<and> at_depth k s)"
    by (rule v, rule safe_bind [OF debug_value_safe [OF calls] new_str_depth])
  have eq: "safe c ?P (\<lambda>s. (rbind (structural_eq (slots_of s) a b) (\<lambda>r. Ok (Bool r)), s))
      (\<lambda>v s. valid_val (slots_of s) v \<and> at_depth k s)" for a b
    by (rule safe_read) (auto simp: structural_eq_def ok_or_def split: option.splits)
  have cmp: "safe c ?P (ebind (\<lambda>s. (primitive_ordering (slots_of s) a b, s)) (new_obj c))
      (\<lambda>v s. valid_val (slots_of s) v \<and> at_depth k s)" if "args = [a, b]" for a b
  proof (rule safe_bind [where Q = "\<lambda>obj s. vals_ok (slots_of s) (child_values obj) \<and> at_depth k s"])
    show "safe c ?P (\<lambda>s. (primitive_ordering (slots_of s) a b, s))
        (\<lambda>obj s. vals_ok (slots_of s) (child_values obj) \<and> at_depth k s)"
      by (rule safe_read, rule safe_res_weaken [OF primitive_ordering_safe]) (auto simp: holds_def that)
  qed (rule new_obj_depth)
  have head: "elift (or_panic (get_nth args 0)) = eret v" by (simp add: args get_nth_def elift_def eret_def fun_eq_iff)
  show ?thesis
    unfolding virtual_fallback_def head ebind_eret
    by (rule with_gc_paused_safe [where P = "\<lambda>st fs. vals_ok st args \<and> length fs = k"
          and Q = "\<lambda>v st fs. valid_val st v \<and> length fs = k"], rule P)
      (intro safe_if safe_two bug_safe dbg eq cmp v [OF to_string_safe [OF calls]])
qed

section \<open>Control flow and the depth of the frame stack\<close>

definition depth_ok :: "usize \<Rightarrow> 'e flow \<Rightarrow> 'e vm \<Rightarrow> bool" where
  "depth_ok bd fl s =
     (case fl of
        Cont _ \<Rightarrow> bd \<le> length (frames s)
      | Exit (Finished _) \<Rightarrow> length (frames s) = bd
      | Exit (Parked _) \<Rightarrow> True)"

text \<open>Steps other than \<open>Return\<close> never pop a frame and never finish.\<close>

definition deepens :: "('e, 'e flow) exec \<Rightarrow> bool" where
  "deepens m \<longleftrightarrow> (\<forall>s fl s'. m s = (Ok fl, s') \<longrightarrow>
     length (frames s) \<le> length (frames s') \<and> (case fl of Exit (Finished _) \<Rightarrow> False | _ \<Rightarrow> True))"

lemma deepens_bind:
  assumes "keeps_frames m" "\<And>x. deepens (f x)"
  shows "deepens (ebind m f)"
  unfolding deepens_def
proof (intro allI impI)
  fix s fl s' assume run: "ebind m f s = (Ok fl, s')"
  then obtain x s1 where "m s = (Ok x, s1)" "f x s1 = (Ok fl, s')"
    by (auto simp: ebind_def split: prod.splits sum.splits)
  moreover from this have "frames s1 = frames s" using assms(1) by (simp add: keeps_frames_def)
  ultimately show "length (frames s) \<le> length (frames s') \<and> (case fl of Exit (Finished _) \<Rightarrow> False | _ \<Rightarrow> True)"
    using assms(2) [of x] unfolding deepens_def by metis
qed

lemma deepens_basic: "deepens (eret (Cont fr))" "deepens (enter_call fr callee)" "deepens (run_native c fr native argc)"
  unfolding deepens_def
  by (auto simp: eret_def enter_call_def split: if_splits) (auto elim!: run_native_cases split: flow.splits outcome.splits)

lemma safe_deepens:
  fixes c :: "'e cfg"
  assumes "safe c (\<lambda>_. True) m (flow_ok c)" "deepens m"
  shows "safe c (\<lambda>s. bd \<le> length (frames s)) m (\<lambda>fl s. flow_ok c fl s \<and> depth_ok bd fl s)"
proof (rule safeI)
  fix s :: "'e vm" and r s' assume m: "m s = (r, s')"
  show "length (slots_of s) \<le> length (slots_of s')" by (rule safeD(1) [OF assms(1) m])
  assume "vm_ok c s" "bd \<le> length (frames s)" "slots_fit (world s')"
  moreover have "depth_ok bd fl s'" if "bd \<le> length (frames s)" "r = Ok fl" for fl
  proof -
    have "m s = (Ok fl, s')" using m that(2) by simp
    then have "length (frames s) \<le> length (frames s') \<and> (case fl of Exit (Finished _) \<Rightarrow> False | _ \<Rightarrow> True)"
      using assms(2) unfolding deepens_def by blast
    then show ?thesis using that(1) by (auto simp: depth_ok_def split: flow.splits outcome.splits)
  qed
  ultimately show "mem_rel s s' \<and> r \<noteq> Err Panic \<and> (\<forall>x. r = Ok x \<longrightarrow> vm_ok c s' \<and> flow_ok c x s' \<and> depth_ok bd x s')"
    using safeD(2) [OF assms(1) m] by blast
qed

lemma next_safe:
  "frame_ok c fr \<Longrightarrow> safe c (\<lambda>_. True) m (\<lambda>_ _. True) \<Longrightarrow> safe c (\<lambda>_. True) (ebind m (\<lambda>_ :: unit. eret (Cont fr))) (flow_ok c)"
  by (erule safe_bind) (simp add: safe_ret flow_ok_def)

lemma jump_to_safe: "frame_ok c fr \<Longrightarrow> safe c (\<lambda>_. True) (jump_to c fr target) (flow_ok c)"
  unfolding jump_to_def
  by (rule safe_bind [where Q = "\<lambda>_ _. True"]) (auto simp: poll_gc_safe flow_ok_def frame_ok_def intro!: safe_ret)

lemma jump_if_safe: "frame_ok c fr \<Longrightarrow> safe c (\<lambda>_. True) (jump_if c want fr target) (flow_ok c)"
  unfolding jump_if_def
  by (rule safe_bind [OF safe_on_stack [OF pop_bool_stack_safe]]) (auto simp: jump_to_safe flow_ok_def intro!: safe_ret)

lemma deepens_ops:
  "deepens (exec_call c fr func argc)" "deepens (exec_call_native c fr func argc)" "deepens (exec_call_indirect c fr argc)"
  "deepens (jump_to c fr target)" "deepens (jump_if c want fr target)"
  unfolding exec_call_def exec_call_native_def exec_call_indirect_def jump_to_def jump_if_def
  by (auto intro!: deepens_bind deepens_basic keeps_frames_intros)

lemma exec_return_safe:
  fixes c :: "'e cfg"
  assumes "frame_ok c fr"
  shows "safe c (\<lambda>s. bd \<le> length (frames s)) (exec_return c bd fr) (\<lambda>fl s. flow_ok c fl s \<and> depth_ok bd fl s)"
proof (rule safeI)
  fix s :: "'e vm" and r s' assume m: "exec_return c bd fr s = (r, s')"
  obtain f where f: "get_nth (mod_functions (prog c)) (frame_func fr) = Some f"
    using assms by (auto simp: frame_ok_def get_nth_def)
  show "length (slots_of s) \<le> length (slots_of s')"
    using m f by (auto simp: exec_return_def Let_def split: if_splits)
  assume ok: "vm_ok c s" "bd \<le> length (frames s)"
  have "valid_val (slots_of s) (last (vstack s))" if "n < length (vstack s)" for n
    using ok(1) that by (cases "vstack s = []") (simp_all add: vm_ok_def list_all_iff)
  moreover have "\<forall>x\<in>set (butlast (frames s)). frame_ok c x"
    using ok(1) by (auto simp: vm_ok_def dest: in_set_butlastD)
  ultimately show "mem_rel s s' \<and> r \<noteq> Err Panic \<and> (\<forall>x. r = Ok x \<longrightarrow> vm_ok c s' \<and> flow_ok c x s' \<and> depth_ok bd x s')"
    using m f ok take_drop_valid(1)
    by (auto simp: exec_return_def Let_def flow_ok_def depth_ok_def vm_ok_def mem_rel_def paused_def
        split: if_splits)
qed

text \<open>A condition kept at every depth is kept along with any condition on the depth.\<close>

lemma safe_any_depth:
  fixes c :: "'e cfg"
  assumes "\<And>k. safe c (\<lambda>s. P s \<and> at_depth k s) m (\<lambda>x s. Q x s \<and> at_depth k s)"
  shows "safe c (\<lambda>s. P s \<and> bd \<le> length (frames s)) m (\<lambda>x s. Q x s \<and> bd \<le> length (frames s))"
proof (rule safeI)
  fix s :: "'e vm" and r s' assume m: "m s = (r, s')"
  show "length (slots_of s) \<le> length (slots_of s')" by (rule safeD(1) [OF assms m])
  assume "vm_ok c s" "P s \<and> bd \<le> length (frames s)" "slots_fit (world s')"
  then show "mem_rel s s' \<and> r \<noteq> Err Panic \<and> (\<forall>x. r = Ok x \<longrightarrow> vm_ok c s' \<and> Q x s' \<and> bd \<le> length (frames s'))"
    using safeD(2) [OF assms m, of "length (frames s)"] by simp
qed

definition fallback_safe :: "'e cfg \<Rightarrow> (string \<Rightarrow> val list \<Rightarrow> ('e, val) exec) \<Rightarrow> bool" where
  "fallback_safe c fb \<longleftrightarrow>
     (\<forall>sel args k. safe c (\<lambda>s. (vals_ok (slots_of s) args \<and> args \<noteq> []) \<and> at_depth k s) (fb sel args)
        (\<lambda>v s. valid_val (slots_of s) v \<and> at_depth k s))"

lemma fallback_safe_virtual:
  assumes "calls_safe c callf"
  shows "fallback_safe c (virtual_fallback callf c n)"
  unfolding fallback_safe_def
proof (intro allI)
  fix sel args k
  show "safe c (\<lambda>s. (vals_ok (slots_of s) args \<and> args \<noteq> []) \<and> at_depth k s) (virtual_fallback callf c n sel args)
      (\<lambda>v s. valid_val (slots_of s) v \<and> at_depth k s)"
  proof (cases "args = []")
    case True
    then show ?thesis
      by (auto intro!: safeI simp: virtual_fallback_def get_nth_def with_gc_paused_def ebind_def elift_def
          pause_gc_def resume_gc_def)
  qed (rule safe_conseq [OF virtual_fallback_safe [OF assms]], auto)
qed

lemma fallback_push_safe:
  assumes "fallback_safe c fb" "frame_ok c fr"
  shows "safe c (\<lambda>s. (vals_ok (slots_of s) args \<and> args \<noteq> []) \<and> bd \<le> length (frames s))
      (ebind (fb sel args) (\<lambda>ret. ebind (push ret) (\<lambda>_. eret (Cont fr)))) (\<lambda>fl s. flow_ok c fl s \<and> depth_ok bd fl s)"
proof (rule safe_bind [OF safe_any_depth])
  show "safe c (\<lambda>s. (vals_ok (slots_of s) args \<and> args \<noteq> []) \<and> at_depth k s) (fb sel args)
      (\<lambda>v s. valid_val (slots_of s) v \<and> at_depth k s)" for k
    using assms by (simp add: fallback_safe_def)
  show "safe c (\<lambda>s. valid_val (slots_of s) ret \<and> bd \<le> length (frames s)) (ebind (push ret) (\<lambda>_. eret (Cont fr)))
      (\<lambda>fl s. flow_ok c fl s \<and> depth_ok bd fl s)" for ret
    by (rule safe_bind [OF safe_keeps [OF push_safe keeps_frames_basic(3), where F = "\<lambda>fs. bd \<le> length fs"]])
      (simp add: safe_ret flow_ok_def depth_ok_def assms(2))
qed

lemma split_top_args: "0 < n \<Longrightarrow> stack_safe (\<lambda>st. split_top n msg) (\<lambda>st args. vals_ok st args \<and> args \<noteq> [])"
  using split_top_safe [of n msg]
  by (fastforce simp: stack_safe_def split_top_def split: if_splits)

lemma virtual_target_safe:
  assumes "argc \<noteq> 0"
  shows "stack_safe (\<lambda>st vs.
       if length vs < unat argc then Err (bug ''call.virtual: operand stack underflow'')
       else rbind (or_panic (get_nth vs (length vs - unat argc))) (\<lambda>recv.
              rbind (dispatch_type_id st recv) (\<lambda>ty.
                Ok (Option.bind ty (\<lambda>ty. dispatch_target m ty sel), vs)))) any"
proof (rule stack_safeI)
  fix st vs assume vs: "vals_ok st vs"
  have "safe_res (valid_val st) (or_panic (get_nth vs (length vs - unat argc)))" if "\<not> length vs < unat argc"
  proof -
    have "0 < unat argc" using assms by (simp add: unat_gt_0)
    then have "length vs - unat argc < length vs" using that by linarith
    then show ?thesis using vs by (simp add: get_nth_def nth_valid)
  qed
  then show "safe_res (stack_post st any)
      (if length vs < unat argc then Err (bug ''call.virtual: operand stack underflow'')
       else rbind (or_panic (get_nth vs (length vs - unat argc))) (\<lambda>recv.
              rbind (dispatch_type_id st recv) (\<lambda>ty.
                Ok (Option.bind ty (\<lambda>ty. dispatch_target m ty sel), vs))))"
    using vs by (auto intro!: safe_res_bind [OF _ safe_res_bind [OF dispatch_type_id_safe]])
qed

lemma exec_call_virtual_safe:
  assumes "fallback_safe c fb" "frame_ok c fr" "argc \<noteq> 0"
  shows "safe c (\<lambda>s. bd \<le> length (frames s)) (exec_call_virtual c fb fr sel argc) (\<lambda>fl s. flow_ok c fl s \<and> depth_ok bd fl s)"
proof -
  let ?P = "\<lambda>s. bd \<le> length (frames s)" and ?F = "\<lambda>fs :: frame list. bd \<le> length fs"
  have argc: "0 < unat argc" using assms(3) by (simp add: unat_gt_0)
  have poll: "safe c ?P (poll_gc c) (\<lambda>_. ?P)"
    by (rule safe_conseq [OF safe_keeps [OF poll_gc_safe keeps_frames_basic(6), where F = ?F]]) auto
  have stk: "safe c ?P (on_stack f) (\<lambda>x s. R (slots_of s) x \<and> ?P s)"
    if "stack_safe f R" for f :: "store \<Rightarrow> val list \<Rightarrow> ('x \<times> val list) res" and R
    by (rule safe_conseq [OF safe_keeps [OF safe_on_stack [OF that] keeps_frames_basic(4), where F = ?F]]) auto
  have enter: "safe c ?P (ebind (on_stack (\<lambda>st. enter_frame (prog c) func n)) (enter_call fr))
      (\<lambda>fl s. flow_ok c fl s \<and> depth_ok bd fl s)" for func n
    by (rule safe_deepens [OF safe_bind [OF safe_on_stack [OF enter_frame_stack_safe] enter_call_safe [OF assms(2)]]])
      (intro deepens_bind deepens_basic keeps_frames_basic)
  have fall: "safe c ?P (ebind (on_stack (\<lambda>st. split_top (unat argc) msg)) (\<lambda>args.
      ebind (fb sel args) (\<lambda>ret. ebind (push ret) (\<lambda>_. eret (Cont fr))))) (\<lambda>fl s. flow_ok c fl s \<and> depth_ok bd fl s)" for msg
    by (rule safe_bind [OF stk [OF split_top_args [OF argc]] fallback_push_safe [OF assms(1,2)]])
  show ?thesis
    unfolding exec_call_virtual_def
    by (rule safe_bind [OF poll safe_bind [OF stk [OF virtual_target_safe [OF assms(3)]]]])
      (auto split: option.splits intro: enter fall)
qed

definition instr_safe :: "instr \<Rightarrow> bool" where
  "instr_safe i = (case i of CallVirtual _ argc \<Rightarrow> argc \<noteq> 0 | _ \<Rightarrow> True)"

definition module_safe :: "module \<Rightarrow> bool" where
  "module_safe m \<longleftrightarrow> list_all (\<lambda>f. list_all instr_safe (code f)) (mod_functions m)"

section \<open>One step\<close>

lemma fetch_cases:
  assumes "module_safe (prog c)" "frame_ok c cur"
  obtains (off_end) "rbind (or_panic (get_nth (mod_functions (prog c)) (frame_func cur))) (\<lambda>f.
      ok_or (bug msg) (get_nth (code f) (pc cur))) = Err (bug msg)"
  | (fetched) i where "rbind (or_panic (get_nth (mod_functions (prog c)) (frame_func cur))) (\<lambda>f.
      ok_or (bug msg) (get_nth (code f) (pc cur))) = Ok i" "instr_safe i"
proof -
  let ?f = "mod_functions (prog c) ! frame_func cur"
  have f: "get_nth (mod_functions (prog c)) (frame_func cur) = Some ?f" "?f \<in> set (mod_functions (prog c))"
    using assms(2) by (simp_all add: frame_ok_def get_nth_def)
  have "list_all instr_safe (code ?f)" using assms(1) f(2) by (simp add: module_safe_def list_all_iff)
  then show thesis
    using that f(1) by (cases "get_nth (code ?f) (pc cur)") (auto simp: list_all_iff dest: get_nth_in_set)
qed

lemma deepens_next: "keeps_frames m \<Longrightarrow> deepens (ebind m (\<lambda>_ :: unit. eret (Cont fr)))"
  by (intro deepens_bind deepens_basic)

lemma keeps_frames_ops:
  "keeps_frames (const_str c str)" "keeps_frames (load_slot fr slot)" "keeps_frames (store_slot fr slot)"
  "keeps_frames (get_global idx)" "keeps_frames (set_global idx)" "keeps_frames (enum_new c ty tag n)"
  "keeps_frames (struct_new c ty)" "keeps_frames (field_set c k)" "keeps_frames (list_new c len)"
  "keeps_frames (list_set c)" "keeps_frames (closure_new c func m)"
  unfolding const_str_def load_slot_def store_slot_def get_global_def set_global_def enum_new_def struct_new_def
    field_set_def list_new_def list_set_def closure_new_def
  by (intro keeps_frames_intros keeps_frames_make_obj)+

lemmas op_safe =
  const_str_safe load_slot_safe store_slot_safe get_global_safe set_global_safe enum_new_safe struct_new_safe
  field_set_safe list_new_safe list_set_safe closure_new_safe

text \<open>The instructions that are not operators.\<close>

lemma not_operator:
  assumes "exec_operator m i = None"
  obtains str where "i = ConstStr str" | a where "i = Load a" | a where "i = Store a" | g where "i = GlobalGet g"
  | g where "i = GlobalSet g" | f n where "i = Call f n" | f n where "i = CallNative f n" | n where "i = CallIndirect n"
  | sel n where "i = CallVirtual sel n" | ty tag n where "i = EnumNew ty tag n" | ty where "i = StructNew ty"
  | k where "i = FieldSet k" | n where "i = ListNew n" | "i = ListSet" | f n where "i = ClosureNew f n"
  | t where "i = Jump t" | t where "i = JumpIfTrue t" | t where "i = JumpIfFalse t" | "i = Return"
  using assms
  by (cases i) (simp_all add: exec_operator_def int_binop_def int_unop_def double_binop_def double_unop_def int_cmp_def double_cmp_def)

lemma step_safe:
  fixes c :: "'e cfg"
  assumes "module_safe (prog c)" "\<forall>f\<in>set (natives c). native_safe f" "fallback_safe c fb" "frame_ok c cur"
  shows "safe c (\<lambda>s. bd \<le> length (frames s)) (step c fb bd cur) (\<lambda>fl s. flow_ok c fl s \<and> depth_ok bd fl s)"
    (is "safe c ?P _ ?Q")
proof -
  define fr where "fr = cur\<lparr>pc := pc cur + 1\<rparr>"
  have fr: "frame_ok c fr" using assms(4) by (simp add: fr_def frame_ok_def)
  have nxt: "safe c ?P (ebind m (\<lambda>_ :: unit. eret (Cont fr))) ?Q"
    if "safe c (\<lambda>_. True) m (\<lambda>_ _. True)" "keeps_frames m" for m
    by (rule safe_deepens [OF next_safe [OF fr that(1)] deepens_next [OF that(2)]])
  note steps = nxt [OF const_str_safe keeps_frames_ops(1)] nxt [OF load_slot_safe keeps_frames_ops(2)]
    nxt [OF store_slot_safe keeps_frames_ops(3)] nxt [OF get_global_safe keeps_frames_ops(4)]
    nxt [OF set_global_safe keeps_frames_ops(5)] nxt [OF enum_new_safe keeps_frames_ops(6)]
    nxt [OF struct_new_safe keeps_frames_ops(7)] nxt [OF field_set_safe keeps_frames_ops(8)]
    nxt [OF list_new_safe keeps_frames_ops(9)] nxt [OF list_set_safe keeps_frames_ops(10)]
    nxt [OF closure_new_safe keeps_frames_ops(11)] safe_deepens [OF exec_call_safe [OF fr] deepens_ops(1)]
    safe_deepens [OF exec_call_native_safe [OF assms(2) fr] deepens_ops(2)]
    safe_deepens [OF exec_call_indirect_safe [OF fr] deepens_ops(3)]
    safe_deepens [OF jump_to_safe [OF fr] deepens_ops(4)] safe_deepens [OF jump_if_safe [OF fr] deepens_ops(5)]
    exec_return_safe [OF fr] exec_call_virtual_safe [OF assms(3) fr]
  from assms(1,4) show ?thesis
  proof (cases rule: fetch_cases [where msg = "''pc ran off the end of the instruction stream''"])
    case off_end
    then show ?thesis unfolding step_def by (simp add: safe_def ebind_def elift_def)
  next
    case (fetched i)
    have eret: "elift (Ok i) = (eret i :: ('e, instr) exec)" by (simp add: elift_def eret_def fun_eq_iff)
    show ?thesis
    proof (cases "exec_operator (prog c) i")
      case (Some f)
      then show ?thesis
        unfolding step_def fetched eret ebind_eret fr_def [symmetric] Let_def
        using nxt [OF safe_on_stack [OF exec_operator_safe [OF Some]] keeps_frames_basic(4)] by simp
    next
      case None
      show ?thesis
        unfolding step_def fetched eret ebind_eret fr_def [symmetric] Let_def None option.case
        using fetched(2) by - (rule not_operator [OF None], simp_all add: steps instr_safe_def)
    qed
  qed
qed

section \<open>The loop\<close>

definition outcome_ok :: "'e cfg \<Rightarrow> usize \<Rightarrow> 'e outcome \<Rightarrow> 'e vm \<Rightarrow> bool" where
  "outcome_ok c bd oc s =
     (case oc of
        Finished v \<Rightarrow> valid_val (slots_of s) v \<and> length (frames s) = bd
      | Parked _ \<Rightarrow> frames s \<noteq> [])"

lemma outcome_flow: "flow_ok c (Exit oc) s \<and> depth_ok bd (Exit oc) s \<Longrightarrow> outcome_ok c bd oc s"
  by (auto simp: flow_ok_def depth_ok_def outcome_ok_def split: outcome.splits)

lemma push_frame_safe:
  fixes c :: "'e cfg"
  shows "safe c (\<lambda>s. vals_ok (slots_of s) args \<and> at_depth k s) (on_stack (\<lambda>st. push_frame (prog c) func args))
    (\<lambda>fr s. frame_ok c fr \<and> at_depth k s)"
proof (rule safeI)
  fix s :: "'e vm" and r s' assume m: "on_stack (\<lambda>st. push_frame (prog c) func args) s = (r, s')"
  then show "length (slots_of s) \<le> length (slots_of s')"
    by (auto simp: on_stack_def split: sum.splits prod.splits)
  assume ok: "vm_ok c s" "vals_ok (slots_of s) args \<and> at_depth k s"
  then have "vals_ok (slots_of s) (vstack s @ args)" by (simp add: vm_ok_def)
  from enter_frame_safe [OF this, of "prog c" func "length args"] m ok(1,2)
  show "mem_rel s s' \<and> r \<noteq> Err Panic \<and> (\<forall>fr. r = Ok fr \<longrightarrow> vm_ok c s' \<and> frame_ok c fr \<and> at_depth k s')"
    by (auto simp: on_stack_def push_frame_def vm_ok_def frame_ok_def mem_rel_def paused_def split: sum.splits prod.splits)
qed

text \<open>The loop at every depth: what \<open>call\<close> needs of it.\<close>

definition loop_safe :: "'e cfg \<Rightarrow> (usize \<Rightarrow> frame \<Rightarrow> ('e, 'e outcome) exec) \<Rightarrow> bool" where
  "loop_safe c loop \<longleftrightarrow>
     (\<forall>bd fr. safe c (\<lambda>s. frame_ok c fr \<and> bd \<le> length (frames s)) (loop bd fr) (outcome_ok c bd))"

lemma call_body_safe:
  fixes c :: "'e cfg"
  assumes "loop_safe c loop"
  shows "safe c (\<lambda>s. frame_ok c fr \<and> at_depth k s)
     (\<lambda>s. ebind (loop (length (frames s)) fr) (\<lambda>oc.
         elift (case oc of
                  Finished v \<Rightarrow> Ok v
                | Parked _ \<Rightarrow> Err (bug ''fiber parked in a non-schedulable context''))) s)
     (\<lambda>v s. valid_val (slots_of s) v \<and> at_depth k s)"
proof -
  let ?f = "\<lambda>oc :: 'e outcome. elift (case oc of
                  Finished v \<Rightarrow> Ok v
                | Parked _ \<Rightarrow> Err (bug ''fiber parked in a non-schedulable context'')) :: ('e, val) exec"
  have tail: "safe c (outcome_ok c k oc) (?f oc) (\<lambda>v s. valid_val (slots_of s) v \<and> at_depth k s)" for oc k
    by (cases oc) (auto intro!: safe_lift simp: outcome_ok_def)
  have body: "safe c (\<lambda>s. frame_ok c fr \<and> k \<le> length (frames s)) (ebind (loop k fr) ?f)
      (\<lambda>v s. valid_val (slots_of s) v \<and> at_depth k s)" for k
    using assms by (intro safe_bind [OF _ tail]) (simp add: loop_safe_def)
  show ?thesis
  proof (rule safeI)
    fix s :: "'e vm" and r s' assume m: "ebind (loop (length (frames s)) fr) ?f s = (r, s')"
    show "length (slots_of s) \<le> length (slots_of s')" by (rule safeD(1) [OF body m])
    assume "vm_ok c s" "frame_ok c fr \<and> at_depth k s" "slots_fit (world s')"
    then show "mem_rel s s' \<and> r \<noteq> Err Panic \<and>
        (\<forall>x. r = Ok x \<longrightarrow> vm_ok c s' \<and> valid_val (slots_of s') x \<and> at_depth k s')"
      using safeD(2) [OF body m] by simp
  qed
qed

lemma call_safe: "loop_safe c loop \<Longrightarrow> calls_safe c (call loop c)"
  unfolding calls_safe_def call_def by (intro allI safe_bind [OF push_frame_safe call_body_safe])

lemma run_loop_safe:
  fixes c :: "'e cfg"
  assumes "module_safe (prog c)" "\<forall>f\<in>set (natives c). native_safe f"
  shows "loop_safe c (run_loop c n)"
proof (induction n)
  case 0
  show ?case by (auto simp: loop_safe_def intro!: safe_lift)
next
  case (Suc n)
  let ?fb = "virtual_fallback (call (run_loop c n) c) c n"
  have fb: "fallback_safe c ?fb" by (rule fallback_safe_virtual [OF call_safe [OF Suc.IH]])
  have tail: "safe c (\<lambda>s. flow_ok c fl s \<and> depth_ok bd fl s)
      (case fl of Cont fr' \<Rightarrow> run_loop c n bd fr' | Exit oc \<Rightarrow> eret oc) (outcome_ok c bd)" for bd and fl :: "'e flow"
  proof (cases fl)
    case (Cont fr)
    have "safe c (\<lambda>s. frame_ok c fr \<and> bd \<le> length (frames s)) (run_loop c n bd fr) (outcome_ok c bd)"
      using Suc.IH by (simp add: loop_safe_def)
    then show ?thesis using Cont by (auto simp: flow_ok_def depth_ok_def elim: safe_conseq)
  next
    case (Exit oc)
    then show ?thesis by (auto intro!: safe_ret outcome_flow)
  qed
  show ?case
    unfolding loop_safe_def run_loop.simps
  proof (intro allI)
    fix bd fr
    show "safe c (\<lambda>s. frame_ok c fr \<and> bd \<le> length (frames s))
        (ebind (step c ?fb bd fr) (\<lambda>fl. case fl of Cont fr' \<Rightarrow> run_loop c n bd fr' | Exit oc \<Rightarrow> eret oc)) (outcome_ok c bd)"
    proof (cases "frame_ok c fr")
      case True
      show ?thesis by (rule safe_conseq [OF safe_bind [OF step_safe [OF assms fb True] tail]]) auto
    next
      case False
      then show ?thesis by (auto simp: safe_def step_def frame_ok_def get_nth_def ebind_def elift_def)
    qed
  qed
qed

end
