(* ===== verification/RunFuel.thy ===== *)
theory RunFuel
  imports Interp
begin

text \<open>
  The fuel of \<open>run_loop\<close> and \<open>debug_value\<close> only bounds the number of steps: a run that ends with
  some fuel ends with the same result and state under any larger fuel, so a result does not
  depend on the fuel it was computed with.
\<close>

definition agrees :: "('e, 'a) exec \<Rightarrow> ('e, 'a) exec \<Rightarrow> bool" where
  "agrees m m' \<longleftrightarrow> (\<forall>s. fst (m s) \<noteq> Err Diverge \<longrightarrow> m' s = m s)"

lemma agrees_refl [simp]: "agrees m m"
  by (simp add: agrees_def)

lemma agrees_diverge [simp]: "agrees (elift (Err Diverge)) m"
  by (simp add: agrees_def elift_def)

lemma agrees_trans: "agrees a b \<Longrightarrow> agrees b c \<Longrightarrow> agrees a c"
  by (simp add: agrees_def)

lemma agrees_bind:
  assumes "agrees m m'" "\<And>x. agrees (f x) (f' x)"
  shows "agrees (ebind m f) (ebind m' f')"
  unfolding agrees_def
proof (intro allI impI)
  fix s assume d: "fst (ebind m f s) \<noteq> Err Diverge"
  obtain r s1 where m: "m s = (r, s1)" by fastforce
  with d have "r \<noteq> Err Diverge" by (auto simp: ebind_def)
  then have "m' s = (r, s1)" using assms(1) m by (simp add: agrees_def)
  then show "ebind m' f' s = ebind m f s"
    using assms(2) d m by (cases r) (simp_all add: ebind_def agrees_def)
qed

lemma agrees_read:
  "(\<And>s. fst (f s) \<noteq> Err Diverge \<Longrightarrow> f' s = f s) \<Longrightarrow> agrees f f'"
  by (simp add: agrees_def)

lemma agrees_emap: "(\<And>x. agrees (f x) (f' x)) \<Longrightarrow> agrees (emap f xs) (emap f' xs)"
  by (induction xs) (simp_all add: agrees_bind)

lemma agrees_debug_obj:
  assumes "\<And>v. agrees (d v) (d' v)"
  shows "agrees (debug_obj m d obj) (debug_obj m d' obj)"
proof -
  have pairs: "agrees ((\<lambda>(k, x). ebind (d k) (\<lambda>ks. ebind (d x) (\<lambda>vs. eret (g ks vs)))) p)
      ((\<lambda>(k, x). ebind (d' k) (\<lambda>ks. ebind (d' x) (\<lambda>vs. eret (g ks vs)))) p)" for p and g :: "string \<Rightarrow> string \<Rightarrow> string"
    by (cases p) (simp add: agrees_bind assms)
  have named: "agrees ((\<lambda>(n, x). ebind (d x) (\<lambda>t. eret (g n t))) p) ((\<lambda>(n, x). ebind (d' x) (\<lambda>t. eret (g n t))) p)"
    for p :: "string \<times> val" and g :: "string \<Rightarrow> string \<Rightarrow> string"
    by (cases p) (simp add: agrees_bind assms)
  show ?thesis
    by (cases obj)
      (auto simp: debug_obj_def Let_def intro!: agrees_bind agrees_emap assms pairs named split: option.splits)
qed

lemma agrees_debug_value:
  assumes "\<And>func args. agrees (cf func args) (cf' func args)"
  shows "n \<le> n' \<Longrightarrow> agrees (debug_value cf c n v) (debug_value cf' c n' v)"
proof (induction n arbitrary: n' v)
  case (Suc n)
  then obtain k where k: "n' = Suc k" "n \<le> k" by (cases n') auto
  note IH = Suc.IH [OF k(2)]
  show ?case
    unfolding k(1) debug_value.simps
    by (intro agrees_bind agrees_refl)
      (auto split: option.splits "val.splits" intro!: agrees_bind assms agrees_debug_obj IH)
qed simp

lemma agrees_gc_paused: "agrees m m' \<Longrightarrow> agrees (with_gc_paused m) (with_gc_paused m')"
  unfolding agrees_def with_gc_paused_def by (auto simp: Let_def split: prod.splits)

lemma agrees_if: "agrees a a' \<Longrightarrow> agrees b b' \<Longrightarrow> agrees (if t then a else b) (if t then a' else b')"
  by simp

lemma agrees_fallback:
  assumes "\<And>func args. agrees (cf func args) (cf' func args)" "n \<le> n'"
  shows "agrees (virtual_fallback cf c n sel args) (virtual_fallback cf' c n' sel args)"
  unfolding virtual_fallback_def
  by (intro agrees_gc_paused agrees_bind agrees_refl agrees_if agrees_debug_value assms)

lemma agrees_step:
  assumes "\<And>sel args. agrees (fb sel args) (fb' sel args)"
  shows "agrees (step c fb bd fr) (step c fb' bd fr)"
proof -
  have virt: "agrees (exec_call_virtual c fb fr sel argc) (exec_call_virtual c fb' fr sel argc)" for fr sel argc
    unfolding exec_call_virtual_def
    by (intro agrees_bind agrees_refl) (auto split: option.splits intro!: agrees_bind assms)
  show ?thesis
    unfolding step_def Let_def
    by (intro agrees_bind agrees_refl) (auto split: option.splits instr.splits simp: virt)
qed

lemma agrees_call:
  assumes "\<And>bd fr. agrees (loop bd fr) (loop' bd fr)"
  shows "agrees (call loop c func args) (call loop' c func args)"
  unfolding call_def
proof (intro agrees_bind agrees_refl agrees_read)
  fix fr s
  let ?g = "\<lambda>oc. elift (case oc of
      Finished v \<Rightarrow> Ok v | Parked _ \<Rightarrow> Err (bug ''fiber parked in a non-schedulable context''))"
  assume "fst (ebind (loop (length (frames s)) fr) ?g s) \<noteq> Err Diverge"
  moreover have "agrees (ebind (loop (length (frames s)) fr) ?g) (ebind (loop' (length (frames s)) fr) ?g)"
    by (intro agrees_bind assms agrees_refl)
  ultimately show "ebind (loop' (length (frames s)) fr) ?g s = ebind (loop (length (frames s)) fr) ?g s"
    by (simp add: agrees_def)
qed

lemma agrees_run_loop: "n \<le> n' \<Longrightarrow> agrees (run_loop c n bd fr) (run_loop c n' bd fr)"
proof (induction n arbitrary: n' bd fr)
  case (Suc n)
  then obtain k where k: "n' = Suc k" "n \<le> k" by (cases n') auto
  note IH = Suc.IH [OF k(2)]
  show ?case
    unfolding k(1) run_loop.simps
    by (intro agrees_bind agrees_step agrees_fallback agrees_call IH k(2)) (auto split: flow.splits intro: IH)
qed simp

end
