(* ===== verification/OpFacts.thy ===== *)
theory OpFacts
  imports Interp
begin

text \<open>
  Facts on the arithmetic of the instruction set: truncated division and remainder, and
  where the 64-bit wrap-around shows.
\<close>

lemma trunc_div_rem:
  assumes "b \<noteq> 0"
  shows "\<bar>a - b * trunc_div a b\<bar> < \<bar>b\<bar>"
    and "a - b * trunc_div a b = 0 \<or> (a - b * trunc_div a b < 0 \<longleftrightarrow> a < 0)"
    and "\<bar>trunc_div a b\<bar> \<le> \<bar>a\<bar>"
proof -
  let ?q = "\<bar>a\<bar> div \<bar>b\<bar>" and ?r = "\<bar>a\<bar> mod \<bar>b\<bar>"
  have b: "0 < \<bar>b\<bar>" using assms by simp
  have r: "0 \<le> ?r" "?r < \<bar>b\<bar>" using b by simp_all
  have "b * trunc_div a b = (if a < 0 then - (\<bar>b\<bar> * ?q) else \<bar>b\<bar> * ?q)"
    by (auto simp: trunc_div_def abs_if)
  then have "a - b * trunc_div a b = (if a < 0 then - (\<bar>a\<bar> - \<bar>b\<bar> * ?q) else \<bar>a\<bar> - \<bar>b\<bar> * ?q)"
    by (cases "a < 0") (simp_all only: if_True if_False, simp_all)
  then have rem: "a - b * trunc_div a b = (if a < 0 then - ?r else ?r)"
    unfolding minus_mult_div_eq_mod .
  show "\<bar>a - b * trunc_div a b\<bar> < \<bar>b\<bar>" using rem r by simp
  show "a - b * trunc_div a b = 0 \<or> (a - b * trunc_div a b < 0 \<longleftrightarrow> a < 0)" using rem r by auto
  have "?q \<le> \<bar>a\<bar>" using b zdiv_mono2 [of "\<bar>a\<bar>" 1 "\<bar>b\<bar>"] by simp
  moreover have "0 \<le> ?q" using b by (simp add: pos_imp_zdiv_nonneg_iff)
  ultimately show "\<bar>trunc_div a b\<bar> \<le> \<bar>a\<bar>" by (simp add: trunc_div_def)
qed

lemma sint_of_int64: "- (2 ^ 63) \<le> i \<Longrightarrow> i < 2 ^ 63 \<Longrightarrow> sint (word_of_int i :: i64) = i"
  by (simp add: sint_sbintrunc' signed_take_bit_int_eq_self)

lemma sint_range64: "- (2 ^ 63) \<le> sint (a :: i64)" "sint (a :: i64) < 2 ^ 63"
  using sint_greater_eq [of a] sint_less [of a] by simp_all

lemma trunc_div_overflow:
  assumes "- (2 ^ 63) \<le> a" "a < 2 ^ 63" "b \<noteq> 0" "\<not> (a = - (2 ^ 63) \<and> b = -1)"
  shows "- (2 ^ 63) \<le> trunc_div a b \<and> trunc_div a b < 2 ^ 63"
proof -
  have q: "\<bar>trunc_div a b\<bar> \<le> \<bar>a\<bar>" by (rule trunc_div_rem(3) [OF assms(3)])
  have "trunc_div a b \<noteq> 2 ^ 63"
  proof
    assume e: "trunc_div a b = 2 ^ 63"
    then have a: "a = - (2 ^ 63)" using q assms(1,2) by simp
    then have "trunc_div a b = (if b < 0 then (2 ^ 63) div \<bar>b\<bar> else - (2 ^ 63 div \<bar>b\<bar>))" by (simp add: trunc_div_def)
    moreover have "0 \<le> 2 ^ 63 div \<bar>b\<bar>" by (simp add: pos_imp_zdiv_nonneg_iff assms(3))
    ultimately have b: "b < 0" "2 ^ 63 div \<bar>b\<bar> = (2 ^ 63 :: int)" using e by (auto split: if_splits)
    then have "\<bar>b\<bar> = 1" using int_div_less_self [of "2 ^ 63" "\<bar>b\<bar>"] by (cases "\<bar>b\<bar> = 1") auto
    then show False using a b(1) assms(4) by auto
  qed
  then show ?thesis using q assms(1,2) by linarith
qed

lemma wrapping_div_rem:
  assumes "b \<noteq> 0"
  shows "wrapping_div a b * b + wrapping_rem a b = a \<and>
    \<bar>sint (wrapping_rem a b)\<bar> < \<bar>sint b\<bar> \<and>
    (sint (wrapping_rem a b) = 0 \<or> (sint (wrapping_rem a b) < 0 \<longleftrightarrow> sint a < 0)) \<and>
    (if sint a = - (2 ^ 63) \<and> b = -1 then wrapping_div a b = a
     else sint (wrapping_div a b) = trunc_div (sint a) (sint b))"
proof -
  let ?a = "sint a" and ?b = "sint b"
  let ?q = "trunc_div ?a ?b"
  have b: "?b \<noteq> 0" using assms by (metis sint_0 signed_word_eqI)
  note rem = trunc_div_rem [OF b, of ?a]
  have r: "sint (wrapping_rem a b) = ?a - ?b * ?q"
    unfolding wrapping_rem_def using rem(1) sint_range64 [of b] by (intro sint_of_int64) linarith+
  have "wrapping_div a b * b + wrapping_rem a b = word_of_int (?q * ?b + (?a - ?b * ?q))"
    unfolding wrapping_div_def wrapping_rem_def wi_hom_syms by simp
  then have "wrapping_div a b * b + wrapping_rem a b = a" by (simp add: mult.commute)
  moreover have "wrapping_div a b = a" if "?a = - (2 ^ 63)" "b = -1"
  proof -
    have "?q = 2 ^ 63" using that by (simp add: trunc_div_def)
    moreover have "a = word_of_int (- (2 ^ 63))" using that(1) by (metis scast_eq scast_id)
    ultimately show ?thesis by (simp add: wrapping_div_def)
  qed
  moreover have "sint (wrapping_div a b) = ?q" if "\<not> (?a = - (2 ^ 63) \<and> b = -1)"
  proof -
    have "?b = -1 \<Longrightarrow> b = -1" by (metis signed_word_eqI sint_n1)
    then have "- (2 ^ 63) \<le> ?q \<and> ?q < 2 ^ 63"
      using that by (intro trunc_div_overflow sint_range64 b) auto
    then show ?thesis unfolding wrapping_div_def by (intro sint_of_int64) auto
  qed
  ultimately show ?thesis using rem(1,2) r by auto
qed

end
