(* ===== verification/WorldRel.thy ===== *)
theory WorldRel
  imports RunSafe
begin

text \<open>
  What natives do to the world is all that the loop does to it, the heap and the park cell
  aside: a reflexive and transitive relation between worlds that ignores these two and that
  every native respects is respected by a whole run.
\<close>

locale world_rel =
  fixes R :: "'e world \<Rightarrow> 'e world \<Rightarrow> bool"
  assumes R_refl: "R w w"
    and R_trans: "R w w1 \<Longrightarrow> R w1 w2 \<Longrightarrow> R w w2"
    and R_mem: "R w (w\<lparr>mem := m\<rparr>)"
    and R_park: "R w (w\<lparr>park_cell := None\<rparr>)"
begin

definition steps :: "('e, 'a) exec \<Rightarrow> bool" where
  "steps m \<longleftrightarrow> (\<forall>s r s'. m s = (r, s') \<longrightarrow> R (world s) (world s'))"

lemma stepsD: "steps m \<Longrightarrow> m s = (r, s') \<Longrightarrow> R (world s) (world s')"
  by (simp add: steps_def)

lemma steps_bind:
  assumes "steps m" "\<And>x. steps (f x)"
  shows "steps (ebind m f)"
  unfolding steps_def
proof (intro allI impI)
  fix s r s' assume run: "ebind m f s = (r, s')"
  obtain r1 s1 where m: "m s = (r1, s1)" by fastforce
  then have 1: "R (world s) (world s1)" by (rule stepsD [OF assms(1)])
  show "R (world s) (world s')"
  proof (cases r1)
    case (Inl e)
    then show ?thesis using run m 1 by (simp add: ebind_def)
  next
    case (Inr x)
    then have "f x s1 = (r, s')" using run m by (simp add: ebind_def)
    then show ?thesis using R_trans [OF 1] stepsD [OF assms(2)] by blast
  qed
qed

lemma steps_basic:
  "steps (eret x)" "steps (elift r)" "steps (push v)" "steps (on_stack f)" "steps (on_mem g)" "steps (\<lambda>s. (h s, s))"
  by (auto simp: steps_def eret_def elift_def push_def on_stack_def on_mem_def R_refl R_mem Let_def
      split: sum.splits prod.splits)

lemma steps_poll: "steps (poll_gc c)"
  by (auto simp: steps_def poll_gc_def Let_def R_refl R_mem split: if_splits option.splits)

lemma steps_enter_call: "steps (enter_call fr callee)"
  by (auto simp: steps_def enter_call_def R_refl split: if_splits)

lemma steps_return: "steps (exec_return c bd fr)"
  by (auto simp: steps_def exec_return_def Let_def R_refl split: if_splits option.splits)

lemma steps_paused:
  assumes "steps m"
  shows "steps (with_gc_paused m)"
  unfolding steps_def
proof (intro allI impI)
  fix s r s'' assume "with_gc_paused m s = (r, s'')"
  then obtain s' where m: "m (s\<lparr>world := (world s)\<lparr>mem := pause_gc (mem (world s))\<rparr>\<rparr>) = (r, s')"
    and s'': "s'' = s'\<lparr>world := (world s')\<lparr>mem := resume_gc (mem (world s'))\<rparr>\<rparr>"
    by (auto simp: with_gc_paused_def split: prod.splits)
  have "R (world s) (world s')" using R_trans [OF R_mem stepsD [OF assms m, simplified]] .
  then show "R (world s) (world s'')" unfolding s'' by (simp add: R_trans [OF _ R_mem])
qed

lemmas steps_intros = steps_bind steps_basic steps_poll steps_enter_call steps_paused

lemma steps_emap: "(\<And>x. steps (f x)) \<Longrightarrow> steps (emap f xs)"
  by (induction xs) (simp_all add: steps_intros)

lemma steps_debug_obj:
  assumes "\<And>v. steps (d v)"
  shows "steps (debug_obj m d obj)"
  by (cases obj)
    (auto simp: debug_obj_def Let_def intro!: steps_intros steps_emap assms split: option.splits prod.splits)

lemma steps_debug_value:
  assumes "\<And>func args. steps (callf func args)"
  shows "steps (debug_value callf c n v)"
proof (induction n arbitrary: v)
  case (Suc n)
  show ?case
    unfolding debug_value.simps
    by (intro steps_intros) (auto split: option.splits "val.splits" intro!: steps_intros steps_debug_obj Suc.IH assms)
qed (simp add: steps_basic)

lemma steps_if: "steps a \<Longrightarrow> steps b \<Longrightarrow> steps (if t then a else b)"
  by simp

lemma steps_two: "(\<And>a b. steps (f a b)) \<Longrightarrow> steps m \<Longrightarrow> steps (case xs of [a, b] \<Rightarrow> f a b | _ \<Rightarrow> m)"
  by (auto split: list.splits)

lemma steps_fallback:
  assumes "\<And>func args. steps (callf func args)"
  shows "steps (virtual_fallback callf c n sel args)"
  unfolding virtual_fallback_def new_obj_def
  by (intro steps_paused steps_bind steps_if steps_two steps_basic steps_debug_value assms)

definition natives_rel :: "'e cfg \<Rightarrow> bool" where
  "natives_rel c \<longleftrightarrow> (\<forall>f\<in>set (natives c). \<forall>args w. R w (snd (f args w)))"

lemma natives_relD: "natives_rel c \<Longrightarrow> f \<in> set (natives c) \<Longrightarrow> f args w = (r, w') \<Longrightarrow> R w w'"
  by (metis natives_rel_def snd_conv)

lemma steps_run_native:
  assumes "natives_rel c"
  shows "steps (run_native c fr native argc)"
  unfolding steps_def
proof (intro allI impI)
  fix s r s' assume "run_native c fr native argc s = (r, s')"
  then show "R (world s) (world s')"
  proof (cases rule: run_native_cases)
    case (ret f v w b)
    show ?thesis unfolding ret(3) by (rule R_trans [OF natives_relD [OF assms ret(1,2)] R_park])
  next
    case (fault f e w b)
    then show ?thesis using natives_relD [OF assms] by simp
  qed (simp add: R_refl)
qed

lemma steps_step:
  assumes "natives_rel c"
    and "\<And>sel args. steps (fb sel args)"
  shows "steps (step c fb bd fr)"
proof -
  note native = steps_run_native [of c, OF assms(1)]
  show ?thesis
    unfolding step_def Let_def
    by (intro steps_intros)
      (auto split: option.splits instr.splits
        simp: const_str_def load_slot_def store_slot_def get_global_def set_global_def enum_new_def struct_new_def
          field_set_def list_new_def list_set_def closure_new_def make_obj_def new_obj_def exec_call_def
          exec_call_native_def exec_call_indirect_def exec_call_virtual_def jump_to_def jump_if_def
        intro!: steps_intros steps_return native assms(2))
qed

lemma steps_call:
  assumes "\<And>bd fr. steps (loop bd fr)"
  shows "steps (call loop c func args)"
  unfolding call_def
proof (rule steps_bind [OF steps_basic(4)])
  fix fr
  let ?g = "\<lambda>oc :: 'e outcome. elift (case oc of Finished v \<Rightarrow> Ok v
      | Parked _ \<Rightarrow> Err (bug ''fiber parked in a non-schedulable context''))"
  have "steps (ebind (loop k fr) ?g)" for k by (intro steps_bind assms steps_basic)
  then show "steps (\<lambda>s. ebind (loop (length (frames s)) fr) ?g s)" by (simp add: steps_def)
qed

lemma steps_run_loop:
  assumes "natives_rel c"
  shows "steps (run_loop c n bd fr)"
proof (induction n arbitrary: bd fr)
  case (Suc n)
  show ?case
    unfolding run_loop.simps
    by (intro steps_bind steps_step [OF assms] steps_fallback steps_call Suc.IH)
      (auto split: flow.splits intro: Suc.IH steps_basic)
qed (simp add: steps_basic)

end

end
