(* ===== verification/SchedEffect.thy ===== *)
theory SchedEffect
  imports SchedRun
begin

text \<open>
  What each scheduler operation does to the fibers' states, to the jobs they wait for and to
  the channels. Waking only moves identifiers between lists; the other operations change the
  one fiber they are about.
\<close>

definition states :: "'p scheduler \<Rightarrow> fiber_state list" where
  "states s = map fstate (fibers s)"

definition pends :: "'p scheduler \<Rightarrow> 'p io_finish option list" where
  "pends s = map pending (fibers s)"

lemma length_states [simp]: "length (states s) = length (fibers s)" "length (pends s) = length (fibers s)"
  by (simp_all add: states_def pends_def)

lemma nth_states [simp]:
  "i < length (fibers s) \<Longrightarrow> states s ! i = fstate (fibers s ! i)"
  "i < length (fibers s) \<Longrightarrow> pends s ! i = pending (fibers s ! i)"
  by (simp_all add: states_def pends_def)

lemma list_update_nth_same: "(i < length xs \<Longrightarrow> x = xs ! i) \<Longrightarrow> xs[i := x] = xs"
  by (cases "i < length xs") (simp_all add: list_update_beyond)

lemma update_same [simp]:
  "(states s)[i := fstate (fibers s ! i)] = states s" "(pends s)[i := pending (fibers s ! i)] = pends s"
  by (rule list_update_nth_same, simp)+

text \<open>Operations that touch neither the states, nor the jobs, nor the channels.\<close>

definition same_core :: "'p scheduler \<Rightarrow> 'p scheduler \<Rightarrow> bool" where
  "same_core s s' \<longleftrightarrow> states s' = states s \<and> pends s' = pends s \<and> channels s' = channels s"

lemma same_core_refl [simp]: "same_core s s"
  by (simp add: same_core_def)

lemma same_core_trans: "same_core a b \<Longrightarrow> same_core b c \<Longrightarrow> same_core a c"
  by (simp add: same_core_def)

lemma upd_fiber_core:
  assumes "upd_fiber i f s = Some s'"
  shows "states s' = (states s)[i := fstate (f (fibers s ! i))] \<and> pends s' = (pends s)[i := pending (f (fibers s ! i))] \<and>
    channels s' = channels s \<and> i < length (fibers s)"
  using assms by (auto simp: upd_fiber_def states_def pends_def map_update split: if_splits)

lemma upd_fiber_same:
  assumes "upd_fiber i f s = Some s'" "\<And>x. fstate (f x) = fstate x" "\<And>x. pending (f x) = pending x"
  shows "same_core s s'"
  using upd_fiber_core [OF assms(1)] assms(2,3) by (simp add: same_core_def)

lemma core_lists [simp]:
  "same_core (s\<lparr>ready := r\<rparr>) s' = same_core s s'" "same_core s (s'\<lparr>ready := r\<rparr>) = same_core s s'"
  "same_core (s\<lparr>blocked := b\<rparr>) s' = same_core s s'" "same_core s (s'\<lparr>blocked := b\<rparr>) = same_core s s'"
  "same_core (s\<lparr>timers := t\<rparr>) s' = same_core s s'" "same_core s (s'\<lparr>timers := t\<rparr>) = same_core s s'"
  "same_core (s\<lparr>poll_blocked := p\<rparr>) s' = same_core s s'" "same_core s (s'\<lparr>poll_blocked := p\<rparr>) = same_core s s'"
  "same_core (s\<lparr>io_blocked := n\<rparr>) s' = same_core s s'" "same_core s (s'\<lparr>io_blocked := n\<rparr>) = same_core s s'"
  by (simp_all add: same_core_def states_def pends_def)

lemma make_ready_core: "make_ready s i = Some s' \<Longrightarrow> same_core s s'"
  by (auto simp: make_ready_def Option.bind_eq_Some_conv split: if_splits dest!: upd_fiber_same)

lemma wake_core: "try_fold make_ready s is = Some s' \<Longrightarrow> same_core s s'"
proof (induction "is" arbitrary: s)
  case (Cons i "is")
  then obtain s1 where "make_ready s i = Some s1" "try_fold make_ready s1 is = Some s'"
    by (auto simp: Option.bind_eq_Some_conv)
  then show ?case using same_core_trans make_ready_core Cons.IH by blast
qed simp

lemma wake_all_core: "wake_all s = Some s' \<Longrightarrow> same_core s s'"
  unfolding wake_all_def by (drule wake_core) simp

lemma wake_poll_core: "wake_poll h s = Some s' \<Longrightarrow> same_core s s'"
  unfolding wake_poll_def by (auto split: option.splits dest: wake_core)

lemma wake_due_timers_core: "wake_due_timers now s = Some (b, s') \<Longrightarrow> same_core s s'"
  unfolding wake_due_timers_def by (auto simp: Let_def dest: wake_core)

lemma fold_same_core: "(\<And>x s. same_core s (f x s)) \<Longrightarrow> same_core s (fold f xs s)"
  by (induction xs arbitrary: s) (auto intro: same_core_trans)

lemma poll_push_core: "same_core s (poll_push i h s)"
  by (simp add: poll_push_def)

lemma poll_drop_core: "same_core s (poll_drop i h s)"
  by (simp add: poll_drop_def Let_def split: option.splits)

lemma unlist_core: "unlist i s = Some s' \<Longrightarrow> same_core s s'"
  by (auto simp: unlist_def Let_def Option.bind_eq_Some_conv split: option.splits
      dest!: upd_fiber_same intro!: same_core_trans [OF _ fold_same_core] poll_drop_core)

lemma spawn_core:
  assumes "spawn closure s = Some (i, s')"
  shows "i = length (fibers s) \<and> states s' = states s @ [NotStarted closure] \<and> pends s' = pends s @ [None] \<and> channels s' = channels s"
  using assms by (auto simp: spawn_def Let_def states_def pends_def dest!: make_ready_core simp: same_core_def)

lemma complete_core:
  assumes "complete i v s = Some s'"
  shows "states s' = (states s)[i := Done v] \<and> pends s' = pends s \<and> channels s' = channels s \<and> i < length (fibers s)"
  using assms by (auto simp: complete_def Option.bind_eq_Some_conv same_core_def dest!: upd_fiber_core wake_all_core)

lemma park_core:
  assumes "park i vs fr req s = Some s'"
  shows "states s' = (states s)[i := Suspended vs fr] \<and> pends s' = pends s \<and> channels s' = channels s \<and> i < length (fibers s)"
proof -
  obtain s1 where s1: "upd_fiber i (\<lambda>f. f\<lparr>fstate := Suspended vs fr\<rparr>) s = Some s1"
    using assms by (auto simp: park_def Option.bind_eq_Some_conv)
  then have 1: "states s1 = (states s)[i := Suspended vs fr]" "pends s1 = pends s" "channels s1 = channels s"
    "i < length (fibers s)"
    using upd_fiber_core [OF s1] by simp_all
  have "same_core s1 s'"
  proof (cases req)
    case (Multi deadline handles)
    let ?s = "case deadline of Some d \<Rightarrow> s1\<lparr>blocked := blocked s1 @ [i], timers := timers s1 @ [(d, i)]\<rparr>
      | None \<Rightarrow> s1\<lparr>blocked := blocked s1 @ [i]\<rparr>"
    have up: "upd_fiber i (\<lambda>f. f\<lparr>park_sources := Some \<lparr>src_timer = (deadline \<noteq> None), src_handles = handles\<rparr>\<rparr>)
        (fold (poll_push i) handles ?s) = Some s'"
      using assms s1 Multi by (cases deadline) (simp_all add: park_def Let_def)
    have "same_core s1 ?s" by (cases deadline) simp_all
    then show ?thesis
      using same_core_trans [OF same_core_trans [OF _ fold_same_core [OF poll_push_core]] upd_fiber_same [OF up]] by simp
  qed (use assms s1 make_ready_core poll_push_core in \<open>auto simp: park_def\<close>)
  then show ?thesis using 1 by (simp add: same_core_def)
qed

lemma park_io_core:
  assumes "park_io i vs fr fin s = Some s'"
  shows "states s' = (states s)[i := Suspended vs fr] \<and> pends s' = (pends s)[i := Some fin] \<and> channels s' = channels s \<and>
    i < length (fibers s)"
proof -
  obtain s1 where s1: "upd_fiber i (\<lambda>f. f\<lparr>fstate := Suspended vs fr, pending := Some fin\<rparr>) s = Some s1"
    "s' = s1\<lparr>io_blocked := io_blocked s1 + 1\<rparr>"
    using assms by (auto simp: park_io_def)
  have "same_core s1 s'" by (simp add: s1(2))
  then show ?thesis using upd_fiber_core [OF s1(1)] by (simp add: same_core_def)
qed

lemma take_pending_core:
  assumes "take_pending i s = Some (fin, s')"
  shows "states s' = states s \<and> pends s' = (pends s)[i := None] \<and> channels s' = channels s \<and> i < length (fibers s) \<and>
    pends s ! i = Some fin"
  using assms by (auto simp: take_pending_def Option.bind_eq_Some_conv get_nth_Some dest!: upd_fiber_core)

lemma deliver_core:
  assumes "deliver i v s = Some s'"
  shows "\<exists>vs fr. states s ! i = Suspended vs fr \<and> states s' = (states s)[i := Suspended (butlast vs @ [v]) fr] \<and>
    pends s' = pends s \<and> channels s' = channels s \<and> i < length (fibers s)"
proof -
  obtain f where f0: "get_nth (fibers s) i = Some f" using assms by (auto simp: deliver_def Option.bind_eq_Some_conv)
  then obtain vs fr where f1: "fstate f = Suspended vs fr" using assms by (cases "fstate f") (auto simp: deliver_def)
  obtain s1 where f: "get_nth (fibers s) i = Some f" "fstate f = Suspended vs fr"
    "upd_fiber i (\<lambda>f. f\<lparr>fstate := Suspended (butlast vs @ [v]) fr\<rparr>) s = Some s1"
    "make_ready (s1\<lparr>io_blocked := io_blocked s1 - 1\<rparr>) i = Some s'"
    using assms f0 f1 by (auto simp: deliver_def Option.bind_eq_Some_conv split: if_splits)
  have "same_core s1 s'" using make_ready_core [OF f(4)] by simp
  then show ?thesis using upd_fiber_core [OF f(3)] f(1,2) by (auto simp: same_core_def get_nth_Some)
qed

lemma dequeue_core:
  assumes "dequeue s = Some (Some (i, st), s')"
  shows "states s' = (states s)[i := Running] \<and> pends s' = pends s \<and> channels s' = channels s \<and>
    i < length (fibers s) \<and> st = states s ! i"
proof -
  obtain rest s1 s2 f where s1: "upd_fiber i (\<lambda>f. f\<lparr>queued := False\<rparr>) (s\<lparr>ready := rest\<rparr>) = Some s1"
    "unlist i s1 = Some s2" "get_nth (fibers s2) i = Some f" "st = fstate f"
    "upd_fiber i (\<lambda>f. f\<lparr>fstate := Running\<rparr>) s2 = Some s'"
    using assms by (auto simp: dequeue_def Option.bind_eq_Some_conv split: list.splits)
  have "same_core s s1" using upd_fiber_same [OF s1(1)] by simp
  then have same: "same_core s s2" using unlist_core [OF s1(2)] by (rule same_core_trans)
  then have len: "length (fibers s2) = length (fibers s)"
    by (metis length_states(1) same_core_def)
  show ?thesis
    using upd_fiber_core [OF s1(5)] same s1(3,4) len nth_states(1) [of i s2]
    by (auto simp: same_core_def get_nth_Some)
qed

lemma dequeue_none: "dequeue s = Some (None, s') \<Longrightarrow> s' = s \<and> ready s = []"
  by (auto simp: dequeue_def Option.bind_eq_Some_conv split: list.splits)

lemma chan_send_core:
  assumes "chan_send i v s = Some (r, s')"
  shows "states s' = states s \<and> pends s' = pends s"
  using assms
  by (auto simp: chan_send_def Let_def Option.bind_eq_Some_conv same_core_def states_def pends_def split: if_splits
      dest!: wake_all_core)

lemma chan_receive_core:
  assumes "chan_receive i s = Some (r, s')"
  shows "states s' = states s \<and> pends s' = pends s"
  using assms
  by (auto simp: chan_receive_def Let_def Option.bind_eq_Some_conv same_core_def states_def pends_def
      split: if_splits list.splits dest!: wake_all_core)

lemma chan_close_core:
  assumes "chan_close i s = Some s'"
  shows "states s' = states s \<and> pends s' = pends s"
  using assms
  by (auto simp: chan_close_def Let_def Option.bind_eq_Some_conv same_core_def states_def pends_def dest!: wake_all_core)

section \<open>Roots\<close>

definition state_roots :: "fiber_state \<Rightarrow> val list" where
  "state_roots st =
     (case st of NotStarted c \<Rightarrow> [c] | Done v \<Rightarrow> [v] | Suspended vstack _ \<Rightarrow> vstack | Running \<Rightarrow> [])"

lemma state_roots_simps [simp]:
  "state_roots (NotStarted c) = [c]" "state_roots (Suspended vs frs) = vs" "state_roots Running = []" "state_roots (Done v) = [v]"
  by (simp_all add: state_roots_def)

lemma roots_split:
  "gather_scheduler_roots s = concat (map state_roots (states s)) @ concat (map buffer (channels s))"
  unfolding gather_scheduler_roots_def states_def map_map comp_def fiber_roots_def state_roots_def ..

end
