(* ===== verification/Driver.thy ===== *)
theory Driver
  imports Interp
begin

text \<open>
  The scheduler loop (\<open>Vm::run\<close>, \<open>drive\<close>, \<open>next_ready\<close>, \<open>deliver_completions\<close> of
  \<^verbatim>\<open>runtime/src/interp/mod.rs\<close>): run the current fiber to its next suspension, hand its stacks
  to the scheduler, and load the next ready fiber, waiting for the outside when there is none.

  The outside is a list of events, one for each time the driver waits: the socket handles
  the poller reports, the worker jobs that finished with their payloads, and the clock
  afterwards. A worker reports a job at most once, so an event takes jobs out of those
  handed to the pool. When the list is used up the driver waits forever.
\<close>

section \<open>The outside\<close>

record 'e event =
  ev_handles :: "trap + i64 list"
  ev_done :: "(usize \<times> 'e) list"
  ev_now :: instant

text \<open>\<open>drain_completions\<close> and \<open>await_completions\<close>: the finished jobs among those outstanding.\<close>

fun completions :: "(usize \<times> 'e) list \<Rightarrow> (usize \<times> 'e) list \<Rightarrow> (usize \<times> 'e) list \<times> (usize \<times> 'e) list" where
  "completions outstanding [] = ([], outstanding)"
| "completions outstanding ((i, p) # ps) =
     (if i \<in> set (map fst outstanding)
      then let (cs, rest) = completions (filter (\<lambda>j. fst j \<noteq> i) outstanding) ps in ((i, p) # cs, rest)
      else completions outstanding ps)"

definition on_sched :: "('e scheduler \<Rightarrow> ('a \<times> 'e scheduler) option) \<Rightarrow> ('e, 'a) exec" where
  "on_sched f s =
     (case f (sched (world s)) of
        None \<Rightarrow> (Err Panic, s)
      | Some (x, sc) \<Rightarrow> (Ok x, s\<lparr>world := (world s)\<lparr>sched := sc\<rparr>\<rparr>))"

abbreviation on_sched_unit :: "('e scheduler \<Rightarrow> 'e scheduler option) \<Rightarrow> ('e, unit) exec" where
  "on_sched_unit f \<equiv> on_sched (\<lambda>sc. map_option (Pair ()) (f sc))"

text \<open>The \<open>finish\<close> closure of a job runs on the heap and the outside, between taking it and delivering its value.\<close>

definition on_outside :: "(rt \<Rightarrow> 'e \<Rightarrow> 'a res \<times> rt \<times> 'e) \<Rightarrow> ('e, 'a) exec" where
  "on_outside f s =
     (let (r, m, e) = f (mem (world s)) (env (world s)) in (r, s\<lparr>world := (world s)\<lparr>mem := m, env := e\<rparr>\<rparr>))"

fun deliver_completions :: "(usize \<times> 'e) list \<Rightarrow> ('e, unit) exec" where
  "deliver_completions [] = eret ()"
| "deliver_completions ((i, p) # cs) =
     ebind (on_sched (take_pending i)) (\<lambda>finish.
     ebind (on_outside (finish p)) (\<lambda>v.
     ebind (on_sched_unit (deliver i v)) (\<lambda>_. deliver_completions cs)))"

definition take_completions :: "(usize \<times> 'e) list \<Rightarrow> ('e, (usize \<times> 'e) list) exec" where
  "take_completions ps s =
     (let (cs, rest) = completions (jobs (world s)) ps in (Ok cs, s\<lparr>world := (world s)\<lparr>jobs := rest\<rparr>\<rparr>))"

fun wake_handles :: "i64 list \<Rightarrow> ('e, unit) exec" where
  "wake_handles [] = eret ()"
| "wake_handles (h # hs) = ebind (on_sched_unit (wake_poll h)) (\<lambda>_. wake_handles hs)"

section \<open>Waiting\<close>

text \<open>Whether there is any source of progress outside the program.\<close>

definition has_external :: "'e scheduler \<Rightarrow> bool" where
  "has_external s \<longleftrightarrow> dom (poll_blocked s) \<noteq> {} \<or> io_blocked s > 0 \<or> earliest_deadline s \<noteq> None"

text \<open>One wait of the idle loop, by the first source that applies.\<close>

definition idle_wait :: "'e event \<Rightarrow> ('e, unit) exec" where
  "idle_wait ev s =
     (let sc = sched (world s);
          timers_due = ebind (on_sched (wake_due_timers (ev_now ev))) (\<lambda>_. eret ());
          deliver_done = ebind (take_completions (ev_done ev)) deliver_completions
      in if dom (poll_blocked sc) \<noteq> {} then
           ebind (elift (map_sum Trap id (ev_handles ev))) (\<lambda>hs.
           ebind (wake_handles hs) (\<lambda>_.
           ebind deliver_done (\<lambda>_. timers_due))) s
         else if io_blocked sc > 0 then ebind deliver_done (\<lambda>_. timers_due) s
         else timers_due s)"

section \<open>Switching\<close>

text \<open>A fiber that starts gets the frame of its closure, with the captures as arguments; one that was parked
  gets its stacks back, the last frame becoming the active one.\<close>

definition load_fiber :: "'e cfg \<Rightarrow> usize \<Rightarrow> fiber_state \<Rightarrow> ('e, (usize \<times> frame) option) exec" where
  "load_fiber c i st =
     (case st of
        NotStarted closure \<Rightarrow>
          ebind (\<lambda>s. (closure_parts (prog c) (slots_of s) closure, s)) (\<lambda>(func, locals).
          ebind (on_stack (\<lambda>st. push_frame (prog c) (unat func) locals)) (\<lambda>fr. eret (Some (i, fr))))
      | Suspended vs frs \<Rightarrow> (\<lambda>s.
          if frs = [] then (Err (bug ''resumed a fiber with an empty stack''), s\<lparr>vstack := vs\<rparr>)
          else (Ok (Some (i, last frs)), s\<lparr>vstack := vs, frames := butlast frs\<rparr>))
      | _ \<Rightarrow> elift (Err (bug ''scheduled a running or finished fiber'')))"

definition next_ready :: "'e cfg \<Rightarrow> ('e, (usize \<times> frame) option) exec" where
  "next_ready c =
     ebind (on_sched dequeue) (\<lambda>d.
       case d of None \<Rightarrow> eret None | Some (i, st) \<Rightarrow> load_fiber c i st)"

datatype 'e choice = Switch usize frame "'e event list" | Stop

text \<open>The idle loop: the next ready fiber, or one more wait; with nothing ready and no source outside, a blocked
  fiber means a deadlock.\<close>

definition ready_or :: "'e cfg \<Rightarrow> 'e event list \<Rightarrow> ('e, 'e choice) exec \<Rightarrow> ('e, 'e choice) exec" where
  "ready_or c evs wait =
     ebind (next_ready c) (\<lambda>p.
       case p of
         Some (i, fr) \<Rightarrow> eret (Switch i fr evs)
       | None \<Rightarrow> (\<lambda>s.
           if has_external (sched (world s)) then wait s
           else if blocked (sched (world s)) \<noteq> [] then (Err (bug ''all fibers blocked (deadlock)''), s)
           else (Ok Stop, s)))"

fun await_ready :: "'e cfg \<Rightarrow> 'e event list \<Rightarrow> ('e, 'e choice) exec" where
  "await_ready c [] = ready_or c [] (elift (Err Diverge))"
| "await_ready c (ev # evs) = ready_or c (ev # evs) (ebind (idle_wait ev) (\<lambda>_. await_ready c evs))"

section \<open>The driver\<close>

text \<open>The parked fiber's stacks go to the scheduler; a worker job goes to the pool.\<close>

definition park_fiber :: "usize \<Rightarrow> ('e, 'e) park_request \<Rightarrow> ('e, unit) exec" where
  "park_fiber i req s =
     (let vs = vstack s; frs = frames s; s = s\<lparr>vstack := [], frames := []\<rparr>
      in case req of
           Await job finish \<Rightarrow>
             ebind (on_sched_unit (park_io i vs frs finish)) (\<lambda>_ s.
               (Ok (), s\<lparr>world := (world s)\<lparr>jobs := jobs (world s) @ [(i, job)]\<rparr>\<rparr>)) s
         | _ \<Rightarrow> on_sched_unit (park i vs frs req) s)"

fun drive_loop :: "'e cfg \<Rightarrow> nat \<Rightarrow> 'e event list \<Rightarrow> usize \<Rightarrow> frame \<Rightarrow> ('e, val) exec" where
  "drive_loop c 0 evs current active = elift (Err Diverge)"
| "drive_loop c (Suc n) evs current active =
     ebind (run_loop c n 0 active) (\<lambda>oc.
     let switch = ebind (await_ready c evs) (\<lambda>ch.
           case ch of Switch i fr evs \<Rightarrow> drive_loop c n evs i fr | Stop \<Rightarrow> eret Unit)
     in case oc of
          Finished v \<Rightarrow>
            ebind (on_sched_unit (complete current v)) (\<lambda>_.
              if current = MAIN_FIBER then eret v else switch)
        | Parked req \<Rightarrow> ebind (park_fiber current req) (\<lambda>_. switch))"

definition drive :: "'e cfg \<Rightarrow> nat \<Rightarrow> 'e event list \<Rightarrow> usize \<Rightarrow> val list \<Rightarrow> ('e, val) exec" where
  "drive c n evs func args =
     ebind (on_stack (\<lambda>st. push_frame (prog c) func args)) (drive_loop c n evs MAIN_FIBER)"

text \<open>\<open>Vm::run\<close>: a fresh scheduler with the main fiber running, reset with the worker pool, the poller and the sockets afterwards.\<close>

definition run :: "'e cfg \<Rightarrow> nat \<Rightarrow> 'e event list \<Rightarrow> usize \<Rightarrow> val list \<Rightarrow> ('e, val) exec" where
  "run c n evs func args s =
     (let (r, s') = drive c n evs func args (s\<lparr>world := (world s)\<lparr>sched := sched_start\<rparr>\<rparr>)
      in (r, s'\<lparr>world := (world s')\<lparr>sched := sched_new, jobs := [], env := teardown c (env (world s'))\<rparr>\<rparr>))"

text \<open>\<open>init_module\<close>: size the globals and run the program-init thunk, if there is one, in a machine of its own.\<close>

definition fresh_vm :: "'e world \<Rightarrow> 'e vm" where
  "fresh_vm w = \<lparr>world = w, vstack = [], frames = []\<rparr>"

definition init_module :: "'e cfg \<Rightarrow> nat \<Rightarrow> 'e event list \<Rightarrow> 'e world \<Rightarrow> unit res \<times> 'e world" where
  "init_module c n evs w =
     (let w = w\<lparr>mem := set_globals (unat (global_count (prog c))) (mem w)\<rparr>
      in case init_index (prog c) of
           None \<Rightarrow> (Ok (), w)
         | Some i \<Rightarrow>
             (let (r, s) = run c n evs i [] (fresh_vm w) in (map_sum id (\<lambda>_. ()) r, world s)))"

text \<open>\<open>eval\<close>: a bare instruction stream as the only function of a module.\<close>

definition eval_code :: "layout \<Rightarrow> 'e native list \<Rightarrow> nat \<Rightarrow> instr list \<Rightarrow> val list \<Rightarrow> 'e world \<Rightarrow> val res \<times> 'e vm" where
  "eval_code L ns n instrs locals w =
     (let k = word_of_nat (length locals);
          c = \<lparr>lay = L, prog = module_new [function_new ''<eval>'' k k instrs], natives = ns, teardown = id\<rparr>
      in call (run_loop c n) c 0 locals (fresh_vm w))"

end
