(* ===== verification/DriverSafe.thy ===== *)
theory DriverSafe
  imports WorldRel SchedEffect Driver
begin

text \<open>
  Safety of the driver: scheduler, interpreter and heap together. Every fiber's saved stack is
  live across the collections other fibers cause, a worker's result reaches the fiber that
  asked for it, the driver never switches to a fiber that cannot run, and it never gives up
  while the main fiber can still be woken.
\<close>

section \<open>The contract of natives towards the scheduler\<close>

text \<open>The \<open>finish\<close> of a worker job may allocate, and change the outside.\<close>

definition finish_safe :: "'e io_finish \<Rightarrow> bool" where
  "finish_safe fin \<longleftrightarrow>
     (\<forall>p m e r m' e'. fin p m e = (r, m', e') \<longrightarrow>
        length (rt_slots m) \<le> length (rt_slots m') \<and>
        (heap_ok m \<and> length (rt_slots m') \<le> 2 ^ 32 \<longrightarrow>
           r \<noteq> Err Panic \<and> heap_ok m' \<and> store_le (rt_slots m) (rt_slots m') \<and>
           gc_paused m' = gc_paused m \<and> (\<forall>v. r = Ok v \<longrightarrow> valid_val (rt_slots m') v)))"

definition cell_ok :: "'e world \<Rightarrow> bool" where
  "cell_ok w \<longleftrightarrow> (\<forall>job fin. park_cell w = Some (Await job fin) \<longrightarrow> finish_safe fin)"

text \<open>A native may add fibers, and may not touch the states of those there are.\<close>

definition core_grows :: "'p scheduler \<Rightarrow> 'p scheduler \<Rightarrow> bool" where
  "core_grows s s' \<longleftrightarrow>
     (\<exists>cs. states s' = states s @ map NotStarted cs \<and> pends s' = pends s @ replicate (length cs) None)"

lemma core_grows_refl [simp]: "core_grows s s"
  unfolding core_grows_def by (rule exI [of _ "[]"]) simp

lemma core_grows_trans: "core_grows a b \<Longrightarrow> core_grows b c \<Longrightarrow> core_grows a c"
  unfolding core_grows_def by (metis append.assoc length_append map_append replicate_add)

definition sched_rel :: "'e world \<Rightarrow> 'e world \<Rightarrow> bool" where
  "sched_rel w w' \<longleftrightarrow>
     (sched_ok (sched w) \<longrightarrow> sched_ok (sched w')) \<and> core_grows (sched w) (sched w') \<and>
     jobs w' = jobs w \<and> (cell_ok w \<longrightarrow> cell_ok w')"

definition native_ok :: "'e native \<Rightarrow> bool" where
  "native_ok f \<longleftrightarrow> native_safe f \<and> (\<forall>args w. sched_rel w (snd (f args w)))"

interpretation sr: world_rel sched_rel
proof
  fix w w1 w2 :: "'e world" and m
  show "sched_rel w w" by (simp add: sched_rel_def)
  show "sched_rel w w1 \<Longrightarrow> sched_rel w1 w2 \<Longrightarrow> sched_rel w w2"
    by (auto simp: sched_rel_def intro: core_grows_trans)
  show "sched_rel w (w\<lparr>mem := m\<rparr>)" "sched_rel w (w\<lparr>park_cell := None\<rparr>)"
    by (simp_all add: sched_rel_def cell_ok_def)
qed

definition natives_ok :: "'e cfg \<Rightarrow> bool" where
  "natives_ok c \<longleftrightarrow> (\<forall>f\<in>set (natives c). native_ok f)"

lemma natives_ok_rel: "natives_ok c \<Longrightarrow> sr.natives_rel c"
  by (simp add: natives_ok_def native_ok_def sr.natives_rel_def)

section \<open>What a parked fiber asks for\<close>

definition req_ok :: "('e, 'e) park_request \<Rightarrow> 'e vm \<Rightarrow> bool" where
  "req_ok req s = (case req of Await _ fin \<Rightarrow> finish_safe fin \<and> vstack s \<noteq> [] | _ \<Rightarrow> True)"

definition parks :: "('e, 'e flow) exec \<Rightarrow> bool" where
  "parks m \<longleftrightarrow> (\<forall>s req s'. cell_ok (world s) \<longrightarrow> m s = (Ok (Exit (Parked req)), s') \<longrightarrow> req_ok req s')"

lemma parks_bind:
  assumes "sr.steps m" "\<And>x. parks (f x)"
  shows "parks (ebind m f)"
  unfolding parks_def
proof (intro allI impI)
  fix s req s' assume ok: "cell_ok (world s)" and run: "ebind m f s = (Ok (Exit (Parked req)), s')"
  from run obtain x s1 where m: "m s = (Ok x, s1)" and f: "f x s1 = (Ok (Exit (Parked req)), s')"
    by (auto simp: ebind_def split: prod.splits sum.splits)
  have "cell_ok (world s1)" using sr.stepsD [OF assms(1) m] ok by (simp add: sched_rel_def)
  then show "req_ok req s'" using assms(2) f by (simp add: parks_def)
qed

lemma parks_basic: "parks (eret (Cont fr))" "parks (elift (Err e))" "parks (enter_call fr callee)" "parks (exec_return c bd fr)"
  by (auto simp: parks_def eret_def elift_def enter_call_def exec_return_def Let_def split: if_splits option.splits)

lemma parks_run_native:
  assumes "natives_ok c"
  shows "parks (run_native c fr native argc)"
  unfolding parks_def
proof (intro allI impI)
  fix s req s'
  assume ok: "cell_ok (world s)" and run: "run_native c fr native argc s = (Ok (Exit (Parked req)), s')"
  let ?b = "length (vstack s) - unat argc"
  obtain f v w where f: "get_nth (natives c) (unat native) = Some f" "f (drop ?b (vstack s)) (world s) = (Ok v, w)"
    "park_cell w = Some req"
    using run by (auto simp: run_native_def Let_def split: if_splits option.splits prod.splits sum.splits park_request.splits)
  have "f \<in> set (natives c)" using f(1) by (rule get_nth_in_set)
  then have "sched_rel (world s) w"
    using assms f(2) by (metis natives_ok_def native_ok_def snd_conv)
  then have "cell_ok w" using ok by (simp add: sched_rel_def)
  moreover have "vstack s' \<noteq> []" if "req = Await job fin" for job fin
    using run f that by (auto simp: run_native_def Let_def split: if_splits)
  ultimately show "req_ok req s'" using f(3) by (auto simp: req_ok_def cell_ok_def split: park_request.splits)
qed

lemma parks_step:
  assumes "natives_ok c" "\<And>sel args. sr.steps (fb sel args)"
  shows "parks (step c fb bd fr)"
proof -
  note native = parks_run_native [OF assms(1)]
  show ?thesis
    unfolding step_def Let_def
    by (rule parks_bind [OF sr.steps_basic(2)])
      (auto split: option.splits instr.splits
        simp: const_str_def load_slot_def store_slot_def get_global_def set_global_def enum_new_def struct_new_def
          field_set_def list_new_def list_set_def closure_new_def make_obj_def new_obj_def exec_call_def
          exec_call_native_def exec_call_indirect_def exec_call_virtual_def jump_to_def jump_if_def
        intro!: parks_bind parks_basic native sr.steps_intros assms(2))
qed

lemma run_loop_request:
  assumes c: "natives_ok c" and "cell_ok (world s)" "run_loop c n bd fr s = (Ok (Parked req), s')"
  shows "req_ok req s'"
  using assms(2,3)
proof (induction n arbitrary: bd fr s)
  case (Suc n)
  let ?fb = "virtual_fallback (call (run_loop c n) c) c n"
  have fb: "sr.steps (?fb sel args)" for sel args
    by (intro sr.steps_fallback sr.steps_call sr.steps_run_loop natives_ok_rel c)
  obtain fl s1 where s1: "step c ?fb bd fr s = (Ok fl, s1)"
    and rest: "(case fl of Cont fr' \<Rightarrow> run_loop c n bd fr' | Exit oc \<Rightarrow> eret oc) s1 = (Ok (Parked req), s')"
    using Suc.prems(2) by (auto simp: ebind_def split: prod.splits sum.splits)
  have "sched_rel (world s) (world s1)"
    using sr.stepsD [OF sr.steps_step [OF natives_ok_rel [OF c]]] fb s1 by blast
  then have "cell_ok (world s1)" using Suc.prems(1) by (simp add: sched_rel_def)
  moreover have "parks (step c ?fb bd fr)" by (rule parks_step [OF c fb])
  ultimately show ?case
    using Suc.IH rest s1 Suc.prems(1)
    by (cases fl) (auto simp: eret_def parks_def)
qed (simp add: elift_def)

section \<open>The invariant\<close>

definition frames_ok :: "'e cfg \<Rightarrow> 'e scheduler \<Rightarrow> bool" where
  "frames_ok c s \<longleftrightarrow> (\<forall>vs frs. Suspended vs frs \<in> set (states s) \<longrightarrow> (\<forall>fr\<in>set frs. frame_ok c fr))"

definition finishes_ok :: "'e scheduler \<Rightarrow> bool" where
  "finishes_ok s \<longleftrightarrow> (\<forall>fin. Some fin \<in> set (pends s) \<longrightarrow> finish_safe fin)"

text \<open>Each fiber that waits for a worker has exactly one job, with the pool or, in \<open>E\<close>, reported and not yet
  delivered.\<close>

definition jobs_ok :: "usize list \<Rightarrow> 'e world \<Rightarrow> bool" where
  "jobs_ok E w \<longleftrightarrow>
     distinct (map fst (jobs w) @ E) \<and>
     (\<forall>i. i \<in> set (map fst (jobs w) @ E) \<longleftrightarrow> i < length (pends (sched w)) \<and> pends (sched w) ! i \<noteq> None)"

text \<open>\<open>R\<close> are the running fibers: the current one, or none while the driver is choosing. The main fiber is not
  done, since its end is the program's.\<close>

definition sched_good :: "'e cfg \<Rightarrow> usize set \<Rightarrow> usize list \<Rightarrow> 'e world \<Rightarrow> bool" where
  "sched_good c R E w \<longleftrightarrow>
     cell_ok w \<and> sched_ok (sched w) \<and> frames_ok c (sched w) \<and> finishes_ok (sched w) \<and> jobs_ok E w \<and>
     (\<forall>i < length (states (sched w)). states (sched w) ! i = Running \<longleftrightarrow> i \<in> R) \<and>
     R \<subseteq> {..<length (states (sched w))} \<and> states (sched w) \<noteq> [] \<and> (\<forall>v. states (sched w) ! 0 \<noteq> Done v)"

definition driver_inv :: "'e cfg \<Rightarrow> usize set \<Rightarrow> usize list \<Rightarrow> 'e vm \<Rightarrow> bool" where
  "driver_inv c R E s \<longleftrightarrow> vm_ok c s \<and> sched_good c R E (world s)"

lemma sched_good_simps [simp]:
  "sched_good c R E (w\<lparr>mem := m\<rparr>) = sched_good c R E w" "sched_good c R E (w\<lparr>env := e\<rparr>) = sched_good c R E w"
  by (simp_all add: sched_good_def cell_ok_def jobs_ok_def)

lemma nth_upd: "k < length xs \<Longrightarrow> xs[i := x] ! k = (if i = k then x else xs ! k)"
  by (cases "i = k") simp_all

text \<open>One fiber changes its state.\<close>

lemma good_update:
  assumes good: "sched_good c R E w" and i: "i < length (states (sched w))"
    and "sched_ok sc" "states sc = (states (sched w))[i := st]" "finishes_ok sc"
      "jobs_ok E' (w\<lparr>sched := sc, jobs := js\<rparr>)"
    and "\<forall>vs frs. st = Suspended vs frs \<longrightarrow> (\<forall>fr\<in>set frs. frame_ok c fr)"
    and "R' = (if st = Running then insert i R else R - {i})" "i = 0 \<longrightarrow> (\<forall>v. st \<noteq> Done v)"
  shows "sched_good c R' E' (w\<lparr>sched := sc, jobs := js\<rparr>)"
proof -
  have "frames_ok c sc"
    using good assms(4,7) set_update_subset_insert [of "states (sched w)" i st]
    by (fastforce simp: sched_good_def frames_ok_def)
  moreover have "\<forall>k < length (states sc). states sc ! k = Running \<longleftrightarrow> k \<in> R'"
    using good assms(4,8) by (auto simp: sched_good_def nth_upd simp del: length_states nth_states)
  moreover have "states sc \<noteq> [] \<and> (\<forall>v. states sc ! 0 \<noteq> Done v)"
    using good assms(4,9) by (auto simp: sched_good_def nth_upd simp del: length_states nth_states)
  moreover have "R' \<subseteq> {..<length (states sc)}"
    using good i assms(4,8) by (auto simp: sched_good_def simp del: length_states)
  ultimately show ?thesis using assms(3,5,6) good by (simp add: sched_good_def cell_ok_def)
qed

lemma roots_ok:
  "vals_ok st (gather_scheduler_roots sc) \<longleftrightarrow>
     (\<forall>x\<in>set (states sc). vals_ok st (state_roots x)) \<and> (\<forall>ch\<in>set (channels sc). vals_ok st (buffer ch))"
  by (auto simp: roots_split list_all_iff)

lemma roots_update:
  assumes "vals_ok st (gather_scheduler_roots sc)" "states sc' = (states sc)[i := x]" "channels sc' = channels sc"
    and "vals_ok st (state_roots x)"
  shows "vals_ok st (gather_scheduler_roots sc')"
  using assms set_update_subset_insert [of "states sc" i x] by (fastforce simp: roots_ok)

lemma vm_ok_sched:
  "vm_ok c s \<Longrightarrow> vals_ok (slots_of s) (gather_scheduler_roots sc) \<Longrightarrow> sched_ok sc \<Longrightarrow>
     vm_ok c (s\<lparr>world := (world s)\<lparr>sched := sc, jobs := js\<rparr>\<rparr>)"
  by (simp add: vm_ok_def world_ok_def)

lemma vm_ok_roots: "vm_ok c s \<Longrightarrow> vals_ok (slots_of s) (gather_scheduler_roots (sched (world s)))"
  by (simp add: vm_ok_def world_ok_def)

lemma core_good:
  assumes good: "sched_good c R E w" and "sched_rel w w'"
  shows "sched_good c R E w'"
proof -
  obtain cs where cs: "states (sched w') = states (sched w) @ map NotStarted cs"
    "pends (sched w') = pends (sched w) @ replicate (length cs) None"
    using assms by (auto simp: sched_good_def sched_rel_def core_grows_def)
  have "frames_ok c (sched w')" "finishes_ok (sched w')"
    using good by (auto simp: sched_good_def frames_ok_def finishes_ok_def cs)
  moreover have "jobs_ok E w'"
  proof -
    have "i < length (pends (sched w')) \<and> pends (sched w') ! i \<noteq> None \<longleftrightarrow>
        i < length (pends (sched w)) \<and> pends (sched w) ! i \<noteq> None" for i
      unfolding cs(2) by (auto simp: nth_append)
    then show ?thesis using good assms(2) by (simp add: sched_good_def jobs_ok_def sched_rel_def)
  qed
  moreover have "\<forall>i < length (states (sched w')). states (sched w') ! i = Running \<longleftrightarrow> i \<in> R"
    using good unfolding cs(1) by (auto simp: sched_good_def nth_append simp del: length_states nth_states)
  moreover have "R \<subseteq> {..<length (states (sched w'))}"
    using good unfolding cs(1) by (auto simp: sched_good_def simp del: length_states)
  moreover have "states (sched w') \<noteq> [] \<and> (\<forall>v. states (sched w') ! 0 \<noteq> Done v)"
    using good unfolding cs(1) by (auto simp: sched_good_def nth_append simp del: length_states nth_states)
  ultimately show ?thesis using good assms(2) by (simp add: sched_good_def sched_rel_def)
qed

section \<open>Triples\<close>

text \<open>What is kept whatever the size of the heap: the jobs' \<open>finish\<close> closures are safe to run.\<close>

definition fin_ok :: "'e vm \<Rightarrow> bool" where
  "fin_ok s \<longleftrightarrow> finishes_ok (sched (world s)) \<and> cell_ok (world s)"

text \<open>From a state with \<open>V\<close> the slab does not shrink, and a result comes with \<open>V'\<close>; if moreover \<open>P\<close> holds and no more
  slots were issued than a handle can name, there is no panic and the result comes with \<open>Q\<close>.\<close>

definition triple :: "('e vm \<Rightarrow> bool) \<Rightarrow> ('e vm \<Rightarrow> bool) \<Rightarrow> ('e, 'a) exec \<Rightarrow> ('a \<Rightarrow> 'e vm \<Rightarrow> bool) \<Rightarrow> ('a \<Rightarrow> 'e vm \<Rightarrow> bool) \<Rightarrow> bool" where
  "triple V P m V' Q \<longleftrightarrow>
     (\<forall>s r s'. m s = (r, s') \<longrightarrow> V s \<longrightarrow>
        length (slots_of s) \<le> length (slots_of s') \<and> (\<forall>x. r = Ok x \<longrightarrow> V' x s') \<and>
        (P s \<and> slots_fit (world s') \<longrightarrow> r \<noteq> Err Panic \<and> (\<forall>x. r = Ok x \<longrightarrow> Q x s')))"

abbreviation dsafe :: "('e vm \<Rightarrow> bool) \<Rightarrow> ('e, 'a) exec \<Rightarrow> ('a \<Rightarrow> 'e vm \<Rightarrow> bool) \<Rightarrow> bool" where
  "dsafe P m Q \<equiv> triple fin_ok P m (\<lambda>_. fin_ok) Q"

lemma tripleI:
  assumes "\<And>s r s'. m s = (r, s') \<Longrightarrow> V s \<Longrightarrow> length (slots_of s) \<le> length (slots_of s') \<and> (\<forall>x. r = Ok x \<longrightarrow> V' x s')"
    and "\<And>s r s'. m s = (r, s') \<Longrightarrow> V s \<Longrightarrow> P s \<Longrightarrow> slots_fit (world s') \<Longrightarrow> r \<noteq> Err Panic \<and> (\<forall>x. r = Ok x \<longrightarrow> Q x s')"
  shows "triple V P m V' Q"
  using assms unfolding triple_def by blast

lemma tripleD:
  assumes "triple V P m V' Q" "m s = (r, s')" "V s"
  shows "length (slots_of s) \<le> length (slots_of s')" "\<And>x. r = Ok x \<Longrightarrow> V' x s'"
    and "P s \<Longrightarrow> slots_fit (world s') \<Longrightarrow> r \<noteq> Err Panic \<and> (\<forall>x. r = Ok x \<longrightarrow> Q x s')"
  using assms unfolding triple_def by blast+

lemma triple_conseq:
  assumes "triple V P m V' Q" "\<And>s. U s \<Longrightarrow> V s" "\<And>x s. V' x s \<Longrightarrow> U' x s" "\<And>s. P' s \<Longrightarrow> P s" "\<And>x s. Q x s \<Longrightarrow> Q' x s"
  shows "triple U P' m U' Q'"
  by (rule tripleI) (use tripleD [OF assms(1)] assms(2-5) in blast)+

lemma dsafe_conseq: "dsafe P m Q \<Longrightarrow> (\<And>s. P' s \<Longrightarrow> P s) \<Longrightarrow> (\<And>x s. Q x s \<Longrightarrow> Q' x s) \<Longrightarrow> dsafe P' m Q'"
  by (rule triple_conseq)

lemma triple_bind:
  assumes m: "triple V P m V' Q" and f: "\<And>x. triple (V' x) (Q x) (f x) V'' R"
  shows "triple V P (ebind m f) V'' R"
proof (rule tripleI)
  fix s r s' assume run: "ebind m f s = (r, s')" and V: "V s"
  obtain r1 s1 where m1: "m s = (r1, s1)" by fastforce
  note 1 = tripleD [OF m m1 V]
  have next1: "f x s1 = (r, s')" if "r1 = Ok x" for x using run m1 that by (simp add: ebind_def)
  have stop1: "r = Err e \<and> s' = s1" if "r1 = Err e" for e using run m1 that by (simp add: ebind_def)
  note 2 = tripleD [OF f next1 1(2)]
  show "length (slots_of s) \<le> length (slots_of s') \<and> (\<forall>x. r = Ok x \<longrightarrow> V'' x s')"
    using 1(1) stop1 2(1,2) by (cases r1) fastforce+
  assume P: "P s" "slots_fit (world s')"
  show "r \<noteq> Err Panic \<and> (\<forall>x. r = Ok x \<longrightarrow> R x s')"
  proof (cases r1)
    case (Inl e)
    then show ?thesis using stop1 1(3) P by auto
  next
    case (Inr x)
    have "slots_fit (world s1)" using 2(1) [OF Inr Inr] P(2) by (simp add: slots_fit_def)
    then show ?thesis using 2(3) [OF Inr Inr] 1(3) P Inr by blast
  qed
qed

lemma triple_ret: "(\<And>s. V s \<Longrightarrow> V' x s) \<Longrightarrow> (\<And>s. V s \<Longrightarrow> P s \<Longrightarrow> Q x s) \<Longrightarrow> triple V P (eret x) V' Q"
  by (auto simp: triple_def eret_def)

lemma triple_fault: "e \<noteq> Panic \<Longrightarrow> triple V P (elift (Err e)) V' Q"
  by (auto simp: triple_def elift_def)

lemma dsafe_on_sched:
  assumes "\<And>x sc sc'. f sc = Some (x, sc') \<Longrightarrow> set (pends sc') \<subseteq> insert None (set (pends sc))"
    and "\<And>s. P s \<Longrightarrow> \<exists>x sc. f (sched (world s)) = Some (x, sc) \<and> Q x (s\<lparr>world := (world s)\<lparr>sched := sc\<rparr>\<rparr>)"
  shows "dsafe P (on_sched f) Q"
proof (rule tripleI)
  fix s r s' assume m: "on_sched f s = (r, s')"
  then show "length (slots_of s) \<le> length (slots_of s') \<and> (\<forall>x. r = Ok x \<longrightarrow> fin_ok s')" if "fin_ok s"
    using that assms(1) [of "sched (world s)"]
    by (fastforce simp: on_sched_def fin_ok_def finishes_ok_def cell_ok_def split: option.splits)
  show "r \<noteq> Err Panic \<and> (\<forall>x. r = Ok x \<longrightarrow> Q x s')" if "P s"
    using m assms(2) [OF that] by (auto simp: on_sched_def)
qed

text \<open>Scheduler operations that leave the fibers' states and jobs alone.\<close>

lemma same_core_inv:
  assumes inv: "driver_inv c R E s" and "sched_ok sc" "same_core (sched (world s)) sc"
  shows "driver_inv c R E (s\<lparr>world := (world s)\<lparr>sched := sc\<rparr>\<rparr>)"
  using assms
  by (simp add: driver_inv_def vm_ok_def world_ok_def roots_ok same_core_def sched_good_def cell_ok_def frames_ok_def
      finishes_ok_def jobs_ok_def del: length_states nth_states)

lemma same_core_dsafe:
  assumes "\<And>x sc sc'. f sc = Some (x, sc') \<Longrightarrow> same_core sc sc'"
    and "\<And>sc. sched_ok sc \<Longrightarrow> \<exists>x sc'. f sc = Some (x, sc') \<and> sched_ok sc'"
  shows "dsafe (driver_inv c R E) (on_sched f) (\<lambda>_. driver_inv c R E)"
proof (rule dsafe_on_sched)
  fix x sc sc' assume "f sc = Some (x, sc')"
  then show "set (pends sc') \<subseteq> insert None (set (pends sc))" using assms(1) by (fastforce simp: same_core_def)
next
  fix s assume inv: "driver_inv c R E s"
  then have "sched_ok (sched (world s))" by (simp add: driver_inv_def sched_good_def)
  then obtain x sc where "f (sched (world s)) = Some (x, sc)" "sched_ok sc" using assms(2) by blast
  then show "\<exists>x sc. f (sched (world s)) = Some (x, sc) \<and> driver_inv c R E (s\<lparr>world := (world s)\<lparr>sched := sc\<rparr>\<rparr>)"
    using same_core_inv [OF inv] assms(1) by blast
qed

section \<open>Running, finishing and parking\<close>

lemma run_loop_triple:
  fixes c :: "'e cfg"
  assumes c: "module_safe (prog c)" "natives_ok c"
  shows "triple fin_ok (\<lambda>s. driver_inv c R E s \<and> frame_ok c fr) (run_loop c n 0 fr)
     (\<lambda>oc s. fin_ok s \<and> (\<forall>req. oc = Parked req \<longrightarrow> req_ok req s))
     (\<lambda>oc s. driver_inv c R E s \<and> (case oc of Finished v \<Rightarrow> valid_val (slots_of s) v | Parked _ \<Rightarrow> frames s \<noteq> []))"
proof (rule tripleI)
  have nat: "\<forall>f\<in>set (natives c). native_safe f" using c(2) by (simp add: natives_ok_def native_ok_def)
  have safe: "safe c (\<lambda>s. frame_ok c fr \<and> 0 \<le> length (frames s)) (run_loop c n 0 fr) (outcome_ok c 0)"
    using run_loop_safe [OF c(1) nat, of n] unfolding loop_safe_def by blast
  fix s :: "'e vm" and r s' assume run: "run_loop c n 0 fr s = (r, s')" and V: "fin_ok s"
  have rel: "sched_rel (world s) (world s')"
    by (rule sr.stepsD [OF sr.steps_run_loop [OF natives_ok_rel [OF c(2)]] run])
  have "req_ok req s'" if "r = Ok (Parked req)" for req
    using run_loop_request [OF c(2), of s n 0 fr req s'] run that V by (simp add: fin_ok_def)
  moreover have "fin_ok s'"
    using rel V by (auto simp: fin_ok_def sched_rel_def core_grows_def finishes_ok_def)
  ultimately show "length (slots_of s) \<le> length (slots_of s') \<and>
      (\<forall>oc. r = Ok oc \<longrightarrow> fin_ok s' \<and> (\<forall>req. oc = Parked req \<longrightarrow> req_ok req s'))"
    using safeD(1) [OF safe run] by blast
  assume inv: "driver_inv c R E s \<and> frame_ok c fr" and fit: "slots_fit (world s')"
  then have "r \<noteq> Err Panic \<and> (\<forall>oc. r = Ok oc \<longrightarrow> vm_ok c s' \<and> outcome_ok c 0 oc s')"
    using safeD(2) [OF safe run] by (simp add: driver_inv_def)
  moreover have "sched_good c R E (world s')" using inv core_good [OF _ rel] by (auto simp: driver_inv_def)
  ultimately show "r \<noteq> Err Panic \<and> (\<forall>oc. r = Ok oc \<longrightarrow> driver_inv c R E s' \<and>
      (case oc of Finished v \<Rightarrow> valid_val (slots_of s') v | Parked _ \<Rightarrow> frames s' \<noteq> []))"
    by (auto simp: driver_inv_def outcome_ok_def split: outcome.splits)
qed

lemma running_current:
  assumes "driver_inv c {i} E s"
  shows "i < length (fibers (sched (world s)))" "fstate (fibers (sched (world s)) ! i) = Running"
    "sched_ok (sched (world s))"
  using assms by (auto simp: driver_inv_def sched_good_def)

lemma driver_roots:
  assumes "driver_inv c R E s" "states sc = (states (sched (world s)))[i := x]" "channels sc = channels (sched (world s))"
    and "vals_ok (slots_of s) (state_roots x)"
  shows "vals_ok (slots_of s) (gather_scheduler_roots sc)"
  using roots_update [OF vm_ok_roots [of c s] assms(2-4)] assms(1) by (simp add: driver_inv_def)

lemma running_idle: "sched_ok s \<Longrightarrow> i < length (fibers s) \<Longrightarrow> fstate (fibers s ! i) = Running \<Longrightarrow> pends s ! i = None"
  using sched_invD [of "{}" s i] by (simp add: sched_ok_def fiber_inv_def)

lemma complete_dsafe:
  "dsafe (\<lambda>s. driver_inv c {i} [] s \<and> valid_val (slots_of s) v) (on_sched_unit (complete i v))
     (\<lambda>_ s. vm_ok c s \<and> valid_val (slots_of s) v \<and> (i \<noteq> MAIN_FIBER \<longrightarrow> driver_inv c {} [] s))"
proof (rule dsafe_on_sched)
  show "map_option (Pair ()) (complete i v sc) = Some (x, sc') \<Longrightarrow> set (pends sc') \<subseteq> insert None (set (pends sc))" for x sc sc'
    using complete_core [of i v sc] by auto
  fix s assume inv: "driver_inv c {i} [] s \<and> valid_val (slots_of s) v"
  let ?sc = "sched (world s)"
  note run = running_current [OF inv [THEN conjunct1]]
  obtain sc where sc: "complete i v ?sc = Some sc" "sched_ok sc" using complete_ok [OF run(3,1,2)] by blast
  note core = complete_core [OF sc(1)]
  have "vals_ok (slots_of s) (gather_scheduler_roots sc)"
    using core inv by (intro driver_roots [of c _ _ s sc i "Done v"]) auto
  then have vm: "vm_ok c (s\<lparr>world := (world s)\<lparr>sched := sc\<rparr>\<rparr>)"
    using inv sc(2) by (simp add: driver_inv_def vm_ok_def world_ok_def)
  have "sched_good c {} [] ((world s)\<lparr>sched := sc, jobs := jobs (world s)\<rparr>)" if "i \<noteq> 0"
    using inv sc(2) core that
    by (intro good_update [where R = "{i}" and E = "[]" and i = i and st = "Done v"])
      (auto simp: driver_inv_def sched_good_def finishes_ok_def jobs_ok_def)
  then show "\<exists>x sc. map_option (Pair ()) (complete i v ?sc) = Some (x, sc) \<and>
      vm_ok c (s\<lparr>world := (world s)\<lparr>sched := sc\<rparr>\<rparr>) \<and> valid_val (slots_of (s\<lparr>world := (world s)\<lparr>sched := sc\<rparr>\<rparr>)) v \<and>
      (i \<noteq> MAIN_FIBER \<longrightarrow> driver_inv c {} [] (s\<lparr>world := (world s)\<lparr>sched := sc\<rparr>\<rparr>))"
    using sc vm inv by (simp add: driver_inv_def MAIN_FIBER_def)
qed

lemma park_dsafe:
  fixes c :: "'e cfg"
  assumes req: "\<forall>job fin. req \<noteq> Await job fin"
  shows "dsafe (\<lambda>s. driver_inv c {i} [] s \<and> vals_ok (slots_of s) vs \<and> (\<forall>fr\<in>set frs. frame_ok c fr) \<and> frs \<noteq> [])
     (on_sched_unit (park i vs frs req)) (\<lambda>_. driver_inv c {} [])"
proof (rule dsafe_on_sched)
  show "map_option (Pair ()) (park i vs frs req sc) = Some (x, sc') \<Longrightarrow> set (pends sc') \<subseteq> insert None (set (pends sc))" for x sc sc'
    using park_core [of i vs frs req sc] by auto
  fix s :: "'e vm"
  assume inv: "driver_inv c {i} [] s \<and> vals_ok (slots_of s) vs \<and> (\<forall>fr\<in>set frs. frame_ok c fr) \<and> frs \<noteq> []"
  let ?sc = "sched (world s)"
  note run = running_current [OF inv [THEN conjunct1]]
  obtain sc where sc: "park i vs frs req ?sc = Some sc" "sched_ok sc"
    using park_ok [OF run(3,1,2), of frs req vs] inv req by blast
  note core = park_core [OF sc(1)]
  have "vals_ok (slots_of s) (gather_scheduler_roots sc)"
    using core inv by (intro driver_roots [of c _ _ s sc i "Suspended vs frs"]) auto
  then have vm: "vm_ok c (s\<lparr>world := (world s)\<lparr>sched := sc\<rparr>\<rparr>)"
    using inv sc(2) by (simp add: driver_inv_def vm_ok_def world_ok_def)
  have "sched_good c {} [] ((world s)\<lparr>sched := sc, jobs := jobs (world s)\<rparr>)"
    using inv sc(2) core
    by (intro good_update [where R = "{i}" and E = "[]" and i = i and st = "Suspended vs frs"])
      (auto simp: driver_inv_def sched_good_def finishes_ok_def jobs_ok_def)
  then show "\<exists>x sc. map_option (Pair ()) (park i vs frs req ?sc) = Some (x, sc) \<and>
      driver_inv c {} [] (s\<lparr>world := (world s)\<lparr>sched := sc\<rparr>\<rparr>)"
    using sc vm by (simp add: driver_inv_def)
qed

lemma distinct_snoc_upd:
  assumes "distinct xs" "\<forall>k. k \<in> set xs \<longleftrightarrow> k < length ps \<and> ps ! k \<noteq> None" "i < length ps" "ps ! i = None"
  shows "distinct (xs @ [i]) \<and> (\<forall>k. k \<in> set (xs @ [i]) \<longleftrightarrow> k < length ps \<and> ps[i := Some x] ! k \<noteq> None)"
  using assms by (auto simp: nth_list_update)

lemma park_io_triple:
  fixes c :: "'e cfg"
  shows "triple (\<lambda>s. fin_ok s \<and> finish_safe fin)
     (\<lambda>s. driver_inv c {i} [] s \<and> vals_ok (slots_of s) vs \<and> (\<forall>fr\<in>set frs. frame_ok c fr) \<and> frs \<noteq> [] \<and> vs \<noteq> [])
     (ebind (on_sched_unit (park_io i vs frs fin)) (\<lambda>_ s.
        (Ok (), s\<lparr>world := (world s)\<lparr>jobs := jobs (world s) @ [(i, job)]\<rparr>\<rparr>))) (\<lambda>_. fin_ok) (\<lambda>_. driver_inv c {} [])"
proof (rule tripleI)
  fix s :: "'e vm" and r s'
  let ?sc = "sched (world s)"
  assume m: "ebind (on_sched_unit (park_io i vs frs fin)) (\<lambda>_ s.
        (Ok (), s\<lparr>world := (world s)\<lparr>jobs := jobs (world s) @ [(i, job)]\<rparr>\<rparr>)) s = (r, s')"
    and V: "fin_ok s \<and> finish_safe fin"
  have fin: "finishes_ok sc" if "park_io i vs frs fin ?sc = Some sc" for sc
    using V park_io_core [OF that] set_update_subset_insert [of "pends ?sc" i "Some fin"]
    by (fastforce simp: fin_ok_def finishes_ok_def)
  then show "length (slots_of s) \<le> length (slots_of s') \<and> (\<forall>x. r = Ok x \<longrightarrow> fin_ok s')"
    using m V by (auto simp: ebind_def on_sched_def fin_ok_def cell_ok_def split: option.splits)
  assume inv: "driver_inv c {i} [] s \<and> vals_ok (slots_of s) vs \<and> (\<forall>fr\<in>set frs. frame_ok c fr) \<and> frs \<noteq> [] \<and> vs \<noteq> []"
  note run = running_current [OF inv [THEN conjunct1]]
  obtain sc where sc: "park_io i vs frs fin ?sc = Some sc" "sched_ok sc"
    using park_io_ok [OF run(3,1,2), of frs vs fin] inv by blast
  note core = park_io_core [OF sc(1)]
  let ?js = "jobs (world s) @ [(i, job)]"
  have "pends ?sc ! i = None"
    using run by (intro running_idle)
  then have j: "jobs_ok [] ((world s)\<lparr>sched := sc, jobs := ?js\<rparr>)"
    using inv core distinct_snoc_upd [of "map fst (jobs (world s))" "pends ?sc" i fin]
    by (simp add: driver_inv_def sched_good_def jobs_ok_def del: nth_states)
  have "vals_ok (slots_of s) (gather_scheduler_roots sc)"
    using core inv by (intro driver_roots [of c _ _ s sc i "Suspended vs frs"]) auto
  then have vm: "vm_ok c (s\<lparr>world := (world s)\<lparr>sched := sc, jobs := ?js\<rparr>\<rparr>)"
    using inv sc(2) by (simp add: driver_inv_def vm_ok_sched)
  have "sched_good c {} [] ((world s)\<lparr>sched := sc, jobs := ?js\<rparr>)"
    using inv sc(2) core j fin [OF sc(1)]
    by (intro good_update [where R = "{i}" and E = "[]" and i = i and st = "Suspended vs frs"]) (auto simp: driver_inv_def)
  then show "r \<noteq> Err Panic \<and> (\<forall>x. r = Ok x \<longrightarrow> driver_inv c {} [] s')"
    using m sc(1) vm by (auto simp: ebind_def on_sched_def driver_inv_def)
qed

lemma drop_stacks_inv: "driver_inv c R E s \<Longrightarrow> driver_inv c R E (s\<lparr>vstack := [], frames := []\<rparr>)"
  by (simp add: driver_inv_def vm_ok_def)

lemma park_fiber_triple:
  fixes c :: "'e cfg"
  shows "triple (\<lambda>s. fin_ok s \<and> req_ok req s) (\<lambda>s. driver_inv c {i} [] s \<and> frames s \<noteq> []) (park_fiber i req)
     (\<lambda>_. fin_ok) (\<lambda>_. driver_inv c {} [])"
proof (rule tripleI)
  fix s :: "'e vm" and r s'
  let ?s = "s\<lparr>vstack := [], frames := []\<rparr>"
  assume m: "park_fiber i req s = (r, s')" and V: "fin_ok s \<and> req_ok req s"
  then have V': "fin_ok ?s" by (simp add: fin_ok_def)
  have *: "length (slots_of ?s) \<le> length (slots_of s') \<and> (\<forall>x. r = Ok x \<longrightarrow> fin_ok s') \<and>
      (driver_inv c {i} [] s \<and> frames s \<noteq> [] \<longrightarrow> slots_fit (world s') \<longrightarrow>
        r \<noteq> Err Panic \<and> (\<forall>x. r = Ok x \<longrightarrow> driver_inv c {} [] s'))"
  proof (cases "\<exists>job fin. req = Await job fin")
    case True
    then obtain job fin where req: "req = Await job fin" by blast
    have "ebind (on_sched_unit (park_io i (vstack s) (frames s) fin)) (\<lambda>_ s.
        (Ok (), s\<lparr>world := (world s)\<lparr>jobs := jobs (world s) @ [(i, job)]\<rparr>\<rparr>)) ?s = (r, s')"
      using m req by (simp add: park_fiber_def Let_def)
    note D = tripleD [OF park_io_triple [of fin c i "vstack s" "frames s" job] this]
    show ?thesis using D V V' req drop_stacks_inv [of c "{i}" "[]" s] by (auto simp: req_ok_def driver_inv_def vm_ok_def)
  next
    case False
    then have "on_sched_unit (park i (vstack s) (frames s) req) ?s = (r, s')"
      using m by (cases req) (simp_all add: park_fiber_def Let_def)
    note D = tripleD [OF park_dsafe [of req c i "vstack s" "frames s"] this V']
    show ?thesis using D False drop_stacks_inv [of c "{i}" "[]" s] by (auto simp: driver_inv_def vm_ok_def)
  qed
  then show "length (slots_of s) \<le> length (slots_of s') \<and> (\<forall>x. r = Ok x \<longrightarrow> fin_ok s')" by simp
  assume "driver_inv c {i} [] s \<and> frames s \<noteq> []" "slots_fit (world s')"
  then show "r \<noteq> Err Panic \<and> (\<forall>x. r = Ok x \<longrightarrow> driver_inv c {} [] s')" using * by blast
qed

end
