(* ===== verification/DriverRun.thy ===== *)
theory DriverRun
  imports DriverSafe
begin

text \<open>
  Safety of the driver, continued: choosing the next fiber, delivering what the outside
  reports, and the loop over them.
\<close>

section \<open>Loading a fiber\<close>

lemma dsafe_same_world:
  assumes "safe c P m Q" "\<And>s r s'. m s = (r, s') \<Longrightarrow> world s' = world s"
  shows "dsafe (\<lambda>s. driver_inv c R E s \<and> P s) m (\<lambda>x s. driver_inv c R E s \<and> Q x s)"
proof (rule tripleI)
  fix s r s' assume m: "m s = (r, s')" and "fin_ok s"
  then show "length (slots_of s) \<le> length (slots_of s') \<and> (\<forall>x. r = Ok x \<longrightarrow> fin_ok s')"
    using assms(2) [OF m] by (simp add: fin_ok_def)
  assume "driver_inv c R E s \<and> P s" "slots_fit (world s')"
  then show "r \<noteq> Err Panic \<and> (\<forall>x. r = Ok x \<longrightarrow> driver_inv c R E s' \<and> Q x s')"
    using safeD(2) [OF assms(1) m] assms(2) [OF m] by (simp add: driver_inv_def)
qed

lemma push_frame_any:
  fixes c :: "'e cfg"
  shows "safe c (\<lambda>s. vals_ok (slots_of s) args) (on_stack (\<lambda>st. push_frame (prog c) func args)) (\<lambda>fr s. frame_ok c fr)"
proof (rule safeI)
  fix s :: "'e vm" and r s' assume m: "on_stack (\<lambda>st. push_frame (prog c) func args) s = (r, s')"
  note D = safeD [OF push_frame_safe [of c args "length (frames s)" func] m]
  show "length (slots_of s) \<le> length (slots_of s')" by (rule D(1))
  assume "vm_ok c s" "vals_ok (slots_of s) args" "slots_fit (world s')"
  then show "mem_rel s s' \<and> r \<noteq> Err Panic \<and> (\<forall>fr. r = Ok fr \<longrightarrow> vm_ok c s' \<and> frame_ok c fr)"
    using D(2) by simp
qed

lemma on_stack_world: "on_stack f s = (r, s') \<Longrightarrow> world s' = world s"
  by (auto simp: on_stack_def split: sum.splits prod.splits)

definition loadable :: "'e cfg \<Rightarrow> store \<Rightarrow> fiber_state \<Rightarrow> bool" where
  "loadable c slots0 st \<longleftrightarrow>
     vals_ok slots0 (state_roots st) \<and>
     (case st of
        NotStarted _ \<Rightarrow> True
      | Suspended _ frs \<Rightarrow> frs \<noteq> [] \<and> (\<forall>fr\<in>set frs. frame_ok c fr)
      | _ \<Rightarrow> False)"

lemma dequeue_dsafe:
  fixes c :: "'e cfg"
  shows "dsafe (driver_inv c {} []) (on_sched dequeue)
     (\<lambda>d s. case d of
        None \<Rightarrow> driver_inv c {} [] s \<and> ready (sched (world s)) = []
      | Some (i, st) \<Rightarrow> driver_inv c {i} [] s \<and> loadable c (slots_of s) st)"
proof (rule dsafe_on_sched)
  fix d sc sc' assume "dequeue sc = Some (d, sc')"
  then show "set (pends sc') \<subseteq> insert None (set (pends sc))"
    using dequeue_core [of sc _ _ sc'] dequeue_none [of sc sc'] by (cases d) auto
next
  fix s :: "'e vm" assume inv: "driver_inv c {} [] s"
  let ?sc = "sched (world s)"
  have ok: "sched_ok ?sc" using inv by (simp add: driver_inv_def sched_good_def)
  show "\<exists>x sc. dequeue ?sc = Some (x, sc) \<and> (case x of
        None \<Rightarrow> driver_inv c {} [] (s\<lparr>world := (world s)\<lparr>sched := sc\<rparr>\<rparr>) \<and>
          ready (sched (world (s\<lparr>world := (world s)\<lparr>sched := sc\<rparr>\<rparr>))) = []
      | Some (i, st) \<Rightarrow> driver_inv c {i} [] (s\<lparr>world := (world s)\<lparr>sched := sc\<rparr>\<rparr>) \<and>
          loadable c (slots_of (s\<lparr>world := (world s)\<lparr>sched := sc\<rparr>\<rparr>)) st)"
  proof (cases "ready ?sc")
    case Nil
    then show ?thesis using inv by (simp add: dequeue_def)
  next
    case (Cons i rest)
    obtain st sc where sc: "dequeue ?sc = Some (Some (i, st), sc)" "sched_ok sc" "\<forall>v. st \<noteq> Done v" "st \<noteq> Running"
      "\<forall>vs fr. st = Suspended vs fr \<longrightarrow> fr \<noteq> []" by (rule dequeue_ok [OF ok Cons]) blast
    note core = dequeue_core [OF sc(1)]
    have "st \<in> set (states ?sc)" using core by (metis length_states(1) nth_mem)
    then have "vals_ok (slots_of s) (state_roots st)" "\<forall>vs frs. st = Suspended vs frs \<longrightarrow> (\<forall>fr\<in>set frs. frame_ok c fr)"
      using inv vm_ok_roots [of c s] by (auto simp: roots_ok driver_inv_def sched_good_def frames_ok_def)
    then have st: "loadable c (slots_of s) st"
      using sc(3-5) by (simp add: loadable_def split: fiber_state.split)
    have "vals_ok (slots_of s) (gather_scheduler_roots sc)"
      using core inv by (intro driver_roots [of c _ _ s sc i Running]) auto
    then have vm: "vm_ok c (s\<lparr>world := (world s)\<lparr>sched := sc\<rparr>\<rparr>)"
      using inv sc(2) by (simp add: driver_inv_def vm_ok_def world_ok_def)
    have "sched_good c {i} [] ((world s)\<lparr>sched := sc, jobs := jobs (world s)\<rparr>)"
      using inv sc(2) core
      by (intro good_update [where R = "{}" and E = "[]" and i = i and st = Running])
        (auto simp: driver_inv_def sched_good_def finishes_ok_def jobs_ok_def)
    then show ?thesis using sc(1) vm st by (simp add: driver_inv_def)
  qed
qed

lemma load_fiber_dsafe:
  fixes c :: "'e cfg"
  shows "dsafe (\<lambda>s. driver_inv c {i} [] s \<and> loadable c (slots_of s) st) (load_fiber c i st)
     (\<lambda>p s. \<exists>fr. p = Some (i, fr) \<and> driver_inv c {i} [] s \<and> frame_ok c fr)"
proof (cases st)
  case (NotStarted closure)
  let ?I = "driver_inv c {i} []"
  have parts: "dsafe (\<lambda>s. ?I s \<and> valid_val (slots_of s) closure) (\<lambda>s. (closure_parts (prog c) (slots_of s) closure, s))
      (\<lambda>(func, locals) s. ?I s \<and> vals_ok (slots_of s) locals)"
  proof (rule dsafe_conseq [OF dsafe_same_world [OF safe_read]])
    fix s :: "'e vm" assume "vm_ok c s" "valid_val (slots_of s) closure"
    then show "safe_res (\<lambda>(func, locals). vals_ok (slots_of s) locals) (closure_parts (prog c) (slots_of s) closure)"
      using closure_parts_safe vm_ok_closed by (fastforce intro: safe_res_weaken)
  qed auto
  have enter: "dsafe (\<lambda>s. ?I s \<and> vals_ok (slots_of s) locals) (on_stack (\<lambda>st. push_frame (prog c) func locals))
      (\<lambda>fr s. ?I s \<and> frame_ok c fr)" for func locals
    by (rule dsafe_same_world [OF push_frame_any on_stack_world])
  have "dsafe (\<lambda>s. ?I s \<and> valid_val (slots_of s) closure)
      (ebind (\<lambda>s. (closure_parts (prog c) (slots_of s) closure, s)) (\<lambda>(func, locals).
          ebind (on_stack (\<lambda>st. push_frame (prog c) (unat func) locals)) (\<lambda>fr. eret (Some (i, fr)))))
      (\<lambda>p s. \<exists>fr. p = Some (i, fr) \<and> ?I s \<and> frame_ok c fr)"
    by (rule triple_bind [OF parts]) (auto intro!: triple_bind [OF enter] triple_ret)
  then show ?thesis unfolding NotStarted load_fiber_def fiber_state.case by (rule dsafe_conseq) (auto simp: loadable_def)
next
  case (Suspended vs frs)
  have "driver_inv c {i} [] (s\<lparr>vstack := vs, frames := butlast frs\<rparr>)"
    if "driver_inv c {i} [] s" "vals_ok (slots_of s) vs" "\<forall>fr\<in>set frs. frame_ok c fr" for s
    using that by (auto simp: driver_inv_def vm_ok_def dest: in_set_butlastD)
  then show ?thesis
    unfolding Suspended load_fiber_def by (auto intro!: tripleI simp: loadable_def fin_ok_def split: if_splits)
qed (auto simp: load_fiber_def loadable_def triple_def elift_def)

lemma next_ready_dsafe:
  "dsafe (driver_inv c {} []) (next_ready c)
     (\<lambda>p s. case p of
        None \<Rightarrow> driver_inv c {} [] s \<and> ready (sched (world s)) = []
      | Some (i, fr) \<Rightarrow> driver_inv c {i} [] s \<and> frame_ok c fr)"
  unfolding next_ready_def
proof (rule triple_bind [OF dequeue_dsafe])
  fix d :: "(usize \<times> fiber_state) option"
  show "dsafe (\<lambda>s. case d of
        None \<Rightarrow> driver_inv c {} [] s \<and> ready (sched (world s)) = []
      | Some (i, st) \<Rightarrow> driver_inv c {i} [] s \<and> loadable c (slots_of s) st)
     (case d of None \<Rightarrow> eret None | Some (i, st) \<Rightarrow> load_fiber c i st)
     (\<lambda>p s. case p of
        None \<Rightarrow> driver_inv c {} [] s \<and> ready (sched (world s)) = []
      | Some (i, fr) \<Rightarrow> driver_inv c {i} [] s \<and> frame_ok c fr)"
  proof (cases d)
    case None
    then show ?thesis by (auto intro: triple_ret)
  next
    case (Some p)
    obtain i st where p: "p = (i, st)" by (cases p)
    show ?thesis unfolding Some p option.case case_prod_conv
      by (rule dsafe_conseq [OF load_fiber_dsafe]) auto
  qed
qed

section \<open>Deliveries\<close>

lemma vm_ok_mem:
  assumes "vm_ok c s" "heap_ok m" "store_le (slots_of s) (rt_slots m)"
  shows "vm_ok c (s\<lparr>world := (world s)\<lparr>mem := m\<rparr>\<rparr>)"
  using assms by (auto simp: vm_ok_def world_ok_def intro: valid_vals_mono)

lemma jobs_delivered:
  assumes "jobs_ok (i # E) w" "pends sc = (pends (sched w))[i := None]"
  shows "jobs_ok E (w\<lparr>sched := sc, mem := m\<rparr>)"
proof -
  have "k \<in> set (map fst (jobs w) @ E) \<longleftrightarrow> k < length (pends sc) \<and> pends sc ! k \<noteq> None" for k
  proof -
    have "k \<in> set (map fst (jobs w) @ E) \<longleftrightarrow> k \<noteq> i \<and> k \<in> set (map fst (jobs w) @ i # E)"
      using assms(1) by (auto simp: jobs_ok_def)
    also have "\<dots> \<longleftrightarrow> k \<noteq> i \<and> k < length (pends (sched w)) \<and> pends (sched w) ! k \<noteq> None"
      using assms(1) unfolding jobs_ok_def by blast
    also have "\<dots> \<longleftrightarrow> k < length (pends sc) \<and> pends sc ! k \<noteq> None"
      unfolding assms(2) by (cases "i = k") (auto simp: nth_upd simp del: length_states nth_states)
    finally show ?thesis .
  qed
  then show ?thesis using assms(1) by (simp add: jobs_ok_def del: length_states nth_states)
qed

definition deliver_one :: "usize \<Rightarrow> 'e \<Rightarrow> ('e, unit) exec" where
  "deliver_one i p =
     ebind (on_sched (take_pending i)) (\<lambda>fin. ebind (on_outside (fin p)) (\<lambda>v. on_sched_unit (deliver i v)))"

lemma deliver_one_cases:
  assumes "deliver_one i p s = (r, s')"
  obtains "take_pending i (sched (world s)) = None" "r = Err Panic" "s' = s"
  | fin sc rv m e where "take_pending i (sched (world s)) = Some (fin, sc)" "fin p (mem (world s)) (env (world s)) = (rv, m, e)"
      "mem (world s') = m"
      "\<And>x. rv = Err x \<Longrightarrow> r = Err x"
      "\<And>v. rv = Ok v \<Longrightarrow> deliver i v sc = None \<Longrightarrow> r = Err Panic"
      "\<And>v sc'. rv = Ok v \<Longrightarrow> deliver i v sc = Some sc' \<Longrightarrow> r = Ok () \<and> s' = s\<lparr>world := (world s)\<lparr>sched := sc', mem := m, env := e\<rparr>\<rparr>"
proof (cases "take_pending i (sched (world s))")
  case None
  then have "r = Err Panic" "s' = s" using assms by (simp_all add: deliver_one_def ebind_def on_sched_def)
  with None show thesis by (rule that(1))
next
  case (Some q)
  obtain fin sc where q: "q = (fin, sc)" by (cases q)
  obtain rv m e where m: "fin p (mem (world s)) (env (world s)) = (rv, m, e)" by (rule prod_cases3)
  show thesis
    by (rule that(2) [of fin sc rv m e])
      (use assms [unfolded deliver_one_def ebind_def on_sched_def on_outside_def] Some q m in
        \<open>auto split: option.splits sum.splits\<close>)
qed

lemma deliver_pends:
  assumes "take_pending i sc = Some (fin, s1)" "deliver i v s1 = Some sc'"
  shows "pends sc' = (pends sc)[i := None]" "channels sc' = channels sc" "i < length (states sc)"
    "\<exists>vs fr. states sc ! i = Suspended vs fr \<and> states sc' = (states sc)[i := Suspended (butlast vs @ [v]) fr]"
  using take_pending_core [OF assms(1)] deliver_core [OF assms(2)] by auto

lemma deliver_one_inv:
  fixes c :: "'e cfg" and s :: "'e vm"
  defines "sc \<equiv> sched (world s)"
  assumes inv: "driver_inv c {} (i # E) s" and sc: "take_pending i sc = Some (fin, s1)" "deliver i v s1 = Some sc'"
    and "sched_ok sc'" and m: "heap_ok m" "store_le (slots_of s) (rt_slots m)" "valid_val (rt_slots m) v"
  shows "driver_inv c {} E (s\<lparr>world := (world s)\<lparr>sched := sc', mem := m, env := e\<rparr>\<rparr>)"
proof -
  note core = deliver_pends [OF sc]
  obtain vs fr where st: "states sc ! i = Suspended vs fr" "states sc' = (states sc)[i := Suspended (butlast vs @ [v]) fr]"
    using core(4) by blast
  have mem: "Suspended vs fr \<in> set (states sc)" using st(1) core(3) nth_mem by metis
  have "vm_ok c (s\<lparr>world := (world s)\<lparr>mem := m\<rparr>\<rparr>)" by (rule vm_ok_mem) (use inv m in \<open>simp_all add: driver_inv_def\<close>)
  note vm = this vm_ok_roots [OF this, folded sc_def]
  have "vals_ok (rt_slots m) vs" using vm(2) mem by (fastforce simp: roots_ok sc_def)
  then have "vals_ok (rt_slots m) (gather_scheduler_roots sc')"
    using vm(2) m(3) core(2) st(2) by (intro roots_update [of _ sc sc' i]) (auto simp: sc_def list_all_iff dest!: in_set_butlastD)
  then have "vm_ok c (s\<lparr>world := (world s)\<lparr>sched := sc', mem := m, env := e\<rparr>\<rparr>)" using vm(1) assms(5) by (simp add: vm_ok_def world_ok_def)
  moreover have "sched_good c {} E ((world s)\<lparr>sched := sc', jobs := jobs (world s)\<rparr>)"
  proof (rule good_update [where R = "{}" and E = "i # E" and i = i and st = "Suspended (butlast vs @ [v]) fr"])
    show "finishes_ok sc'"
      using inv core(1) set_update_subset_insert [of "pends sc" i None]
      by (fastforce simp: driver_inv_def sched_good_def finishes_ok_def sc_def)
    show "jobs_ok E ((world s)\<lparr>sched := sc', jobs := jobs (world s)\<rparr>)"
      using jobs_delivered [of i E "world s" sc' m] inv core(1) by (simp add: driver_inv_def sched_good_def jobs_ok_def sc_def)
  qed (use inv core st mem assms(5) in \<open>auto simp: driver_inv_def sched_good_def frames_ok_def sc_def\<close>)
  ultimately show ?thesis by (simp add: driver_inv_def)
qed

lemma deliver_one_dsafe:
  fixes c :: "'e cfg"
  shows "dsafe (driver_inv c {} (i # E)) (deliver_one i p) (\<lambda>_. driver_inv c {} E)"
proof (rule tripleI)
  fix s :: "'e vm" and r s'
  let ?sc = "sched (world s)"
  assume run: "deliver_one i p s = (r, s')" and V: "fin_ok s"
  have fin: "finish_safe fin" if "take_pending i ?sc = Some (fin, sc)" for fin sc
    using V take_pending_core [OF that] nth_mem [of i "pends ?sc"] by (simp add: fin_ok_def finishes_ok_def)
  have keep: "finishes_ok sc'" if "take_pending i ?sc = Some (fin, sc)" "deliver i v sc = Some sc'" for fin sc v sc'
    using V deliver_pends(1) [OF that] set_update_subset_insert [of "pends ?sc" i None]
    by (fastforce simp: fin_ok_def finishes_ok_def)
  from run show "length (slots_of s) \<le> length (slots_of s') \<and> (\<forall>x. r = Ok x \<longrightarrow> fin_ok s')"
  proof (cases rule: deliver_one_cases)
    case (2 fin sc rv m e)
    have "length (slots_of s) \<le> length (rt_slots m)" using fin [OF 2(1)] 2(2) unfolding finish_safe_def by blast
    moreover have "fin_ok s'" if "r = Ok x" for x
      using 2(4-6) keep [OF 2(1)] that V by (cases rv; cases "deliver i (projr rv) sc") (auto simp: fin_ok_def cell_ok_def)
    ultimately show ?thesis using 2(3) by simp
  qed simp
  assume inv: "driver_inv c {} (i # E) s" and fit: "slots_fit (world s')"
  have ok: "sched_ok ?sc" "jobs_ok (i # E) (world s)" "heap_ok (mem (world s))"
    using inv by (auto simp: driver_inv_def sched_good_def vm_ok_def world_ok_def)
  have "i \<in> set (map fst (jobs (world s)) @ i # E)" by simp
  then have "i < length (pends ?sc) \<and> pends ?sc ! i \<noteq> None" using ok(2) unfolding jobs_ok_def by blast
  then have i: "i < length (fibers ?sc)" "pending (fibers ?sc ! i) \<noteq> None" by (auto simp: pends_def)
  then obtain fin0 where p: "pending (fibers ?sc ! i) = Some fin0" by blast
  from run show "r \<noteq> Err Panic \<and> (\<forall>x. r = Ok x \<longrightarrow> driver_inv c {} E s')"
  proof (cases rule: deliver_one_cases)
    case 1
    then show ?thesis by (rule_tac deliver_ok [OF ok(1) i(1) p]) simp
  next
    case (2 fin sc rv m e)
    note F = fin [OF 2(1), unfolded finish_safe_def, rule_format, OF 2(2), THEN conjunct2, rule_format]
    have F: "rv \<noteq> Err Panic" "heap_ok m" "store_le (slots_of s) (rt_slots m)" "\<And>v. rv = Ok v \<Longrightarrow> valid_val (rt_slots m) v"
      using F ok(3) fit 2(3) by (simp_all add: slots_fit_def)
    show ?thesis
    proof (cases rv)
      case (Inr v)
      obtain s1 sc' where d: "take_pending i ?sc = Some (fin0, s1)" "deliver i v s1 = Some sc'" "sched_ok sc'"
        by (rule deliver_ok [OF ok(1) i(1) p, of v])
      then show ?thesis
        using 2(1) 2(6) [of v sc'] Inr deliver_one_inv [OF inv 2(1), of v sc' m e] F by auto
    qed (use 2 F in auto)
  qed
qed

lemma ebind_assoc: "ebind (ebind m f) g = ebind m (\<lambda>x. ebind (f x) g)"
  by (simp add: ebind_def fun_eq_iff split: prod.splits sum.splits)

lemma deliver_completions_dsafe:
  "dsafe (driver_inv c {} (map fst cs)) (deliver_completions cs) (\<lambda>_. driver_inv c {} [])"
proof (induction cs)
  case (Cons q cs)
  obtain i p where q: "q = (i, p)" by (cases q)
  have "deliver_completions (q # cs) = ebind (deliver_one i p) (\<lambda>_. deliver_completions cs)"
    by (simp add: q deliver_one_def ebind_assoc)
  then show ?case using triple_bind [OF deliver_one_dsafe Cons.IH] by (simp add: q)
qed (simp add: triple_ret)

lemma completions_split:
  "completions js ps = (cs, rest) \<Longrightarrow> distinct (map fst js) \<Longrightarrow>
     distinct (map fst rest @ map fst cs) \<and> set (map fst rest @ map fst cs) = set (map fst js)"
proof (induction js ps arbitrary: cs rest rule: completions.induct)
  case (2 js i p ps)
  show ?case
  proof (cases "i \<in> set (map fst js)")
    case True
    let ?js = "filter (\<lambda>j. fst j \<noteq> i) js"
    obtain cs' where cs: "completions ?js ps = (cs', rest)" "cs = (i, p) # cs'"
      using 2(3) True by (auto split: prod.splits)
    have "distinct (map fst ?js)" using 2(4) by (simp add: distinct_map_filter)
    then have "distinct (map fst rest @ map fst cs')" "set (map fst rest @ map fst cs') = set (map fst ?js)"
      using 2(1) [OF True cs(1)] by blast+
    moreover have "set (map fst ?js) = set (map fst js) - {i}" by auto
    ultimately show ?thesis using cs(2) True by auto
  next
    case False
    then show ?thesis using 2 by simp
  qed
qed auto

lemma take_completions_dsafe:
  "dsafe (driver_inv c {} []) (take_completions ps) (\<lambda>cs. driver_inv c {} (map fst cs))"
proof (rule tripleI)
  fix s r s' assume m: "take_completions ps s = (r, s')" and V: "fin_ok s"
  obtain cs rest where cs: "completions (jobs (world s)) ps = (cs, rest)" by fastforce
  have s': "r = Ok cs" "s' = s\<lparr>world := (world s)\<lparr>jobs := rest\<rparr>\<rparr>" using m cs by (simp_all add: take_completions_def)
  show "length (slots_of s) \<le> length (slots_of s') \<and> (\<forall>x. r = Ok x \<longrightarrow> fin_ok s')"
    using V s' by (simp add: fin_ok_def cell_ok_def)
  assume inv: "driver_inv c {} [] s"
  then have "distinct (map fst (jobs (world s)))" by (simp add: driver_inv_def sched_good_def jobs_ok_def)
  from completions_split [OF cs this] have "jobs_ok (map fst cs) ((world s)\<lparr>jobs := rest\<rparr>)"
    using inv unfolding driver_inv_def sched_good_def jobs_ok_def by simp
  then show "r \<noteq> Err Panic \<and> (\<forall>x. r = Ok x \<longrightarrow> driver_inv c {} (map fst x) s')"
    using inv s' by (simp add: driver_inv_def sched_good_def vm_ok_def world_ok_def cell_ok_def)
qed

section \<open>Waiting\<close>

lemma wake_handles_dsafe: "dsafe (driver_inv c R E) (wake_handles hs) (\<lambda>_. driver_inv c R E)"
proof (induction hs)
  case (Cons h hs)
  have "dsafe (driver_inv c R E) (on_sched_unit (wake_poll h)) (\<lambda>_. driver_inv c R E)"
    by (rule same_core_dsafe) (use wake_poll_core wake_poll_ok in fastforce)+
  then show ?case by (simp add: triple_bind Cons.IH)
qed (simp add: triple_ret)

lemma timers_due_dsafe:
  "dsafe (driver_inv c R E) (ebind (on_sched (wake_due_timers now)) (\<lambda>_. eret ())) (\<lambda>_. driver_inv c R E)"
proof (rule triple_bind)
  show "dsafe (driver_inv c R E) (on_sched (wake_due_timers now)) (\<lambda>_. driver_inv c R E)"
    by (rule same_core_dsafe) (use wake_due_timers_core wake_due_timers_ok in blast)+
qed (simp add: triple_ret)

lemma triple_pointwise:
  "(\<And>s. \<exists>m'. m s = m' s \<and> triple V P m' V' Q) \<Longrightarrow> triple V P m V' Q"
  unfolding triple_def by metis

lemma idle_wait_dsafe: "dsafe (driver_inv c {} []) (idle_wait ev) (\<lambda>_. driver_inv c {} [])"
proof (rule triple_pointwise)
  let ?I = "driver_inv c {} []"
  let ?timers = "ebind (on_sched (wake_due_timers (ev_now ev))) (\<lambda>_. eret ())"
  let ?done = "ebind (ebind (take_completions (ev_done ev)) deliver_completions) (\<lambda>_. ?timers)"
  let ?poll = "ebind (elift (map_sum Trap id (ev_handles ev))) (\<lambda>hs. ebind (wake_handles hs) (\<lambda>_. ?done))"
  note t = timers_due_dsafe [of c "{}" "[]" "ev_now ev"]
  have d: "dsafe ?I ?done (\<lambda>_. ?I)"
    by (intro triple_bind [OF triple_bind [OF take_completions_dsafe deliver_completions_dsafe] t])
  have "dsafe ?I (elift (map_sum Trap id (ev_handles ev))) (\<lambda>_. ?I)"
    by (cases "ev_handles ev") (auto simp: triple_def elift_def)
  then have p: "dsafe ?I ?poll (\<lambda>_. ?I)" by (intro triple_bind [OF _ triple_bind [OF wake_handles_dsafe d]])
  show "\<exists>m'. idle_wait ev s = m' s \<and> dsafe ?I m' (\<lambda>_. ?I)" for s
    unfolding idle_wait_def Let_def using t d p by (auto intro!: exI)
qed

text \<open>Without a ready fiber and a source outside, every fiber that is not done waits on a channel.\<close>

lemma idle_blocked:
  assumes ok: "sched_ok s" and idle: "ready s = []" "\<not> has_external s" and i: "i < length (fibers s)"
  shows "fstate (fibers s ! i) = Running \<or> (\<exists>v. fstate (fibers s ! i) = Done v) \<or> i \<in> set (blocked s)"
proof -
  have "filter (\<lambda>f. pending f \<noteq> None) (fibers s) = []"
    using sched_ok_ids [OF ok] idle(2) by (simp add: ids_ok_def has_external_def)
  then have p: "pending (fibers s ! i) = None" using i nth_mem by (fastforce simp: filter_empty_conv)
  have "\<not> in_poll s h i" "\<not> in_timers s i" for h
    using idle(2) by (auto simp: has_external_def in_poll_def in_timers_def earliest_deadline_def dom_def split: if_splits)
  then have l: "listed s i \<longleftrightarrow> i \<in> set (blocked s)" by (simp add: listed_def)
  have "fiber_inv {} s i (fibers s ! i)" using ok i by (simp add: sched_ok_def sched_invD)
  then show ?thesis using p l idle(1) by (auto simp: fiber_inv_def split: fiber_state.splits)
qed

definition chosen :: "'e cfg \<Rightarrow> 'e choice \<Rightarrow> 'e vm \<Rightarrow> bool" where
  "chosen c ch s = (case ch of Switch i fr _ \<Rightarrow> driver_inv c {i} [] s \<and> frame_ok c fr | Stop \<Rightarrow> False)"

lemma ready_or_dsafe:
  assumes w: "dsafe (driver_inv c {} []) wait (chosen c)"
  shows "dsafe (driver_inv c {} []) (ready_or c evs wait) (chosen c)"
  unfolding ready_or_def
proof (rule triple_bind [OF next_ready_dsafe])
  fix p :: "(usize \<times> frame) option"
  let ?P = "\<lambda>s. case p of
        None \<Rightarrow> driver_inv c {} [] s \<and> ready (sched (world s)) = []
      | Some (i, fr) \<Rightarrow> driver_inv c {i} [] s \<and> frame_ok c fr"
  have stop: "False" if "driver_inv c {} [] s" "ready (sched (world s)) = []" "\<not> has_external (sched (world s))"
      "blocked (sched (world s)) = []" for s
    using that idle_blocked [of "sched (world s)" 0] nth_states(1) [of 0 "sched (world s)"]
    by (auto simp: driver_inv_def sched_good_def simp del: nth_states) (simp add: states_def)
  show "dsafe ?P (case p of
         Some (i, fr) \<Rightarrow> eret (Switch i fr evs)
       | None \<Rightarrow> (\<lambda>s.
           if has_external (sched (world s)) then wait s
           else if blocked (sched (world s)) \<noteq> [] then (Err (bug ''all fibers blocked (deadlock)''), s)
           else (Ok Stop, s))) (chosen c)"
    using w stop by (cases p) (auto simp: triple_def eret_def chosen_def bug_def)
qed

lemma await_ready_dsafe: "dsafe (driver_inv c {} []) (await_ready c evs) (chosen c)"
proof (induction evs)
  case Nil
  show ?case by (simp add: ready_or_dsafe triple_fault)
next
  case (Cons ev evs)
  then show ?case by (simp add: ready_or_dsafe triple_bind [OF idle_wait_dsafe])
qed

section \<open>The loop\<close>

definition live_result :: "'e cfg \<Rightarrow> val \<Rightarrow> 'e vm \<Rightarrow> bool" where
  "live_result c v s \<longleftrightarrow> vm_ok c s \<and> valid_val (slots_of s) v"

lemma drive_loop_dsafe:
  fixes c :: "'e cfg"
  assumes c: "module_safe (prog c)" "natives_ok c"
  shows "dsafe (\<lambda>s. driver_inv c {i} [] s \<and> frame_ok c fr) (drive_loop c n evs i fr) (live_result c)"
proof (induction n arbitrary: evs i fr)
  case (Suc n)
  let ?I = "driver_inv c {} []"
  let ?switch = "ebind (await_ready c evs) (\<lambda>ch.
           case ch of Switch i fr evs \<Rightarrow> drive_loop c n evs i fr | Stop \<Rightarrow> eret Unit)"
  have switch: "dsafe ?I ?switch (live_result c)"
  proof (rule triple_bind [OF await_ready_dsafe])
    fix ch :: "'e choice"
    show "dsafe (chosen c ch) (case ch of Switch i fr evs \<Rightarrow> drive_loop c n evs i fr | Stop \<Rightarrow> eret Unit) (live_result c)"
      by (cases ch) (auto simp: chosen_def intro: dsafe_conseq [OF Suc.IH] triple_ret)
  qed
  have finished: "triple (\<lambda>s. fin_ok s \<and> X) (\<lambda>s. driver_inv c {i} [] s \<and> valid_val (slots_of s) v)
      (ebind (on_sched_unit (complete i v)) (\<lambda>_. if i = MAIN_FIBER then eret v else ?switch)) (\<lambda>_. fin_ok) (live_result c)" for v X
  proof (rule triple_conseq)
    show "dsafe (\<lambda>s. driver_inv c {i} [] s \<and> valid_val (slots_of s) v)
        (ebind (on_sched_unit (complete i v)) (\<lambda>_. if i = MAIN_FIBER then eret v else ?switch)) (live_result c)"
    proof (rule triple_bind [OF complete_dsafe])
      show "dsafe (\<lambda>s. vm_ok c s \<and> valid_val (slots_of s) v \<and> (i \<noteq> MAIN_FIBER \<longrightarrow> ?I s))
          (if i = MAIN_FIBER then eret v else ?switch) (live_result c)"
        by (cases "i = MAIN_FIBER") (auto simp: live_result_def intro: triple_ret dsafe_conseq [OF switch])
    qed
  qed auto
  show ?case unfolding drive_loop.simps Let_def
  proof (rule triple_bind [OF run_loop_triple [OF c]])
    fix oc :: "'e outcome"
    show "triple (\<lambda>s. fin_ok s \<and> (\<forall>req. oc = Parked req \<longrightarrow> req_ok req s))
        (\<lambda>s. driver_inv c {i} [] s \<and> (case oc of Finished v \<Rightarrow> valid_val (slots_of s) v | Parked _ \<Rightarrow> frames s \<noteq> []))
        (case oc of Finished v \<Rightarrow> ebind (on_sched_unit (complete i v)) (\<lambda>_. if i = MAIN_FIBER then eret v else ?switch)
          | Parked req \<Rightarrow> ebind (park_fiber i req) (\<lambda>_. ?switch)) (\<lambda>_. fin_ok) (live_result c)"
      using finished [of True] triple_bind [OF park_fiber_triple switch] by (cases oc) simp_all
  qed
qed (simp add: triple_fault)

text \<open>The whole run starts from a machine between two runs, with no job at the pool, and leaves one.\<close>

definition idle_vm :: "'e cfg \<Rightarrow> 'e vm \<Rightarrow> bool" where
  "idle_vm c s \<longleftrightarrow> vm_ok c s \<and> jobs (world s) = [] \<and> cell_ok (world s)"

lemma start_fin: "cell_ok (world s) \<Longrightarrow> fin_ok (s\<lparr>world := (world s)\<lparr>sched := sched_start\<rparr>\<rparr>)"
  by (simp add: fin_ok_def finishes_ok_def cell_ok_def sched_start_def sched_new_def pends_def)

lemma start_inv:
  fixes c :: "'e cfg" and s :: "'e vm"
  assumes "idle_vm c s"
  shows "driver_inv c {MAIN_FIBER} [] (s\<lparr>world := (world s)\<lparr>sched := sched_start\<rparr>\<rparr>)"
    "fin_ok (s\<lparr>world := (world s)\<lparr>sched := sched_start\<rparr>\<rparr>)"
proof -
  have st: "states (sched_start :: 'e scheduler) = [Running]" "pends (sched_start :: 'e scheduler) = [None]"
      "channels (sched_start :: 'e scheduler) = []"
    by (simp_all add: sched_start_def sched_new_def states_def pends_def)
  have "vals_ok (slots_of s) (gather_scheduler_roots (sched_start :: 'e scheduler))" by (simp add: roots_ok st)
  then show "driver_inv c {MAIN_FIBER} [] (s\<lparr>world := (world s)\<lparr>sched := sched_start\<rparr>\<rparr>)"
    using assms sched_start_ok st
    by (auto simp: idle_vm_def driver_inv_def sched_good_def vm_ok_def world_ok_def cell_ok_def frames_ok_def finishes_ok_def
        jobs_ok_def MAIN_FIBER_def nth_Cons' simp del: length_states nth_states)
  show "fin_ok (s\<lparr>world := (world s)\<lparr>sched := sched_start\<rparr>\<rparr>)"
    using assms st by (simp add: idle_vm_def fin_ok_def finishes_ok_def cell_ok_def)
qed

lemma drive_dsafe:
  fixes c :: "'e cfg"
  assumes c: "module_safe (prog c)" "natives_ok c"
  shows "dsafe (\<lambda>s. driver_inv c {MAIN_FIBER} [] s \<and> vals_ok (slots_of s) args) (drive c n evs func args) (live_result c)"
  unfolding drive_def
  by (rule triple_bind [OF dsafe_same_world [OF push_frame_any on_stack_world] drive_loop_dsafe [OF c]])

lemma run_safe:
  fixes c :: "'e cfg"
  assumes c: "module_safe (prog c)" "natives_ok c" and s: "idle_vm c s" "vals_ok (slots_of s) args"
    and run: "run c n evs func args s = (r, s')" and fit: "slots_fit (world s')"
  shows "r \<noteq> Err Panic \<and> (\<forall>v. r = Ok v \<longrightarrow> valid_val (slots_of s') v \<and> idle_vm c s')"
proof -
  let ?s = "s\<lparr>world := (world s)\<lparr>sched := sched_start\<rparr>\<rparr>"
  obtain s1 where d: "drive c n evs func args ?s = (r, s1)" and s': "s' = s1\<lparr>world := (world s1)\<lparr>sched := sched_new, jobs := [], env := teardown c (env (world s1))\<rparr>\<rparr>"
    using run by (auto simp: run_def split: prod.splits)
  have new: "vals_ok st (gather_scheduler_roots sched_new)" for st
    by (simp add: gather_scheduler_roots_def sched_new_def)
  have "r \<noteq> Err Panic \<and> (\<forall>v. r = Ok v \<longrightarrow> live_result c v s1)"
    by (rule tripleD(3) [OF drive_dsafe [OF c] d start_inv(2) [OF s(1)]])
      (use start_inv(1) [OF s(1)] s fit s' in \<open>simp_all add: slots_fit_def\<close>)
  moreover have "fin_ok s1" if "r = Ok v" for v
    using tripleD(2) [OF drive_dsafe [OF c] d start_inv(2) [OF s(1)] that] .
  ultimately show ?thesis
    using s' new sched_new_ok by (auto simp: idle_vm_def live_result_def vm_ok_def world_ok_def fin_ok_def cell_ok_def)
qed

text \<open>What holds of a run whatever becomes of the heap: the slab does not shrink, and no request is left that could
  break the next run.\<close>

lemma run_slots:
  fixes c :: "'e cfg"
  assumes c: "module_safe (prog c)" "natives_ok c" and s: "cell_ok (world s)" and run: "run c n evs func args s = (r, s')"
  shows "length (slots_of s) \<le> length (slots_of s')" "r = Ok v \<Longrightarrow> cell_ok (world s')"
proof -
  let ?s = "s\<lparr>world := (world s)\<lparr>sched := sched_start\<rparr>\<rparr>"
  obtain s1 where d: "drive c n evs func args ?s = (r, s1)"
    and s': "s' = s1\<lparr>world := (world s1)\<lparr>sched := sched_new, jobs := [], env := teardown c (env (world s1))\<rparr>\<rparr>"
    using run by (auto simp: run_def split: prod.splits)
  note D = tripleD [OF drive_dsafe [OF c] d start_fin [OF s]]
  show "length (slots_of s) \<le> length (slots_of s')" using D(1) s' by simp
  show "r = Ok v \<Longrightarrow> cell_ok (world s')" using D(2) s' by (simp add: fin_ok_def cell_ok_def)
qed

end
