(* ===== verification/DriverFuel.thy ===== *)
theory DriverFuel
  imports Driver RunFuel
begin

text \<open>
  The fuel of the driver, like that of the loop it runs, only cuts: a program that ends within some
  fuel ends in the same way within any larger fuel, given the same events outside.
\<close>

lemma agrees_drive_loop: "n \<le> n' \<Longrightarrow> agrees (drive_loop c n evs i fr) (drive_loop c n' evs i fr)"
proof (induction n arbitrary: n' evs i fr)
  case (Suc n)
  then obtain k where k: "n' = Suc k" "n \<le> k" by (cases n') auto
  note IH = Suc.IH [OF k(2)]
  have switch: "agrees (ebind (await_ready c evs) (\<lambda>ch. case ch of Switch i fr evs \<Rightarrow> drive_loop c n evs i fr | Stop \<Rightarrow> eret Unit))
      (ebind (await_ready c evs) (\<lambda>ch. case ch of Switch i fr evs \<Rightarrow> drive_loop c k evs i fr | Stop \<Rightarrow> eret Unit))" for evs
    by (intro agrees_bind agrees_refl) (auto split: choice.split intro: IH)
  show ?case
    unfolding k(1) drive_loop.simps Let_def
    by (intro agrees_bind agrees_run_loop k(2)) (auto split: outcome.split intro!: agrees_bind switch)
qed simp

lemma run_agrees:
  assumes "n \<le> n'"
  shows "agrees (run c n evs func args) (run c n' evs func args)"
proof -
  have "agrees (drive c n evs func args) (drive c n' evs func args)"
    unfolding drive_def by (intro agrees_bind agrees_refl agrees_drive_loop assms)
  then show ?thesis unfolding agrees_def run_def by (auto simp: Let_def split: prod.splits)
qed

end
