(* ===== verification/NativeBase.thy ===== *)
theory NativeBase
  imports DriverSafe
begin

text \<open>
  What the natives share (\<^verbatim>\<open>runtime/src/interp/natives.rs\<close>, \<^verbatim>\<open>runtime/src/value.rs\<close>): the
  checks of arguments, access to lists, bytes and builders behind a handle, the constructors
  of results, and the contract of a native as a triple that composes along its body.
\<close>

section \<open>Bodies of natives\<close>

type_synonym ('e, 'a) eff = "'e world \<Rightarrow> 'a res \<times> 'e world"

definition nret :: "'a \<Rightarrow> ('e, 'a) eff" where
  "nret x w = (Ok x, w)"

definition nlift :: "'a res \<Rightarrow> ('e, 'a) eff" where
  "nlift r w = (r, w)"

definition nbind :: "('e, 'a) eff \<Rightarrow> ('a \<Rightarrow> ('e, 'b) eff) \<Rightarrow> ('e, 'b) eff" where
  "nbind m f w = (case m w of (Inl e, w') \<Rightarrow> (Err e, w') | (Inr x, w') \<Rightarrow> f x w')"

definition nread :: "(store \<Rightarrow> 'a res) \<Rightarrow> ('e, 'a) eff" where
  "nread f w = (f (rt_slots (mem w)), w)"

fun nmap :: "('a \<Rightarrow> ('e, 'b) eff) \<Rightarrow> 'a list \<Rightarrow> ('e, 'b list) eff" where
  "nmap f [] = nret []"
| "nmap f (x # xs) = nbind (f x) (\<lambda>y. nbind (nmap f xs) (\<lambda>ys. nret (y # ys)))"

text \<open>The same over results alone (an iterator collected into a \<open>Result\<close>).\<close>

fun rmap :: "('a \<Rightarrow> 'b res) \<Rightarrow> 'a list \<Rightarrow> 'b list res" where
  "rmap f [] = Ok []"
| "rmap f (x # xs) = rbind (f x) (\<lambda>y. rbind (rmap f xs) (\<lambda>ys. Ok (y # ys)))"

section \<open>Arguments\<close>

definition arity_error :: "string \<Rightarrow> string \<Rightarrow> val list \<Rightarrow> 'a res" where
  "arity_error who n args = Err (bug (who @ '' expects '' @ n @ '', got '' @ nat_digits (length args)))"

definition expect_one :: "val list \<Rightarrow> string \<Rightarrow> val res" where
  "expect_one args who = (case args of [v] \<Rightarrow> Ok v | _ \<Rightarrow> arity_error who ''1 argument'' args)"

definition expect_no_args :: "val list \<Rightarrow> string \<Rightarrow> unit res" where
  "expect_no_args args who = (if args = [] then Ok () else arity_error who ''0 arguments'' args)"

definition args2 :: "val list \<Rightarrow> string \<Rightarrow> (val \<times> val) res" where
  "args2 args who = (case args of [a, b] \<Rightarrow> Ok (a, b) | _ \<Rightarrow> arity_error who ''2 arguments'' args)"

definition args3 :: "val list \<Rightarrow> string \<Rightarrow> (val \<times> val \<times> val) res" where
  "args3 args who = (case args of [a, b, c] \<Rightarrow> Ok (a, b, c) | _ \<Rightarrow> arity_error who ''3 arguments'' args)"

definition as_int :: "val \<Rightarrow> string \<Rightarrow> i64 res" where
  "as_int v who =
     (case v of IntV n \<Rightarrow> Ok n | _ \<Rightarrow> Err (bug (who @ '': expected Int, found '' @ value_debug v)))"

definition as_double :: "val \<Rightarrow> string \<Rightarrow> f64 res" where
  "as_double v who =
     (case v of Double x \<Rightarrow> Ok x | _ \<Rightarrow> Err (bug (who @ '': expected Double, found '' @ value_debug v)))"

section \<open>Objects behind a handle\<close>

text \<open>\<open>with_list\<close> and \<open>with_list_ref\<close> (they differ in whether the vector is cloned).\<close>

definition list_items :: "store \<Rightarrow> val \<Rightarrow> string \<Rightarrow> val list res" where
  "list_items st v who =
     (case v of
        Ref h \<Rightarrow> rbind (or_panic (lookup st h)) (\<lambda>obj.
          case obj of List items \<Rightarrow> Ok items | _ \<Rightarrow> Err (bug (who @ '': expected list'')))
      | _ \<Rightarrow> Err (bug (who @ '': expected list'')))"

definition bytes_contents :: "store \<Rightarrow> val \<Rightarrow> string \<Rightarrow> u8 list res" where
  "bytes_contents st v who =
     (case v of
        Ref h \<Rightarrow> rbind (or_panic (lookup st h)) (\<lambda>obj.
          case obj of Bytes b \<Rightarrow> Ok b | _ \<Rightarrow> Err (bug (who @ '': expected Bytes'')))
      | _ \<Rightarrow> Err (bug (who @ '': expected Bytes, found '' @ value_debug v)))"

text \<open>\<open>heap::with_obj_mut\<close> on one kind of object; \<open>f\<close> answers a result and the new object.\<close>

definition nupdate :: "fault \<Rightarrow> (obj \<Rightarrow> ('a \<times> obj) res) \<Rightarrow> val \<Rightarrow> ('e, 'a) eff" where
  "nupdate other f v w =
     (case v of
        Ref h \<Rightarrow>
          (case lookup (rt_slots (mem w)) h of
             None \<Rightarrow> (Err Panic, w)
           | Some obj \<Rightarrow>
               (case f obj of
                  Inl e \<Rightarrow> (Err e, w)
                | Inr (x, obj') \<Rightarrow> (Ok x, w\<lparr>mem := put_slot h (Some obj') (mem w)\<rparr>)))
      | _ \<Rightarrow> (Err other, w))"

definition with_list_mut :: "val \<Rightarrow> string \<Rightarrow> (val list \<Rightarrow> ('a \<times> val list) res) \<Rightarrow> ('e, 'a) eff" where
  "with_list_mut v who f =
     nupdate (bug (who @ '': expected list''))
       (\<lambda>obj. case obj of
          List items \<Rightarrow> rbind (f items) (\<lambda>(x, items). Ok (x, List items))
        | _ \<Rightarrow> Err (bug (who @ '': expected list''))) v"

definition with_builder_mut :: "val \<Rightarrow> string \<Rightarrow> (u8 list \<Rightarrow> 'a \<times> u8 list) \<Rightarrow> ('e, 'a) eff" where
  "with_builder_mut v who f =
     nupdate (bug (who @ '': expected BytesBuilder, found '' @ value_debug v))
       (\<lambda>obj. case obj of
          BytesBuilder bs \<Rightarrow> (let (x, bs) = f bs in Ok (x, BytesBuilder bs))
        | _ \<Rightarrow> Err (bug (who @ '': expected BytesBuilder''))) v"

section \<open>Constructors\<close>

definition heap_alloc :: "layout \<Rightarrow> obj \<Rightarrow> ('e, val) eff" where
  "heap_alloc L obj w = (let (v, m) = alloc L obj (mem w) in (Ok v, w\<lparr>mem := m\<rparr>))"

abbreviation new_str :: "layout \<Rightarrow> string \<Rightarrow> ('e, val) eff" where "new_str L s \<equiv> heap_alloc L (Str s)"
abbreviation new_bytes :: "layout \<Rightarrow> u8 list \<Rightarrow> ('e, val) eff" where "new_bytes L b \<equiv> heap_alloc L (Bytes b)"
abbreviation new_list :: "layout \<Rightarrow> val list \<Rightarrow> ('e, val) eff" where "new_list L vs \<equiv> heap_alloc L (List vs)"

definition new_enum :: "layout \<Rightarrow> u32 \<Rightarrow> u16 \<Rightarrow> val list \<Rightarrow> ('e, val) eff" where
  "new_enum L ty tag fs = heap_alloc L (Enum \<lparr>enum_ty = ty, enum_variant = tag, enum_fields = fs\<rparr>)"

definition some_val :: "layout \<Rightarrow> val \<Rightarrow> ('e, val) eff" where "some_val L v = new_enum L TY_OPTION TAG_SOME [v]"
definition none_val :: "layout \<Rightarrow> ('e, val) eff" where "none_val L = new_enum L TY_OPTION TAG_NONE []"
definition ok_val :: "layout \<Rightarrow> val \<Rightarrow> ('e, val) eff" where "ok_val L v = new_enum L TY_RESULT TAG_OK [v]"
definition err_val :: "layout \<Rightarrow> val \<Rightarrow> ('e, val) eff" where "err_val L v = new_enum L TY_RESULT TAG_ERR [v]"

definition option_val :: "layout \<Rightarrow> val option \<Rightarrow> ('e, val) eff" where
  "option_val L x = (case x of Some v \<Rightarrow> some_val L v | None \<Rightarrow> none_val L)"

definition string_list :: "layout \<Rightarrow> string list \<Rightarrow> ('e, val) eff" where
  "string_list L parts = nbind (nmap (\<lambda>s. new_str L s) parts) (\<lambda>vs. new_list L vs)"

definition int_list :: "layout \<Rightarrow> i64 list \<Rightarrow> ('e, val) eff" where
  "int_list L items = new_list L (map IntV items)"

section \<open>The contract\<close>

text \<open>\<open>nsafe vs m res\<close>: with the values \<open>vs\<close> live, \<open>m\<close> keeps the world's invariant and every live handle, does to the
  scheduler only what a native may, does not panic, and the values \<open>res x\<close> of its result \<open>x\<close> are live.\<close>

definition nsafe :: "val list \<Rightarrow> ('e, 'a) eff \<Rightarrow> ('a \<Rightarrow> val list) \<Rightarrow> bool" where
  "nsafe vs m res \<longleftrightarrow>
     (\<forall>w r w'. m w = (r, w') \<longrightarrow>
        length (rt_slots (mem w)) \<le> length (rt_slots (mem w')) \<and> sched_rel w w' \<and>
        (world_ok w \<and> vals_ok (rt_slots (mem w)) vs \<and> slots_fit w' \<longrightarrow>
           r \<noteq> Err Panic \<and> world_ok w' \<and> store_le (rt_slots (mem w)) (rt_slots (mem w')) \<and>
           gc_paused (mem w') = gc_paused (mem w) \<and> (\<forall>x. r = Ok x \<longrightarrow> vals_ok (rt_slots (mem w')) (res x))))"

lemma nsafeD:
  assumes "nsafe vs m res" "m w = (r, w')"
  shows "length (rt_slots (mem w)) \<le> length (rt_slots (mem w'))" "sched_rel w w'"
    and "world_ok w \<Longrightarrow> vals_ok (rt_slots (mem w)) vs \<Longrightarrow> slots_fit w' \<Longrightarrow>
      r \<noteq> Err Panic \<and> world_ok w' \<and> store_le (rt_slots (mem w)) (rt_slots (mem w')) \<and>
      gc_paused (mem w') = gc_paused (mem w) \<and> (\<forall>x. r = Ok x \<longrightarrow> vals_ok (rt_slots (mem w')) (res x))"
  using assms unfolding nsafe_def by blast+

lemma nsafe_native:
  assumes "\<And>args. nsafe args (f args) (\<lambda>v. [v])"
  shows "native_ok f"
proof -
  have "native_safe f"
    unfolding native_safe_def
  proof (intro allI impI)
    fix args w r w' assume run: "f args w = (r, w')"
    note D = nsafeD [OF assms run]
    then show "length (rt_slots (mem w)) \<le> length (rt_slots (mem w')) \<and>
        (world_ok w \<and> vals_ok (rt_slots (mem w)) args \<and> slots_fit w' \<longrightarrow>
           r \<noteq> Err Panic \<and> world_ok w' \<and> store_le (rt_slots (mem w)) (rt_slots (mem w')) \<and>
           gc_paused (mem w') = gc_paused (mem w) \<and> (\<forall>v. r = Ok v \<longrightarrow> valid_val (rt_slots (mem w')) v))"
      by auto
  qed
  moreover have "sched_rel w (snd (f args w))" for args w
    using nsafeD(2) [OF assms, of args w "fst (f args w)" "snd (f args w)"] by simp
  ultimately show ?thesis by (simp add: native_ok_def)
qed

text \<open>With \<open>vs\<close> live, so are \<open>us\<close>.\<close>

definition keeps :: "val list \<Rightarrow> val list \<Rightarrow> bool" where
  "keeps vs us \<longleftrightarrow> (\<forall>st. vals_ok st vs \<longrightarrow> vals_ok st us)"

lemma keepsD: "keeps vs us \<Longrightarrow> vals_ok st vs \<Longrightarrow> vals_ok st us"
  by (simp add: keeps_def)

lemma keeps_subset: "set us \<subseteq> set vs \<Longrightarrow> keeps vs us"
  by (auto simp: keeps_def list_all_iff)

lemma keeps_simps [simp]:
  "keeps vs []" "keeps vs (v # u # us) \<longleftrightarrow> keeps vs [v] \<and> keeps vs (u # us)" "keeps vs (us @ us') \<longleftrightarrow> keeps vs us \<and> keeps vs us'"
  "keeps vs [IntV n]" "keeps vs [Double d]" "keeps vs [Bool t]" "keeps vs [Unit]" "keeps vs (map IntV ns)"
  by (auto simp: keeps_def list_all_iff)

lemma keeps_Cons: "keeps vs [v] \<Longrightarrow> keeps vs us \<Longrightarrow> keeps vs (v # us)"
  by (simp add: keeps_def)

lemma keeps_mem [intro]: "v \<in> set vs \<Longrightarrow> keeps vs [v]"
  by (simp add: keeps_subset)

lemma nsafe_weaken:
  assumes "nsafe vs m res" "keeps us vs"
  shows "nsafe us m res"
  using assms keepsD [OF assms(2)] unfolding nsafe_def by blast

lemma nsafe_bind:
  assumes m: "nsafe vs m res" and f: "\<And>x. nsafe (vs @ res x) (f x) res'"
  shows "nsafe vs (nbind m f) res'"
  unfolding nsafe_def
proof (intro allI impI)
  fix w r w' assume run: "nbind m f w = (r, w')"
  obtain r1 w1 where m1: "m w = (r1, w1)" by fastforce
  note 1 = nsafeD [OF m m1]
  show "length (rt_slots (mem w)) \<le> length (rt_slots (mem w')) \<and> sched_rel w w' \<and>
        (world_ok w \<and> vals_ok (rt_slots (mem w)) vs \<and> slots_fit w' \<longrightarrow>
           r \<noteq> Err Panic \<and> world_ok w' \<and> store_le (rt_slots (mem w)) (rt_slots (mem w')) \<and>
           gc_paused (mem w') = gc_paused (mem w) \<and> (\<forall>x. r = Ok x \<longrightarrow> vals_ok (rt_slots (mem w')) (res' x)))"
  proof (cases r1)
    case (Inl e)
    then have "r = Err e" "w' = w1" using run m1 by (simp_all add: nbind_def)
    then show ?thesis using 1 Inl by simp
  next
    case (Inr x)
    then have f1: "f x w1 = (r, w')" using run m1 by (simp add: nbind_def)
    note 2 = nsafeD [OF f f1]
    have "r \<noteq> Err Panic \<and> world_ok w' \<and> store_le (rt_slots (mem w)) (rt_slots (mem w')) \<and>
        gc_paused (mem w') = gc_paused (mem w) \<and> (\<forall>x. r = Ok x \<longrightarrow> vals_ok (rt_slots (mem w')) (res' x))"
      if pre: "world_ok w" "vals_ok (rt_slots (mem w)) vs" "slots_fit w'"
    proof -
      have "slots_fit w1" using 2(1) pre(3) by (simp add: slots_fit_def)
      note post = 1(3) [OF pre(1,2) this]
      then have "vals_ok (rt_slots (mem w1)) (vs @ res x)" using Inr pre(2) by (auto intro: valid_vals_mono)
      then show ?thesis using 2(3) post pre(3) store_le_trans by (metis (no_types, lifting))
    qed
    then show ?thesis using 1(1,2) 2(1,2) sr.R_trans [OF 1(2) 2(2)] by auto
  qed
qed

lemma nsafe_ret: "keeps vs (res x) \<Longrightarrow> nsafe vs (nret x) res"
  by (auto simp: nsafe_def nret_def keeps_def sr.R_refl)

lemma nsafe_lift:
  assumes "r \<noteq> Err Panic" "\<And>x. r = Ok x \<Longrightarrow> keeps vs (res x)"
  shows "nsafe vs (nlift r) res"
  using assms by (auto simp: nsafe_def nlift_def keeps_def sr.R_refl)

lemma nsafe_read:
  assumes "\<And>st. store_closed st \<Longrightarrow> vals_ok st vs \<Longrightarrow> safe_res (\<lambda>x. vals_ok st (res x)) (f st)"
  shows "nsafe vs (nread f) res"
  using assms by (fastforce simp: nsafe_def nread_def sr.R_refl world_ok_def heap_ok_def safe_res_def)

lemma nsafe_world:
  assumes "\<And>w. mem (g w) = mem w" "\<And>w. sched (g w) = sched w" "\<And>w. jobs (g w) = jobs w"
    "\<And>w. park_cell (g w) = park_cell w" and "keeps vs (res x)"
  shows "nsafe vs (\<lambda>w. (Ok x, g w)) res"
  using assms by (auto simp: nsafe_def sched_rel_def cell_ok_def world_ok_def keeps_def)

lemma alloc_world:
  assumes "heap_alloc L obj w = (r, w')"
  shows "length (rt_slots (mem w)) \<le> length (rt_slots (mem w'))" "sched_rel w w'" "sched w' = sched w"
proof -
  obtain v m where a: "alloc L obj (mem w) = (v, m)" by fastforce
  then have w': "w' = w\<lparr>mem := m\<rparr>" using assms by (simp add: heap_alloc_def)
  show "length (rt_slots (mem w)) \<le> length (rt_slots (mem w'))" using alloc_length [of L obj "mem w"] a w' by simp
  show "sched_rel w w'" "sched w' = sched w" using w' sr.R_mem by simp_all
qed

lemma nsafe_alloc:
  assumes "keeps vs (child_values obj)"
  shows "nsafe vs (heap_alloc L obj) (\<lambda>v. [v])"
  unfolding nsafe_def
proof (intro allI impI conjI)
  fix w r w' assume run: "heap_alloc L obj w = (r, w')"
  show "length (rt_slots (mem w)) \<le> length (rt_slots (mem w'))" "sched_rel w w'" by (rule alloc_world [OF run])+
next
  fix w r w' assume run: "heap_alloc L obj w = (r, w')"
    and pre: "world_ok w \<and> vals_ok (rt_slots (mem w)) vs \<and> slots_fit w'"
  have len: "length (rt_slots (mem w')) \<le> 2 ^ 32" using pre by (simp add: slots_fit_def)
  have "room (mem w)"
    using run len by (auto simp: room_def heap_alloc_def alloc_def Let_def split: if_splits)
  moreover have "vals_ok (rt_slots (mem w)) (child_values obj)" using pre keepsD [OF assms] by blast
  ultimately obtain h m where m: "alloc L obj (mem w) = (Ref h, m)" "heap_ok m"
      "\<And>k. lookup (rt_slots m) k = (if k = h then Some obj else lookup (rt_slots (mem w)) k)"
      "gc_paused m = gc_paused (mem w)" "store_le (rt_slots (mem w)) (rt_slots m)"
    using pre heap_ok_alloc [of "mem w" obj L] by (metis world_ok_def)
  have w': "r = Ok (Ref h)" "w' = w\<lparr>mem := m\<rparr>" using run m(1) by (simp_all add: heap_alloc_def)
  show "r \<noteq> Err Panic" "store_le (rt_slots (mem w)) (rt_slots (mem w'))" "gc_paused (mem w') = gc_paused (mem w)"
    using w' m by simp_all
  show "world_ok w'" using pre w' m by (auto simp: world_ok_def intro: valid_vals_mono)
  show "vals_ok (rt_slots (mem w')) [v]" if "r = Ok v" for v
    using that w' m(3) [of h] by auto
qed

lemma nsafe_update:
  assumes other: "e \<noteq> Panic"
    and f: "\<And>obj. f obj \<noteq> Err Panic"
      "\<And>obj x obj'. f obj = Ok (x, obj') \<Longrightarrow> keeps (child_values obj @ vs) (res x @ child_values obj')"
  shows "nsafe (v # vs) (nupdate e f v) res"
  unfolding nsafe_def
proof (intro allI impI)
  fix w r w' assume run: "nupdate e f v w = (r, w')"
  have le: "length (rt_slots (mem w)) \<le> length (rt_slots (mem w')) \<and> sched_rel w w'"
    using run by (auto simp: nupdate_def put_slot_def sr.R_refl sr.R_mem split: "val.splits" option.splits sum.splits)
  moreover have "r \<noteq> Err Panic \<and> world_ok w' \<and> store_le (rt_slots (mem w)) (rt_slots (mem w')) \<and>
      gc_paused (mem w') = gc_paused (mem w) \<and> (\<forall>x. r = Ok x \<longrightarrow> vals_ok (rt_slots (mem w')) (res x))"
    if pre: "world_ok w" "vals_ok (rt_slots (mem w)) (v # vs)"
  proof (cases v)
    case (Ref h)
    then obtain obj where obj: "lookup (rt_slots (mem w)) h = Some obj" using pre by auto
    show ?thesis
    proof (cases "f obj")
      case (Inl err)
      then show ?thesis using run obj Ref f(1) [of obj] pre by (auto simp: nupdate_def)
    next
      case (Inr p)
      obtain x obj' where p: "p = (x, obj')" by (cases p)
      have w': "r = Ok x" "w' = w\<lparr>mem := put_slot h (Some obj') (mem w)\<rparr>"
        using run obj Ref Inr p by (simp_all add: nupdate_def)
      have "\<forall>u\<in>set (child_values obj). valid_val (rt_slots (mem w)) u"
        using pre obj store_closedD by (auto simp: world_ok_def heap_ok_def)
      then have ok: "vals_ok (rt_slots (mem w)) (child_values obj')" "vals_ok (rt_slots (mem w)) (res x)"
        using keepsD [OF f(2) [of obj x obj']] Inr p pre by (auto simp: list_all_iff)
      have live: "lookup (rt_slots (mem w)) h \<noteq> None" using obj by simp
      note put = heap_ok_put [OF _ live ok(1)]
      have heap: "heap_ok (mem w)" using pre(1) by (simp add: world_ok_def)
      have "vals_ok (rt_slots (put_slot h (Some obj') (mem w))) (gather_scheduler_roots (sched w))"
        using valid_vals_mono [OF put(2) [OF heap]] pre(1) by (simp add: world_ok_def)
      moreover have "vals_ok (rt_slots (put_slot h (Some obj') (mem w))) (res x)"
        by (rule valid_vals_mono [OF put(2) [OF heap] ok(2)])
      moreover have "gc_paused (put_slot h (Some obj') (mem w)) = gc_paused (mem w)" by (simp add: put_slot_def)
      ultimately show ?thesis using w' put(1,2) [OF heap] pre(1) by (simp add: world_ok_def)
    qed
  qed (use run pre other in \<open>auto simp: nupdate_def\<close>)
  ultimately show "length (rt_slots (mem w)) \<le> length (rt_slots (mem w')) \<and> sched_rel w w' \<and>
        (world_ok w \<and> vals_ok (rt_slots (mem w)) (v # vs) \<and> slots_fit w' \<longrightarrow>
           r \<noteq> Err Panic \<and> world_ok w' \<and> store_le (rt_slots (mem w)) (rt_slots (mem w')) \<and>
           gc_paused (mem w') = gc_paused (mem w) \<and> (\<forall>x. r = Ok x \<longrightarrow> vals_ok (rt_slots (mem w')) (res x)))"
    by blast
qed

section \<open>Rules\<close>

named_theorems nsafe_intros \<open>the contract of the building blocks of natives\<close>

declare nsafe_bind [nsafe_intros]

lemma nsafe_prod [nsafe_intros]:
  "(\<And>a b. nsafe (g (a, b)) (f a b) res) \<Longrightarrow> nsafe (g p) (case p of (a, b) \<Rightarrow> f a b) res"
  by (cases p) simp

lemma nsafe_option [nsafe_intros]:
  "(x = None \<Longrightarrow> nsafe vs a res) \<Longrightarrow> (\<And>y. x = Some y \<Longrightarrow> nsafe vs (b y) res) \<Longrightarrow>
     nsafe vs (case x of None \<Rightarrow> a | Some y \<Rightarrow> b y) res"
  by (cases x) simp_all

lemma nsafe_if [nsafe_intros]:
  "(t \<Longrightarrow> nsafe vs a res) \<Longrightarrow> (\<not> t \<Longrightarrow> nsafe vs b res) \<Longrightarrow> nsafe vs (if t then a else b) res"
  by simp

lemma nsafe_nret [nsafe_intros]: "keeps vs (res x) \<Longrightarrow> nsafe vs (nret x) res"
  by (rule nsafe_ret)

lemma nsafe_trap [nsafe_intros]: "nsafe vs (nlift (Err (bug msg))) res" "nsafe vs (nlift (Err (Trap t))) res"
  by (rule nsafe_lift; simp)+

lemma nsafe_args [nsafe_intros]:
  "keeps vs args \<Longrightarrow> nsafe vs (nlift (expect_one args who)) (\<lambda>v. [v])"
  "nsafe vs (nlift (expect_no_args args who)) (\<lambda>_. [])"
  "keeps vs args \<Longrightarrow> nsafe vs (nlift (args2 args who)) (\<lambda>(a, b). [a, b])"
  "keeps vs args \<Longrightarrow> nsafe vs (nlift (args3 args who)) (\<lambda>(a, b, c). [a, b, c])"
  "nsafe vs (nlift (as_int v who)) (\<lambda>_. [])"
  "nsafe vs (nlift (as_double v who)) (\<lambda>_. [])"
  by (rule nsafe_lift;
      auto simp: expect_one_def expect_no_args_def args2_def args3_def arity_error_def as_int_def as_double_def
        split: list.splits "val.splits" if_splits)+

lemma obj_read_safe:
  assumes "store_closed st" "valid_val st v"
    and "\<And>obj. (\<And>u. u \<in> set (child_values obj) \<Longrightarrow> valid_val st u) \<Longrightarrow> safe_res Q (f obj)" "e \<noteq> Panic"
  shows "safe_res Q (case v of Ref h \<Rightarrow> rbind (or_panic (lookup st h)) f | _ \<Rightarrow> Err e)"
proof (cases v)
  case (Ref h)
  then obtain obj where "lookup st h = Some obj" using assms(2) by auto
  then show ?thesis using Ref assms(3) [of obj] store_closedD [OF assms(1)] by simp
qed (use assms(4) in simp_all)

lemma nsafe_contents [nsafe_intros]:
  "keeps vs [v] \<Longrightarrow> nsafe vs (nread (\<lambda>st. str_contents st v)) (\<lambda>_. [])"
  "keeps vs [v] \<Longrightarrow> nsafe vs (nread (\<lambda>st. bytes_contents st v who)) (\<lambda>_. [])"
  "keeps vs [v] \<Longrightarrow> nsafe vs (nread (\<lambda>st. list_items st v who)) (\<lambda>items. items)"
  by (rule nsafe_read, unfold str_contents_def bytes_contents_def list_items_def, rule obj_read_safe;
      auto simp: keeps_def list_all_iff split: obj.splits)+

lemma display_string_safe: "valid_val st v \<Longrightarrow> safe_res (\<lambda>_. True) (display_string st v)"
  by (cases v) (auto simp: display_string_def split: obj.splits intro!: safe_res_bind [OF lookup_safe])

lemma nsafe_heap_alloc [nsafe_intros]: "keeps vs (child_values obj) \<Longrightarrow> nsafe vs (heap_alloc L obj) (\<lambda>v. [v])"
  by (rule nsafe_alloc)

lemma nsafe_enums [nsafe_intros]:
  "keeps vs [v] \<Longrightarrow> nsafe vs (some_val L v) (\<lambda>v. [v])" "nsafe vs (none_val L) (\<lambda>v. [v])"
  "keeps vs [v] \<Longrightarrow> nsafe vs (ok_val L v) (\<lambda>v. [v])" "keeps vs [v] \<Longrightarrow> nsafe vs (err_val L v) (\<lambda>v. [v])"
  by (simp_all add: some_val_def none_val_def ok_val_def err_val_def new_enum_def nsafe_alloc)

lemma nsafe_option_val [nsafe_intros]: "(\<And>v. x = Some v \<Longrightarrow> keeps vs [v]) \<Longrightarrow> nsafe vs (option_val L x) (\<lambda>v. [v])"
  by (cases x) (simp_all add: option_val_def nsafe_enums)

lemma nsafe_nmap:
  assumes "\<And>x. nsafe vs (f x) (\<lambda>v. [v])"
  shows "nsafe vs (nmap f xs) (\<lambda>vs. vs)"
proof (induction xs)
  case (Cons x xs)
  have "nsafe (vs @ [y]) (nmap f xs) (\<lambda>vs. vs)" for y by (rule nsafe_weaken [OF Cons]) (simp add: keeps_subset subset_iff)
  then show ?case
    unfolding nmap.simps by (intro nsafe_bind [OF assms] nsafe_bind nsafe_ret) (auto intro: keeps_subset)
qed (simp add: nsafe_ret)

lemma nsafe_lists [nsafe_intros]:
  "nsafe vs (string_list L parts) (\<lambda>v. [v])" "nsafe vs (int_list L items) (\<lambda>v. [v])"
  unfolding string_list_def int_list_def
  by (intro nsafe_bind [OF nsafe_nmap] nsafe_alloc; simp add: keeps_subset)+

lemma nsafe_list_mut [nsafe_intros]:
  assumes "keeps vs [v]" "\<And>items. f items \<noteq> Err Panic"
    and "\<And>items x items'. f items = Ok (x, items') \<Longrightarrow> keeps (items @ vs) (res x @ items')"
  shows "nsafe vs (with_list_mut v who f) res"
proof -
  have "nsafe (v # vs) (with_list_mut v who f) res"
    unfolding with_list_mut_def
  proof (rule nsafe_update)
    fix obj
    show "(case obj of List items \<Rightarrow> rbind (f items) (\<lambda>(x, items). Ok (x, List items))
        | _ \<Rightarrow> Err (bug (who @ '': expected list''))) \<noteq> Err Panic"
      using assms(2) by (cases obj) (auto simp: rbind_eq_Inl)
  next
    fix obj x obj' assume "(case obj of List items \<Rightarrow> rbind (f items) (\<lambda>(x, items). Ok (x, List items))
        | _ \<Rightarrow> Err (bug (who @ '': expected list''))) = Ok (x, obj')"
    then show "keeps (child_values obj @ vs) (res x @ child_values obj')"
      using assms(3) by (cases obj) (auto simp: rbind_eq_Inr simp del: keeps_simps)
  qed simp
  then show ?thesis by (rule nsafe_weaken) (use assms(1) in \<open>simp add: keeps_Cons keeps_subset\<close>)
qed

lemma nsafe_builder_mut [nsafe_intros]:
  assumes "keeps vs [v]" "\<And>bs. keeps vs (res (fst (f bs)))"
  shows "nsafe vs (with_builder_mut v who f) res"
proof -
  have "nsafe (v # vs) (with_builder_mut v who f) res"
    unfolding with_builder_mut_def
  proof (rule nsafe_update)
    fix obj
    show "(case obj of BytesBuilder bs \<Rightarrow> let (x, bs) = f bs in Ok (x, BytesBuilder bs)
        | _ \<Rightarrow> Err (bug (who @ '': expected BytesBuilder''))) \<noteq> Err Panic"
      by (cases obj) (auto simp: Let_def split: prod.splits)
  next
    fix obj x obj' assume *: "(case obj of BytesBuilder bs \<Rightarrow> let (x, bs) = f bs in Ok (x, BytesBuilder bs)
        | _ \<Rightarrow> Err (bug (who @ '': expected BytesBuilder''))) = Ok (x, obj')"
    then obtain bs bs' where "obj = BytesBuilder bs" "f bs = (x, bs')" "obj' = BytesBuilder bs'"
      by (cases obj) (auto simp: Let_def split: prod.splits)
    then show "keeps (child_values obj @ vs) (res x @ child_values obj')" using assms(2) [of bs] by simp
  qed simp
  then show ?thesis by (rule nsafe_weaken) (use assms(1) in \<open>simp add: keeps_Cons keeps_subset\<close>)
qed

end
