(* ===== verification/RustStr.thy ===== *)
theory RustStr
  imports Utf8 Format "HOL-Library.Sublist"
begin

text \<open>
  The methods of Rust's \<open>str\<close> that the string natives call: code points, trimming, searching,
  splitting, slicing, decimal parsing and the lossy decoding of bytes. A string is the list
  of its UTF-8 bytes; where a method works by code points it goes through \<open>chars_of\<close>.
\<close>

section \<open>Code points\<close>

lemma word_of_unat_eq: "unat a = n \<Longrightarrow> word_of_nat n = a"
  by auto

lemma digit64: "(y :: nat) < 64 \<Longrightarrow> (k * 64 + y) div 64 = k" "(y :: nat) < 64 \<Longrightarrow> (k * 64 + y) mod 64 = y"
  by simp_all

lemma encode_one:
  assumes "utf8_next bs = Some (c, r)"
  shows "bs = utf8_encode_char c @ r \<and> is_scalar c"
proof -
  obtain a bs' where bs: "bs = a # bs'" using assms by (cases bs) auto
  consider "a < 0x80" | "0xC2 \<le> a" "a \<le> 0xDF" | "0xE0 \<le> a" "a \<le> 0xEF" | "0xF0 \<le> a" "a \<le> 0xF4"
    using assms bs by (auto split: if_splits)
  then show ?thesis
  proof cases
    case 1
    then show ?thesis using assms bs by (auto simp: utf8_encode_char_def is_scalar_def word_less_nat_alt)
  next
    case 2
    then obtain b where b: "bs' = b # r" "is_cont b" "c = (unat a - 0xC0) * 64 + (unat b - 0x80)"
      using assms bs by (auto simp: byte_order split: if_splits list.splits)
    obtain x y where n: "unat a = 0xC0 + x" "2 \<le> x" "x < 32" "unat b = 0x80 + y" "y < 64"
      by (rule that [of "unat a - 0xC0" "unat b - 0x80"]) (use 2 b(2) in \<open>auto simp: is_cont_def byte_order\<close>)
    then have c: "c = x * 64 + y" using b(3) by simp
    then have "c div 64 = x" "c mod 64 = y" "0x80 \<le> c" "c < 0x800" using n by simp_all
    then show ?thesis
      using bs b(1) word_of_unat_eq [OF n(1)] word_of_unat_eq [OF n(4)]
      by (simp add: utf8_encode_char_def is_scalar_def del: of_nat_add)
  next
    case 3
    then obtain b d where b: "bs' = b # d # r" "is_cont b" "is_cont d" "a = 0xE0 \<longrightarrow> 0xA0 \<le> b" "a = 0xED \<longrightarrow> b \<le> 0x9F"
      "c = (unat a - 0xE0) * 4096 + (unat b - 0x80) * 64 + (unat d - 0x80)"
      using assms bs by (auto simp: byte_order split: if_splits list.splits)
    obtain x y z where n: "unat a = 0xE0 + x" "x < 16" "unat b = 0x80 + y" "y < 64" "unat d = 0x80 + z" "z < 64"
      "x = 0 \<longrightarrow> 32 \<le> y" "x = 13 \<longrightarrow> y \<le> 31"
      by (rule that [of "unat a - 0xE0" "unat b - 0x80" "unat d - 0x80"])
        (use 3 b(2-5) in \<open>auto simp: is_cont_def byte_order\<close>)
    then have c: "c = (x * 64 + y) * 64 + z" using b(6) by simp
    have d: "c div 64 = x * 64 + y" "c mod 64 = z" unfolding c by (rule digit64 [OF n(6)])+
    then have "c div 64 mod 64 = y" using n(4) by simp
    moreover from this have "c div 4096 = x" using d(1) split64(2) [of c] by simp
    moreover have "0x800 \<le> c" using c n(7) by (cases x) simp_all
    moreover have "c < 0x10000" using c n(2,4,6) by simp
    moreover have "c < 0xD800 \<or> 0xE000 \<le> c"
      using c n(4,6,8) by (cases x "13 :: nat" rule: linorder_cases) simp_all
    ultimately show ?thesis
      using bs b(1) d(2) word_of_unat_eq [OF n(1)] word_of_unat_eq [OF n(3)] word_of_unat_eq [OF n(5)]
      by (simp add: utf8_encode_char_def is_scalar_def del: of_nat_add)
  next
    case 4
    then obtain b d e where b: "bs' = b # d # e # r" "is_cont b" "is_cont d" "is_cont e" "a = 0xF0 \<longrightarrow> 0x90 \<le> b"
      "a = 0xF4 \<longrightarrow> b \<le> 0x8F"
      "c = (unat a - 0xF0) * 262144 + (unat b - 0x80) * 4096 + (unat d - 0x80) * 64 + (unat e - 0x80)"
      using assms bs by (auto simp: byte_order split: if_splits list.splits)
    obtain x y z w where n: "unat a = 0xF0 + x" "x < 5" "unat b = 0x80 + y" "y < 64" "unat d = 0x80 + z" "z < 64"
      "unat e = 0x80 + w" "w < 64" "x = 0 \<longrightarrow> 16 \<le> y" "x = 4 \<longrightarrow> y \<le> 15"
      by (rule that [of "unat a - 0xF0" "unat b - 0x80" "unat d - 0x80" "unat e - 0x80"])
        (use 4 b(2-6) in \<open>auto simp: is_cont_def byte_order\<close>)
    then have c: "c = ((x * 64 + y) * 64 + z) * 64 + w" using b(7) by simp
    have d: "c div 64 = (x * 64 + y) * 64 + z" "c mod 64 = w" unfolding c by (rule digit64 [OF n(8)])+
    have e: "c div 64 mod 64 = z" unfolding d(1) by (rule digit64 [OF n(6)])
    have f: "c div 4096 = x * 64 + y" using d(1) e split64(2) [of c] by simp
    then have "c div 4096 mod 64 = y" using n(4) by simp
    moreover from this have "c div 262144 = x" using f split64(3) [of c] by simp
    moreover have "0x10000 \<le> c" using c n(9) by (cases x) simp_all
    moreover have "c < 0x110000" using c n(2,4,6,8,10) by (cases "x = 4") simp_all
    ultimately show ?thesis
      using bs b(1) d(2) e word_of_unat_eq [OF n(1)] word_of_unat_eq [OF n(3)] word_of_unat_eq [OF n(5)] word_of_unat_eq [OF n(7)]
      by (simp add: utf8_encode_char_def is_scalar_def del: of_nat_add)
  qed
qed

lemma utf8_encode_decode:
  "utf8_decode bs = Some cs \<Longrightarrow> utf8_encode cs = bs \<and> (\<forall>c\<in>set cs. is_scalar c)"
proof (induction bs arbitrary: cs rule: utf8_decode.induct)
  case (1 bs)
  show ?case
  proof (cases "bs = []")
    case True
    then show ?thesis using 1(2) by (simp add: utf8_encode_def)
  next
    case False
    then obtain c r cs' where c: "utf8_next bs = Some (c, r)" "utf8_decode r = Some cs'" "cs = c # cs'"
      using 1(2) by (subst (asm) utf8_decode.simps) (auto split: option.splits)
    then show ?thesis using 1(1) [OF False c(1)] encode_one [OF c(1)] by (auto simp: utf8_encode_def)
  qed
qed

definition chars_of :: "string \<Rightarrow> nat list" where
  "chars_of s = (case utf8_decode (as_bytes s) of Some cs \<Rightarrow> cs | None \<Rightarrow> [])"

definition str_of :: "nat list \<Rightarrow> string" where
  "str_of cs = of_bytes (utf8_encode cs)"

lemma str_of_chars: "valid_str s \<Longrightarrow> str_of (chars_of s) = s"
  using utf8_encode_decode [of "as_bytes s"] by (auto simp: valid_str_def valid_utf8_def chars_of_def str_of_def)

lemma chars_scalar: "c \<in> set (chars_of s) \<Longrightarrow> is_scalar c"
  using utf8_encode_decode [of "as_bytes s"] by (cases "utf8_decode (as_bytes s)") (auto simp: chars_of_def)

lemma chars_of_str: "\<forall>c\<in>set cs. is_scalar c \<Longrightarrow> chars_of (str_of cs) = cs"
  by (simp add: chars_of_def str_of_def utf8_decode_encode)

lemma valid_str_of: "\<forall>c\<in>set cs. is_scalar c \<Longrightarrow> valid_str (str_of cs)"
  by (simp add: valid_str_def valid_utf8_def str_of_def utf8_decode_encode)

lemma str_of_append [simp]: "str_of (xs @ ys) = str_of xs @ str_of ys"
  by (simp add: str_of_def utf8_encode_def of_bytes_def)

lemma str_of_Nil [simp]: "str_of [] = []"
  by (simp add: str_of_def utf8_encode_def of_bytes_def)

section \<open>White space\<close>

text \<open>\<open>char::is_whitespace\<close>: the code points with the property \<open>White_Space\<close>.\<close>

definition is_whitespace :: "nat \<Rightarrow> bool" where
  "is_whitespace c \<longleftrightarrow>
     (0x9 \<le> c \<and> c \<le> 0xD) \<or> c = 0x20 \<or> c = 0x85 \<or> c = 0xA0 \<or> c = 0x1680 \<or> (0x2000 \<le> c \<and> c \<le> 0x200A) \<or>
     c = 0x2028 \<or> c = 0x2029 \<or> c = 0x202F \<or> c = 0x205F \<or> c = 0x3000"

definition rdropWhile :: "('a \<Rightarrow> bool) \<Rightarrow> 'a list \<Rightarrow> 'a list" where
  "rdropWhile p xs = rev (dropWhile p (rev xs))"

definition trim_start :: "string \<Rightarrow> string" where
  "trim_start s = str_of (dropWhile is_whitespace (chars_of s))"

definition trim_end :: "string \<Rightarrow> string" where
  "trim_end s = str_of (rdropWhile is_whitespace (chars_of s))"

definition trim_both :: "string \<Rightarrow> string" where
  "trim_both s = str_of (rdropWhile is_whitespace (dropWhile is_whitespace (chars_of s)))"

text \<open>\<open>split_whitespace\<close>: the maximal runs of other code points.\<close>

function ws_runs :: "nat list \<Rightarrow> nat list list" where
  "ws_runs cs =
     (let rest = dropWhile is_whitespace cs
      in if rest = [] then []
         else takeWhile (\<lambda>c. \<not> is_whitespace c) rest # ws_runs (dropWhile (\<lambda>c. \<not> is_whitespace c) rest))"
  by pat_completeness auto
termination
proof (relation "measure length", goal_cases)
  case (2 cs rest)
  then obtain c r where r: "rest = c # r" using list.exhaust by blast
  then have "\<not> is_whitespace c" using 2(1) hd_dropWhile [of is_whitespace cs] by auto
  then have "length (dropWhile (\<lambda>c. \<not> is_whitespace c) rest) \<le> length r" using r by (simp add: length_dropWhile_le)
  moreover have "length rest \<le> length cs" using 2(1) by (simp add: length_dropWhile_le)
  ultimately show ?case using r by simp
qed simp

declare ws_runs.simps [simp del]

definition split_whitespace :: "string \<Rightarrow> string list" where
  "split_whitespace s = map str_of (ws_runs (chars_of s))"

lemma ws_runs_rec:
  "dropWhile is_whitespace cs = [] \<Longrightarrow> ws_runs cs = []"
  "dropWhile is_whitespace cs = c # r \<Longrightarrow>
     ws_runs cs = takeWhile (\<lambda>c. \<not> is_whitespace c) (c # r) # ws_runs (dropWhile (\<lambda>c. \<not> is_whitespace c) (c # r))"
  using ws_runs.simps [of cs] by (simp_all only: Let_def list.distinct refl if_True if_False)

lemma ws_runs_parts:
  "r \<in> set (ws_runs cs) \<Longrightarrow> r \<noteq> [] \<and> (\<forall>c\<in>set r. \<not> is_whitespace c)"
proof (induction cs rule: ws_runs.induct)
  case (1 cs)
  show ?case
  proof (cases "dropWhile is_whitespace cs")
    case Nil
    then show ?thesis using 1(2) ws_runs_rec(1) [OF Nil] by simp
  next
    case (Cons c t)
    then have c: "\<not> is_whitespace c" using hd_dropWhile [of is_whitespace cs] by auto
    consider "r = takeWhile (\<lambda>c. \<not> is_whitespace c) (c # t)"
      | "r \<in> set (ws_runs (dropWhile (\<lambda>c. \<not> is_whitespace c) (c # t)))"
      using 1(2) unfolding ws_runs_rec(2) [OF Cons] by auto
    then show ?thesis
    proof cases
      case 1
      then show ?thesis using c by (auto dest: set_takeWhileD)
    next
      case 2
      then show ?thesis using 1(1) [OF refl, unfolded Cons] by blast
    qed
  qed
qed

lemma ws_runs_concat: "concat (ws_runs cs) = filter (\<lambda>c. \<not> is_whitespace c) cs"
proof (induction cs rule: ws_runs.induct)
  case (1 cs)
  let ?nw = "\<lambda>c. \<not> is_whitespace c"
  have split: "filter ?nw cs = filter ?nw (dropWhile is_whitespace cs)"
    by (induction cs) auto
  show ?case
  proof (cases "dropWhile is_whitespace cs")
    case Nil
    then show ?thesis unfolding ws_runs_rec(1) [OF Nil] split Nil by simp
  next
    case (Cons c t)
    have "filter ?nw (c # t) = takeWhile ?nw (c # t) @ filter ?nw (dropWhile ?nw (c # t))"
      by (subst takeWhile_dropWhile_id [of ?nw "c # t", symmetric], subst filter_append)
        (auto dest: set_takeWhileD simp: filter_id_conv simp del: takeWhile.simps dropWhile.simps)
    then show ?thesis
      using 1 [OF refl, unfolded Cons, OF list.distinct(2)] unfolding ws_runs_rec(2) [OF Cons] split Cons
      by (simp only: concat.simps)
  qed
qed

section \<open>Searching and splitting\<close>

text \<open>\<open>contains\<close>, \<open>starts_with\<close> and \<open>ends_with\<close> are \<open>sublist\<close>, \<open>prefix\<close> and \<open>suffix\<close> on the bytes. \<open>split\<close> cuts at the
  leftmost occurrence, again and again.\<close>

fun find_sub :: "'a list \<Rightarrow> 'a list \<Rightarrow> ('a list \<times> 'a list) option" where
  "find_sub sep s =
     (if prefix sep s then Some ([], drop (length sep) s)
      else case s of [] \<Rightarrow> None | c # t \<Rightarrow> map_option (\<lambda>(a, b). (c # a, b)) (find_sub sep t))"

declare find_sub.simps [simp del]

lemma find_sub_Some: "find_sub sep s = Some (a, b) \<Longrightarrow> s = a @ sep @ b"
proof (induction sep s arbitrary: a b rule: find_sub.induct)
  case (1 sep s)
  show ?case
  proof (cases "prefix sep s")
    case True
    then show ?thesis using 1(2) by (subst (asm) find_sub.simps) (auto simp: prefix_def)
  next
    case False
    then obtain c t where "s = c # t" using 1(2) by (subst (asm) find_sub.simps) (cases s; auto)
    then show ?thesis using 1(2) 1(1) [OF False, of c t] False by (subst (asm) find_sub.simps) auto
  qed
qed

lemma find_sub_None: "find_sub sep s = None \<longleftrightarrow> \<not> sublist sep s"
proof (induction sep s rule: find_sub.induct)
  case (1 sep s)
  show ?case
  proof (cases s)
    case Nil
    then show ?thesis by (subst find_sub.simps) auto
  next
    case (Cons c t)
    then show ?thesis using 1 [of c t] by (subst find_sub.simps) (auto simp: sublist_Cons_right)
  qed
qed

lemma find_sub_first: "find_sub sep s = Some (a, b) \<Longrightarrow> sep \<noteq> [] \<Longrightarrow> \<not> sublist sep (a @ butlast sep)"
proof (induction sep s arbitrary: a b rule: find_sub.induct)
  case (1 sep s)
  have short: "\<not> sublist sep (butlast sep)"
    using 1(3) sublist_length_le [of sep "butlast sep"] by (cases sep) auto
  show ?case
  proof (cases "prefix sep s")
    case True
    then show ?thesis using 1(2) short by (subst (asm) find_sub.simps) auto
  next
    case False
    then obtain c t a' where s: "s = c # t" "find_sub sep t = Some (a', b)" "a = c # a'"
      using 1(2) by (subst (asm) find_sub.simps) (cases s; auto)
    then have "\<not> sublist sep (a' @ butlast sep)" using 1(1) [OF False s(1,2)] 1(3) by simp
    moreover have "\<not> prefix sep (a @ butlast sep)"
    proof
      assume p: "prefix sep (a @ butlast sep)"
      have "s = a @ sep @ b" using find_sub_Some [OF 1(2)] .
      then have "prefix (a @ butlast sep) s" using 1(3)
        by (metis append.assoc append_butlast_last_id prefixI same_prefix_prefix)
      then show False using p False prefix_order.trans by blast
    qed
    ultimately show ?thesis using s(3) by (simp add: sublist_Cons_right)
  qed
qed

function split_on :: "'a list \<Rightarrow> 'a list \<Rightarrow> 'a list list" where
  "split_on sep s =
     (case find_sub sep s of
        None \<Rightarrow> [s]
      | Some (a, b) \<Rightarrow> if sep = [] then [s] else a # split_on sep b)"
  by pat_completeness auto
termination
proof (relation "measure (\<lambda>(sep, s). length s)", goal_cases)
  case (2 sep s q a b)
  then show ?case using find_sub_Some [of sep s a b] by simp
qed simp

declare split_on.simps [simp del]

lemma split_on_Cons: "\<exists>p ps. split_on sep s = p # ps"
  by (subst split_on.simps) (auto split: option.split)

lemma join_split: "join_with sep (split_on sep s) = s"
proof (induction sep s rule: split_on.induct)
  case (1 sep s)
  show ?case
  proof (cases "find_sub sep s = None \<or> sep = []")
    case True
    then show ?thesis by (subst split_on.simps) (auto split: option.split)
  next
    case False
    then obtain a b where ab: "find_sub sep s = Some (a, b)" "sep \<noteq> []" by auto
    obtain p ps where p: "split_on sep b = p # ps" using split_on_Cons by blast
    then show ?thesis
      using 1 [OF ab(1) refl ab(2)] ab find_sub_Some [OF ab(1)] by (subst split_on.simps) simp
  qed
qed

lemma split_on_parts: "sep \<noteq> [] \<Longrightarrow> p \<in> set (split_on sep s) \<Longrightarrow> \<not> sublist sep p"
proof (induction sep s rule: split_on.induct)
  case (1 sep s)
  show ?case
  proof (cases "find_sub sep s")
    case None
    then show ?thesis using 1(3) find_sub_None [of sep s] by (subst (asm) split_on.simps) auto
  next
    case (Some q)
    obtain a b where q: "q = (a, b)" by (cases q)
    then have "p = a \<or> p \<in> set (split_on sep b)" using 1(2,3) Some by (subst (asm) split_on.simps) auto
    moreover have "\<not> sublist sep a"
      using find_sub_first [of sep s a b] 1(2) Some q sublist_appendI [of a "[]" "butlast sep"] by (auto dest: sublist_order.order.trans)
    ultimately show ?thesis using 1(1) [OF Some q [symmetric]] 1(2) by auto
  qed
qed

definition str_split :: "string \<Rightarrow> string \<Rightarrow> string list" where
  "str_split s sep =
     (if sep = [] then [] # map (\<lambda>c. str_of [c]) (chars_of s) @ [ [] ] else split_on sep s)"

definition str_lines :: "string \<Rightarrow> string list" where
  "str_lines s =
     (if s = [] then []
      else split_on [CHR 0x0A] (if last s = CHR 0x0A then butlast s else s))"

section \<open>Slices\<close>

text \<open>\<open>&s[a..b]\<close> panics unless \<open>a \<le> b \<le> len\<close> and both are character boundaries; \<open>str::get\<close> answers none
  instead.\<close>

definition is_char_boundary :: "string \<Rightarrow> usize \<Rightarrow> bool" where
  "is_char_boundary s i \<longleftrightarrow>
     i = 0 \<or> i = length s \<or> (i < length s \<and> \<not> is_cont (byte_of_char (s ! i)))"

definition str_get :: "string \<Rightarrow> usize \<Rightarrow> usize \<Rightarrow> string option" where
  "str_get s a b =
     (if a \<le> b \<and> is_char_boundary s a \<and> is_char_boundary s b then Some (take (b - a) (drop a s)) else None)"

section \<open>Numbers\<close>

definition digit_value :: "char \<Rightarrow> nat option" where
  "digit_value c = (let n = of_char c in if 48 \<le> n \<and> n \<le> 57 then Some (n - 48) else None)"

fun digits_value :: "nat \<Rightarrow> string \<Rightarrow> nat option" where
  "digits_value acc [] = Some acc"
| "digits_value acc (c # cs) =
     (case digit_value c of None \<Rightarrow> None | Some d \<Rightarrow> digits_value (acc * 10 + d) cs)"

text \<open>\<open>str::parse::<i64>\<close>: an optional sign, then at least one digit and nothing else; none on overflow.\<close>

definition parse_i64 :: "string \<Rightarrow> i64 option" where
  "parse_i64 s =
     (let (neg, ds) = (case s of
            c # cs \<Rightarrow> if c = CHR ''-'' then (True, cs) else if c = CHR ''+'' then (False, cs) else (False, s)
          | [] \<Rightarrow> (False, s))
      in if ds = [] then None
         else case digits_value 0 ds of
                None \<Rightarrow> None
              | Some n \<Rightarrow>
                  if neg then (if n \<le> 2 ^ 63 then Some (- word_of_nat n) else None)
                  else (if n < 2 ^ 63 then Some (word_of_nat n) else None))"

lemma digits_value_append: "digits_value acc (xs @ ys) = Option.bind (digits_value acc xs) (\<lambda>a. digits_value a ys)"
  by (induction acc xs rule: digits_value.induct) (auto split: option.splits)

lemma digit_value_char: "d < 10 \<Longrightarrow> digit_value (char_of (48 + d)) = Some d"
  by (simp add: digit_value_def)

lemma digit_value_sign: "digit_value (CHR ''-'') = None" "digit_value (CHR ''+'') = None"
  by code_simp+

lemma nat_digits_value: "digits_value 0 (nat_digits n) = Some n \<and> nat_digits n \<noteq> [] \<and>
  (\<forall>c\<in>set (nat_digits n). c \<noteq> CHR ''-'' \<and> c \<noteq> CHR ''+'')"
proof (induction n rule: nat_digits.induct)
  case (1 n)
  have sign: "char_of (48 + d) \<noteq> CHR ''-''" "char_of (48 + d) \<noteq> CHR ''+''" if "d < 10" for d :: nat
    using digit_value_char [OF that] digit_value_sign by auto
  show ?case
  proof (cases "n < 10")
    case True
    then have eq: "nat_digits n = [char_of (48 + n)]" using nat_digits.simps [of n] by simp
    show ?thesis unfolding eq using digit_value_char [OF True] sign [OF True] by simp
  next
    case False
    then have eq: "nat_digits n = nat_digits (n div 10) @ [char_of (48 + n mod 10)]" using nat_digits.simps [of n] by simp
    show ?thesis
      unfolding eq using 1 [OF False] digit_value_char [of "n mod 10"] sign [of "n mod 10"]
      by (simp add: digits_value_append)
  qed
qed

lemma parse_int_digits: "parse_i64 (int_digits (sint n)) = Some n"
proof -
  have range: "- (2 ^ 63) \<le> sint n" "sint n < 2 ^ 63" using sint_greater_eq [of n] sint_lt [of n] by simp_all
  note D = nat_digits_value [of "nat \<bar>sint n\<bar>"]
  show ?thesis
  proof (cases "sint n < 0")
    case True
    then have "nat (- sint n) \<le> 2 ^ 63" "- word_of_nat (nat (- sint n)) = n"
      using range by (simp_all add: of_nat_nat)
    then show ?thesis using True D by (simp add: int_digits_def parse_i64_def)
  next
    case False
    then have "nat (sint n) < 2 ^ 63" "word_of_nat (nat (sint n)) = n" using range by (simp_all add: of_nat_nat)
    then show ?thesis
      using False D by (cases "nat_digits (nat (sint n))") (simp_all add: int_digits_def parse_i64_def)
  qed
qed

section \<open>Lossy decoding\<close>

text \<open>\<open>String::from_utf8_lossy\<close>: each maximal prefix of a well-formed sequence that is cut short, and each other
  byte that starts none, becomes one replacement character.\<close>

definition bad_prefix :: "u8 list \<Rightarrow> nat" where
  "bad_prefix bs =
     (case bs of
        a # b # rest \<Rightarrow>
          if 0xE0 \<le> a \<and> a \<le> 0xEF \<and> is_cont b \<and> (a = 0xE0 \<longrightarrow> 0xA0 \<le> b) \<and> (a = 0xED \<longrightarrow> b \<le> 0x9F) then 2
          else if 0xF0 \<le> a \<and> a \<le> 0xF4 \<and> is_cont b \<and> (a = 0xF0 \<longrightarrow> 0x90 \<le> b) \<and> (a = 0xF4 \<longrightarrow> b \<le> 0x8F) then
            (case rest of c # _ \<Rightarrow> if is_cont c then 3 else 2 | [] \<Rightarrow> 2)
          else 1
      | _ \<Rightarrow> 1)"

function utf8_lossy :: "u8 list \<Rightarrow> nat list" where
  "utf8_lossy bs =
     (if bs = [] then []
      else case utf8_next bs of
             Some (c, r) \<Rightarrow> c # utf8_lossy r
           | None \<Rightarrow> 0xFFFD # utf8_lossy (drop (bad_prefix bs) bs))"
  by pat_completeness auto
termination
proof (relation "measure length", goal_cases)
  case (2 bs)
  have "0 < bad_prefix bs" by (auto simp: bad_prefix_def split: list.splits)
  then show ?case using 2(1) by (cases bs) simp_all
next
  case (3 bs q c r)
  then show ?case using utf8_next_shorter by auto
qed simp

declare utf8_lossy.simps [simp del]

definition from_utf8_lossy :: "u8 list \<Rightarrow> string" where
  "from_utf8_lossy bs = str_of (utf8_lossy bs)"

lemma utf8_lossy_valid: "utf8_decode bs = Some cs \<Longrightarrow> utf8_lossy bs = cs"
proof (induction bs arbitrary: cs rule: utf8_lossy.induct)
  case (1 bs)
  then show ?case
    by (subst utf8_lossy.simps) (use 1(3) in \<open>subst (asm) utf8_decode.simps; auto split: if_splits option.splits\<close>)
qed

lemma from_utf8_lossy_valid: "valid_str s \<Longrightarrow> from_utf8_lossy (as_bytes s) = s"
  using str_of_chars [of s] utf8_lossy_valid [of "as_bytes s"]
  by (auto simp: from_utf8_lossy_def valid_str_def valid_utf8_def chars_of_def)

end
