(* ===== verification/Decimal.thy ===== *)
theory Decimal
  imports RustStr
begin

text \<open>
  Reading a decimal: \<open>str::parse::<f64>\<close> of the standard library, which \<open>str_to_double\<close> of
  \<^verbatim>\<open>runtime/src/interp/natives.rs\<close> calls. What \<open>format_double\<close> writes reads back as the double it was
  written from: a decimal of seventeen digits is near enough to every double to round to it.
\<close>

section \<open>The grammar\<close>

text \<open>An optional sign; then \<open>inf\<close>, \<open>infinity\<close> or \<open>nan\<close> in any case, or a number: digits with at most one point and
  at least one digit, then an optional exponent.\<close>

fun span_digits :: "string \<Rightarrow> string \<times> string" where
  "span_digits [] = ([], [])"
| "span_digits (c # cs) =
     (if digit_value c = None then ([], c # cs) else let (ds, rest) = span_digits cs in (c # ds, rest))"

definition digits_nat :: "string \<Rightarrow> nat" where
  "digits_nat ds = (case digits_value 0 ds of Some n \<Rightarrow> n | None \<Rightarrow> 0)"

text \<open>The exponent stops growing at \<open>0x10000\<close>: by then the value is zero or infinite.\<close>

fun exponent_value :: "nat \<Rightarrow> string \<Rightarrow> nat" where
  "exponent_value acc [] = acc"
| "exponent_value acc (c # cs) =
     exponent_value (if acc < 0x10000 then acc * 10 + digits_nat [c] else acc) cs"

definition parse_sign :: "string \<Rightarrow> bool \<times> string" where
  "parse_sign s =
     (case s of
        c # cs \<Rightarrow> if c = CHR ''-'' then (True, cs) else if c = CHR ''+'' then (False, cs) else (False, s)
      | [] \<Rightarrow> (False, s))"

definition parse_exponent :: "string \<Rightarrow> int option" where
  "parse_exponent s =
     (let (neg, t) = parse_sign s; (ds, rest) = span_digits t
      in if ds = [] \<or> rest \<noteq> [] then None
         else Some (if neg then - int (exponent_value 0 ds) else int (exponent_value 0 ds)))"

definition parse_fraction :: "string \<Rightarrow> string \<times> string" where
  "parse_fraction s = (case s of c # cs \<Rightarrow> if c = CHR ''.'' then span_digits cs else ([], s) | [] \<Rightarrow> ([], s))"

definition parse_decimal :: "string \<Rightarrow> (nat \<times> int) option" where
  "parse_decimal s =
     (let (ip, s1) = span_digits s; (fp, s2) = parse_fraction s1; d = digits_nat (ip @ fp); p = - int (length fp)
      in if ip @ fp = [] then None
         else case s2 of
                [] \<Rightarrow> Some (d, p)
              | c # cs \<Rightarrow>
                  if c = CHR ''e'' \<or> c = CHR ''E'' then map_option (\<lambda>e. (d, p + e)) (parse_exponent cs) else None)"

definition to_ascii_lower :: "char \<Rightarrow> char" where
  "to_ascii_lower c = (let n = of_char c :: nat in if 65 \<le> n \<and> n \<le> 90 then char_of (n + 32) else c)"

definition parse_f64 :: "string \<Rightarrow> f64 option" where
  "parse_f64 s =
     (let (neg, t) = parse_sign s; low = map to_ascii_lower t
      in case parse_decimal t of
           Some (d, p) \<Rightarrow> Some (f64_make neg (dec_to_mag d p))
         | None \<Rightarrow>
             if low = ''inf'' \<or> low = ''infinity'' then Some (f64_inf neg)
             else if low = ''nan'' then Some f64_nan
             else None)"

section \<open>Rounding to a near double\<close>

lemma round_mag_scale: "0 < c \<Longrightarrow> round_mag (num * c) (den * c) = round_mag num den"
proof -
  assume c: "0 < c"
  have "div_nearest_even (n * c) (m * c) = div_nearest_even n m" for n m
  proof -
    have "2 * (n mod m * c) > m * c \<longleftrightarrow> 2 * (n mod m) > m" "2 * (n mod m * c) = m * c \<longleftrightarrow> 2 * (n mod m) = m"
      using c by (metis mult.assoc mult_less_cancel2, metis mult.assoc mult_cancel2 nat_less_le)
    then show ?thesis using c by (simp add: div_nearest_even_def Let_def mult_mod_left)
  qed
  from this [of num "den * 2 ^ s" for s] show ?thesis using c by (simp add: round_mag_def Let_def ac_simps)
qed

lemma dec_to_mag_scale: "k \<le> nat (- p) \<Longrightarrow> dec_to_mag (d * 10 ^ k) p = dec_to_mag d (p + int k)"
proof (cases "k = 0")
  case False
  assume k: "k \<le> nat (- p)"
  then have "nat (- p) = nat (- (p + int k)) + k" "nat p = 0" "nat (p + int k) = 0" using False by simp_all
  then show ?thesis using round_mag_scale [of "10 ^ k" "d * F64_ONE" "10 ^ nat (- (p + int k))"]
    by (simp add: dec_to_mag_def power_add ac_simps)
qed simp

lemma nearest_unique:
  assumes "0 < D" "2 * N < D * (2 * m + 1)" "D * (2 * m) < 2 * N + D"
  shows "div_nearest_even N D = m"
proof (cases "D * m \<le> N")
  case True
  then obtain r where r: "N = D * m + r" by (metis le_Suc_ex)
  then have "2 * r < D" using assms(2) by (simp add: algebra_simps)
  then have "N div D = m" "N mod D = r" using r assms(1) by simp_all
  then show ?thesis using \<open>2 * r < D\<close> by (simp add: div_nearest_even_def)
next
  case False
  then obtain r where r: "D * m = N + r" "0 < r" by (metis less_imp_add_positive not_le)
  then have small: "2 * r < D" using assms(3) by simp
  then obtain n where n: "m = Suc n" using r by (cases m) simp_all
  then have "N = D * n + (D - r)" using r(1) small by simp
  then have "N div D = n" "N mod D = D - r"
    using r(2) small by (simp_all only: div_mult_self4 mod_mult_self4 div_less mod_less)
  moreover have "2 * (D - r) > D" using small by linarith
  ultimately show ?thesis using n by (simp add: div_nearest_even_def)
qed

lemma bit_length_range: "2 ^ k \<le> n \<Longrightarrow> n < 2 ^ Suc k \<Longrightarrow> bit_length n = Suc k"
proof -
  assume lo: "2 ^ k \<le> n" and hi: "n < 2 ^ Suc k"
  then have pos: "0 < n" by (cases n) simp_all
  have "2 ^ k < (2::nat) ^ bit_length n" using lo bit_length_less [of n] by linarith
  then have "k < bit_length n" by (simp only: power_strict_increasing_iff)
  moreover have "(2::nat) ^ (bit_length n - 1) < 2 ^ Suc k" using hi bit_length_ge [OF pos] by linarith
  then have "bit_length n - 1 < Suc k" by (simp only: power_strict_increasing_iff)
  ultimately show ?thesis by simp
qed

lemma bit_length_le: "n < 2 ^ k \<Longrightarrow> bit_length n \<le> k"
proof (cases "n = 0")
  case False
  assume "n < 2 ^ k"
  then have "(2::nat) ^ (bit_length n - 1) < 2 ^ k" using bit_length_ge [of n] False by linarith
  then show ?thesis by (simp only: power_strict_increasing_iff)
qed (simp add: bit_length.simps)

lemma bit_length_quotient:
  assumes "0 < den" "2 ^ k * (den * 2 ^ s) \<le> num" "num < 2 ^ Suc k * (den * 2 ^ s)"
  shows "bit_length (num div den) = Suc (k + s)"
proof (rule bit_length_range)
  have "2 ^ (k + s) * den \<le> num" using assms(2) by (simp add: power_add ac_simps)
  then show "2 ^ (k + s) \<le> num div den" using assms(1) by (simp add: less_eq_div_iff_mult_less_eq)
  have "num < 2 ^ Suc (k + s) * den" using assms(3) by (simp add: power_add ac_simps)
  then show "num div den < 2 ^ Suc (k + s)" using assms(1) by (simp add: div_less_iff_less_mult)
qed

lemma round_mag_at:
  assumes "bit_length (num div den) - 53 = s" "div_nearest_even num (den * 2 ^ s) = m" "s * 2 ^ 52 + m < INF_MAG"
  shows "round_mag num den = s * 2 ^ 52 + m"
  using assms by (simp add: round_mag_def Let_def)

lemma half_gap:
  fixes n x d :: nat
  assumes "x < 2 ^ 53 * d"
  shows "2 ^ 54 * n < 2 ^ 54 * x + x \<Longrightarrow> 2 * n < 2 * x + d" "2 ^ 54 * x < 2 ^ 54 * n + x \<Longrightarrow> 2 * x < 2 * n + d"
  using assms by simp_all

lemma gap_top: "x + d \<le> 2 ^ 53 * d \<Longrightarrow> 2 * n < 2 * x + d \<Longrightarrow> n < 2 ^ Suc 52 * d" for n x d :: nat
  by simp

text \<open>A quotient within one part in \<open>2\<^sup>5\<^sup>4\<close> of a double rounds to it.\<close>

lemma round_mag_near:
  assumes den: "0 < den" and m: "m < 2 ^ 53" "s = 0 \<or> 2 ^ 52 \<le> m" and mag: "s * 2 ^ 52 + m < INF_MAG"
    and hi: "2 ^ 54 * num < 2 ^ 54 * (m * (den * 2 ^ s)) + m * (den * 2 ^ s)"
    and lo: "2 ^ 54 * (m * (den * 2 ^ s)) < 2 ^ 54 * num + m * (den * 2 ^ s)"
  shows "round_mag num den = s * 2 ^ 52 + m"
proof -
  define D where "D = den * 2 ^ s"
  have D: "0 < D" using den by (simp add: D_def)
  have mD: "m * D < 2 ^ 53 * D" using m(1) D by (simp only: mult_less_cancel2)
  have bounds: "2 * num < 2 * (m * D) + D" "2 * (m * D) < 2 * num + D"
    using half_gap [OF mD] hi lo by (simp_all only: D_def)
  have up: "2 * num < D * (2 * m + 1)" and down: "D * (2 * m) < 2 * num + D"
    using bounds by (simp_all only: distrib_left mult_1_right mult.left_commute mult.commute)
  note near = nearest_unique [OF D up down, unfolded D_def]
  consider "s = 0" | "s \<noteq> 0" "2 ^ 52 * D \<le> num" | t where "s = Suc t" "m = 2 ^ 52" "num < m * D"
  proof -
    have "2 ^ 52 * D \<le> num" if "2 ^ 52 \<le> m" "m \<noteq> 2 ^ 52 \<or> m * D \<le> num"
    proof (cases "m = 2 ^ 52")
      case False
      then have "(2 ^ 52 + 1) * D \<le> m * D" using that(1) by (intro mult_le_mono1) simp
      then have "2 * (2 ^ 52 * D) + 2 * D \<le> 2 * (m * D)" by (simp only: distrib_right mult_1_left distrib_left)
      then show ?thesis using bounds(2) D by linarith
    qed (use that in simp)
    then show thesis using m(2) by (cases s) (metis that not_le)+
  qed
  then show ?thesis
  proof cases
    case 1
    then have "num < Suc m * den" using up by (simp add: D_def algebra_simps)
    moreover have "Suc m * den \<le> 2 ^ 53 * den" using m(1) by (intro mult_le_mono1) simp
    ultimately have "num < 2 ^ 53 * den" by (rule less_le_trans)
    then have "num div den < 2 ^ 53" using den by (simp add: div_less_iff_less_mult)
    then have "bit_length (num div den) - 53 = 0" using bit_length_le by simp
    with round_mag_at [OF _ near mag] 1 show ?thesis by simp
  next
    case 2
    have "Suc m * D \<le> 2 ^ 53 * D" using m(1) by (intro mult_le_mono1) simp
    then have "m * D + D \<le> 2 ^ 53 * D" by (simp only: mult_Suc add.commute)
    then have "num < 2 ^ Suc 52 * D" using bounds(1) by (rule gap_top)
    then have "bit_length (num div den) - 53 = s" using bit_length_quotient [of den 52 s num] 2 den by (simp add: D_def)
    with round_mag_at [OF _ near mag] show ?thesis by simp
  next
    case (3 t)
    define E where "E = den * 2 ^ t"
    have DE: "D = 2 * E" "0 < E" using 3(1) den by (simp_all add: D_def E_def)
    have below: "2 ^ 54 * E < 2 * num + E" using lo unfolding D_def [symmetric] 3(2) DE(1) by simp
    have above: "num < 2 ^ 53 * E" using 3(2,3) DE(1) by simp
    have "bit_length (num div den) - 53 = t"
      using bit_length_quotient [of den 52 t num] den below above by (simp add: E_def)
    moreover have "div_nearest_even num (den * 2 ^ t) = 2 ^ 53"
      using nearest_unique [of E num "2 ^ 53"] DE(2) below above by (simp add: E_def algebra_simps)
    ultimately show ?thesis using round_mag_at [of num den t "2 ^ 53"] mag 3(1,2) by simp
  qed
qed

section \<open>Seventeen digits\<close>

lemma mag_split:
  assumes "mag < INF_MAG"
  obtains s m where "mag = s * 2 ^ 52 + m" "m < 2 ^ 53" "s = 0 \<or> 2 ^ 52 \<le> m" "mag_units mag = m * 2 ^ s"
proof (cases "mag div 2 ^ 52")
  case 0
  then have "mag < 2 ^ 52" by (simp add: div_eq_0_iff)
  then show thesis using that [of 0 mag] by (simp add: mag_units_def)
next
  case (Suc s)
  define m where "m = 2 ^ 52 + mag mod 2 ^ 52"
  have "mag mod 2 ^ 52 < 2 ^ 52" by simp
  then have m: "m < 2 ^ 53" "2 ^ 52 \<le> m" by (simp_all add: m_def)
  have mag: "mag = s * 2 ^ 52 + m" using Suc div_mult_mod_eq [of mag "2 ^ 52"] by (simp add: m_def)
  show thesis using that [OF mag m(1)] m mag_units_scale [of m s] mag by simp
qed

lemma nat_digits_length: "0 < n \<Longrightarrow> 10 ^ (length (nat_digits n) - 1) \<le> n \<and> nat_digits n \<noteq> []"
proof (induction n rule: nat_digits.induct)
  case (1 n)
  show ?case
  proof (cases "n < 10")
    case True
    then show ?thesis using 1(2) by (simp add: nat_digits.simps [of n])
  next
    case False
    then have IH: "10 ^ (length (nat_digits (n div 10)) - 1) \<le> n div 10" "nat_digits (n div 10) \<noteq> []" using 1(1) by simp_all
    then have "10 ^ length (nat_digits (n div 10)) \<le> 10 * (n div 10)"
      by (cases "length (nat_digits (n div 10))") simp_all
    also have "\<dots> \<le> n" by simp
    finally show ?thesis using False by (simp add: nat_digits.simps [of n])
  qed
qed

lemma dec_exponent_bound:
  assumes "0 < u" "p = dec_exponent u - 17"
  shows "10 ^ 16 * (F64_ONE * 10 ^ nat p) \<le> u * 10 ^ nat (- p)"
proof (cases "u \<ge> F64_ONE")
  case True
  define L where "L = length (nat_digits (u div F64_ONE))"
  have "0 < u div F64_ONE" using True by (simp add: F64_ONE_def div_greater_zero_iff)
  then have L: "10 ^ (L - 1) \<le> u div F64_ONE" "L \<noteq> 0" using nat_digits_length by (auto simp: L_def)
  have "u div F64_ONE * F64_ONE \<le> u" by simp
  then have u: "10 ^ (L - 1) * F64_ONE \<le> u" using L(1) by (meson le_trans mult_le_mono1)
  have p: "p = int L - 17" using True assms(2) by (simp add: dec_exponent_def L_def)
  show ?thesis
  proof (cases "L \<ge> 17")
    case True
    then have "nat p = L - 17" "nat (- p) = 0" "L - 1 = 16 + (L - 17)" using p by simp_all
    then show ?thesis using u by (simp only: power_add power_0 mult_1_right ac_simps)
  next
    case False
    then have n: "nat p = 0" "nat (- p) = 17 - L" "16 = L - 1 + (17 - L)" using p L(2) by simp_all
    have "10 ^ 16 * F64_ONE = 10 ^ (L - 1) * F64_ONE * 10 ^ (17 - L)" by (subst n(3)) (simp only: power_add ac_simps)
    also have "\<dots> \<le> u * 10 ^ (17 - L)" using u by (rule mult_le_mono1)
    finally show ?thesis unfolding n(1,2) by simp
  qed
next
  case False
  define P where "P = (\<lambda>j. u * 10 ^ Suc j < F64_ONE)"
  define j where "j = length (takeWhile P [0..<400])"
  have eight: "(2::nat) ^ 3 = 8" by simp
  have "F64_ONE \<le> 2 ^ (3 * Suc 399)" unfolding F64_ONE_def by (rule power_increasing) simp_all
  also have "\<dots> = 8 ^ Suc 399" by (simp only: power_mult eight)
  also have "\<dots> \<le> 10 ^ Suc 399" by (rule power_mono) simp_all
  also have "\<dots> \<le> u * 10 ^ Suc 399" using assms(1) by (cases u) (simp_all only: mult_Suc le_add1 less_irrefl)
  finally have "\<not> P 399" by (simp only: P_def not_less)
  then have "takeWhile P [0..<400] \<noteq> [0..<400]" by (auto simp: takeWhile_eq_all_conv simp del: upt_rec_numeral)
  then have "j < 400" unfolding j_def using length_takeWhile_le [of P "[0..<400]"]
    by (metis le_neq_implies_less length_upt diff_zero takeWhile_eq_take take_all_iff)
  then have "\<not> P j" using nth_length_takeWhile [of P "[0..<400]"] by (simp add: j_def del: upt_rec_numeral)
  then have u: "F64_ONE \<le> u * 10 ^ Suc j" by (simp add: P_def)
  have "p = - int j - 17" using False assms(2) by (simp add: dec_exponent_def j_def P_def del: upt_rec_numeral)
  then have n: "nat p = 0" "nat (- p) = Suc j + 16" by simp_all
  have "10 ^ 16 * F64_ONE \<le> 10 ^ 16 * (u * 10 ^ Suc j)" using u by (rule mult_le_mono2)
  then show ?thesis unfolding n by (simp only: power_add power_0 mult_1_right ac_simps)
qed

lemma nearest_close:
  fixes N X Y r D :: nat
  assumes "N = X + r" "r < D" "Y = (if 2 * r \<ge> D then X + D else X)"
  shows "2 * Y \<le> 2 * N + D" "2 * N \<le> 2 * Y + D"
  using assms by auto

text \<open>The nearest decimal of seventeen digits, and so the one that is chosen, reads back as the magnitude.\<close>

lemma seventeen_digits:
  fixes p :: int
  defines "T \<equiv> 10 ^ nat (- p)" and "D \<equiv> F64_ONE * 10 ^ nat p"
  assumes mag: "mag < INF_MAG" and u: "u = mag_units mag" "10 ^ 16 * D \<le> u * T"
    and d: "d = (if 2 * (u * T mod D) \<ge> D then Suc (u * T div D) else u * T div D)"
  shows "dec_to_mag d p = mag"
proof -
  have pos: "0 < T" "0 < D" by (simp_all add: T_def D_def F64_ONE_def)
  define N where "N = u * T"
  have N_split: "N = N div D * D + N mod D" "N mod D < D" using pos(2) by simp_all
  have near: "2 * (d * D) \<le> 2 * N + D" "2 * N \<le> 2 * (d * D) + D"
  proof -
    have "d * D = (if 2 * (N mod D) \<ge> D then N div D * D + D else N div D * D)" using d by (simp add: N_def)
    from nearest_close [OF N_split this] show "2 * (d * D) \<le> 2 * N + D" "2 * N \<le> 2 * (d * D) + D" .
  qed
  have close: "2 ^ 54 * (d * D) < 2 ^ 54 * N + N" "2 ^ 54 * N < 2 ^ 54 * (d * D) + N"
    using near u(2) pos(2) unfolding N_def [symmetric] by simp_all
  obtain s m where sm: "mag = s * 2 ^ 52 + m" "m < 2 ^ 53" "s = 0 \<or> 2 ^ 52 \<le> m" "mag_units mag = m * 2 ^ s"
    by (rule mag_split [OF mag])
  have N: "N = m * (T * 2 ^ s)" by (simp add: N_def u(1) sm(4))
  have "round_mag (d * D) T = mag"
    using round_mag_near [OF pos(1) sm(2,3), of "d * D"] mag close unfolding N sm(1) by simp
  then show ?thesis by (simp add: dec_to_mag_def T_def D_def ac_simps)
qed

lemma shortest_from_reads:
  assumes mag: "mag < INF_MAG" "u = mag_units mag" "10 ^ 16 * (F64_ONE * 10 ^ nat (e - 17)) \<le> u * 10 ^ nat (- (e - 17))"
  shows "n \<noteq> 0 \<Longrightarrow> n + k = 18 \<Longrightarrow> shortest_from n k mag u e = (d, p) \<Longrightarrow> dec_to_mag d p = mag"
proof (induction n arbitrary: k)
  case (Suc n)
  show ?case
  proof (cases "n = 0")
    case True
    then have "k = 17" using Suc.prems(2) by simp
    with True Suc.prems(3) seventeen_digits [OF mag HOL.refl] show ?thesis
      by (auto simp: Let_def split: if_splits)
  next
    case False
    then show ?thesis using Suc.IH [of "Suc k"] Suc.prems(2,3) by (auto simp: Let_def split: if_splits)
  qed
qed simp

lemma mag_units_pos: "0 < mag \<Longrightarrow> 0 < mag_units mag"
  by (auto simp: mag_units_def Let_def intro!: Nat.gr0I)

lemma f64_shortest_reads:
  assumes "f64_is_finite x" "\<not> f64_is_zero x" "f64_shortest x = (d, p)"
  shows "dec_to_mag d p = f64_mag x"
proof -
  let ?u = "mag_units (f64_mag x)"
  have "0 < ?u" using assms(2) by (intro mag_units_pos) (simp add: f64_is_zero_def)
  then have bound: "10 ^ 16 * (F64_ONE * 10 ^ nat (dec_exponent ?u - 17)) \<le> ?u * 10 ^ nat (- (dec_exponent ?u - 17))"
    by (rule dec_exponent_bound) (rule HOL.refl)
  have "f64_mag x < INF_MAG" using assms(1) by (simp add: f64_is_finite_def)
  from shortest_from_reads [OF this HOL.refl bound, of 17 1] assms(3) show ?thesis by (simp add: f64_shortest_def Let_def)
qed

section \<open>What is written reads back\<close>

definition digits :: "string \<Rightarrow> bool" where
  "digits ds \<longleftrightarrow> (\<forall>c\<in>set ds. digit_value c \<noteq> None)"

lemma digits_simps [simp]:
  "digits []" "digits (c # cs) \<longleftrightarrow> digit_value c \<noteq> None \<and> digits cs" "digits (xs @ ys) \<longleftrightarrow> digits xs \<and> digits ys"
  by (auto simp: digits_def)

lemma digit_zero [simp]: "digit_value (CHR ''0'') = Some 0"
  by code_simp

lemma digit_others [simp]: "digit_value (CHR ''.'') = None" "digit_value (CHR ''e'') = None" "digit_value (CHR ''E'') = None"
  by code_simp+

lemma digits_nat_digits: "digits (nat_digits n)" "digits_nat (nat_digits n) = n" "nat_digits n \<noteq> []"
proof -
  have "digits_value acc ds = Some n \<Longrightarrow> digits ds" for acc ds
    by (induction acc ds rule: digits_value.induct) (auto split: option.splits)
  then show "digits (nat_digits n)" "digits_nat (nat_digits n) = n" "nat_digits n \<noteq> []"
    using nat_digits_value [of n] by (auto simp: digits_nat_def)
qed

lemma digits_value_acc: "digits ds \<Longrightarrow> digits_value acc ds = Some (acc * 10 ^ length ds + digits_nat ds)"
proof (induction ds arbitrary: acc)
  case (Cons c cs)
  then obtain v where v: "digit_value c = Some v" by auto
  have cs: "digits_value a cs = Some (a * 10 ^ length cs + digits_nat cs)" for a using Cons by simp
  have "digits_nat (c # cs) = v * 10 ^ length cs + digits_nat cs" using cs [of v] v by (simp add: digits_nat_def)
  then show ?case using cs [of "acc * 10 + v"] v by (simp add: algebra_simps)
qed (simp add: digits_nat_def)

lemma digits_nat_append: "digits xs \<Longrightarrow> digits ys \<Longrightarrow> digits_nat (xs @ ys) = digits_nat xs * 10 ^ length ys + digits_nat ys"
  using digits_value_acc [of xs 0] digits_value_acc [of ys "digits_nat xs"]
  by (simp add: digits_nat_def [of "xs @ ys"] digits_value_append)

lemma digits_zeros [simp]: "digits (replicate n (CHR ''0''))" "digits_nat (replicate n (CHR ''0'')) = 0"
proof -
  show "digits (replicate n (CHR ''0''))" by (simp add: digits_def)
  have "digits_value 0 (replicate n (CHR ''0'')) = Some 0" by (induction n) simp_all
  then show "digits_nat (replicate n (CHR ''0'')) = 0" by (simp add: digits_nat_def)
qed

lemma strip_zeros_split: obtains t where "s = strip_zeros s @ replicate t (CHR ''0'')"
proof
  let ?P = "\<lambda>c. c = CHR ''0''"
  have "takeWhile ?P (rev s) = replicate (length (takeWhile ?P (rev s))) (CHR ''0'')"
    by (rule replicate_eqI) (auto dest: set_takeWhileD)
  then have "rev (rev s) = rev (dropWhile ?P (rev s)) @ replicate (length (takeWhile ?P (rev s))) (CHR ''0'')"
    by (metis rev_append rev_replicate takeWhile_dropWhile_id)
  then show "s = strip_zeros s @ replicate (length (takeWhile ?P (rev s))) (CHR ''0'')" by (simp add: strip_zeros_def)
qed

lemma span_digits_append:
  "digits ds \<Longrightarrow> (case rest of [] \<Rightarrow> True | c # _ \<Rightarrow> digit_value c = None) \<Longrightarrow> span_digits (ds @ rest) = (ds, rest)"
  by (induction ds) (auto split: list.splits)

lemma parse_decimal_point:
  "digits (ip @ fp) \<Longrightarrow> ip \<noteq> [] \<Longrightarrow> parse_decimal (ip @ CHR ''.'' # fp) = Some (digits_nat (ip @ fp), - int (length fp))"
  using span_digits_append [of ip "CHR ''.'' # fp"] span_digits_append [of fp "[]"]
  by (simp add: parse_decimal_def parse_fraction_def)

lemma positional_parts:
  obtains ip fp where "positional d p = ip @ (if fp = [] then [] else CHR ''.'' # fp)" "ip \<noteq> []" "digits (ip @ fp)"
    "dec_to_mag (digits_nat (ip @ fp)) (- int (length fp)) = dec_to_mag d p"
proof (cases "p \<ge> 0")
  case True
  let ?ip = "nat_digits d @ replicate (nat p) (CHR ''0'')"
  have "digits_nat ?ip = d * 10 ^ nat p" by (simp add: digits_nat_append digits_nat_digits)
  then show thesis using that [of ?ip "[]"] True by (simp add: positional_def digits_nat_digits dec_to_mag_def)
next
  case False
  define k ds where "k = nat (- p)" and "ds = nat_digits d"
  define ip where "ip = (if length ds > k then take (length ds - k) ds else ''0'')"
  define fp where "fp = (if length ds > k then drop (length ds - k) ds else replicate (k - length ds) (CHR ''0'') @ ds)"
  obtain t where t: "fp = strip_zeros fp @ replicate t (CHR ''0'')" by (rule strip_zeros_split)
  have len: "length fp = k" by (simp add: fp_def)
  have ds: "digits ds" "digits_nat ds = d" by (simp_all add: ds_def digits_nat_digits)
  have all: "ip @ fp = (if length ds > k then ds else replicate (Suc (k - length ds)) (CHR ''0'') @ ds)"
    by (simp add: ip_def fp_def)
  then have ok: "digits (ip @ fp)" "digits_nat (ip @ fp) = d"
    using ds by (simp_all add: digits_nat_append del: replicate_Suc)
  have strip: "digits (ip @ strip_zeros fp)" using ok(1) t by (metis digits_simps(3))
  have "digits_nat (ip @ strip_zeros fp) * 10 ^ t = d"
    using digits_nat_append [OF strip digits_zeros(1) [of t]] t ok(2) by (metis append_assoc add_0_right digits_zeros(2) length_replicate)
  moreover have "length (strip_zeros fp) + t = k" using len t by (metis length_append length_replicate)
  then have "t \<le> nat (- p)" "- int (length (strip_zeros fp)) = p + int t" using False by (simp_all add: k_def)
  ultimately have "dec_to_mag (digits_nat (ip @ strip_zeros fp)) (- int (length (strip_zeros fp))) = dec_to_mag d p"
    using dec_to_mag_scale [of t p "digits_nat (ip @ strip_zeros fp)"] by simp
  moreover have "positional d p = ip @ (if strip_zeros fp = [] then [] else CHR ''.'' # strip_zeros fp)"
    using False by (simp add: positional_def Let_def ip_def fp_def k_def ds_def)
  moreover have "ip \<noteq> []" by (auto simp: ip_def)
  ultimately show thesis using that strip by blast
qed

lemma format_finite:
  assumes "f64_is_finite x"
  obtains ip fp where "format_double x = (if f64_neg_bit x then ''-'' else []) @ ip @ CHR ''.'' # fp" "ip \<noteq> []" "digits (ip @ fp)"
    "dec_to_mag (digits_nat (ip @ fp)) (- int (length fp)) = f64_mag x"
proof (cases "f64_is_zero x")
  case True
  have "dec_to_mag (digits_nat ''00'') (- 1) = 0"
    using digits_zeros(2) [of 2] by (simp add: numeral_2_eq_2 dec_to_mag_def round_mag_def div_nearest_even_def bit_length.simps)
  then show thesis using that [of "''0''" "''0''"] True assms
    by (simp add: format_double_def f64_to_string_def f64_is_zero_def f64_is_nan_def f64_is_inf_def f64_is_finite_def Let_def)
next
  case False
  obtain d p where dp: "f64_shortest x = (d, p)" by (cases "f64_shortest x")
  obtain ip fp where parts: "positional d p = ip @ (if fp = [] then [] else CHR ''.'' # fp)" "ip \<noteq> []" "digits (ip @ fp)"
      "dec_to_mag (digits_nat (ip @ fp)) (- int (length fp)) = dec_to_mag d p" by (rule positional_parts)
  have shown: "f64_to_string x = (if f64_neg_bit x then ''-'' else []) @ positional d p"
    using assms False dp by (simp add: f64_to_string_def f64_is_nan_def f64_is_inf_def f64_is_finite_def)
  have mag: "dec_to_mag d p = f64_mag x" by (rule f64_shortest_reads [OF assms False dp])
  show thesis
  proof (cases "fp = []")
    case True
    have "CHR ''.'' \<notin> set ip" "CHR ''e'' \<notin> set ip" "CHR ''E'' \<notin> set ip" using parts(3) digit_others unfolding digits_def by (metis Un_iff set_append)+
    then have "format_double x = (if f64_neg_bit x then ''-'' else []) @ ip @ ''.0''"
      using shown parts(1) True assms by (simp add: format_double_def)
    moreover have "dec_to_mag (digits_nat (ip @ ''0'')) (- 1) = f64_mag x"
      using True parts mag dec_to_mag_scale [of 1 "- 1" "digits_nat ip"] digits_nat_append [of ip "''0''"] digits_zeros(2) [of 1] by simp
    ultimately show thesis using that [of ip "''0''"] parts True by simp
  next
    case False
    then have "format_double x = (if f64_neg_bit x then ''-'' else []) @ ip @ CHR ''.'' # fp"
      using shown parts(1) by (simp add: format_double_def)
    then show thesis using that parts mag by simp
  qed
qed

lemma f64_make_self: "f64_make (f64_neg_bit x) (f64_mag x) = x"
proof (rule bit_word_eqI)
  fix n
  assume n: "n < LENGTH(64)"
  have "word_of_nat (f64_mag x) = take_bit 63 x" by (simp add: f64_mag_def)
  moreover have "n < 63 \<or> n = 63" using n by auto
  ultimately show "bit (f64_make (f64_neg_bit x) (f64_mag x)) n = bit x n"
    by (auto simp: f64_make_def f64_neg_bit_def bit_simps simp del: push_bit_of_1)
qed

lemma parse_format_double: "parse_f64 (format_double x) = Some (if f64_is_nan x then f64_nan else x)"
proof (cases "f64_is_finite x")
  case True
  obtain ip fp where f: "format_double x = (if f64_neg_bit x then ''-'' else []) @ ip @ CHR ''.'' # fp" "ip \<noteq> []" "digits (ip @ fp)"
      "dec_to_mag (digits_nat (ip @ fp)) (- int (length fp)) = f64_mag x" by (rule format_finite [OF True])
  obtain c cs where ip: "ip = c # cs" using f(2) by (cases ip) simp_all
  then have "c \<noteq> CHR ''-''" "c \<noteq> CHR ''+''" using f(3) digit_value_sign by auto
  then have "parse_sign (format_double x) = (f64_neg_bit x, ip @ CHR ''.'' # fp)"
    unfolding f(1) ip by (simp add: parse_sign_def)
  moreover have "\<not> f64_is_nan x" using True by (simp add: f64_is_nan_def f64_is_finite_def)
  ultimately show ?thesis using parse_decimal_point [OF f(3,2)] f(4) by (simp add: parse_f64_def f64_make_self)
next
  case False
  have bad: "parse_decimal ''inf'' = None" "parse_decimal ''NaN'' = None" by code_simp+
  have low: "map to_ascii_lower ''inf'' = ''inf''" "map to_ascii_lower ''NaN'' = ''nan''" by code_simp+
  show ?thesis
  proof (cases "f64_is_nan x")
    case True
    then have "format_double x = ''NaN''" using False by (simp add: format_double_def f64_to_string_def)
    then show ?thesis using True bad low by (simp add: parse_f64_def parse_sign_def)
  next
    case nan: False
    then have "f64_is_inf x" using False by (simp add: f64_is_nan_def f64_is_inf_def f64_is_finite_def)
    then have "format_double x = (if f64_neg_bit x then ''-'' else []) @ ''inf''" "f64_inf (f64_neg_bit x) = x"
      using nan False f64_make_self [of x] by (simp_all add: format_double_def f64_to_string_def f64_is_inf_def f64_inf_def)
    then show ?thesis using nan bad low by (cases "f64_neg_bit x") (simp_all add: parse_f64_def parse_sign_def)
  qed
qed

end
