(* ===== verification/NativeText.thy ===== *)
theory NativeText
  imports NativeBase Decimal
begin

text \<open>
  The console and string natives (\<^verbatim>\<open>runtime/src/interp/natives.rs\<close>): output with its capture
  stack, rendering, and the methods of \<open>String\<close>. A sink says what happens when bytes are written to it,
  given what it already holds: none, or the text of the error. The case mappings are those
  of the Unicode tables, a parameter.
\<close>

section \<open>Output\<close>

type_synonym sink = "u8 list \<Rightarrow> u8 list \<Rightarrow> string option"

definition emit_stdout :: "sink \<Rightarrow> u8 list \<Rightarrow> ('e, string option) eff" where
  "emit_stdout sk data w =
     (if capture w \<noteq> []
      then (Ok None, w\<lparr>capture := butlast (capture w) @ [last (capture w) @ data]\<rparr>)
      else case sk (out w) data of
             None \<Rightarrow> (Ok None, w\<lparr>out := out w @ data\<rparr>)
           | Some e \<Rightarrow> (Ok (Some e), w))"

definition emit_stderr :: "sink \<Rightarrow> u8 list \<Rightarrow> ('e, string option) eff" where
  "emit_stderr sk data w =
     (case sk (err_out w) data of
        None \<Rightarrow> (Ok None, w\<lparr>err_out := err_out w @ data\<rparr>)
      | Some e \<Rightarrow> (Ok (Some e), w))"

definition unit_or_bug :: "string \<Rightarrow> string option \<Rightarrow> ('e, val) eff" where
  "unit_or_bug who r = (case r of None \<Rightarrow> nret Unit | Some e \<Rightarrow> nlift (Err (bug (who @ '': '' @ e))))"

definition native_println :: "sink \<Rightarrow> 'e native" where
  "native_println sk args =
     nbind (nlift (expect_one args ''println'')) (\<lambda>v.
     nbind (nread (\<lambda>st. str_contents st v)) (\<lambda>s.
     nbind (emit_stdout sk (as_bytes s @ [10])) (unit_or_bug ''println'')))"

definition native_print :: "sink \<Rightarrow> 'e native" where
  "native_print sk args =
     nbind (nlift (expect_one args ''print'')) (\<lambda>v.
     nbind (nread (\<lambda>st. str_contents st v)) (\<lambda>s.
     nbind (emit_stdout sk (as_bytes s)) (unit_or_bug ''print'')))"

definition native_eprintln :: "sink \<Rightarrow> 'e native" where
  "native_eprintln sk args =
     nbind (nlift (expect_one args ''eprintln'')) (\<lambda>v.
     nbind (nread (\<lambda>st. str_contents st v)) (\<lambda>s.
     nbind (emit_stderr sk (as_bytes s @ [10])) (unit_or_bug ''eprintln'')))"

definition native_eprint :: "sink \<Rightarrow> 'e native" where
  "native_eprint sk args =
     nbind (nlift (expect_one args ''eprint'')) (\<lambda>v.
     nbind (nread (\<lambda>st. str_contents st v)) (\<lambda>s.
     nbind (emit_stderr sk (as_bytes s)) (unit_or_bug ''eprint'')))"

definition native_test_capture_begin :: "'e native" where
  "native_test_capture_begin args =
     (if args \<noteq> [] then nlift (Err (bug ''test_capture_begin expects 0 arguments''))
      else (\<lambda>w. (Ok Unit, w\<lparr>capture := capture w @ [ [] ]\<rparr>)))"

definition pop_capture :: "('e, u8 list) eff" where
  "pop_capture w =
     (if capture w = [] then (Err (bug ''test_capture_end: no active capture''), w)
      else (Ok (last (capture w)), w\<lparr>capture := butlast (capture w)\<rparr>))"

definition native_test_capture_end :: "layout \<Rightarrow> 'e native" where
  "native_test_capture_end L args =
     (if args \<noteq> [] then nlift (Err (bug ''test_capture_end expects 0 arguments''))
      else nbind pop_capture (\<lambda>data. new_str L (from_utf8_lossy data)))"

definition native_io_stdout_write :: "layout \<Rightarrow> sink \<Rightarrow> 'e native" where
  "native_io_stdout_write L sk args =
     nbind (nlift (expect_one args ''io_stdout_write'')) (\<lambda>v.
     nbind (nread (\<lambda>st. bytes_contents st v ''io_stdout_write'')) (\<lambda>data.
     nbind (emit_stdout sk data) (\<lambda>r.
       case r of
         None \<Rightarrow> ok_val L (IntV (word_of_nat (length data)))
       | Some e \<Rightarrow> nbind (new_str L (''stdout: '' @ e)) (err_val L))))"

definition native_io_stderr_write :: "layout \<Rightarrow> sink \<Rightarrow> 'e native" where
  "native_io_stderr_write L sk args =
     nbind (nlift (expect_one args ''io_stderr_write'')) (\<lambda>v.
     nbind (nread (\<lambda>st. bytes_contents st v ''io_stderr_write'')) (\<lambda>data.
     nbind (emit_stderr sk data) (\<lambda>r.
       case r of
         None \<Rightarrow> ok_val L (IntV (word_of_nat (length data)))
       | Some e \<Rightarrow> nbind (new_str L (''stderr: '' @ e)) (err_val L))))"

section \<open>Rendering\<close>

definition native_int_to_string :: "layout \<Rightarrow> 'e native" where
  "native_int_to_string L args =
     nbind (nlift (expect_one args ''int_to_string'')) (\<lambda>v. nbind (nread (\<lambda>st. display_string st v)) (new_str L))"

definition native_double_to_string :: "layout \<Rightarrow> 'e native" where
  "native_double_to_string L args =
     nbind (nlift (expect_one args ''double_to_string'')) (\<lambda>v. nbind (nread (\<lambda>st. display_string st v)) (new_str L))"

definition native_bool_to_string :: "layout \<Rightarrow> 'e native" where
  "native_bool_to_string L args =
     nbind (nlift (expect_one args ''bool_to_string'')) (\<lambda>v. nbind (nread (\<lambda>st. display_string st v)) (new_str L))"

definition native_str_identity :: "'e native" where
  "native_str_identity args =
     nbind (nlift (expect_one args ''str_identity'')) (\<lambda>v. nbind (nread (\<lambda>st. str_contents st v)) (\<lambda>_. nret v))"

definition native_string_debug :: "layout \<Rightarrow> 'e native" where
  "native_string_debug L args =
     nbind (nlift (expect_one args ''string_debug'')) (\<lambda>v.
     nbind (nread (\<lambda>st. str_contents st v)) (\<lambda>s. new_str L (quote_str s)))"

definition native_bytes_debug :: "layout \<Rightarrow> 'e native" where
  "native_bytes_debug L args =
     nbind (nlift (expect_one args ''bytes_debug'')) (\<lambda>v.
     nbind (nread (\<lambda>st. bytes_contents st v ''bytes_debug'')) (\<lambda>b. new_str L (''Bytes['' @ hex_join b @ '']'')))"

definition native_str_concat :: "layout \<Rightarrow> 'e native" where
  "native_str_concat L args =
     nbind (nread (\<lambda>st. rmap (str_contents st) args)) (\<lambda>parts. new_str L (concat parts))"

definition native_eq :: "'e native" where
  "native_eq args =
     nbind (nlift (args2 args ''eq'')) (\<lambda>(a, b).
     nbind (nread (\<lambda>st. structural_eq st a b)) (\<lambda>t. nret (Bool t)))"

section \<open>Methods of strings\<close>

text \<open>Most take one string, or two, and answer something computed from their contents.\<close>

definition native_str_len :: "'e native" where
  "native_str_len args =
     nbind (nlift (expect_one args ''str_len'')) (\<lambda>v.
     nbind (nread (\<lambda>st. str_contents st v)) (\<lambda>s. nret (IntV (word_of_nat (length (chars_of s))))))"

definition native_str_byte_len :: "'e native" where
  "native_str_byte_len args =
     nbind (nlift (expect_one args ''str_byte_len'')) (\<lambda>v.
     nbind (nread (\<lambda>st. str_contents st v)) (\<lambda>s. nret (IntV (word_of_nat (length s)))))"

definition native_str_trim :: "layout \<Rightarrow> 'e native" where
  "native_str_trim L args =
     nbind (nlift (expect_one args ''str_trim'')) (\<lambda>v.
     nbind (nread (\<lambda>st. str_contents st v)) (\<lambda>s. new_str L (trim_both s)))"

definition native_str_compare :: "layout \<Rightarrow> 'e native" where
  "native_str_compare L args =
     nbind (nlift (args2 args ''str_compare'')) (\<lambda>(a, b).
     nbind (nread (\<lambda>st. str_contents st a)) (\<lambda>s.
     nbind (nread (\<lambda>st. str_contents st b)) (\<lambda>t. heap_alloc L (ordering_obj (str_less s t) (s = t)))))"

definition native_str_trim_start :: "layout \<Rightarrow> 'e native" where
  "native_str_trim_start L args =
     nbind (nlift (expect_one args ''str_trim_start'')) (\<lambda>v.
     nbind (nread (\<lambda>st. str_contents st v)) (\<lambda>s. new_str L (trim_start s)))"

definition native_str_trim_end :: "layout \<Rightarrow> 'e native" where
  "native_str_trim_end L args =
     nbind (nlift (expect_one args ''str_trim_end'')) (\<lambda>v.
     nbind (nread (\<lambda>st. str_contents st v)) (\<lambda>s. new_str L (trim_end s)))"

definition native_str_contains :: "'e native" where
  "native_str_contains args =
     nbind (nlift (args2 args ''str_contains'')) (\<lambda>(a, b).
     nbind (nread (\<lambda>st. str_contents st a)) (\<lambda>s.
     nbind (nread (\<lambda>st. str_contents st b)) (\<lambda>t. nret (Bool (sublist t s)))))"

definition native_str_starts_with :: "'e native" where
  "native_str_starts_with args =
     nbind (nlift (args2 args ''str_starts_with'')) (\<lambda>(a, b).
     nbind (nread (\<lambda>st. str_contents st a)) (\<lambda>s.
     nbind (nread (\<lambda>st. str_contents st b)) (\<lambda>t. nret (Bool (prefix t s)))))"

definition native_str_ends_with :: "'e native" where
  "native_str_ends_with args =
     nbind (nlift (args2 args ''str_ends_with'')) (\<lambda>(a, b).
     nbind (nread (\<lambda>st. str_contents st a)) (\<lambda>s.
     nbind (nread (\<lambda>st. str_contents st b)) (\<lambda>t. nret (Bool (suffix t s)))))"

definition native_str_to_uppercase :: "layout \<Rightarrow> (string \<Rightarrow> string) \<Rightarrow> 'e native" where
  "native_str_to_uppercase L fold_case args =
     nbind (nlift (expect_one args ''str_to_uppercase'')) (\<lambda>v.
     nbind (nread (\<lambda>st. str_contents st v)) (\<lambda>s. new_str L (fold_case s)))"

definition native_str_to_lowercase :: "layout \<Rightarrow> (string \<Rightarrow> string) \<Rightarrow> 'e native" where
  "native_str_to_lowercase L fold_case args =
     nbind (nlift (expect_one args ''str_to_lowercase'')) (\<lambda>v.
     nbind (nread (\<lambda>st. str_contents st v)) (\<lambda>s. new_str L (fold_case s)))"

definition native_str_lines :: "layout \<Rightarrow> 'e native" where
  "native_str_lines L args =
     nbind (nlift (expect_one args ''str_lines'')) (\<lambda>v.
     nbind (nread (\<lambda>st. str_contents st v)) (\<lambda>s. string_list L (str_lines s)))"

definition native_str_split_whitespace :: "layout \<Rightarrow> 'e native" where
  "native_str_split_whitespace L args =
     nbind (nlift (expect_one args ''str_split_whitespace'')) (\<lambda>v.
     nbind (nread (\<lambda>st. str_contents st v)) (\<lambda>s. string_list L (split_whitespace s)))"

definition native_str_split :: "layout \<Rightarrow> 'e native" where
  "native_str_split L args =
     nbind (nlift (args2 args ''str_split'')) (\<lambda>(a, b).
     nbind (nread (\<lambda>st. str_contents st a)) (\<lambda>s.
     nbind (nread (\<lambda>st. str_contents st b)) (\<lambda>t. string_list L (str_split s t))))"

definition native_str_chars :: "layout \<Rightarrow> 'e native" where
  "native_str_chars L args =
     nbind (nlift (expect_one args ''str_chars'')) (\<lambda>v.
     nbind (nread (\<lambda>st. str_contents st v)) (\<lambda>s. int_list L (map word_of_nat (chars_of s))))"

definition native_str_bytes :: "layout \<Rightarrow> 'e native" where
  "native_str_bytes L args =
     nbind (nlift (expect_one args ''str_bytes'')) (\<lambda>v.
     nbind (nread (\<lambda>st. str_contents st v)) (\<lambda>s. new_bytes L (as_bytes s)))"

text \<open>\<open>u32::try_from(cp).ok().and_then(char::from_u32)\<close>.\<close>

definition char_from_int :: "i64 \<Rightarrow> nat option" where
  "char_from_int n = (if 0 \<le> sint n \<and> is_scalar (nat (sint n)) then Some (nat (sint n)) else None)"

definition native_str_from_chars :: "layout \<Rightarrow> 'e native" where
  "native_str_from_chars L args =
     nbind (nlift (expect_one args ''str_from_chars'')) (\<lambda>v.
     nbind (nread (\<lambda>st. list_items st v ''str_from_chars'')) (\<lambda>items.
     nbind (nlift (rmap (\<lambda>x. as_int x ''str_from_chars'') items)) (\<lambda>cps.
       new_str L (str_of (map (\<lambda>cp. case char_from_int cp of Some c \<Rightarrow> c | None \<Rightarrow> 0xFFFD) cps)))))"

text \<open>The loop stops at the first element that is no scalar value, before it looks at the rest.\<close>

fun scalars :: "string \<Rightarrow> val list \<Rightarrow> nat list option res" where
  "scalars who [] = Ok (Some [])"
| "scalars who (x # xs) =
     rbind (as_int x who) (\<lambda>cp.
       case char_from_int cp of
         None \<Rightarrow> Ok None
       | Some c \<Rightarrow> rbind (scalars who xs) (\<lambda>r. Ok (map_option ((#) c) r)))"

definition native_str_try_from_chars :: "layout \<Rightarrow> 'e native" where
  "native_str_try_from_chars L args =
     nbind (nlift (expect_one args ''str_try_from_chars'')) (\<lambda>v.
     nbind (nread (\<lambda>st. list_items st v ''str_try_from_chars'')) (\<lambda>items.
     nbind (nlift (scalars ''str_try_from_chars'' items)) (\<lambda>r.
       case r of
         Some cs \<Rightarrow> nbind (new_str L (str_of cs)) (some_val L)
       | None \<Rightarrow> none_val L)))"

text \<open>\<open>str_slice\<close> walks the characters once, with their byte offsets, until it has passed \<open>end\<close>.\<close>

fun slice_scan :: "usize \<Rightarrow> usize \<Rightarrow> usize \<Rightarrow> usize \<Rightarrow> nat list \<Rightarrow> usize \<Rightarrow> usize \<Rightarrow> usize \<times> usize" where
  "slice_scan start stop cp byte [] byte_start byte_end = (byte_start, byte_end)"
| "slice_scan start stop cp byte (c # cs) byte_start byte_end =
     (let byte_start = (if cp = start then byte else byte_start)
      in if cp = stop then (byte_start, byte)
         else slice_scan start stop (Suc cp) (byte + length (utf8_encode_char c)) cs byte_start byte_end)"

definition str_slice :: "string \<Rightarrow> usize \<Rightarrow> usize \<Rightarrow> string option" where
  "str_slice s start stop =
     (let (a, b) = slice_scan start stop 0 0 (chars_of s) (length s) (length s) in str_get s a b)"

definition native_str_slice :: "layout \<Rightarrow> 'e native" where
  "native_str_slice L args =
     nbind (nlift (args3 args ''str_slice'')) (\<lambda>(sv, startv, endv).
     nbind (nread (\<lambda>st. str_contents st sv)) (\<lambda>s.
     nbind (nlift (as_int startv ''str_slice'')) (\<lambda>a.
     nbind (nlift (as_int endv ''str_slice'')) (\<lambda>b.
       let start = nat (sint a); stop = nat (sint b)
       in if stop \<le> start then new_str L []
          else nbind (nlift (or_panic (str_slice s start stop))) (new_str L)))))"

definition clamp :: "i64 \<Rightarrow> usize \<Rightarrow> usize" where
  "clamp n len = nat (max 0 (min (sint n) (int len)))"

definition native_str_byte_slice :: "layout \<Rightarrow> 'e native" where
  "native_str_byte_slice L args =
     nbind (nlift (args3 args ''str_byte_slice'')) (\<lambda>(sv, startv, endv).
     nbind (nread (\<lambda>st. str_contents st sv)) (\<lambda>s.
     nbind (nlift (as_int startv ''str_byte_slice'')) (\<lambda>x.
     nbind (nlift (as_int endv ''str_byte_slice'')) (\<lambda>y.
       let a = clamp x (length s); b = max (clamp y (length s)) a
       in new_str L (case str_get s a b of Some t \<Rightarrow> t | None \<Rightarrow> [])))))"

definition native_str_to_int :: "layout \<Rightarrow> 'e native" where
  "native_str_to_int L args =
     nbind (nlift (expect_one args ''str_to_int'')) (\<lambda>v.
     nbind (nread (\<lambda>st. str_contents st v)) (\<lambda>s. option_val L (map_option IntV (parse_i64 s))))"

definition native_str_to_double :: "layout \<Rightarrow> 'e native" where
  "native_str_to_double L args =
     nbind (nlift (expect_one args ''str_to_double'')) (\<lambda>v.
     nbind (nread (\<lambda>st. str_contents st v)) (\<lambda>s. option_val L (map_option Double (parse_f64 s))))"

definition native_list_join :: "layout \<Rightarrow> 'e native" where
  "native_list_join L args =
     nbind (nlift (args2 args ''list.join'')) (\<lambda>(list, sepv).
     nbind (nread (\<lambda>st. str_contents st sepv)) (\<lambda>sep.
     nbind (nread (\<lambda>st. list_items st list ''list.join'')) (\<lambda>items.
     nbind (nread (\<lambda>st. rmap (display_string st) items)) (\<lambda>parts. new_str L (join_with sep parts)))))"

section \<open>Slices by code point\<close>

lemma length_str_of_Cons: "length (str_of (c # cs)) = length (utf8_encode_char c) + length (str_of cs)"
  using str_of_append [of "[c]" cs] by (simp add: str_of_def utf8_encode_def of_bytes_def)

lemma slice_scan_stop:
  "start < cp \<Longrightarrow> cp \<le> stop \<Longrightarrow>
     slice_scan start stop cp byte cs a (byte + length (str_of cs)) = (a, byte + length (str_of (take (stop - cp) cs)))"
proof (induction cs arbitrary: cp byte)
  case (Cons c cs)
  show ?case
  proof (cases "cp = stop")
    case False
    then obtain k where k: "stop - cp = Suc k" using Cons.prems by (metis Suc_diff_Suc le_neq_implies_less)
    then have "stop - Suc cp = k" by simp
    then show ?thesis
      using Cons.IH [of "Suc cp" "byte + length (utf8_encode_char c)"] Cons.prems False k
      by (simp add: length_str_of_Cons add.assoc)
  qed (use Cons.prems in simp)
qed simp

lemma slice_scan_eq:
  "cp \<le> start \<Longrightarrow> start < stop \<Longrightarrow>
     slice_scan start stop cp byte cs (byte + length (str_of cs)) (byte + length (str_of cs)) =
       (byte + length (str_of (take (start - cp) cs)), byte + length (str_of (take (stop - cp) cs)))"
proof (induction cs arbitrary: cp byte)
  case (Cons c cs)
  obtain k where k: "stop - cp = Suc k" using Cons.prems by (metis Suc_diff_Suc le_less_trans)
  then have k': "stop - Suc cp = k" by simp
  show ?case
  proof (cases "cp = start")
    case True
    then show ?thesis
      using slice_scan_stop [of start "Suc cp" stop "byte + length (utf8_encode_char c)" cs byte] Cons.prems k k'
      by (simp add: length_str_of_Cons add.assoc)
  next
    case False
    then obtain j where j: "start - cp = Suc j" using Cons.prems by (metis Suc_diff_Suc le_neq_implies_less)
    then have "start - Suc cp = j" by simp
    then show ?thesis
      using Cons.IH [of "Suc cp" "byte + length (utf8_encode_char c)"] Cons.prems False j k k'
      by (simp add: length_str_of_Cons add.assoc)
  qed
qed simp

lemma hd_encode_not_cont: "is_scalar c \<Longrightarrow> \<not> is_cont (hd (utf8_encode_char c))"
proof -
  assume sc: "is_scalar c"
  have "utf8_next (utf8_encode_char c @ []) = Some (c, [])" by (rule utf8_next_encode_char [OF sc])
  moreover have "utf8_next bs = None" if "bs \<noteq> []" "is_cont (hd bs)" for bs
    using that by (cases bs) (auto simp: is_cont_def byte_order)
  ultimately show ?thesis using utf8_encode_char_not_Nil by fastforce
qed

lemma boundary_take:
  assumes "\<forall>c\<in>set cs. is_scalar c"
  shows "is_char_boundary (str_of cs) (length (str_of (take k cs)))"
proof (cases "drop k cs")
  case Nil
  then show ?thesis by (simp add: is_char_boundary_def)
next
  case (Cons c r)
  have c: "is_scalar c" using assms Cons by (metis in_set_dropD list.set_intros(1))
  have "str_of cs = str_of (take k cs) @ str_of (c # r)"
    by (metis Cons append_take_drop_id str_of_append)
  moreover have "str_of (c # r) \<noteq> []" "hd (str_of (c # r)) = char_of_byte (hd (utf8_encode_char c))"
    by (simp_all add: str_of_def utf8_encode_def of_bytes_def hd_map)
  ultimately show ?thesis
    using hd_encode_not_cont [OF c] by (simp add: is_char_boundary_def nth_append hd_conv_nth)
qed

text \<open>The offsets found by the walk cut the string between the two code points.\<close>

lemma str_slice_eq:
  assumes "valid_str s" "start < stop"
  shows "str_slice s start stop = Some (str_of (take (stop - start) (drop start (chars_of s))))"
proof -
  let ?cs = "chars_of s"
  have s: "s = str_of ?cs" using str_of_chars [OF assms(1)] by simp
  have sc: "\<forall>c\<in>set ?cs. is_scalar c" using chars_scalar by blast
  let ?a = "length (str_of (take start ?cs))" and ?b = "length (str_of (take stop ?cs))"
  have scan: "slice_scan start stop 0 0 ?cs (length s) (length s) = (?a, ?b)"
    using slice_scan_eq [of 0 start stop 0 ?cs] assms(2) s by simp
  have stop: "take stop ?cs = take start ?cs @ take (stop - start) (drop start ?cs)"
    using assms(2) by (metis le_add_diff_inverse less_imp_le_nat take_add)
  have "drop ?a s = str_of (drop start ?cs)"
    by (subst s, subst append_take_drop_id [of start ?cs, symmetric], subst str_of_append) simp
  moreover have "?b - ?a = length (str_of (take (stop - start) (drop start ?cs)))" using stop by simp
  moreover have "take (length (str_of (take k xs))) (str_of xs) = str_of (take k xs)" for k xs
    by (subst append_take_drop_id [of k xs, symmetric], subst str_of_append) simp
  ultimately have "take (?b - ?a) (drop ?a s) = str_of (take (stop - start) (drop start ?cs))" by simp
  moreover have "?a \<le> ?b" using stop by simp
  moreover have "is_char_boundary s ?a" "is_char_boundary s ?b" using boundary_take [OF sc] s by metis+
  ultimately show ?thesis by (simp add: str_slice_def scan str_get_def)
qed

lemma str_slice_Some: "start < stop \<Longrightarrow> \<exists>t. str_slice s start stop = Some t"
proof (cases "valid_str s")
  case False
  then have "chars_of s = []" by (auto simp: chars_of_def valid_str_def valid_utf8_def split: option.splits)
  then show ?thesis by (simp add: str_slice_def str_get_def is_char_boundary_def)
qed (use str_slice_eq in blast)

section \<open>The contract\<close>

lemma nsafe_emit [nsafe_intros]:
  "nsafe vs (emit_stdout sk d) (\<lambda>_. [])" "nsafe vs (emit_stderr sk d) (\<lambda>_. [])" "nsafe vs pop_capture (\<lambda>_. [])"
  by (auto simp: nsafe_def emit_stdout_def emit_stderr_def pop_capture_def sched_rel_def cell_ok_def world_ok_def
      split: if_splits option.splits)

lemma nsafe_capture [nsafe_intros]: "nsafe vs (\<lambda>w. (Ok Unit, w\<lparr>capture := g w\<rparr>)) (\<lambda>v. [v])"
  by (rule nsafe_world) simp_all

lemma nsafe_unit_or_bug [nsafe_intros]: "nsafe vs (unit_or_bug who r) (\<lambda>v. [v])"
  by (cases r) (simp_all add: unit_or_bug_def nsafe_ret nsafe_trap)

lemma safe_rmap:
  "(\<And>x. x \<in> set xs \<Longrightarrow> safe_res (\<lambda>_. True) (f x)) \<Longrightarrow> safe_res (\<lambda>_. True) (rmap f xs)"
  by (induction xs) (auto intro!: safe_res_bind)

lemma nsafe_rmap [nsafe_intros]:
  "keeps vs us \<Longrightarrow> nsafe vs (nread (\<lambda>st. rmap (str_contents st) us)) (\<lambda>_. [])"
  "keeps vs us \<Longrightarrow> nsafe vs (nread (\<lambda>st. rmap (display_string st) us)) (\<lambda>_. [])"
  "keeps vs [v] \<Longrightarrow> nsafe vs (nread (\<lambda>st. display_string st v)) (\<lambda>_. [])"
  "nsafe vs (nread (\<lambda>st. structural_eq st a b)) (\<lambda>_. [])"
  "nsafe vs (nlift (rmap (\<lambda>x. as_int x who) us)) (\<lambda>_. [])"
  "nsafe vs (nlift (scalars who us)) (\<lambda>_. [])"
proof -
  have "safe_res (\<lambda>_. True) (as_int x who)" for x by (auto simp: as_int_def split: "val.splits")
  then have "safe_res (\<lambda>_. True) (rmap (\<lambda>x. as_int x who) us)" "safe_res (\<lambda>_. True) (scalars who us)"
    by (auto intro!: safe_rmap, induction us) (auto intro!: safe_res_bind split: option.splits)
  then show "nsafe vs (nlift (rmap (\<lambda>x. as_int x who) us)) (\<lambda>_. [])" "nsafe vs (nlift (scalars who us)) (\<lambda>_. [])"
    by (auto intro!: nsafe_lift)
qed (rule nsafe_read;
  auto intro!: safe_rmap str_contents_safe display_string_safe safe_res_ok_or simp: structural_eq_def keeps_def list_all_iff)+

lemmas text_native_defs =
  native_println_def native_print_def native_eprintln_def native_eprint_def native_test_capture_begin_def
  native_test_capture_end_def native_io_stdout_write_def native_io_stderr_write_def native_int_to_string_def
  native_double_to_string_def native_bool_to_string_def native_str_identity_def native_string_debug_def
  native_bytes_debug_def native_str_concat_def native_eq_def native_str_len_def native_str_byte_len_def
  native_str_trim_def native_str_compare_def native_str_trim_start_def native_str_trim_end_def
  native_str_contains_def native_str_starts_with_def native_str_ends_with_def native_str_to_uppercase_def
  native_str_to_lowercase_def native_str_lines_def native_str_split_whitespace_def native_str_split_def
  native_str_chars_def native_str_bytes_def native_str_from_chars_def native_str_try_from_chars_def
  native_str_byte_slice_def native_str_to_int_def native_str_to_double_def native_list_join_def

lemma text_natives_ok:
  "native_ok (native_println sk)" "native_ok (native_print sk)" "native_ok (native_eprintln sk)"
  "native_ok (native_eprint sk)" "native_ok native_test_capture_begin" "native_ok (native_test_capture_end L)"
  "native_ok (native_io_stdout_write L sk)" "native_ok (native_io_stderr_write L sk)"
  "native_ok (native_int_to_string L)" "native_ok (native_double_to_string L)" "native_ok (native_bool_to_string L)"
  "native_ok native_str_identity" "native_ok (native_string_debug L)" "native_ok (native_bytes_debug L)"
  "native_ok (native_str_concat L)" "native_ok native_eq" "native_ok native_str_len" "native_ok native_str_byte_len"
  "native_ok (native_str_trim L)" "native_ok (native_str_compare L)" "native_ok (native_str_trim_start L)"
  "native_ok (native_str_trim_end L)" "native_ok native_str_contains" "native_ok native_str_starts_with"
  "native_ok native_str_ends_with" "native_ok (native_str_to_uppercase L g)" "native_ok (native_str_to_lowercase L g)"
  "native_ok (native_str_lines L)" "native_ok (native_str_split_whitespace L)" "native_ok (native_str_split L)"
  "native_ok (native_str_chars L)" "native_ok (native_str_bytes L)" "native_ok (native_str_from_chars L)"
  "native_ok (native_str_try_from_chars L)" "native_ok (native_str_byte_slice L)" "native_ok (native_str_to_int L)"
  "native_ok (native_str_to_double L)"   "native_ok (native_list_join L)"
  by (unfold text_native_defs Let_def) (rule nsafe_native | rule nsafe_intros | (simp; fail) | (auto; fail) | (auto intro!: keeps_subset; fail))+

text \<open>\<open>str_slice\<close> never meets the panic of a range off the character boundaries.\<close>

lemma nsafe_or_panic: "x \<noteq> None \<Longrightarrow> nsafe vs (nlift (or_panic x)) (\<lambda>_. [])"
  by (auto intro!: nsafe_lift)

lemma str_slice_ok: "native_ok (native_str_slice L)"
proof -
  have "nsafe vs (nlift (or_panic (str_slice s start stop))) (\<lambda>_. [])" if "\<not> stop \<le> start" for vs s start stop
    by (rule nsafe_or_panic) (use str_slice_Some [of start stop s] that in auto)
  note slice = this
  show ?thesis
    by (unfold native_str_slice_def Let_def)
      (rule nsafe_native | rule nsafe_intros | rule slice | (simp; fail) | (auto intro!: keeps_subset; fail))+
qed

section \<open>Captured output\<close>

fun prints :: "sink \<Rightarrow> u32 list \<Rightarrow> ('e, unit) eff" where
  "prints sk [] = nret ()"
| "prints sk (h # hs) = nbind (native_print sk [Ref h]) (\<lambda>_. prints sk hs)"

lemma prints_captured:
  assumes "list_all2 (\<lambda>h s. lookup st h = Some (Str s)) hs ss" "rt_slots (mem w) = st" "capture w = cs @ [c]"
  shows "prints sk hs w = (Ok (), w\<lparr>capture := cs @ [c @ as_bytes (concat ss)]\<rparr>)"
  using assms
proof (induction arbitrary: w c rule: list_all2_induct)
  case Nil
  then show ?case by (simp add: nret_def as_bytes_def)
next
  case (Cons h hs s ss)
  let ?w = "w\<lparr>capture := cs @ [c @ as_bytes s]\<rparr>"
  have "native_print sk [Ref h] w = (Ok Unit, ?w)"
    using Cons by (simp add: native_print_def nbind_def nlift_def expect_one_def nread_def str_contents_def emit_stdout_def
        unit_or_bug_def nret_def)
  then show ?case using Cons.IH [of ?w "c @ as_bytes s"] Cons.prems by (simp add: nbind_def as_bytes_def)
qed

lemma valid_str_concat: "list_all valid_str ss \<Longrightarrow> valid_str (concat ss)"
proof (induction ss)
  case (Cons s ss)
  then have "s @ concat ss = str_of (chars_of s @ chars_of (concat ss))" by (simp add: str_of_append str_of_chars)
  then show ?case using Cons chars_scalar [of _ s] chars_scalar [of _ "concat ss"] valid_str_of [of "chars_of s @ chars_of (concat ss)"] by auto
qed (use valid_str_of [of "[]"] in simp)

lemma capture_collects:
  assumes "list_all2 (\<lambda>h s. lookup (rt_slots (mem w)) h = Some (Str s)) hs ss" "list_all valid_str ss"
  shows "nbind (native_test_capture_begin []) (\<lambda>_. nbind (prints sk hs) (\<lambda>_. native_test_capture_end L [])) w =
    new_str L (concat ss) w"
proof -
  let ?w = "w\<lparr>capture := capture w @ [ [] ]\<rparr>"
  have "prints sk hs ?w = (Ok (), w\<lparr>capture := capture w @ [as_bytes (concat ss)]\<rparr>)"
    using prints_captured [OF assms(1), of ?w "capture w" "[]" sk] by simp
  then show ?thesis
    using from_utf8_lossy_valid [OF valid_str_concat [OF assms(2)]]
    by (simp add: native_test_capture_begin_def native_test_capture_end_def pop_capture_def nbind_def)
qed

end
