(* ===== verification/NativeData.thy ===== *)
theory NativeData
  imports NativeText ValueEq
begin

text \<open>
  The natives on bytes, builders, lists, maps and numbers (\<^verbatim>\<open>runtime/src/interp/natives.rs\<close>). Digests
  and the functions of the platform's mathematical library are parameters.
\<close>

section \<open>Bytes\<close>

definition native_bytes_len :: "'e native" where
  "native_bytes_len args =
     nbind (nlift (expect_one args ''bytes_len'')) (\<lambda>v.
     nbind (nread (\<lambda>st. bytes_contents st v ''bytes_len'')) (\<lambda>b. nret (IntV (word_of_nat (length b)))))"

text \<open>\<open>usize::try_from(i).ok().and_then(|i| b.get(i))\<close>.\<close>

definition get_signed :: "'a list \<Rightarrow> i64 \<Rightarrow> 'a option" where
  "get_signed xs i = (if sint i < 0 then None else get_nth xs (nat (sint i)))"

definition native_bytes_get :: "layout \<Rightarrow> 'e native" where
  "native_bytes_get L args =
     nbind (nlift (args2 args ''bytes_get'')) (\<lambda>(bv, iv).
     nbind (nlift (as_int iv ''bytes_get'')) (\<lambda>i.
     nbind (nread (\<lambda>st. bytes_contents st bv ''bytes_get'')) (\<lambda>b.
       option_val L (map_option (\<lambda>x. IntV (ucast x)) (get_signed b i)))))"

definition native_bytes_slice :: "layout \<Rightarrow> 'e native" where
  "native_bytes_slice L args =
     nbind (nlift (args3 args ''bytes_slice'')) (\<lambda>(bv, sv, ev).
     nbind (nlift (as_int sv ''bytes_slice'')) (\<lambda>x.
     nbind (nlift (as_int ev ''bytes_slice'')) (\<lambda>y.
     nbind (nread (\<lambda>st. bytes_contents st bv ''bytes_slice'')) (\<lambda>b.
       let s = clamp x (length b); e = max (clamp y (length b)) s
       in new_bytes L (take (e - s) (drop s b))))))"

definition native_bytes_concat :: "layout \<Rightarrow> 'e native" where
  "native_bytes_concat L args =
     nbind (nlift (args2 args ''bytes_concat'')) (\<lambda>(av, bv).
     nbind (nread (\<lambda>st. bytes_contents st av ''bytes_concat'')) (\<lambda>a.
     nbind (nread (\<lambda>st. bytes_contents st bv ''bytes_concat'')) (\<lambda>b. new_bytes L (a @ b))))"

definition native_bytes_to_string :: "layout \<Rightarrow> 'e native" where
  "native_bytes_to_string L args =
     nbind (nlift (expect_one args ''bytes_to_string'')) (\<lambda>v.
     nbind (nread (\<lambda>st. bytes_contents st v ''bytes_to_string'')) (\<lambda>b.
       case from_utf8 b of
         Some s \<Rightarrow> nbind (new_str L s) (ok_val L)
       | None \<Rightarrow> nbind (new_str L ''bytes are not valid UTF-8'') (err_val L)))"

definition native_bytes_to_list :: "layout \<Rightarrow> 'e native" where
  "native_bytes_to_list L args =
     nbind (nlift (expect_one args ''bytes_to_list'')) (\<lambda>v.
     nbind (nread (\<lambda>st. bytes_contents st v ''bytes_to_list'')) (\<lambda>b. int_list L (map ucast b)))"

definition native_bytes_empty :: "layout \<Rightarrow> 'e native" where
  "native_bytes_empty L args = new_bytes L []"

text \<open>The loop stops at the first value that is no byte.\<close>

fun bytes_of_ints :: "val list \<Rightarrow> (string + u8 list) res" where
  "bytes_of_ints [] = Ok (Ok [])"
| "bytes_of_ints (x # xs) =
     rbind (as_int x ''bytes_from_list'') (\<lambda>n.
       if \<not> (0 \<le> sint n \<and> sint n \<le> 255) then Ok (Err (''byte value out of range (0..=255): '' @ int_digits (sint n)))
       else rbind (bytes_of_ints xs) (\<lambda>r. Ok (map_sum id ((#) (ucast n)) r)))"

definition native_bytes_from_list :: "layout \<Rightarrow> 'e native" where
  "native_bytes_from_list L args =
     nbind (nlift (expect_one args ''bytes_from_list'')) (\<lambda>v.
     nbind (nread (\<lambda>st. list_items st v ''bytes_from_list'')) (\<lambda>items.
     nbind (nlift (bytes_of_ints items)) (\<lambda>built.
       case built of
         Inr b \<Rightarrow> nbind (new_bytes L b) (ok_val L)
       | Inl msg \<Rightarrow> nbind (new_str L msg) (err_val L))))"

definition native_hash_digest :: "string \<Rightarrow> (u8 list \<Rightarrow> u8 list) \<Rightarrow> layout \<Rightarrow> 'e native" where
  "native_hash_digest who digest L args =
     nbind (nlift (expect_one args who)) (\<lambda>v.
     nbind (nread (\<lambda>st. bytes_contents st v who)) (\<lambda>b. new_bytes L (digest b)))"

definition native_hash_crc32 :: "(u8 list \<Rightarrow> u32) \<Rightarrow> 'e native" where
  "native_hash_crc32 crc32 args =
     nbind (nlift (expect_one args ''hash.crc32'')) (\<lambda>v.
     nbind (nread (\<lambda>st. bytes_contents st v ''hash.crc32'')) (\<lambda>b. nret (IntV (ucast (crc32 b)))))"

section \<open>Builders\<close>

definition native_bytesbuilder_new :: "layout \<Rightarrow> 'e native" where
  "native_bytesbuilder_new L args = heap_alloc L (BytesBuilder [])"

definition native_bytesbuilder_write_u8 :: "'e native" where
  "native_bytesbuilder_write_u8 args =
     nbind (nlift (args2 args ''bytesbuilder_write_u8'')) (\<lambda>(bv, nv).
     nbind (nlift (as_int nv ''bytesbuilder_write_u8'')) (\<lambda>n.
     nbind (with_builder_mut bv ''bytesbuilder_write_u8'' (\<lambda>bs. ((), bs @ [word_of_int (sint n mod 256)]))) (\<lambda>_. nret Unit)))"

definition native_bytesbuilder_write_bytes :: "'e native" where
  "native_bytesbuilder_write_bytes args =
     nbind (nlift (args2 args ''bytesbuilder_write_bytes'')) (\<lambda>(bv, dv).
     nbind (nread (\<lambda>st. bytes_contents st dv ''bytesbuilder_write_bytes'')) (\<lambda>d.
     nbind (with_builder_mut bv ''bytesbuilder_write_bytes'' (\<lambda>bs. ((), bs @ d))) (\<lambda>_. nret Unit)))"

definition native_bytesbuilder_write_str :: "'e native" where
  "native_bytesbuilder_write_str args =
     nbind (nlift (args2 args ''bytesbuilder_write_str'')) (\<lambda>(bv, sv).
     nbind (nread (\<lambda>st. str_contents st sv)) (\<lambda>s.
     nbind (with_builder_mut bv ''bytesbuilder_write_str'' (\<lambda>bs. ((), bs @ as_bytes s))) (\<lambda>_. nret Unit)))"

definition native_bytesbuilder_len :: "'e native" where
  "native_bytesbuilder_len args =
     nbind (nlift (expect_one args ''bytesbuilder_len'')) (\<lambda>v.
       with_builder_mut v ''bytesbuilder_len'' (\<lambda>bs. (IntV (word_of_nat (length bs)), bs)))"

definition native_bytesbuilder_finish :: "layout \<Rightarrow> 'e native" where
  "native_bytesbuilder_finish L args =
     nbind (nlift (expect_one args ''bytesbuilder_finish'')) (\<lambda>v.
     nbind (with_builder_mut v ''bytesbuilder_finish'' (\<lambda>bs. (bs, bs))) (new_bytes L))"

section \<open>Lists\<close>

definition checked_index :: "i64 \<Rightarrow> usize \<Rightarrow> usize res" where
  "checked_index i len =
     (if sint i < 0 \<or> unat i \<ge> len then Err (Trap (IndexOutOfBounds i len)) else Ok (unat i))"

definition native_list_index :: "'e native" where
  "native_list_index args =
     nbind (nlift (args2 args ''list index'')) (\<lambda>(list, idx).
     nbind (nlift (as_int idx ''list index'')) (\<lambda>i.
     nbind (nread (\<lambda>st. list_items st list ''list index'')) (\<lambda>items.
       nlift (rbind (checked_index i (length items)) (\<lambda>n. Ok (items ! n))))))"

definition native_list_get :: "layout \<Rightarrow> 'e native" where
  "native_list_get L args =
     nbind (nlift (args2 args ''list.get'')) (\<lambda>(list, idx).
     nbind (nlift (as_int idx ''list.get'')) (\<lambda>i.
     nbind (nread (\<lambda>st. list_items st list ''list.get'')) (\<lambda>items.
       case checked_index i (length items) of
         Inr n \<Rightarrow> some_val L (items ! n)
       | Inl _ \<Rightarrow> none_val L)))"

definition native_list_len :: "'e native" where
  "native_list_len args =
     nbind (nlift (expect_one args ''list.len'')) (\<lambda>v.
     nbind (nread (\<lambda>st. list_items st v ''list.len'')) (\<lambda>items. nret (IntV (word_of_nat (length items)))))"

definition native_list_set :: "'e native" where
  "native_list_set args =
     nbind (nlift (args3 args ''list set'')) (\<lambda>(list, idx, val).
     nbind (nlift (as_int idx ''list set'')) (\<lambda>i.
       with_list_mut list ''list set'' (\<lambda>items.
         rbind (checked_index i (length items)) (\<lambda>n. Ok (Unit, items[n := val])))))"

definition native_list_push :: "'e native" where
  "native_list_push args =
     nbind (nlift (args2 args ''list push'')) (\<lambda>(list, val).
       with_list_mut list ''list push'' (\<lambda>items. Ok (Unit, items @ [val])))"

definition native_list_pop :: "layout \<Rightarrow> 'e native" where
  "native_list_pop L args =
     nbind (nlift (expect_one args ''list.pop'')) (\<lambda>v.
     nbind (with_list_mut v ''list.pop'' (\<lambda>items. Ok (if items = [] then None else Some (last items), butlast items)))
       (option_val L))"

definition native_list_clear :: "'e native" where
  "native_list_clear args =
     nbind (nlift (expect_one args ''list.clear'')) (\<lambda>v. with_list_mut v ''list.clear'' (\<lambda>items. Ok (Unit, [])))"

section \<open>Maps\<close>

text \<open>The hash of a key that contains itself, like its comparison, does not end.\<close>

definition key_hash :: "store \<Rightarrow> val \<Rightarrow> u64 res" where
  "key_hash st key = ok_or Diverge (hash_value st key)"

definition map_handle :: "val \<Rightarrow> string \<Rightarrow> u32 res" where
  "map_handle v who = (case v of Ref h \<Rightarrow> Ok h | _ \<Rightarrow> Err (bug (who @ '': expected map'')))"

definition with_map_ref :: "store \<Rightarrow> val \<Rightarrow> string \<Rightarrow> ((val, val) mapobj \<Rightarrow> 'a option) \<Rightarrow> 'a res" where
  "with_map_ref st v who f =
     rbind (map_handle v who) (\<lambda>h.
     rbind (or_panic (lookup st h)) (\<lambda>obj.
       case obj of Map m \<Rightarrow> or_panic (f m) | _ \<Rightarrow> Err (bug (who @ '': expected map''))))"

text \<open>The map is out of its slot while \<open>f\<close> runs, so \<open>f\<close> compares keys in a heap without it; afterwards the object
  is put back.\<close>

definition with_map_taken ::
    "val \<Rightarrow> string \<Rightarrow> (store \<Rightarrow> (val, val) mapobj \<Rightarrow> ('a \<times> (val, val) mapobj) option) \<Rightarrow> ('e, 'a) eff" where
  "with_map_taken v who f w =
     (case map_handle v who of
        Inl e \<Rightarrow> (Err e, w)
      | Inr h \<Rightarrow>
          (case take_obj h (mem w) of
             None \<Rightarrow> (Err Panic, w)
           | Some (obj, m1) \<Rightarrow>
               (case obj of
                  Map m \<Rightarrow>
                    (case f (rt_slots m1) m of
                       None \<Rightarrow> (Err Panic, w\<lparr>mem := m1\<rparr>)
                     | Some (x, m') \<Rightarrow> (Ok x, w\<lparr>mem := restore_obj h (Map m') m1\<rparr>))
                | _ \<Rightarrow> (Err (bug (who @ '': expected map'')), w\<lparr>mem := restore_obj h obj m1\<rparr>))))"

fun pair_args :: "val list \<Rightarrow> (val \<times> val) list" where
  "pair_args (k # v # rest) = (k, v) # pair_args rest"
| "pair_args _ = []"

definition native_map_new :: "layout \<Rightarrow> 'e native" where
  "native_map_new L args =
     (if odd (length args) then nlift (Err (bug ''map literal: expected an even number of arguments''))
      else nbind (nread (\<lambda>st. or_panic (from_pairs (values_eq st) (hash_value st) (pair_args args)))) (\<lambda>m. heap_alloc L (Map m)))"

definition key_label :: "store \<Rightarrow> val \<Rightarrow> string res" where
  "key_label st v =
     (case v of
        IntV n \<Rightarrow> Ok (int_digits (sint n))
      | Double x \<Rightarrow> Ok (format_double x)
      | Bool b \<Rightarrow> Ok (bool_string b)
      | Unit \<Rightarrow> Ok ''void''
      | Ref h \<Rightarrow> rbind (or_panic (lookup st h)) (\<lambda>obj.
          Ok (case obj of Str s \<Rightarrow> QUOTE # s @ [QUOTE] | _ \<Rightarrow> ''<key>'')))"

definition native_map_index :: "'e native" where
  "native_map_index args =
     nbind (nlift (args2 args ''map index'')) (\<lambda>(map, key).
     nbind (nread (\<lambda>st. key_hash st key)) (\<lambda>h.
     nbind (nread (\<lambda>st. with_map_ref st map ''map index'' (\<lambda>m. map_get (values_eq st) m key h))) (\<lambda>found.
       case found of
         Some v \<Rightarrow> nret v
       | None \<Rightarrow> nbind (nread (\<lambda>st. key_label st key)) (\<lambda>label. nlift (Err (Trap (MissingKey label)))))))"

definition native_map_get :: "layout \<Rightarrow> 'e native" where
  "native_map_get L args =
     nbind (nlift (args2 args ''map.get'')) (\<lambda>(map, key).
     nbind (nread (\<lambda>st. key_hash st key)) (\<lambda>h.
     nbind (nread (\<lambda>st. with_map_ref st map ''map.get'' (\<lambda>m. map_get (values_eq st) m key h))) (option_val L)))"

definition native_map_len :: "'e native" where
  "native_map_len args =
     nbind (nlift (expect_one args ''map.len'')) (\<lambda>v.
       nread (\<lambda>st. with_map_ref st v ''map.len'' (\<lambda>m. Some (IntV (word_of_nat (map_len m))))))"

definition native_map_has :: "'e native" where
  "native_map_has args =
     nbind (nlift (args2 args ''map.has'')) (\<lambda>(map, key).
     nbind (nread (\<lambda>st. key_hash st key)) (\<lambda>h.
       nread (\<lambda>st. with_map_ref st map ''map.has'' (\<lambda>m. map_option Bool (map_contains (values_eq st) m key h)))))"

definition native_map_set :: "'e native" where
  "native_map_set args =
     nbind (nlift (args3 args ''map set'')) (\<lambda>(map, key, val).
     nbind (nread (\<lambda>st. key_hash st key)) (\<lambda>h.
       with_map_taken map ''map set'' (\<lambda>st m. map_option (Pair Unit) (map_insert (values_eq st) m key h val))))"

definition native_map_keys :: "layout \<Rightarrow> 'e native" where
  "native_map_keys L args =
     nbind (nlift (expect_one args ''map.keys'')) (\<lambda>v.
     nbind (nread (\<lambda>st. with_map_ref st v ''map.keys'' (\<lambda>m. Some (map fst (entries m))))) (new_list L))"

definition native_map_values :: "layout \<Rightarrow> 'e native" where
  "native_map_values L args =
     nbind (nlift (expect_one args ''map.values'')) (\<lambda>v.
     nbind (nread (\<lambda>st. with_map_ref st v ''map.values'' (\<lambda>m. Some (map snd (entries m))))) (new_list L))"

definition native_map_remove :: "layout \<Rightarrow> 'e native" where
  "native_map_remove L args =
     nbind (nlift (args2 args ''map.remove'')) (\<lambda>(map, key).
     nbind (nread (\<lambda>st. key_hash st key)) (\<lambda>h.
     nbind (with_map_taken map ''map.remove'' (\<lambda>st m. map_option prod.swap (map_remove (values_eq st) m key h))) (option_val L)))"

definition native_map_clear :: "'e native" where
  "native_map_clear args =
     nbind (nlift (expect_one args ''map.clear'')) (\<lambda>v.
       with_map_taken v ''map.clear'' (\<lambda>st m. Some (Unit, map_clear m)))"

section \<open>Numbers\<close>

definition native_int_to_double :: "'e native" where
  "native_int_to_double args =
     nbind (nlift (expect_one args ''int_to_double'')) (\<lambda>v.
     nbind (nlift (as_int v ''int_to_double'')) (\<lambda>n. nret (Double (i64_to_f64 n))))"

definition native_double_to_int :: "'e native" where
  "native_double_to_int args =
     nbind (nlift (expect_one args ''double_to_int'')) (\<lambda>v.
     nbind (nlift (as_double v ''double_to_int'')) (\<lambda>x. nret (IntV (f64_to_i64 x))))"

definition native_double_to_bits :: "'e native" where
  "native_double_to_bits args =
     nbind (nlift (expect_one args ''double_to_bits'')) (\<lambda>v.
     nbind (nlift (as_double v ''double_to_bits'')) (\<lambda>x. nret (IntV x)))"

definition math_unary :: "val list \<Rightarrow> string \<Rightarrow> (f64 \<Rightarrow> f64) \<Rightarrow> ('e, val) eff" where
  "math_unary args who f =
     nbind (nlift (expect_one args who)) (\<lambda>v. nbind (nlift (as_double v who)) (\<lambda>x. nret (Double (f x))))"

definition math_binary :: "val list \<Rightarrow> string \<Rightarrow> (f64 \<Rightarrow> f64 \<Rightarrow> f64) \<Rightarrow> ('e, val) eff" where
  "math_binary args who f =
     nbind (nlift (args2 args who)) (\<lambda>(a, b).
     nbind (nlift (as_double a who)) (\<lambda>x. nbind (nlift (as_double b who)) (\<lambda>y. nret (Double (f x y)))))"

text \<open>The functions of the platform's library.\<close>

record libm =
  m_sqrt :: "f64 \<Rightarrow> f64"
  m_floor :: "f64 \<Rightarrow> f64"
  m_ceil :: "f64 \<Rightarrow> f64"
  m_round :: "f64 \<Rightarrow> f64"
  m_trunc :: "f64 \<Rightarrow> f64"
  m_exp :: "f64 \<Rightarrow> f64"
  m_ln :: "f64 \<Rightarrow> f64"
  m_log10 :: "f64 \<Rightarrow> f64"
  m_sin :: "f64 \<Rightarrow> f64"
  m_cos :: "f64 \<Rightarrow> f64"
  m_tan :: "f64 \<Rightarrow> f64"
  m_asin :: "f64 \<Rightarrow> f64"
  m_acos :: "f64 \<Rightarrow> f64"
  m_atan :: "f64 \<Rightarrow> f64"
  m_powf :: "f64 \<Rightarrow> f64 \<Rightarrow> f64"
  m_atan2 :: "f64 \<Rightarrow> f64 \<Rightarrow> f64"
  m_hypot :: "f64 \<Rightarrow> f64 \<Rightarrow> f64"

definition native_math_sqrt :: "libm \<Rightarrow> 'e native" where "native_math_sqrt M args = math_unary args ''math_sqrt'' (m_sqrt M)"
definition native_math_floor :: "libm \<Rightarrow> 'e native" where "native_math_floor M args = math_unary args ''math_floor'' (m_floor M)"
definition native_math_ceil :: "libm \<Rightarrow> 'e native" where "native_math_ceil M args = math_unary args ''math_ceil'' (m_ceil M)"
definition native_math_round :: "libm \<Rightarrow> 'e native" where "native_math_round M args = math_unary args ''math_round'' (m_round M)"
definition native_math_trunc :: "libm \<Rightarrow> 'e native" where "native_math_trunc M args = math_unary args ''math_trunc'' (m_trunc M)"
definition native_math_exp :: "libm \<Rightarrow> 'e native" where "native_math_exp M args = math_unary args ''math_exp'' (m_exp M)"
definition native_math_ln :: "libm \<Rightarrow> 'e native" where "native_math_ln M args = math_unary args ''math_ln'' (m_ln M)"
definition native_math_log10 :: "libm \<Rightarrow> 'e native" where "native_math_log10 M args = math_unary args ''math_log10'' (m_log10 M)"
definition native_math_sin :: "libm \<Rightarrow> 'e native" where "native_math_sin M args = math_unary args ''math_sin'' (m_sin M)"
definition native_math_cos :: "libm \<Rightarrow> 'e native" where "native_math_cos M args = math_unary args ''math_cos'' (m_cos M)"
definition native_math_tan :: "libm \<Rightarrow> 'e native" where "native_math_tan M args = math_unary args ''math_tan'' (m_tan M)"
definition native_math_asin :: "libm \<Rightarrow> 'e native" where "native_math_asin M args = math_unary args ''math_asin'' (m_asin M)"
definition native_math_acos :: "libm \<Rightarrow> 'e native" where "native_math_acos M args = math_unary args ''math_acos'' (m_acos M)"
definition native_math_atan :: "libm \<Rightarrow> 'e native" where "native_math_atan M args = math_unary args ''math_atan'' (m_atan M)"

definition native_math_pow :: "libm \<Rightarrow> 'e native" where "native_math_pow M args = math_binary args ''math_pow'' (m_powf M)"
definition native_math_atan2 :: "libm \<Rightarrow> 'e native" where "native_math_atan2 M args = math_binary args ''math_atan2'' (m_atan2 M)"
definition native_math_hypot :: "libm \<Rightarrow> 'e native" where "native_math_hypot M args = math_binary args ''math_hypot'' (m_hypot M)"

section \<open>The contract\<close>

lemma nsafe_sum [nsafe_intros]:
  "(\<And>a. x = Inl a \<Longrightarrow> nsafe vs (f a) res) \<Longrightarrow> (\<And>b. x = Inr b \<Longrightarrow> nsafe vs (g b) res) \<Longrightarrow>
     nsafe vs (case x of Inl a \<Rightarrow> f a | Inr b \<Rightarrow> g b) res"
  by (cases x) simp_all

lemma nsafe_bytes_of_ints [nsafe_intros]: "nsafe vs (nlift (bytes_of_ints items)) (\<lambda>_. [])"
proof -
  have "bytes_of_ints items \<noteq> Err Panic"
    by (induction items) (auto simp: rbind_eq_Inl as_int_def split: "val.splits")
  then show ?thesis by (auto intro: nsafe_lift)
qed

lemma checked_index_Ok: "checked_index i len = Ok n \<Longrightarrow> n < len"
  by (auto simp: checked_index_def split: if_splits)

lemma checked_index_no_panic [simp]: "checked_index i len \<noteq> Err Panic"
  by (simp add: checked_index_def)

lemma nsafe_index [nsafe_intros]:
  assumes "keeps vs items"
  shows "nsafe vs (nlift (rbind (checked_index i (length items)) (\<lambda>n. Ok (items ! n)))) (\<lambda>v. [v])"
proof (rule nsafe_lift)
  fix v assume "rbind (checked_index i (length items)) (\<lambda>n. Ok (items ! n)) = Ok v"
  then have "v \<in> set items" by (auto simp: rbind_eq_Inr dest!: checked_index_Ok)
  then show "keeps vs [v]" using assms by (auto simp: keeps_def list_all_iff)
qed (simp add: rbind_eq_Inl)

lemma keeps_nth: "keeps vs items \<Longrightarrow> checked_index i (length items) = Ok n \<Longrightarrow> keeps vs [items ! n]"
  by (auto simp: keeps_def list_all_iff dest!: checked_index_Ok)

lemma map_ref_safe:
  assumes "store_closed st" "valid_val st v"
    and "\<And>m. (\<And>u. u \<in> set (child_values (Map m)) \<Longrightarrow> valid_val st u) \<Longrightarrow> \<exists>x. f m = Some x \<and> Q x"
  shows "safe_res Q (with_map_ref st v who f)"
proof (cases v)
  case (Ref h)
  then obtain obj where "lookup st h = Some obj" using assms(2) by auto
  then show ?thesis
    using Ref store_closedD [OF assms(1)] assms(3)
    by (cases obj) (fastforce simp: with_map_ref_def map_handle_def)+
qed (simp_all add: with_map_ref_def map_handle_def)

lemma nsafe_map_reads [nsafe_intros]:
  "keeps vs [v] \<Longrightarrow> nsafe vs (nread (\<lambda>st. with_map_ref st v who (\<lambda>m. Some (IntV (word_of_nat (map_len m)))))) (\<lambda>v. [v])"
  "keeps vs [v] \<Longrightarrow> nsafe vs (nread (\<lambda>st. with_map_ref st v who (\<lambda>m. Some (map fst (entries m))))) (\<lambda>vs. vs)"
  "keeps vs [v] \<Longrightarrow> nsafe vs (nread (\<lambda>st. with_map_ref st v who (\<lambda>m. Some (map snd (entries m))))) (\<lambda>vs. vs)"
  by (rule nsafe_read, rule map_ref_safe; fastforce simp: keeps_def list_all_iff)+

lemma put_slot_twice [simp]: "put_slot h x (put_slot h y s) = put_slot h x s"
  by (simp add: put_slot_def)

lemma put_slot_same: "lookup (rt_slots s) h = Some obj \<Longrightarrow> put_slot h (Some obj) s = s"
  by (simp add: put_slot_def lookup_def list_update_same_conv split: if_splits)

lemma with_map_taken_update:
  assumes "\<And>st m. f st m = Some (g m)"
  shows "with_map_taken v who f =
    nupdate (bug (who @ '': expected map''))
      (\<lambda>obj. case obj of Map m \<Rightarrow> Ok (fst (g m), Map (snd (g m))) | _ \<Rightarrow> Err (bug (who @ '': expected map''))) v"
proof
  fix w :: "'e world"
  show "with_map_taken v who f w = nupdate (bug (who @ '': expected map''))
      (\<lambda>obj. case obj of Map m \<Rightarrow> Ok (fst (g m), Map (snd (g m))) | _ \<Rightarrow> Err (bug (who @ '': expected map''))) v w"
  proof (cases v)
    case (Ref h)
    show ?thesis
    proof (cases "lookup (rt_slots (mem w)) h")
      case None
      then show ?thesis using Ref by (simp add: with_map_taken_def nupdate_def map_handle_def take_obj_def)
    next
      case (Some obj)
      then show ?thesis
        using Ref assms put_slot_same [OF Some]
        by (cases obj) (simp_all add: with_map_taken_def nupdate_def map_handle_def take_obj_def restore_obj_def split: prod.splits)
    qed
  qed (simp_all add: with_map_taken_def nupdate_def map_handle_def)
qed

lemma nsafe_map_clear [nsafe_intros]:
  assumes "keeps vs [v]"
  shows "nsafe vs (with_map_taken v who (\<lambda>st m. Some (Unit, map_clear m))) (\<lambda>v. [v])"
proof -
  have "nsafe (v # vs) (with_map_taken v who (\<lambda>st m. Some (Unit, map_clear m))) (\<lambda>v. [v])"
    unfolding with_map_taken_update [where f = "\<lambda>st m. Some (Unit, map_clear m)", OF HOL.refl]
    by (rule nsafe_update) (auto simp: map_clear_def split: obj.splits)
  then show ?thesis by (rule nsafe_weaken) (use assms in \<open>simp add: keeps_Cons keeps_subset\<close>)
qed

lemma keeps_unit: "set us \<subseteq> set vs \<Longrightarrow> keeps vs ([Unit] @ us)"
  by (simp add: keeps_Cons keeps_subset)

lemma keeps_list_set:
  assumes "rbind (checked_index i (length items)) (\<lambda>n. Ok (Unit, items[n := val])) = Ok (x, items')" "val \<in> set vs"
  shows "keeps (items @ vs) ([x] @ items')"
proof -
  obtain n where "x = Unit" "items' = items[n := val]" using assms by (auto simp: rbind_eq_Inr)
  then show ?thesis using keeps_unit [of items' "items @ vs"] set_update_subset_insert [of items n val] assms(2) by auto
qed

lemma keeps_list_push: "Ok (Unit, items @ [val]) = Ok (x, items') \<Longrightarrow> val \<in> set vs \<Longrightarrow> keeps (items @ vs) ([x] @ items')"
  using keeps_unit [of "items @ [val]" "items @ vs"] by auto

lemma nsafe_list_pop:
  assumes "v \<in> set vs"
  shows "nsafe vs (nbind (with_list_mut v who (\<lambda>items. Ok (if items = [] then None else Some (last items), butlast items)))
    (option_val L)) (\<lambda>v. [v])"
proof (rule nsafe_bind [where res = "case_option [] (\<lambda>v. [v])"])
  show "nsafe vs (with_list_mut v who (\<lambda>items. Ok (if items = [] then None else Some (last items), butlast items)))
      (case_option [] (\<lambda>v. [v]))"
  proof (rule nsafe_list_mut)
    fix items items' :: "val list" and x
    assume "Ok (if items = [] then None else Some (last items), butlast items) = (Ok (x, items') :: _ res)"
    then show "keeps (items @ vs) (case_option [] (\<lambda>v. [v]) x @ items')"
      by (cases items rule: rev_cases) (auto intro!: keeps_subset)
  qed (use assms in auto)
  show "nsafe (vs @ case_option [] (\<lambda>v. [v]) x) (option_val L x) (\<lambda>v. [v])" for x
    by (rule nsafe_option_val) auto
qed

lemma list_writers_ok: "native_ok native_list_set" "native_ok native_list_push"
    "native_ok (native_list_pop L)" "native_ok native_list_clear"
  by (unfold native_list_set_def native_list_push_def native_list_pop_def native_list_clear_def)
    (rule nsafe_native | (rule nsafe_list_pop, simp; fail) | rule nsafe_intros
      | (erule keeps_list_set keeps_list_push, simp; fail)
      | (simp add: rbind_eq_Inl keeps_subset; fail))+

lemmas data_native_defs =
  native_bytes_len_def native_bytes_get_def native_bytes_slice_def native_bytes_concat_def native_bytes_to_string_def
  native_bytes_to_list_def native_bytes_empty_def native_bytes_from_list_def native_hash_digest_def native_hash_crc32_def
  native_bytesbuilder_new_def native_bytesbuilder_write_u8_def native_bytesbuilder_write_bytes_def
  native_bytesbuilder_write_str_def native_bytesbuilder_len_def native_bytesbuilder_finish_def native_list_index_def
  native_list_get_def native_list_len_def
  native_map_len_def native_map_keys_def native_map_values_def native_map_clear_def
  native_int_to_double_def native_double_to_int_def native_double_to_bits_def math_unary_def math_binary_def

lemmas math_native_defs =
  native_math_sqrt_def native_math_floor_def native_math_ceil_def native_math_round_def native_math_trunc_def
  native_math_exp_def native_math_ln_def native_math_log10_def native_math_sin_def native_math_cos_def
  native_math_tan_def native_math_asin_def native_math_acos_def native_math_atan_def native_math_pow_def
  native_math_atan2_def native_math_hypot_def

lemma data_natives_ok:
  "native_ok native_bytes_len" "native_ok (native_bytes_get L)" "native_ok (native_bytes_slice L)"
  "native_ok (native_bytes_concat L)" "native_ok (native_bytes_to_string L)" "native_ok (native_bytes_to_list L)"
  "native_ok (native_bytes_empty L)" "native_ok (native_bytes_from_list L)" "native_ok (native_hash_digest who dg L)"
  "native_ok (native_hash_crc32 crc)" "native_ok (native_bytesbuilder_new L)" "native_ok native_bytesbuilder_write_u8"
  "native_ok native_bytesbuilder_write_bytes" "native_ok native_bytesbuilder_write_str" "native_ok native_bytesbuilder_len"
  "native_ok (native_bytesbuilder_finish L)" "native_ok native_list_index" "native_ok (native_list_get L)"
  "native_ok native_list_len" "native_ok native_map_len" "native_ok (native_map_keys L)" "native_ok (native_map_values L)"
  "native_ok native_map_clear" "native_ok native_int_to_double" "native_ok native_double_to_int"
  "native_ok native_double_to_bits"
  by (unfold data_native_defs Let_def)
    (rule nsafe_native | rule nsafe_intros | (simp; fail) | (auto; fail) | (auto intro!: keeps_subset; fail)
      | (erule keeps_nth [rotated], auto intro!: keeps_subset; fail))+

lemma math_natives_ok:
  "native_ok (native_math_sqrt M)" "native_ok (native_math_floor M)" "native_ok (native_math_ceil M)" "native_ok (native_math_round M)"
  "native_ok (native_math_trunc M)" "native_ok (native_math_exp M)" "native_ok (native_math_ln M)" "native_ok (native_math_log10 M)"
  "native_ok (native_math_sin M)" "native_ok (native_math_cos M)" "native_ok (native_math_tan M)" "native_ok (native_math_asin M)"
  "native_ok (native_math_acos M)" "native_ok (native_math_atan M)" "native_ok (native_math_pow M)"
  "native_ok (native_math_atan2 M)" "native_ok (native_math_hypot M)"
  by (unfold math_native_defs math_unary_def math_binary_def)
    (rule nsafe_native | rule nsafe_intros | (simp; fail) | (auto; fail) | (auto intro!: keeps_subset; fail))+

lemma nat_sint:
  assumes "0 \<le> sint (i :: i64)"
  shows "nat (sint i) = unat i"
proof -
  have "uint i = sint i mod 2 ^ 64" by (simp add: uint_sint take_bit_eq_mod)
  moreover have "sint i < 2 ^ 63" using sint_lt [of i] by simp
  ultimately have "uint i = sint i" using assms by (simp add: mod_pos_pos_trivial)
  then show ?thesis using nat_uint_eq [of i] by simp
qed

lemma sint_byte: "sint (ucast (b :: u8) :: i64) = uint b"
proof -
  have small: "0 \<le> uint b" "uint b < 2 ^ 8" using uint_lt2p [of b] by simp_all
  then have "uint (ucast b :: i64) = uint b" by (simp add: unsigned_ucast_eq take_bit_eq_mod mod_pos_pos_trivial)
  moreover have "signed_take_bit 63 (uint b) = uint b" by (rule signed_take_bit_int_eq_self) (use small order.trans [of "- (2 ^ 63)" 0 "uint b"] in auto)
  ultimately show ?thesis by (simp add: sint_uint)
qed

section \<open>Lists and bytes behind a handle\<close>

lemmas list_runs =
  nbind_def nlift_def nret_def nread_def expect_one_def args2_def args3_def as_int_def list_items_def with_list_mut_def nupdate_def

lemma list_native_reads:
  assumes "lookup (rt_slots (mem w)) h = Some (List items)"
  shows "native_list_len [Ref h] w = (Ok (IntV (word_of_nat (length items))), w)"
    "native_list_index [Ref h, IntV i] w =
      (if 0 \<le> sint i \<and> unat i < length items then Ok (items ! unat i) else Err (Trap (IndexOutOfBounds i (length items))), w)"
    "native_list_get L [Ref h, IntV i] w = option_val L (get_signed items i) w"
  using assms
  by (auto simp: native_list_len_def native_list_index_def native_list_get_def list_runs checked_index_def option_val_def
      get_signed_def get_nth_def nat_sint)

lemma list_native_writes:
  assumes "lookup (rt_slots (mem w)) h = Some (List items)"
  shows "native_list_set [Ref h, IntV i, v] w =
      (if 0 \<le> sint i \<and> unat i < length items
       then (Ok Unit, w\<lparr>mem := put_slot h (Some (List (items[unat i := v]))) (mem w)\<rparr>)
       else (Err (Trap (IndexOutOfBounds i (length items))), w))"
    "native_list_push [Ref h, v] w = (Ok Unit, w\<lparr>mem := put_slot h (Some (List (items @ [v]))) (mem w)\<rparr>)"
    "native_list_pop L [Ref h] w =
      option_val L (if items = [] then None else Some (last items))
        (w\<lparr>mem := put_slot h (Some (List (butlast items))) (mem w)\<rparr>)"
    "native_list_clear [Ref h] w = (Ok Unit, w\<lparr>mem := put_slot h (Some (List [])) (mem w)\<rparr>)"
  using assms
  by (auto simp: native_list_set_def native_list_push_def native_list_pop_def native_list_clear_def list_runs checked_index_def)

lemma bytes_of_ints_bytes: "bytes_of_ints (map (\<lambda>b. IntV (ucast b)) bs) = Ok (Ok bs)"
proof (induction bs)
  case (Cons b bs)
  have "uint b \<le> 255" using uint_lt2p [of b] by simp
  moreover have "ucast (ucast b :: i64) = b" by (rule bit_word_eqI) (simp add: bit_ucast_iff)
  ultimately show ?case using Cons by (simp add: as_int_def sint_byte)
qed simp

end
