(* ===== verification/MapNatives.thy ===== *)
theory MapNatives
  imports NativeData
begin

text \<open>
  The map natives as operations on an insertion-ordered list of entries. A map is taken out of its heap slot while its
  keys are compared, so the keys are compared in the heap without the map; what an answer says there it says in the
  whole heap.
\<close>

section \<open>Answers persist in a larger heap\<close>

definition sub_store :: "store \<Rightarrow> store \<Rightarrow> bool" where
  "sub_store st st' \<longleftrightarrow> length st \<le> length st' \<and> (\<forall>r obj. lookup st r = Some obj \<longrightarrow> lookup st' r = Some obj)"

lemma sub_storeD: "sub_store st st' \<Longrightarrow> lookup st r = Some obj \<Longrightarrow> lookup st' r = Some obj"
  by (simp add: sub_store_def)

lemma depth_le_sub: "sub_store st st' \<Longrightarrow> depth_le n st v \<Longrightarrow> depth_le n st' v"
proof (induction n arbitrary: v)
  case 0
  then show ?case by (cases v) auto
next
  case (Suc n)
  then show ?case by (cases v) (auto simp only: depth_le_Ref_Suc depth_le.simps(2-5) dest: sub_storeD)
qed

lemma grounded_sub: "sub_store st st' \<Longrightarrow> grounded st v \<Longrightarrow> grounded st' v"
  unfolding grounded_def [of st] by (rule grounded_complete) (rule depth_le_sub)

lemma values_eq_n_sub: "sub_store st st' \<Longrightarrow> values_eq_n n st a b = Some r \<Longrightarrow> values_eq_n n st' a b = Some r"
proof (induction n arbitrary: a b r)
  case 0
  then show ?case by (cases a; cases b) (auto split: if_splits)
next
  case (Suc n)
  show ?case
  proof (cases "\<exists>x y. a = Ref x \<and> b = Ref y \<and> x \<noteq> y")
    case True
    then obtain x y where xy: "a = Ref x" "b = Ref y" "x \<noteq> y" by blast
    then obtain ox oy where o: "lookup st x = Some ox" "lookup st y = Some oy" "obj_eq (values_eq_n n st) ox oy = Some r"
      using Suc.prems(2) by (auto split: option.splits)
    have "obj_eq (values_eq_n n st') ox oy = Some r" using Suc.IH [OF Suc.prems(1)] o(3) by (rule obj_eq_mono)
    then show ?thesis using xy sub_storeD [OF Suc.prems(1)] o by simp
  next
    case False
    then show ?thesis using Suc.prems by (cases a; cases b) auto
  qed
qed

lemma values_eq_sub:
  assumes "sub_store st st'" "grounded st a" "grounded st b"
  shows "values_eq st' a b = values_eq st a b"
proof -
  obtain r where "values_eq st a b = Some r" using values_eq_returns [OF assms(2,3)] by blast
  then show ?thesis using values_eq_complete [OF values_eq_n_sub [OF assms(1)]] by (simp add: values_eq_def)
qed

lemma hash_vals_mono:
  assumes "\<And>v h x. hi v h = Some x \<Longrightarrow> hi' v h = Some x"
  shows "hash_vals hi vs h = Some x \<Longrightarrow> hash_vals hi' vs h = Some x"
  using assms by (induction vs arbitrary: h) (auto simp: bind_eq_Some_conv)

lemma hash_into_n_sub:
  "sub_store st st' \<Longrightarrow> n \<le> m \<Longrightarrow> hash_into_n n st v h = Some x \<Longrightarrow> hash_into_n m st' v h = Some x"
proof (induction n arbitrary: m v h x)
  case 0
  then show ?case by (cases v) auto
next
  case (Suc n)
  then obtain m' where m': "m = Suc m'" "n \<le> m'" by (cases m) auto
  show ?case
  proof (cases v)
    case (Ref r)
    then obtain obj where obj: "lookup st r = Some obj" "hash_obj (hash_into_n n st) obj h = Some x"
      using Suc.prems(3) by (auto split: option.splits)
    have "hash_obj (hash_into_n m' st') obj h = Some x"
      using obj(2) by (cases obj) (auto elim: hash_vals_mono [rotated] intro: Suc.IH [OF Suc.prems(1) m'(2)])
    then show ?thesis using Ref m' sub_storeD [OF Suc.prems(1) obj(1)] by simp
  qed (use Suc.prems in auto)
qed

lemma hash_value_sub:
  assumes "sub_store st st'" "grounded st v"
  shows "hash_value st' v = hash_value st v"
proof -
  obtain x where "hash_value st v = Some x" using hash_value_returns [OF assms(2)] by blast
  then show ?thesis
    using hash_into_n_sub [OF assms(1), of "Suc (length st)" "Suc (length st')"] assms(1)
    by (simp add: hash_value_def sub_store_def)
qed

lemma al_find_cong: "(\<And>p. p \<in> set es \<Longrightarrow> eq (fst p) key = eq' (fst p) key) \<Longrightarrow> al_find eq es key = al_find eq' es key"
  by (induction es) auto

abbreviation keyed_map :: "store \<Rightarrow> (val, val) mapobj \<Rightarrow> bool" where
  "keyed_map st \<equiv> map_wf (values_eq st) (hash_value st) {v. grounded st v}"

lemma keyed_map_sub:
  assumes "sub_store st st'" "keyed_map st m"
  shows "keyed_map st' m"
proof -
  have key: "grounded st (fst p)" if "p \<in> set (entries m)" for p
    using assms(2) that by (auto simp: map_wf_def)
  have "map (hash_value st' \<circ> fst) (entries m) = map (hash_value st \<circ> fst) (entries m)"
    using hash_value_sub [OF assms(1)] key by simp
  moreover have "values_eq st' (fst (entries m ! i)) (fst (entries m ! j)) = values_eq st (fst (entries m ! i)) (fst (entries m ! j))"
    if "i < length (entries m)" "j < length (entries m)" for i j
    using that values_eq_sub [OF assms(1)] key by simp
  moreover have "fst ` set (entries m) \<subseteq> {v. grounded st' v}" using key grounded_sub [OF assms(1)] by auto
  ultimately show ?thesis using assms(2) by (simp add: map_wf_def)
qed

lemma al_find_sub:
  assumes "sub_store st st'" "fst ` set es \<subseteq> {v. grounded st v}" "grounded st key"
  shows "al_find (values_eq st') es key = al_find (values_eq st) es key"
  by (rule al_find_cong) (use assms values_eq_sub [OF assms(1)] in auto)

section \<open>A map in the heap\<close>

definition without :: "store \<Rightarrow> u32 \<Rightarrow> store" where
  "without st h = st[unat h := None]"

text \<open>Handle \<open>h\<close> holds a map of the entries \<open>es\<close> whose keys are acyclic and do not contain the map.\<close>

definition map_at :: "store \<Rightarrow> u32 \<Rightarrow> (val \<times> val) list \<Rightarrow> bool" where
  "map_at st h es \<longleftrightarrow>
     length es \<le> 2 ^ 31 \<and> (\<exists>m. lookup st h = Some (Map m) \<and> entries m = es \<and> keyed_map (without st h) m)"

lemma without_sub: "sub_store (without st h) st"
proof -
  have "st ! unat r = Some obj" if "unat r < length st" "st[unat h := None] ! unat r = Some obj" for r obj
    using that by (cases "unat r = unat h") auto
  then show ?thesis by (auto simp: sub_store_def without_def lookup_def split: if_splits)
qed

lemma without_put [simp]: "without (rt_slots (put_slot h x s)) h = without (rt_slots s) h"
  by (simp add: without_def put_slot_def)

lemma lookup_put_slot: "unat h < length (rt_slots s) \<Longrightarrow> lookup (rt_slots (put_slot h x s)) h = x"
  by (simp add: put_slot_def lookup_def)

lemma map_atD:
  assumes "map_at st h es" "grounded (without st h) key"
  obtains m g where "lookup st h = Some (Map m)" "entries m = es" "keyed_map (without st h) m" "hash_value st key = Some g"
    "hash_value (without st h) key = Some g"
    "map_get (values_eq st) m key g = Some (al_lookup (values_eq (without st h)) es key)"
    "map_contains (values_eq st) m key g = Some (al_lookup (values_eq (without st h)) es key \<noteq> None)"
proof -
  obtain m where m: "lookup st h = Some (Map m)" "entries m = es" "keyed_map (without st h) m" "length es \<le> 2 ^ 31"
    using assms(1) by (auto simp: map_at_def)
  obtain g where g: "hash_value (without st h) key = Some g" using hash_value_returns [OF assms(2)] by blast
  then have g': "hash_value st key = Some g" using hash_value_sub [OF without_sub assms(2)] by simp
  have key: "grounded st key" by (rule grounded_sub [OF without_sub assms(2)])
  have "al_find (values_eq st) es key = al_find (values_eq (without st h)) es key"
    by (rule al_find_sub [OF without_sub]) (use vk.wf_keys(1) [OF m(3)] m(2) assms(2) in auto)
  then have "al_lookup (values_eq st) es key = al_lookup (values_eq (without st h)) es key" by (simp add: al_lookup_def)
  then show ?thesis
    using vk.map_get_correct [OF keyed_map_sub [OF without_sub m(3)], of key g] key g' m
    by (intro that [of m g]) (simp_all add: g)
qed

section \<open>The natives\<close>

lemma native_map_index_at:
  assumes "map_at (rt_slots (mem w)) h es" "grounded (without (rt_slots (mem w)) h) key"
  shows "native_map_index [Ref h, key] w =
    (case al_lookup (values_eq (without (rt_slots (mem w)) h)) es key of
       Some v \<Rightarrow> (Ok v, w)
     | None \<Rightarrow> (rbind (key_label (rt_slots (mem w)) key) (\<lambda>label. Err (Trap (MissingKey label))), w))"
  by (rule map_atD [OF assms])
    (simp add: native_map_index_def args2_def nbind_def nlift_def nread_def key_hash_def with_map_ref_def map_handle_def nret_def
      split: option.splits sum.splits)

lemma native_map_has_at:
  assumes "map_at (rt_slots (mem w)) h es" "grounded (without (rt_slots (mem w)) h) key"
  shows "native_map_has [Ref h, key] w = (Ok (Bool (al_lookup (values_eq (without (rt_slots (mem w)) h)) es key \<noteq> None)), w)"
  by (rule map_atD [OF assms])
    (simp add: native_map_has_def args2_def nbind_def nlift_def nread_def key_hash_def with_map_ref_def map_handle_def)

lemma native_map_get_at:
  assumes "map_at (rt_slots (mem w)) h es" "grounded (without (rt_slots (mem w)) h) key"
  shows "native_map_get L [Ref h, key] w = option_val L (al_lookup (values_eq (without (rt_slots (mem w)) h)) es key) w"
  by (rule map_atD [OF assms])
    (simp add: native_map_get_def args2_def nbind_def nlift_def nread_def key_hash_def with_map_ref_def map_handle_def)

text \<open>A write leaves every other slot of the heap as it was.\<close>

lemma native_map_set_at:
  assumes "map_at (rt_slots (mem w)) h es" "grounded (without (rt_slots (mem w)) h) key" "length es < 2 ^ 31"
  obtains m where "native_map_set [Ref h, key, v] w = (Ok Unit, w\<lparr>mem := put_slot h (Some (Map m)) (mem w)\<rparr>)"
    "map_at (rt_slots (put_slot h (Some (Map m)) (mem w))) h (al_insert (values_eq (without (rt_slots (mem w)) h)) es key v)"
proof (rule map_atD [OF assms(1,2)])
  let ?st = "without (rt_slots (mem w)) h"
  fix m g
  assume m: "lookup (rt_slots (mem w)) h = Some (Map m)" "entries m = es" "keyed_map ?st m"
    and g: "hash_value (rt_slots (mem w)) key = Some g" "hash_value ?st key = Some g"
  obtain m' where m': "map_insert (values_eq ?st) m key g v = Some m'" "entries m' = al_insert (values_eq ?st) es key v"
    "keyed_map ?st m'"
    by (rule vk.map_insert_correct [OF m(3) _ g(2)]) (use m(2) assms in auto)
  have st: "rt_slots (put_slot h None (mem w)) = ?st" by (simp add: put_slot_def without_def)
  have len: "unat h < length (rt_slots (mem w))" by (rule lookup_Some_length [OF m(1)])
  show ?thesis
  proof (rule that [of m'])
    show "native_map_set [Ref h, key, v] w = (Ok Unit, w\<lparr>mem := put_slot h (Some (Map m')) (mem w)\<rparr>)"
      using m g m' st
      by (simp add: native_map_set_def args3_def nbind_def nlift_def nread_def key_hash_def with_map_taken_def map_handle_def
          take_obj_def restore_obj_def)
    show "map_at (rt_slots (put_slot h (Some (Map m')) (mem w))) h (al_insert (values_eq ?st) es key v)"
      using m' len vk.length_al_insert [of "?st" es key v] assms(3) by (simp add: map_at_def lookup_put_slot)
  qed
qed

lemma native_map_remove_at:
  assumes "map_at (rt_slots (mem w)) h es" "grounded (without (rt_slots (mem w)) h) key"
  obtains m where "native_map_remove L [Ref h, key] w =
      option_val L (al_lookup (values_eq (without (rt_slots (mem w)) h)) es key) (w\<lparr>mem := put_slot h (Some (Map m)) (mem w)\<rparr>)"
    "map_at (rt_slots (put_slot h (Some (Map m)) (mem w))) h (al_remove (values_eq (without (rt_slots (mem w)) h)) es key)"
proof (rule map_atD [OF assms(1,2)])
  let ?st = "without (rt_slots (mem w)) h"
  fix m g
  assume m: "lookup (rt_slots (mem w)) h = Some (Map m)" "entries m = es" "keyed_map ?st m"
    and g: "hash_value (rt_slots (mem w)) key = Some g" "hash_value ?st key = Some g"
  have small: "length es \<le> 2 ^ 31" using assms(1) by (simp add: map_at_def)
  obtain m' where m': "map_remove (values_eq ?st) m key g = Some (m', al_lookup (values_eq ?st) es key)"
    "entries m' = al_remove (values_eq ?st) es key" "keyed_map ?st m'"
    by (rule vk.map_remove_correct [OF m(3) _ g(2)]) (use m(2) assms small in auto)
  have st: "rt_slots (put_slot h None (mem w)) = ?st" by (simp add: put_slot_def without_def)
  have len: "unat h < length (rt_slots (mem w))" by (rule lookup_Some_length [OF m(1)])
  have "length (al_remove (values_eq ?st) es key) \<le> length es"
    by (auto simp: al_remove_def vec_remove_def split: option.splits)
  then have at: "map_at (rt_slots (put_slot h (Some (Map m')) (mem w))) h (al_remove (values_eq ?st) es key)"
    using m' len small by (simp add: map_at_def lookup_put_slot)
  show ?thesis
  proof (rule that [OF _ at])
    show "native_map_remove L [Ref h, key] w =
        option_val L (al_lookup (values_eq ?st) es key) (w\<lparr>mem := put_slot h (Some (Map m')) (mem w)\<rparr>)"
      using m g m' st
      by (simp add: native_map_remove_def args2_def nbind_def nlift_def nread_def key_hash_def with_map_taken_def map_handle_def
          take_obj_def restore_obj_def)
  qed
qed

section \<open>Writing and reading\<close>

lemma key_label_put:
  assumes "grounded (without (rt_slots s) h) key"
  shows "key_label (rt_slots (put_slot h x s)) key = key_label (rt_slots s) key"
proof (cases key)
  case (Ref k)
  have "lookup (without (rt_slots s) h) h = None" by (simp add: without_def lookup_def)
  then have "k \<noteq> h" using assms Ref by (auto simp: grounded_def split: nat.splits)
  then have "unat h \<noteq> unat k" by (auto dest: unsigned_word_eqI)
  then have "lookup (rt_slots (put_slot h x s)) k = lookup (rt_slots s) k" by (simp add: put_slot_def lookup_def)
  then show ?thesis using Ref by (simp add: key_label_def)
qed (simp_all add: key_label_def)

lemma map_set_index:
  assumes at: "map_at (rt_slots (mem w)) h es" and small: "length es < 2 ^ 31"
    and key: "grounded (without (rt_slots (mem w)) h) key" "grounded (without (rt_slots (mem w)) h) other"
  obtains w' where "native_map_set [Ref h, key, v] w = (Ok Unit, w')"
    "map_at (rt_slots (mem w')) h (al_insert (values_eq (without (rt_slots (mem w)) h)) es key v)"
    "fst (native_map_index [Ref h, other] w') =
      (if values_eq (without (rt_slots (mem w)) h) key other = Some True then Ok v
       else fst (native_map_index [Ref h, other] w))"
proof -
  let ?st = "without (rt_slots (mem w)) h"
  obtain m where m: "native_map_set [Ref h, key, v] w = (Ok Unit, w\<lparr>mem := put_slot h (Some (Map m)) (mem w)\<rparr>)"
    "map_at (rt_slots (put_slot h (Some (Map m)) (mem w))) h (al_insert (values_eq ?st) es key v)"
    by (rule native_map_set_at [OF at key(1) small])
  let ?w = "w\<lparr>mem := put_slot h (Some (Map m)) (mem w)\<rparr>"
  have st': "without (rt_slots (mem ?w)) h = ?st" by simp
  have keys: "fst ` set es \<subseteq> {v. grounded ?st v}" using at vk.wf_keys(1) by (auto simp: map_at_def)
  have "al_lookup (values_eq ?st) (al_insert (values_eq ?st) es key v) other =
      (if values_eq ?st key other = Some True then Some v else al_lookup (values_eq ?st) es other)"
    using vk.al_lookup_insert [OF keys, of key other v] key by simp
  then have "fst (native_map_index [Ref h, other] ?w) =
      (if values_eq ?st key other = Some True then Ok v else fst (native_map_index [Ref h, other] w))"
    using native_map_index_at [of ?w h _ other, OF _ key(2) [folded st']] m(2) native_map_index_at [OF at key(2)]
      key_label_put [OF key(2)] st' by (simp split: option.splits)
  then show ?thesis using m by (intro that [of ?w]) simp_all
qed

end
