(* ===== verification/NativeFiber.thy ===== *)
theory NativeFiber
  imports NativeData
begin

text \<open>
  The natives that talk to the scheduler and to the process (\<^verbatim>\<open>runtime/src/interp/natives.rs\<close>, with the wrappers of
  \<^verbatim>\<open>runtime/src/interp/mod.rs\<close>): fibers, channels, sleeping, the clocks, the environment and the terminal. What the
  operating system answers is read from the world's environment by the functions of a record.
\<close>

section \<open>Parking\<close>

definition park_block_retry :: "('e, unit) eff" where
  "park_block_retry w = (Ok (), w\<lparr>park_cell := Some BlockRetry\<rparr>)"

definition park_yield_ready :: "('e, unit) eff" where
  "park_yield_ready w = (Ok (), w\<lparr>park_cell := Some YieldReady\<rparr>)"

definition park_timer :: "instant \<Rightarrow> ('e, unit) eff" where
  "park_timer deadline w = (Ok (), w\<lparr>park_cell := Some (Timer deadline)\<rparr>)"

definition park_await :: "'e \<Rightarrow> 'e io_finish \<Rightarrow> ('e, unit) eff" where
  "park_await job finish w = (Ok (), w\<lparr>park_cell := Some (Await job finish)\<rparr>)"

definition park_ready :: "i64 \<Rightarrow> ('e, unit) eff" where
  "park_ready handle w = (Ok (), w\<lparr>park_cell := Some (Ready handle)\<rparr>)"

definition park_multi :: "instant option \<Rightarrow> i64 list \<Rightarrow> ('e, unit) eff" where
  "park_multi deadline handles w = (Ok (), w\<lparr>park_cell := Some (Multi deadline handles)\<rparr>)"

section \<open>Fibers\<close>

text \<open>An operation of the scheduler that may panic.\<close>

definition nsched :: "('e scheduler \<Rightarrow> ('a \<times> 'e scheduler) option) \<Rightarrow> ('e, 'a) eff" where
  "nsched f w = (case f (sched w) of None \<Rightarrow> (Err Panic, w) | Some (x, s) \<Rightarrow> (Ok x, w\<lparr>sched := s\<rparr>))"

definition sched_spawn :: "val \<Rightarrow> ('e, usize) eff" where "sched_spawn closure = nsched (spawn closure)"
definition sched_result :: "usize \<Rightarrow> ('e, val option) eff" where "sched_result i w = (Ok (fiber_result i (sched w)), w)"
definition sched_channel_new :: "usize \<Rightarrow> ('e, usize) eff" where "sched_channel_new cap = nsched (\<lambda>s. Some (channel_new cap s))"
definition sched_chan_ready :: "usize \<Rightarrow> ('e, bool) eff" where
  "sched_chan_ready i = nsched (\<lambda>s. map_option (\<lambda>b. (b, s)) (chan_ready i s))"
definition sched_chan_send :: "usize \<Rightarrow> val \<Rightarrow> ('e, send_outcome) eff" where "sched_chan_send i v = nsched (chan_send i v)"
definition sched_chan_receive :: "usize \<Rightarrow> ('e, recv_outcome) eff" where "sched_chan_receive i = nsched (chan_receive i)"
definition sched_chan_close :: "usize \<Rightarrow> ('e, unit) eff" where
  "sched_chan_close i = nsched (\<lambda>s. map_option (Pair ()) (chan_close i s))"

definition native_fiber_spawn :: "'e native" where
  "native_fiber_spawn args =
     nbind (nlift (expect_one args ''fiber_spawn'')) (\<lambda>closure.
     nbind (sched_spawn closure) (\<lambda>i. nret (IntV (word_of_nat i))))"

definition native_fiber_join :: "'e native" where
  "native_fiber_join args =
     nbind (nlift (expect_one args ''fiber_join'')) (\<lambda>v.
     nbind (nlift (as_int v ''fiber_join'')) (\<lambda>n.
     nbind (sched_result (unat n)) (\<lambda>r.
       case r of
         Some v \<Rightarrow> nret v
       | None \<Rightarrow> nbind park_block_retry (\<lambda>_. nret Unit))))"

definition native_fiber_is_done :: "'e native" where
  "native_fiber_is_done args =
     nbind (nlift (expect_one args ''fiber_is_done'')) (\<lambda>v.
     nbind (nlift (as_int v ''fiber_is_done'')) (\<lambda>n.
     nbind (sched_result (unat n)) (\<lambda>r. nret (Bool (r \<noteq> None)))))"

definition native_chan_is_ready :: "'e native" where
  "native_chan_is_ready args =
     nbind (nlift (expect_one args ''chan_is_ready'')) (\<lambda>v.
     nbind (nlift (as_int v ''chan_is_ready'')) (\<lambda>n.
     nbind (sched_chan_ready (unat n)) (\<lambda>b. nret (Bool b))))"

definition native_fiber_yield :: "'e native" where
  "native_fiber_yield args =
     nbind (nlift (expect_no_args args ''fiber_yield'')) (\<lambda>_. nbind park_yield_ready (\<lambda>_. nret Unit))"

definition native_channel_new :: "'e native" where
  "native_channel_new args =
     nbind (nlift (expect_one args ''channel_new'')) (\<lambda>v.
     nbind (nlift (as_int v ''channel_new'')) (\<lambda>cap.
     nbind (sched_channel_new (if sint cap < 0 then 0 else unat cap)) (\<lambda>i. nret (IntV (word_of_nat i)))))"

definition native_channel_send :: "'e native" where
  "native_channel_send args =
     nbind (nlift (args2 args ''channel_send'')) (\<lambda>(idv, v).
     nbind (nlift (as_int idv ''channel_send'')) (\<lambda>n.
     nbind (sched_chan_send (unat n) v) (\<lambda>r.
       case r of
         Sent \<Rightarrow> nret Unit
       | Full \<Rightarrow> nbind park_block_retry (\<lambda>_. nret Unit)
       | Closed \<Rightarrow> nlift (Err (Trap ClosedChannel)))))"

definition native_channel_receive :: "layout \<Rightarrow> 'e native" where
  "native_channel_receive L args =
     nbind (nlift (expect_one args ''channel_receive'')) (\<lambda>v.
     nbind (nlift (as_int v ''channel_receive'')) (\<lambda>n.
     nbind (sched_chan_receive (unat n)) (\<lambda>r.
       case r of
         Got v \<Rightarrow> some_val L v
       | Drained \<Rightarrow> none_val L
       | Empty \<Rightarrow> nbind park_block_retry (\<lambda>_. nret Unit))))"

definition native_channel_close :: "'e native" where
  "native_channel_close args =
     nbind (nlift (expect_one args ''channel_close'')) (\<lambda>v.
     nbind (nlift (as_int v ''channel_close'')) (\<lambda>n.
     nbind (sched_chan_close (unat n)) (\<lambda>_. nret Unit)))"

section \<open>The process\<close>

text \<open>What the operating system answers. Wall-clock readings are absent when the clock is before the epoch; the
  monotonic clock counts nanoseconds from a fixed start, and instants are its readings in milliseconds; setting a
  variable fails (the process panics) when the name or the text is malformed.\<close>

record 'e host =
  wall_millis :: "'e \<Rightarrow> nat option"
  wall_nanos :: "'e \<Rightarrow> nat option"
  now_instant :: "'e \<Rightarrow> instant"
  since_start :: "'e \<Rightarrow> nat"
  seed_counter :: "'e \<Rightarrow> u64"
  set_seed_counter :: "u64 \<Rightarrow> 'e \<Rightarrow> 'e"
  env_var :: "string \<Rightarrow> 'e \<Rightarrow> string option"
  set_var :: "string \<Rightarrow> string \<Rightarrow> 'e \<Rightarrow> 'e option"
  env_vars :: "'e \<Rightarrow> (string \<times> string) list"
  program_args :: "'e \<Rightarrow> string list option"
  current_dir :: "'e \<Rightarrow> string + string"
  current_exe :: "'e \<Rightarrow> string option"
  set_current_dir :: "string \<Rightarrow> 'e \<Rightarrow> (string + unit) \<times> 'e"
  os_name :: string
  is_terminal :: "'e \<Rightarrow> bool"
  terminal_size :: "'e \<Rightarrow> (u16 \<times> u16) option"
  exit_process :: "32 word \<Rightarrow> 'e \<Rightarrow> 'e"

definition host_read :: "('e \<Rightarrow> 'a) \<Rightarrow> ('e, 'a) eff" where
  "host_read f w = (Ok (f (env w)), w)"

definition host_update :: "('e \<Rightarrow> 'a \<times> 'e) \<Rightarrow> ('e, 'a) eff" where
  "host_update f w = (let (x, e) = f (env w) in (Ok x, w\<lparr>env := e\<rparr>))"

text \<open>\<open>as i64\<close> of a count that may not fit.\<close>

definition count_i64 :: "nat option \<Rightarrow> i64" where
  "count_i64 x = (case x of Some n \<Rightarrow> word_of_nat n | None \<Rightarrow> 0)"

definition native_time_now_millis :: "'e host \<Rightarrow> 'e native" where
  "native_time_now_millis H args =
     nbind (nlift (expect_no_args args ''time_now_millis'')) (\<lambda>_.
     nbind (host_read (wall_millis H)) (\<lambda>t. nret (IntV (count_i64 t))))"

definition native_time_monotonic_nanos :: "'e host \<Rightarrow> 'e native" where
  "native_time_monotonic_nanos H args =
     nbind (nlift (expect_no_args args ''time_monotonic_nanos'')) (\<lambda>_.
     nbind (host_read (since_start H)) (\<lambda>t. nret (IntV (word_of_nat t))))"

definition native_time_sleep_millis :: "'e host \<Rightarrow> 'e native" where
  "native_time_sleep_millis H args =
     nbind (nlift (expect_one args ''time_sleep_millis'')) (\<lambda>v.
     nbind (nlift (as_int v ''time_sleep_millis'')) (\<lambda>millis.
       if sint millis > 0
       then nbind (host_read (now_instant H)) (\<lambda>now. nbind (park_timer (now + unat millis)) (\<lambda>_. nret Unit))
       else nret Unit))"

definition native_select_park :: "'e host \<Rightarrow> 'e native" where
  "native_select_park H args =
     nbind (nlift (args2 args ''select_park'')) (\<lambda>(hv, dv).
     nbind (nread (\<lambda>st. rbind (list_items st hv ''select_park'') (rmap (\<lambda>v. as_int v ''select_park'')))) (\<lambda>handles.
     nbind (nlift (as_int dv ''select_park'')) (\<lambda>deadline_millis.
     nbind (if sint deadline_millis < 0 then nret None
            else
              nbind (host_read (wall_millis H)) (\<lambda>t.
              nbind (host_read (now_instant H)) (\<lambda>now.
                nret (Some (now + nat (max (sint (deadline_millis - count_i64 t)) 0)))))) (\<lambda>deadline.
     nbind (park_multi deadline handles) (\<lambda>_. nret Unit)))))"

definition splitmix64_mix :: "u64 \<Rightarrow> u64" where
  "splitmix64_mix z =
     (let z = (z XOR drop_bit 30 z) * 0xBF58476D1CE4E5B9;
          z = (z XOR drop_bit 27 z) * 0x94D049BB133111EB
      in z XOR drop_bit 31 z)"

definition native_random_seed_entropy :: "'e host \<Rightarrow> 'e native" where
  "native_random_seed_entropy H args =
     nbind (nlift (expect_no_args args ''random_seed_entropy'')) (\<lambda>_.
     nbind (host_read (wall_nanos H)) (\<lambda>nanos.
     nbind (host_update (\<lambda>e. (seed_counter H e, set_seed_counter H (seed_counter H e + 1) e))) (\<lambda>n.
       nret (IntV (splitmix64_mix (count_i64 nanos + n * 0x9E3779B97F4A7C15))))))"

definition native_env_get :: "'e host \<Rightarrow> layout \<Rightarrow> 'e native" where
  "native_env_get H L args =
     nbind (nlift (expect_one args ''env_get'')) (\<lambda>v.
     nbind (nread (\<lambda>st. str_contents st v)) (\<lambda>name.
     nbind (host_read (env_var H name)) (\<lambda>r.
       case r of
         Some s \<Rightarrow> nbind (new_str L s) (some_val L)
       | None \<Rightarrow> none_val L)))"

definition native_env_set :: "'e host \<Rightarrow> 'e native" where
  "native_env_set H args =
     nbind (nlift (args2 args ''env_set'')) (\<lambda>(nv, tv).
     nbind (nread (\<lambda>st. str_contents st nv)) (\<lambda>name.
     nbind (nread (\<lambda>st. str_contents st tv)) (\<lambda>txt.
       (\<lambda>w. case set_var H name txt (env w) of
               None \<Rightarrow> (Err Panic, w)
             | Some e \<Rightarrow> (Ok Unit, w\<lparr>env := e\<rparr>)))))"

definition native_env_vars :: "'e host \<Rightarrow> layout \<Rightarrow> 'e native" where
  "native_env_vars H L args =
     nbind (nlift (expect_no_args args ''env_vars'')) (\<lambda>_.
     nbind (host_read (env_vars H)) (\<lambda>vars.
     nbind (nmap (\<lambda>(k, t). nbind (new_str L k) (\<lambda>kv. nbind (new_str L t) (\<lambda>tv. nret (kv, tv)))) vars) (\<lambda>pairs.
     nbind (nread (\<lambda>st. or_panic (from_pairs (values_eq st) (hash_value st) pairs))) (\<lambda>m. heap_alloc L (Map m)))))"

definition native_env_args :: "'e host \<Rightarrow> layout \<Rightarrow> 'e native" where
  "native_env_args H L args =
     nbind (nlift (expect_no_args args ''env_args'')) (\<lambda>_.
     nbind (host_read (program_args H)) (\<lambda>argv.
       string_list L (case argv of Some xs \<Rightarrow> xs | None \<Rightarrow> [])))"

definition native_env_current_dir :: "'e host \<Rightarrow> layout \<Rightarrow> 'e native" where
  "native_env_current_dir H L args =
     nbind (nlift (expect_no_args args ''env_current_dir'')) (\<lambda>_.
     nbind (host_read (current_dir H)) (\<lambda>r.
       case r of
         Inr p \<Rightarrow> nbind (new_str L p) (ok_val L)
       | Inl e \<Rightarrow> nbind (new_str L e) (err_val L)))"

definition native_env_current_exe :: "'e host \<Rightarrow> layout \<Rightarrow> 'e native" where
  "native_env_current_exe H L args =
     nbind (nlift (expect_no_args args ''env_current_exe'')) (\<lambda>_.
     nbind (host_read (current_exe H)) (\<lambda>r.
       case r of
         Some p \<Rightarrow> nbind (new_str L p) (some_val L)
       | None \<Rightarrow> none_val L))"

definition native_env_set_current_dir :: "'e host \<Rightarrow> layout \<Rightarrow> 'e native" where
  "native_env_set_current_dir H L args =
     nbind (nlift (expect_one args ''env_set_current_dir'')) (\<lambda>v.
     nbind (nread (\<lambda>st. str_contents st v)) (\<lambda>path.
     nbind (host_update (set_current_dir H path)) (\<lambda>r.
       case r of
         Inr _ \<Rightarrow> ok_val L Unit
       | Inl e \<Rightarrow> nbind (new_str L (path @ '': '' @ e)) (err_val L))))"

definition native_env_os :: "'e host \<Rightarrow> layout \<Rightarrow> 'e native" where
  "native_env_os H L args = nbind (nlift (expect_no_args args ''env_os'')) (\<lambda>_. new_str L (os_name H))"

text \<open>The process ends; the program gets no result.\<close>

definition native_env_exit :: "'e host \<Rightarrow> 'e native" where
  "native_env_exit H args =
     nbind (nlift (expect_one args ''env_exit'')) (\<lambda>v.
     nbind (nlift (as_int v ''env_exit'')) (\<lambda>code.
     nbind (host_update (\<lambda>e. ((), exit_process H (ucast code) e))) (\<lambda>_. nlift (Err Diverge))))"

definition native_term_is_tty :: "'e host \<Rightarrow> 'e native" where
  "native_term_is_tty H args =
     nbind (nlift (expect_no_args args ''term_is_tty'')) (\<lambda>_.
     nbind (host_read (is_terminal H)) (\<lambda>b. nret (Bool b)))"

definition native_term_size :: "'e host \<Rightarrow> layout \<Rightarrow> 'e native" where
  "native_term_size H L args =
     nbind (nlift (expect_no_args args ''term_size'')) (\<lambda>_.
     nbind (host_read (terminal_size H)) (\<lambda>r.
       case r of
         Some (cols, rows) \<Rightarrow> nbind (new_list L [IntV (ucast cols), IntV (ucast rows)]) (some_val L)
       | None \<Rightarrow> none_val L))"

section \<open>The contract\<close>

lemma nsafe_park:
  assumes "\<And>job fin. req = Await job fin \<Longrightarrow> finish_safe fin"
  shows "nsafe vs (\<lambda>w. (Ok (), w\<lparr>park_cell := Some req\<rparr>)) (\<lambda>_. [])"
  using assms by (auto simp: nsafe_def sched_rel_def cell_ok_def world_ok_def)

lemma nsafe_parks [nsafe_intros]:
  "nsafe vs park_block_retry (\<lambda>_. [])" "nsafe vs park_yield_ready (\<lambda>_. [])" "nsafe vs (park_timer t) (\<lambda>_. [])"
  "nsafe vs (park_ready h) (\<lambda>_. [])" "nsafe vs (park_multi d hs) (\<lambda>_. [])"
  unfolding park_block_retry_def park_yield_ready_def park_timer_def park_ready_def park_multi_def
  by (rule nsafe_park; simp)+

lemma nsafe_await [nsafe_intros]: "finish_safe fin \<Longrightarrow> nsafe vs (park_await job fin) (\<lambda>_. [])"
  unfolding park_await_def by (rule nsafe_park) simp

lemma nsafe_sched:
  assumes total: "\<And>s. sched_ok s \<Longrightarrow> f s \<noteq> None"
    and grows: "\<And>s x s'. f s = Some (x, s') \<Longrightarrow> core_grows s s' \<and> (sched_ok s \<longrightarrow> sched_ok s')"
    and roots: "\<And>s x s'. f s = Some (x, s') \<Longrightarrow>
      set (gather_scheduler_roots s') \<union> set (res x) \<subseteq> set (gather_scheduler_roots s) \<union> set vs"
  shows "nsafe vs (nsched f) res"
  unfolding nsafe_def
proof (intro allI impI)
  fix w r w' assume run: "nsched f w = (r, w')"
  show "length (rt_slots (mem w)) \<le> length (rt_slots (mem w')) \<and> sched_rel w w' \<and>
      (world_ok w \<and> vals_ok (rt_slots (mem w)) vs \<and> slots_fit w' \<longrightarrow>
         r \<noteq> Err Panic \<and> world_ok w' \<and> store_le (rt_slots (mem w)) (rt_slots (mem w')) \<and>
         gc_paused (mem w') = gc_paused (mem w) \<and> (\<forall>x. r = Ok x \<longrightarrow> vals_ok (rt_slots (mem w')) (res x)))"
  proof (cases "f (sched w)")
    case None
    then have "w' = w" "\<not> world_ok w" using run total [of "sched w"] by (auto simp: nsched_def world_ok_def)
    then show ?thesis by (simp add: sr.R_refl)
  next
    case (Some p)
    obtain x s' where f: "f (sched w) = Some (x, s')" using Some by (cases p) simp
    then have w': "r = Ok x" "w' = w\<lparr>sched := s'\<rparr>" using run by (simp_all add: nsched_def)
    have "sched_rel w w'" using grows [OF f] w' by (simp add: sched_rel_def cell_ok_def)
    moreover have "world_ok w' \<and> vals_ok (rt_slots (mem w')) (res x)" if "world_ok w" "vals_ok (rt_slots (mem w)) vs"
      using that grows [OF f] roots [OF f] w' by (auto simp: world_ok_def list_all_iff subset_iff)
    ultimately show ?thesis using w' by simp
  qed
qed

lemma spawn_total: "spawn c s \<noteq> None"
  by (simp add: spawn_def Let_def make_ready_def get_nth_def upd_fiber_def nth_append)

lemma nsafe_spawn:
  assumes "c \<in> set vs"
  shows "nsafe vs (sched_spawn c) (\<lambda>_. [])"
  unfolding sched_spawn_def
proof (rule nsafe_sched [OF spawn_total])
  fix s s' :: "'e scheduler" and i assume sp: "spawn c s = Some (i, s')"
  note core = spawn_core [OF sp]
  have "core_grows s s'" unfolding core_grows_def by (rule exI [of _ "[c]"]) (use core in simp)
  moreover have "sched_ok s \<longrightarrow> sched_ok s'" using spawn_ok [of s c] sp by auto
  ultimately show "core_grows s s' \<and> (sched_ok s \<longrightarrow> sched_ok s')" by blast
  show "set (gather_scheduler_roots s') \<union> set [] \<subseteq> set (gather_scheduler_roots s) \<union> set vs"
    using core assms by (auto simp: roots_split)
qed

lemma nsafe_channel_new [nsafe_intros]: "nsafe vs (sched_channel_new cap) (\<lambda>_. [])"
  unfolding sched_channel_new_def
proof (rule nsafe_sched)
  fix s s' :: "'e scheduler" and i assume "Some (channel_new cap s) = Some (i, s')"
  then have s': "s' = s\<lparr>channels := channels s @ [\<lparr>buffer = [], chan_capacity = max cap 1, closed = False\<rparr>]\<rparr>"
    by (simp add: channel_new_def)
  then show "core_grows s s' \<and> (sched_ok s \<longrightarrow> sched_ok s')"
    unfolding core_grows_def by (auto intro: exI [of _ "[]"] simp: states_def pends_def)
  show "set (gather_scheduler_roots s') \<union> set [] \<subseteq> set (gather_scheduler_roots s) \<union> set vs"
    by (simp add: s' gather_scheduler_roots_def)
qed simp

lemma nsafe_result: "nsafe vs (sched_result i) (case_option [] (\<lambda>v. [v]))"
proof -
  have "v \<in> set (gather_scheduler_roots s)" if "fiber_result i s = Some v" for v and s :: "'e scheduler"
  proof -
    have "i < length (fibers s)" "fstate (fibers s ! i) = Done v"
      using that by (auto simp: fiber_result_def get_nth_def split: if_splits fiber_state.splits)
    then show ?thesis by (force simp: gather_scheduler_roots_def fiber_roots_def in_set_conv_nth)
  qed
  then show ?thesis
    unfolding nsafe_def sched_result_def by (auto simp: sr.R_refl world_ok_def list_all_iff dest!: sym [of "Some _"] split: option.splits)
qed

lemma nsafe_host [nsafe_intros]: "nsafe vs (host_read f) (\<lambda>_. [])" "nsafe vs (host_update g) (\<lambda>_. [])"
  by (auto simp: host_read_def host_update_def nsafe_def sched_rel_def cell_ok_def world_ok_def split: prod.splits)

lemma nsafe_handles [nsafe_intros]:
  assumes "keeps vs [v]"
  shows "nsafe vs (nread (\<lambda>st. rbind (list_items st v who) (rmap (\<lambda>v. as_int v who)))) (\<lambda>_. [])"
proof (rule nsafe_read)
  fix st assume st: "store_closed st" "vals_ok st vs"
  have "rmap (\<lambda>v. as_int v who) items \<noteq> Err Panic" for items
    by (induction items) (auto simp: rbind_eq_Inl as_int_def split: "val.splits")
  moreover have "list_items st v who \<noteq> Err Panic"
    using keepsD [OF assms st(2)] by (auto simp: list_items_def rbind_eq_Inl split: "val.splits" obj.splits)
  ultimately show "safe_res (\<lambda>x. vals_ok st []) (rbind (list_items st v who) (rmap (\<lambda>v. as_int v who)))"
    by (auto simp: safe_res_def rbind_eq_Inl split: sum.splits)
qed

lemmas process_native_defs =
  native_fiber_yield_def native_channel_new_def native_time_now_millis_def
  native_time_monotonic_nanos_def native_time_sleep_millis_def native_select_park_def native_random_seed_entropy_def
  native_env_get_def native_env_args_def native_env_current_dir_def native_env_current_exe_def
  native_env_set_current_dir_def native_env_os_def native_env_exit_def native_term_is_tty_def native_term_size_def

lemma fiber_natives_ok: "native_ok native_fiber_spawn" "native_ok native_fiber_join" "native_ok native_fiber_is_done"
  unfolding native_fiber_spawn_def native_fiber_join_def native_fiber_is_done_def
  by (rule nsafe_native | (rule nsafe_spawn, simp; fail) | (rule nsafe_bind, rule nsafe_result) | rule nsafe_intros
      | (simp; fail) | (auto intro!: keeps_subset; fail))+

lemma nsafe_diverge [nsafe_intros]: "nsafe vs (nlift (Err Diverge)) res"
  by (auto intro!: nsafe_lift)

lemma process_natives_ok:
  "native_ok native_fiber_yield" "native_ok native_channel_new" "native_ok (native_time_now_millis H)"
  "native_ok (native_time_monotonic_nanos H)" "native_ok (native_time_sleep_millis H)" "native_ok (native_select_park H)"
  "native_ok (native_random_seed_entropy H)" "native_ok (native_env_get H L)" "native_ok (native_env_args H L)"
  "native_ok (native_env_current_dir H L)" "native_ok (native_env_current_exe H L)"
  "native_ok (native_env_set_current_dir H L)" "native_ok (native_env_os H L)" "native_ok (native_env_exit H)" "native_ok (native_term_is_tty H)"
  "native_ok (native_term_size H L)"
  by (unfold process_native_defs Let_def)
    (rule nsafe_native | rule nsafe_intros | (simp; fail) | (auto; fail) | (auto intro!: keeps_subset; fail))+

section \<open>The blocking protocol\<close>

text \<open>A native that cannot go on asks to be run again and changes nothing else.\<close>

abbreviation retry :: "'e world \<Rightarrow> val res \<times> 'e world" where
  "retry w \<equiv> (Ok Unit, w\<lparr>park_cell := Some BlockRetry\<rparr>)"

lemmas fiber_runs =
  nbind_def nlift_def nret_def expect_one_def args2_def as_int_def sched_result_def sched_chan_send_def
  sched_chan_receive_def sched_chan_close_def sched_chan_ready_def nsched_def park_block_retry_def

lemma native_fiber_join_eq:
  "native_fiber_join [IntV n] w = (case fiber_result (unat n) (sched w) of Some v \<Rightarrow> (Ok v, w) | None \<Rightarrow> retry w)"
  by (simp add: native_fiber_join_def fiber_runs split: option.splits)

lemma native_fiber_is_done_eq: "native_fiber_is_done [IntV n] w = (Ok (Bool (fiber_result (unat n) (sched w) \<noteq> None)), w)"
  by (simp add: native_fiber_is_done_def fiber_runs)

lemma native_chan_is_ready_eq:
  "unat n < length (channels (sched w)) \<Longrightarrow>
     native_chan_is_ready [IntV n] w =
       (Ok (Bool (buffer (channels (sched w) ! unat n) \<noteq> [] \<or> closed (channels (sched w) ! unat n))), w)"
  by (simp add: native_chan_is_ready_def fiber_runs chan_ready_def get_nth_def)

lemma native_channel_send_eq:
  assumes "sched_ok (sched w)" "unat n < length (channels (sched w))"
  obtains s where "sched_ok s"
    "channels s = (channels (sched w))[unat n := (channels (sched w) ! unat n)\<lparr>buffer := buffer (channels (sched w) ! unat n) @ [v]\<rparr>]"
    "native_channel_send [IntV n, v] w =
       (if closed (channels (sched w) ! unat n) then (Err (Trap ClosedChannel), w)
        else if length (buffer (channels (sched w) ! unat n)) < chan_capacity (channels (sched w) ! unat n)
        then (Ok Unit, w\<lparr>sched := s\<rparr>)
        else retry w)"
proof -
  let ?ch = "channels (sched w) ! unat n"
  let ?s = "(sched w)\<lparr>channels := (channels (sched w))[unat n := ?ch\<lparr>buffer := buffer ?ch @ [v]\<rparr>]\<rparr>"
  obtain s where s: "wake_all ?s = Some s" "sched_ok s" using wake_all_ok [of ?s] assms(1) by auto
  then have "channels s = channels ?s" using wake_all_core [of ?s s] by (simp add: same_core_def)
  then show ?thesis
    using s assms(2) by (intro that [of s]) (simp_all add: native_channel_send_def fiber_runs chan_send_def get_nth_def)
qed

lemma native_channel_receive_eq:
  assumes "sched_ok (sched w)" "unat n < length (channels (sched w))"
  obtains s where "sched_ok s"
    "channels s = (channels (sched w))[unat n := (channels (sched w) ! unat n)\<lparr>buffer := tl (buffer (channels (sched w) ! unat n))\<rparr>]"
    "native_channel_receive L [IntV n] w =
       (case buffer (channels (sched w) ! unat n) of
          v # rest \<Rightarrow> some_val L v (w\<lparr>sched := s\<rparr>)
        | [] \<Rightarrow> if closed (channels (sched w) ! unat n) then none_val L w else retry w)"
proof -
  let ?ch = "channels (sched w) ! unat n"
  let ?s = "(sched w)\<lparr>channels := (channels (sched w))[unat n := ?ch\<lparr>buffer := tl (buffer ?ch)\<rparr>]\<rparr>"
  obtain s where s: "wake_all ?s = Some s" "sched_ok s" using wake_all_ok [of ?s] assms(1) by auto
  then have "channels s = channels ?s" using wake_all_core [of ?s s] by (simp add: same_core_def)
  then show ?thesis
    using s assms(2)
    by (intro that [of s])
      (cases "buffer ?ch"; simp add: native_channel_receive_def fiber_runs chan_receive_def get_nth_def)+
qed

text \<open>The call of a native that asks to be run again leaves the operands on the stack and steps back to the call.\<close>

lemma run_native_retry:
  assumes "unat argc \<le> length (vstack s)" "get_nth (natives c) (unat k) = Some f"
    and "f (drop (length (vstack s) - unat argc) (vstack s)) (world s) = retry w"
  shows "run_native c fr k argc s =
    (Ok (Exit (Parked BlockRetry)), s\<lparr>world := w\<lparr>park_cell := None\<rparr>, frames := frames s @ [fr\<lparr>pc := pc fr - 1\<rparr>]\<rparr>)"
  using assms by (simp add: run_native_def Let_def)

section \<open>Seeds\<close>

lemma xorshift_inject:
  fixes x y :: u64
  assumes "0 < k" "x XOR drop_bit k x = y XOR drop_bit k y"
  shows "x = y"
proof (rule bit_word_eqI)
  fix n assume "n < LENGTH(64)"
  show "bit x n = bit y n"
  proof (induction "64 - n" arbitrary: n rule: less_induct)
    case less
    have "bit x (k + n) = bit y (k + n)"
    proof (cases "n < 64")
      case True
      then show ?thesis using less [of "k + n"] assms(1) by simp
    next
      case False
      then show ?thesis by (auto dest: bit_imp_le_length)
    qed
    moreover have "bit (x XOR drop_bit k x) n = bit (y XOR drop_bit k y) n" using assms(2) by simp
    ultimately show ?case by (auto simp: bit_xor_iff bit_drop_bit_eq)
  qed
qed

lemma mult_inject:
  fixes x y c d :: u64
  assumes "c * d = 1" "x * c = y * c"
  shows "x = y"
proof -
  have "x = x * c * d" "y = y * c * d" using assms(1) by (simp_all add: mult.assoc)
  then show ?thesis using assms(2) by metis
qed

lemma splitmix64_inject:
  assumes "splitmix64_mix x = splitmix64_mix y"
  shows "x = y"
proof -
  define f g where "f = (\<lambda>z :: u64. z XOR drop_bit 30 z)" and "g = (\<lambda>z :: u64. z XOR drop_bit 27 z)"
  define c d where "c = (0xBF58476D1CE4E5B9 :: u64)" and "d = (0x94D049BB133111EB :: u64)"
  have mix: "splitmix64_mix z = (let u = g (f z * c) * d in u XOR drop_bit 31 u)" for z
    by (simp add: splitmix64_mix_def f_def g_def c_def d_def Let_def)
  have inv: "c * 0x96DE1B173F119089 = 1" "d * 0x319642B2D24D8EC3 = 1" by (simp_all add: c_def d_def)
  have "g (f x * c) * d = g (f y * c) * d"
    using assms unfolding mix Let_def by (rule xorshift_inject [rotated]) simp
  then have "g (f x * c) = g (f y * c)" by (rule mult_inject [OF inv(2)])
  then have "f x * c = f y * c" unfolding g_def by (rule xorshift_inject [rotated]) simp
  then have "f x = f y" by (rule mult_inject [OF inv(1)])
  then show ?thesis unfolding f_def by (rule xorshift_inject [rotated]) simp
qed

end
