(* ===== verification/NativeFs.thy ===== *)
theory NativeFs
  imports NativeFiber
begin

text \<open>
  The natives that run a blocking system call on the worker pool (\<^verbatim>\<open>runtime/src/interp/natives.rs\<close>): the file
  system by path, and standard input. The native parks its fiber with the call and a function that builds the
  result from what the call answered; the driver delivers that result. The calls and the way their answers are
  carried are parameters. Text that the worker makes of an answer before it posts it is made here when the result
  is built.
\<close>

section \<open>System calls and their answers\<close>

datatype io_kind =
    NotFound | PermissionDenied | AlreadyExists | NotADirectory | IsADirectory
  | ConnectionRefused | ConnectionReset | ConnectionAborted | BrokenPipe | AddrInUse | AddrNotAvailable
  | TimedOut | NotConnected | WouldBlock | UnexpectedEof | WriteZero | OtherKind

record io_error =
  err_kind :: io_kind
  err_text :: string

record metadata =
  meta_symlink :: bool
  meta_dir :: bool
  meta_file :: bool
  meta_len :: u64
  meta_modified :: "nat option"

datatype syscall =
    ReadToString string
  | WriteFile string "u8 list"
  | ReadFile string
  | ReadDirNames string
  | ReadDirKinds string
  | StatPath string
  | LstatPath string
  | CreateDir string
  | CreateDirAll string
  | RemovePath string
  | RemoveDirAll string
  | RenamePath string string
  | CopyFile string string
  | ReadStdin nat

text \<open>The kind a directory read reports for an entry, when it can.\<close>

datatype dirent_kind = KSymlink | KDir | KFile | KOther

text \<open>How a job is posted and what its payload holds. A payload is the answer of the job it was posted for, so reading
  it at the job's type does not fail.\<close>

record 'e io_abi =
  job_of :: "syscall \<Rightarrow> 'e"
  unit_of :: "'e \<Rightarrow> io_error + unit"
  text_of :: "'e \<Rightarrow> io_error + string"
  data_of :: "'e \<Rightarrow> io_error + u8 list"
  dirents_of :: "'e \<Rightarrow> io_error + (dirent_kind option \<times> u8 list) list"
  meta_of :: "'e \<Rightarrow> io_error + metadata"

text \<open>The function that builds the result sees the heap and the outside.\<close>

definition heap_world :: "rt \<Rightarrow> 'e \<Rightarrow> 'e world" where
  "heap_world m e =
     \<lparr>mem = m, sched = sched_new, park_cell = None, out = [], err_out = [], capture = [], jobs = [], env = e\<rparr>"

definition finish_with :: "('e \<Rightarrow> 'a) \<Rightarrow> ('a \<Rightarrow> ('e, val) eff) \<Rightarrow> 'e io_finish" where
  "finish_with view build p m e = (let (r, w) = build (view p) (heap_world m e) in (r, mem w, env w))"

definition park_syscall :: "'e \<Rightarrow> ('e \<Rightarrow> 'a) \<Rightarrow> ('a \<Rightarrow> ('e, val) eff) \<Rightarrow> ('e, unit) eff" where
  "park_syscall job view build = park_await job (finish_with view build)"

section \<open>Results\<close>

definition kind_name :: "io_kind \<Rightarrow> string" where
  "kind_name k =
     (case k of
        NotFound \<Rightarrow> ''not_found''
      | PermissionDenied \<Rightarrow> ''permission_denied''
      | AlreadyExists \<Rightarrow> ''already_exists''
      | NotADirectory \<Rightarrow> ''not_a_directory''
      | IsADirectory \<Rightarrow> ''is_a_directory''
      | _ \<Rightarrow> ''other'')"

definition SEP :: char where "SEP = CHR 0x01"

definition fs_err :: "layout \<Rightarrow> string \<Rightarrow> io_error \<Rightarrow> ('e, val) eff" where
  "fs_err L path e = nbind (new_str L (kind_name (err_kind e) @ [SEP] @ path @ '': '' @ err_text e)) (err_val L)"

text \<open>\<open>match res { Ok(x) => ok(x), Err(e) => fs_err(path, e) }\<close>.\<close>

definition fs_result :: "layout \<Rightarrow> string \<Rightarrow> ('a \<Rightarrow> ('e, val) eff) \<Rightarrow> io_error + 'a \<Rightarrow> ('e, val) eff" where
  "fs_result L path good res = (case res of Inr x \<Rightarrow> good x | Inl e \<Rightarrow> fs_err L path e)"

definition metadata_fields :: "layout \<Rightarrow> metadata \<Rightarrow> ('e, val) eff" where
  "metadata_fields L m =
     (let kind = if meta_symlink m then 2 else if meta_dir m then 1 else if meta_file m then 0 else 3
      in new_list L [IntV kind, IntV (meta_len m), IntV (count_i64 (meta_modified m))])"

section \<open>Natives\<close>

definition native_fs_read_text :: "'e io_abi \<Rightarrow> layout \<Rightarrow> 'e native" where
  "native_fs_read_text A L args =
     nbind (nlift (expect_one args ''fs_read_text'')) (\<lambda>v.
     nbind (nread (\<lambda>st. str_contents st v)) (\<lambda>path.
     nbind (park_syscall (job_of A (ReadToString path)) (text_of A)
       (fs_result L path (\<lambda>s. nbind (new_str L s) (ok_val L)))) (\<lambda>_. nret Unit)))"

definition native_fs_write_text :: "'e io_abi \<Rightarrow> layout \<Rightarrow> 'e native" where
  "native_fs_write_text A L args =
     nbind (nlift (args2 args ''fs_write_text'')) (\<lambda>(pv, cv).
     nbind (nread (\<lambda>st. str_contents st pv)) (\<lambda>path.
     nbind (nread (\<lambda>st. str_contents st cv)) (\<lambda>contents.
     nbind (park_syscall (job_of A (WriteFile path (as_bytes contents))) (unit_of A)
       (fs_result L path (\<lambda>_. ok_val L Unit))) (\<lambda>_. nret Unit))))"

definition native_fs_read_bytes :: "'e io_abi \<Rightarrow> layout \<Rightarrow> 'e native" where
  "native_fs_read_bytes A L args =
     nbind (nlift (expect_one args ''fs_read_bytes'')) (\<lambda>v.
     nbind (nread (\<lambda>st. str_contents st v)) (\<lambda>path.
     nbind (park_syscall (job_of A (ReadFile path)) (data_of A)
       (fs_result L path (\<lambda>b. nbind (new_bytes L b) (ok_val L)))) (\<lambda>_. nret Unit)))"

definition native_fs_write_bytes :: "'e io_abi \<Rightarrow> layout \<Rightarrow> 'e native" where
  "native_fs_write_bytes A L args =
     nbind (nlift (args2 args ''fs_write_bytes'')) (\<lambda>(pv, dv).
     nbind (nread (\<lambda>st. str_contents st pv)) (\<lambda>path.
     nbind (nread (\<lambda>st. bytes_contents st dv ''fs_write_bytes'')) (\<lambda>d.
     nbind (park_syscall (job_of A (WriteFile path d)) (unit_of A)
       (fs_result L path (\<lambda>_. ok_val L Unit))) (\<lambda>_. nret Unit))))"

definition native_fs_exists :: "(string \<Rightarrow> 'e \<Rightarrow> bool) \<Rightarrow> 'e native" where
  "native_fs_exists path_exists args =
     nbind (nlift (expect_one args ''fs_exists'')) (\<lambda>v.
     nbind (nread (\<lambda>st. str_contents st v)) (\<lambda>path.
     nbind (host_read (path_exists path)) (\<lambda>b. nret (Bool b))))"

definition native_fs_list_dir :: "'e io_abi \<Rightarrow> layout \<Rightarrow> 'e native" where
  "native_fs_list_dir A L args =
     nbind (nlift (expect_one args ''fs_list_dir'')) (\<lambda>v.
     nbind (nread (\<lambda>st. str_contents st v)) (\<lambda>path.
     nbind (park_syscall (job_of A (ReadDirNames path)) (dirents_of A)
       (fs_result L path (\<lambda>es. nbind (string_list L (map (from_utf8_lossy \<circ> snd) es)) (ok_val L)))) (\<lambda>_. nret Unit)))"

definition dirent_string :: "dirent_kind option \<times> u8 list \<Rightarrow> string" where
  "dirent_string e =
     (let kind = (case fst e of Some KSymlink \<Rightarrow> ''2'' | Some KDir \<Rightarrow> ''1'' | Some KFile \<Rightarrow> ''0'' | _ \<Rightarrow> ''3'')
      in kind @ [SEP] @ from_utf8_lossy (snd e))"

definition native_fs_read_dir :: "'e io_abi \<Rightarrow> layout \<Rightarrow> 'e native" where
  "native_fs_read_dir A L args =
     nbind (nlift (expect_one args ''fs_read_dir'')) (\<lambda>v.
     nbind (nread (\<lambda>st. str_contents st v)) (\<lambda>path.
     nbind (park_syscall (job_of A (ReadDirKinds path)) (dirents_of A)
       (fs_result L path (\<lambda>es. nbind (string_list L (map dirent_string es)) (ok_val L)))) (\<lambda>_. nret Unit)))"

definition native_fs_metadata :: "'e io_abi \<Rightarrow> layout \<Rightarrow> 'e native" where
  "native_fs_metadata A L args =
     nbind (nlift (expect_one args ''fs_metadata'')) (\<lambda>v.
     nbind (nread (\<lambda>st. str_contents st v)) (\<lambda>path.
     nbind (park_syscall (job_of A (StatPath path)) (meta_of A)
       (fs_result L path (\<lambda>m. nbind (metadata_fields L m) (ok_val L)))) (\<lambda>_. nret Unit)))"

definition native_fs_symlink_metadata :: "'e io_abi \<Rightarrow> layout \<Rightarrow> 'e native" where
  "native_fs_symlink_metadata A L args =
     nbind (nlift (expect_one args ''fs_symlink_metadata'')) (\<lambda>v.
     nbind (nread (\<lambda>st. str_contents st v)) (\<lambda>path.
     nbind (park_syscall (job_of A (LstatPath path)) (meta_of A)
       (fs_result L path (\<lambda>m. nbind (metadata_fields L m) (ok_val L)))) (\<lambda>_. nret Unit)))"

definition native_fs_create_dir :: "'e io_abi \<Rightarrow> layout \<Rightarrow> 'e native" where
  "native_fs_create_dir A L args =
     nbind (nlift (expect_one args ''fs_create_dir'')) (\<lambda>v.
     nbind (nread (\<lambda>st. str_contents st v)) (\<lambda>path.
     nbind (park_syscall (job_of A (CreateDir path)) (unit_of A)
       (fs_result L path (\<lambda>_. ok_val L Unit))) (\<lambda>_. nret Unit)))"

definition native_fs_create_dir_all :: "'e io_abi \<Rightarrow> layout \<Rightarrow> 'e native" where
  "native_fs_create_dir_all A L args =
     nbind (nlift (expect_one args ''fs_create_dir_all'')) (\<lambda>v.
     nbind (nread (\<lambda>st. str_contents st v)) (\<lambda>path.
     nbind (park_syscall (job_of A (CreateDirAll path)) (unit_of A)
       (fs_result L path (\<lambda>_. ok_val L Unit))) (\<lambda>_. nret Unit)))"

definition native_fs_remove :: "'e io_abi \<Rightarrow> layout \<Rightarrow> 'e native" where
  "native_fs_remove A L args =
     nbind (nlift (expect_one args ''fs_remove'')) (\<lambda>v.
     nbind (nread (\<lambda>st. str_contents st v)) (\<lambda>path.
     nbind (park_syscall (job_of A (RemovePath path)) (unit_of A)
       (fs_result L path (\<lambda>_. ok_val L Unit))) (\<lambda>_. nret Unit)))"

definition native_fs_remove_dir_all :: "'e io_abi \<Rightarrow> layout \<Rightarrow> 'e native" where
  "native_fs_remove_dir_all A L args =
     nbind (nlift (expect_one args ''fs_remove_dir_all'')) (\<lambda>v.
     nbind (nread (\<lambda>st. str_contents st v)) (\<lambda>path.
     nbind (park_syscall (job_of A (RemoveDirAll path)) (unit_of A)
       (fs_result L path (\<lambda>_. ok_val L Unit))) (\<lambda>_. nret Unit)))"

definition native_fs_rename :: "'e io_abi \<Rightarrow> layout \<Rightarrow> 'e native" where
  "native_fs_rename A L args =
     nbind (nlift (args2 args ''fs_rename'')) (\<lambda>(sv, dv).
     nbind (nread (\<lambda>st. str_contents st sv)) (\<lambda>src.
     nbind (nread (\<lambda>st. str_contents st dv)) (\<lambda>dst.
     nbind (park_syscall (job_of A (RenamePath src dst)) (unit_of A)
       (fs_result L src (\<lambda>_. ok_val L Unit))) (\<lambda>_. nret Unit))))"

definition native_fs_copy :: "'e io_abi \<Rightarrow> layout \<Rightarrow> 'e native" where
  "native_fs_copy A L args =
     nbind (nlift (args2 args ''fs_copy'')) (\<lambda>(sv, dv).
     nbind (nread (\<lambda>st. str_contents st sv)) (\<lambda>src.
     nbind (nread (\<lambda>st. str_contents st dv)) (\<lambda>dst.
     nbind (park_syscall (job_of A (CopyFile src dst)) (unit_of A)
       (fs_result L src (\<lambda>_. ok_val L Unit))) (\<lambda>_. nret Unit))))"

definition native_fs_temp_dir :: "('e \<Rightarrow> u8 list) \<Rightarrow> layout \<Rightarrow> 'e native" where
  "native_fs_temp_dir temp_dir L args = nbind (host_read temp_dir) (\<lambda>p. new_str L (from_utf8_lossy p))"

definition native_io_stdin_read :: "'e io_abi \<Rightarrow> layout \<Rightarrow> 'e native" where
  "native_io_stdin_read A L args =
     nbind (nlift (expect_one args ''io_stdin_read'')) (\<lambda>v.
     nbind (nlift (as_int v ''io_stdin_read'')) (\<lambda>m.
     nbind (park_syscall (job_of A (ReadStdin (nat (max (sint m) 0)))) (data_of A)
       (\<lambda>res. case res of
          Inr b \<Rightarrow> nbind (new_bytes L b) (ok_val L)
        | Inl e \<Rightarrow> nbind (new_str L (''stdin: '' @ err_text e)) (err_val L))) (\<lambda>_. nret Unit)))"

section \<open>The contract\<close>

lemma sched_new_roots [simp]: "gather_scheduler_roots sched_new = []"
  by (simp add: gather_scheduler_roots_def sched_new_def)

lemma finish_safeI:
  assumes "\<And>x. nsafe [] (build x) (\<lambda>v. [v])"
  shows "finish_safe (finish_with view build)"
  unfolding finish_safe_def
proof (intro allI impI)
  fix p m e r m' e' assume run: "finish_with view build p m e = (r, m', e')"
  obtain w where w: "build (view p) (heap_world m e) = (r, w)" "m' = mem w"
    using run by (auto simp: finish_with_def split: prod.splits)
  note D = nsafeD [OF assms w(1)]
  have "heap_ok m \<Longrightarrow> world_ok (heap_world m e)" by (simp add: world_ok_def heap_world_def sched_new_ok)
  then show "length (rt_slots m) \<le> length (rt_slots m') \<and>
      (heap_ok m \<and> length (rt_slots m') \<le> 2 ^ 32 \<longrightarrow>
         r \<noteq> Err Panic \<and> heap_ok m' \<and> store_le (rt_slots m) (rt_slots m') \<and>
         gc_paused m' = gc_paused m \<and> (\<forall>v. r = Ok v \<longrightarrow> valid_val (rt_slots m') v))"
    using D w(2) by (auto simp: slots_fit_def heap_world_def world_ok_def)
qed

lemma nsafe_syscall [nsafe_intros]:
  "(\<And>x. nsafe [] (build x) (\<lambda>v. [v])) \<Longrightarrow> nsafe vs (park_syscall job view build) (\<lambda>_. [])"
  unfolding park_syscall_def by (intro nsafe_await finish_safeI)

lemma nsafe_fs_result [nsafe_intros]:
  "(\<And>x. nsafe vs (good x) (\<lambda>v. [v])) \<Longrightarrow> nsafe vs (fs_result L path good res) (\<lambda>v. [v])"
  by (cases res) (auto simp: fs_result_def fs_err_def intro!: nsafe_bind [OF nsafe_alloc] nsafe_enums)

lemmas fs_native_defs =
  native_fs_read_text_def native_fs_write_text_def native_fs_read_bytes_def native_fs_write_bytes_def
  native_fs_exists_def native_fs_list_dir_def native_fs_read_dir_def native_fs_metadata_def
  native_fs_symlink_metadata_def native_fs_create_dir_def native_fs_create_dir_all_def native_fs_remove_def
  native_fs_remove_dir_all_def native_fs_rename_def native_fs_copy_def native_fs_temp_dir_def native_io_stdin_read_def

lemma fs_natives_ok:
  "native_ok (native_fs_read_text A L)" "native_ok (native_fs_write_text A L)" "native_ok (native_fs_read_bytes A L)"
  "native_ok (native_fs_write_bytes A L)" "native_ok (native_fs_exists ex)" "native_ok (native_fs_list_dir A L)"
  "native_ok (native_fs_read_dir A L)" "native_ok (native_fs_metadata A L)" "native_ok (native_fs_symlink_metadata A L)"
  "native_ok (native_fs_create_dir A L)" "native_ok (native_fs_create_dir_all A L)" "native_ok (native_fs_remove A L)"
  "native_ok (native_fs_remove_dir_all A L)" "native_ok (native_fs_rename A L)" "native_ok (native_fs_copy A L)"
  "native_ok (native_fs_temp_dir td L)" "native_ok (native_io_stdin_read A L)"
  by (unfold fs_native_defs metadata_fields_def Let_def)
    (rule nsafe_native | rule nsafe_intros | (simp; fail) | (auto; fail) | (auto intro!: keeps_subset; fail))+

section \<open>What is delivered\<close>

text \<open>The reader of an error splits its text at the first separator.\<close>

lemma kind_name_sep: "SEP \<notin> set (kind_name k)"
  by (cases k) (simp_all add: kind_name_def SEP_def)

lemma find_sub_single: "c \<notin> set a \<Longrightarrow> find_sub [c] (a @ [c] @ b) = Some (a, b)"
  by (induction a) (subst find_sub.simps; simp)+

lemma heap_alloc_at:
  assumes "heap_alloc L obj w = (r, w')" "heap_ok (mem w)" "vals_ok (rt_slots (mem w)) (child_values obj)" "slots_fit w'"
  obtains h where "r = Ok (Ref h)" "heap_ok (mem w')" "lookup (rt_slots (mem w)) h = None"
    "\<And>k. lookup (rt_slots (mem w')) k = (if k = h then Some obj else lookup (rt_slots (mem w)) k)"
proof -
  have "room (mem w)"
    using assms(1,4) by (auto simp: slots_fit_def room_def heap_alloc_def alloc_def Let_def split: if_splits)
  then show ?thesis
    by (rule heap_ok_alloc [OF assms(2) _ assms(3), of L]) (use assms(1) that in \<open>auto simp: heap_alloc_def\<close>)
qed

lemma alloc_boxed:
  assumes "nbind (heap_alloc L obj) (\<lambda>v. new_enum L ty tag [v]) w = (r, w')" "heap_ok (mem w)"
    and "vals_ok (rt_slots (mem w)) (child_values obj)" "slots_fit w'"
  shows "\<exists>h q. r = Ok (Ref h) \<and>
    lookup (rt_slots (mem w')) h = Some (Enum \<lparr>enum_ty = ty, enum_variant = tag, enum_fields = [Ref q]\<rparr>) \<and>
    lookup (rt_slots (mem w')) q = Some obj"
proof -
  obtain r1 w1 where 1: "heap_alloc L obj w = (r1, w1)" by fastforce
  then obtain v where v: "r1 = Ok v" by (auto simp: heap_alloc_def split: prod.splits)
  have 2: "heap_alloc L (Enum \<lparr>enum_ty = ty, enum_variant = tag, enum_fields = [v]\<rparr>) w1 = (r, w')"
    using assms(1) 1 v by (simp add: nbind_def new_enum_def)
  have fit: "slots_fit w1" using alloc_world(1) [OF 2] assms(4) by (simp add: slots_fit_def)
  obtain q where q: "r1 = Ok (Ref q)" "heap_ok (mem w1)" "\<And>k. lookup (rt_slots (mem w1)) k = (if k = q then Some obj else lookup (rt_slots (mem w)) k)"
    by (rule heap_alloc_at [OF 1 assms(2,3) fit]) blast
  show ?thesis
    by (rule heap_alloc_at [OF 2 q(2) _ assms(4)]) (use q v in auto)
qed

text \<open>A result carries its text one handle away, behind the tag of the outcome.\<close>

definition holds_text :: "store \<Rightarrow> val \<Rightarrow> u16 \<Rightarrow> string \<Rightarrow> bool" where
  "holds_text st v tag t \<longleftrightarrow>
     (\<exists>h q. v = Ref h \<and> lookup st h = Some (Enum \<lparr>enum_ty = TY_RESULT, enum_variant = tag, enum_fields = [Ref q]\<rparr>) \<and>
        lookup st q = Some (Str t))"

lemma text_result:
  assumes "nbind (new_str L t) (\<lambda>v. new_enum L TY_RESULT tag [v]) w = (r, w')" "heap_ok (mem w)" "slots_fit w'"
  shows "\<exists>v. r = Ok v \<and> holds_text (rt_slots (mem w')) v tag t"
  using alloc_boxed [OF assms(1,2) _ assms(3)] by (auto simp: holds_text_def)

lemma ok_val_eta: "ok_val L = (\<lambda>v. new_enum L TY_RESULT TAG_OK [v])" "err_val L = (\<lambda>v. new_enum L TY_RESULT TAG_ERR [v])"
  by (simp_all add: fun_eq_iff ok_val_def err_val_def)

lemma fs_read_text_delivers:
  assumes "lookup (rt_slots (mem w)) k = Some (Str path)"
  obtains fin where
    "native_fs_read_text A L [Ref k] w = (Ok Unit, w\<lparr>park_cell := Some (Await (job_of A (ReadToString path)) fin)\<rparr>)"
    "\<And>p m q r m' q'. fin p m q = (r, m', q') \<Longrightarrow> heap_ok m \<Longrightarrow> length (rt_slots m') \<le> 2 ^ 32 \<Longrightarrow>
       \<exists>v t. r = Ok v \<and>
         (case text_of A p of
            Inr s \<Rightarrow> holds_text (rt_slots m') v TAG_OK s
          | Inl e \<Rightarrow> holds_text (rt_slots m') v TAG_ERR t \<and>
              find_sub [SEP] t = Some (kind_name (err_kind e), path @ '': '' @ err_text e))"
proof -
  let ?build = "fs_result L path (\<lambda>s. nbind (new_str L s) (ok_val L)) :: _ \<Rightarrow> ('a, val) eff"
  show ?thesis
  proof (rule that [of "finish_with (text_of A) ?build"])
    show "native_fs_read_text A L [Ref k] w =
        (Ok Unit, w\<lparr>park_cell := Some (Await (job_of A (ReadToString path)) (finish_with (text_of A) ?build))\<rparr>)"
      using assms
      by (simp add: native_fs_read_text_def nbind_def nlift_def expect_one_def nread_def str_contents_def park_syscall_def
          park_await_def nret_def)
  next
    fix p m q r m' q' assume run: "finish_with (text_of A) ?build p m q = (r, m', q')" and m: "heap_ok m" "length (rt_slots m') \<le> 2 ^ 32"
    obtain w' where w': "?build (text_of A p) (heap_world m q) = (r, w')" "m' = mem w'"
      using run by (auto simp: finish_with_def split: prod.splits)
    have hw: "heap_ok (mem (heap_world m q))" "slots_fit w'" using m w'(2) by (simp_all add: heap_world_def slots_fit_def)
    show "\<exists>v t. r = Ok v \<and>
         (case text_of A p of
            Inr s \<Rightarrow> holds_text (rt_slots m') v TAG_OK s
          | Inl e \<Rightarrow> holds_text (rt_slots m') v TAG_ERR t \<and>
              find_sub [SEP] t = Some (kind_name (err_kind e), path @ '': '' @ err_text e))"
    proof (cases "text_of A p")
      case (Inl e)
      let ?t = "kind_name (err_kind e) @ [SEP] @ path @ '': '' @ err_text e"
      have run: "nbind (new_str L ?t) (\<lambda>v. new_enum L TY_RESULT TAG_ERR [v]) (heap_world m q) = (r, w')"
        using w'(1) Inl by (simp add: fs_result_def fs_err_def ok_val_eta)
      obtain v where "r = Ok v" "holds_text (rt_slots (mem w')) v TAG_ERR ?t" using text_result [OF run hw] by blast
      then show ?thesis
        using find_sub_single [OF kind_name_sep, of "err_kind e" "path @ '': '' @ err_text e"] Inl w'(2)
        by (intro exI [of _ v] exI [of _ ?t]) simp
    next
      case (Inr s)
      then show ?thesis
        using w' text_result [OF _ hw, of L s TAG_OK r] by (auto simp: fs_result_def ok_val_eta)
    qed
  qed
qed

end
