(* ===== verification/Registry.thy ===== *)
theory Registry
  imports NativeFs
begin

text \<open>
  Handle registries. Open files, child processes, compiled patterns and sockets live in tables of
  \<^verbatim>\<open>runtime/src/interp/natives.rs\<close> and programs hold integer handles: a counter that is only ever incremented and
  a hash map. The locale \<open>handle_table\<close> is what the natives rely on.
\<close>

section \<open>The table\<close>

record 'a registry =
  next_id :: i64
  handles :: "i64 \<rightharpoonup> 'a"

definition reg_init :: "'a registry" where
  "reg_init = \<lparr>next_id = 1, handles = Map.empty\<rparr>"

text \<open>\<open>NEXT_ID.fetch_add(1)\<close> and \<open>insert\<close>.\<close>

definition reg_add :: "'a \<Rightarrow> 'a registry \<Rightarrow> i64 \<times> 'a registry" where
  "reg_add x r = (next_id r, \<lparr>next_id = next_id r + 1, handles = (handles r)(next_id r \<mapsto> x)\<rparr>)"

definition reg_take :: "i64 \<Rightarrow> 'a registry \<Rightarrow> 'a option \<times> 'a registry" where
  "reg_take h r = (handles r h, r\<lparr>handles := (handles r)(h := None)\<rparr>)"

definition reg_put :: "i64 \<Rightarrow> 'a \<Rightarrow> 'a registry \<Rightarrow> 'a registry" where
  "reg_put h x r = r\<lparr>handles := (handles r)(h \<mapsto> x)\<rparr>"

text \<open>\<open>get_mut\<close>: a missing handle changes nothing.\<close>

definition reg_update :: "i64 \<Rightarrow> ('a \<Rightarrow> 'b \<times> 'a) \<Rightarrow> 'a registry \<Rightarrow> 'b option \<times> 'a registry" where
  "reg_update h f r =
     (case handles r h of
        None \<Rightarrow> (None, r)
      | Some x \<Rightarrow> (let (y, x') = f x in (Some y, reg_put h x' r)))"

text \<open>Handles are positive and below the counter; the counter has not reached the end of its range.\<close>

definition reg_ok :: "'a registry \<Rightarrow> bool" where
  "reg_ok r \<longleftrightarrow> 0 < sint (next_id r) \<and> (\<forall>h. handles r h \<noteq> None \<longrightarrow> 0 < sint h \<and> sint h < sint (next_id r))"

definition reg_full :: "'a registry \<Rightarrow> bool" where
  "reg_full r \<longleftrightarrow> sint (next_id r) = 2 ^ 63 - 1"

section \<open>The contract\<close>

locale handle_table =
  fixes add :: "'a \<Rightarrow> 't \<Rightarrow> 'h \<times> 't"
    and take_out :: "'h \<Rightarrow> 't \<Rightarrow> 'a option \<times> 't"
    and put_back :: "'h \<Rightarrow> 'a \<Rightarrow> 't \<Rightarrow> 't"
    and find :: "'t \<Rightarrow> 'h \<Rightarrow> 'a option"
    and valid :: "'t \<Rightarrow> bool"
    and full :: "'t \<Rightarrow> bool"
  assumes add_fresh: "valid t \<Longrightarrow> find t (fst (add x t)) = None"
    and add_find: "find (snd (add x t)) k = (if k = fst (add x t) then Some x else find t k)"
    and add_valid: "valid t \<Longrightarrow> \<not> full t \<Longrightarrow> valid (snd (add x t))"
    and take_find: "fst (take_out h t) = find t h" "find (snd (take_out h t)) k = (if k = h then None else find t k)"
    and take_valid: "valid t \<Longrightarrow> valid (snd (take_out h t))"
    and put_find: "find (put_back h x t) k = (if k = h then Some x else find t k)"
    and full_kept: "full (snd (take_out h t)) = full t" "full (put_back h x t) = full t"
    and put_valid: "valid t \<Longrightarrow> find t h \<noteq> None \<Longrightarrow> valid (put_back h x (snd (take_out h t)))"
begin

text \<open>Taking an entry out and putting another in its place touches no other handle.\<close>

lemma take_put_find: "find (put_back h x (snd (take_out h t))) k = (if k = h then Some x else find t k)"
  by (simp add: put_find take_find)

lemma take_twice: "fst (take_out h (snd (take_out h t))) = None"
  by (simp add: take_find)

text \<open>A handle that is in use is never issued again.\<close>

lemma add_distinct:
  assumes "valid t" "\<not> full t"
  shows "fst (add y (snd (add x t))) \<noteq> fst (add x t)"
  using add_fresh [OF add_valid [OF assms, of x], of y] add_find [of x t "fst (add x t)"] by auto

lemma add_keeps:
  assumes "valid t" "find t h = Some y"
  shows "find (snd (add x t)) h = Some y"
  using add_fresh [OF assms(1), of x] assms(2) by (auto simp: add_find)

end

lemma sint_next:
  fixes n :: i64
  assumes "sint n \<noteq> 2 ^ 63 - 1"
  shows "sint (n + 1) = sint n + 1"
proof -
  have "sint n < 2 ^ 63" "- (2 ^ 63) \<le> sint n" using sint_lt [of n] sint_ge [of n] by simp_all
  then have "sint n + 1 < 2 ^ 63" "- (2 ^ 63) \<le> sint n + 1" using assms by simp_all
  then show ?thesis by (simp add: signed_take_bit_int_eq_self sint_word_ariths)
qed

interpretation rg: handle_table reg_add reg_take reg_put handles reg_ok reg_full
proof
  fix t :: "'a registry" and x :: 'a and h k
  show "reg_ok t \<Longrightarrow> handles t (fst (reg_add x t)) = None"
    by (fastforce simp: reg_ok_def reg_add_def)
  show "handles (snd (reg_add x t)) k = (if k = fst (reg_add x t) then Some x else handles t k)"
    by (simp add: reg_add_def)
  show "reg_ok (snd (reg_add x t))" if "reg_ok t" "\<not> reg_full t"
    using that sint_next [of "next_id t"] by (force simp: reg_ok_def reg_full_def reg_add_def)
qed (auto simp: reg_take_def reg_put_def reg_ok_def reg_full_def)

section \<open>Tables of the outside\<close>

text \<open>Where a table lives: the registries are process-wide, so they are part of the outside.\<close>

record ('e, 'a) table =
  tab_get :: "'e \<Rightarrow> 'a registry"
  tab_set :: "'a registry \<Rightarrow> 'e \<Rightarrow> 'e"

definition table_ok :: "('e, 'a) table \<Rightarrow> bool" where
  "table_ok T \<longleftrightarrow> (\<forall>r e. tab_get T (tab_set T r e) = r) \<and> (\<forall>e. tab_set T (tab_get T e) e = e)"

definition on_table :: "('e, 'a) table \<Rightarrow> ('a registry \<Rightarrow> 'b \<times> 'a registry) \<Rightarrow> ('e, 'b) eff" where
  "on_table T f = host_update (\<lambda>e. let (x, r) = f (tab_get T e) in (x, tab_set T r e))"

lemma on_table_eq:
  "on_table T f w = (Ok (fst (f (tab_get T (env w)))), w\<lparr>env := tab_set T (snd (f (tab_get T (env w)))) (env w)\<rparr>)"
  by (simp add: on_table_def host_update_def split: prod.splits)

lemma nsafe_on_table [nsafe_intros]: "nsafe vs (on_table T f) (\<lambda>_. [])"
  unfolding on_table_def by (rule nsafe_host)

lemma taken_handles:
  "table_ok T \<Longrightarrow> handles (tab_get T (tab_set T (snd (reg_take h r)) e)) k = (if k = h then None else handles r k)"
  "table_ok T \<Longrightarrow> handles (tab_get T (tab_set T (reg_put h x r) e)) k = (if k = h then Some x else handles r k)"
  by (simp_all add: table_ok_def rg.take_find rg.put_find)

section \<open>Results\<close>

text \<open>A value that is \<open>Ok\<close> or \<open>Err\<close> of one object.\<close>

definition boxed :: "store \<Rightarrow> val \<Rightarrow> u16 \<Rightarrow> obj \<Rightarrow> bool" where
  "boxed st v tag obj \<longleftrightarrow>
     (\<exists>h q. v = Ref h \<and> lookup st h = Some (Enum \<lparr>enum_ty = TY_RESULT, enum_variant = tag, enum_fields = [Ref q]\<rparr>) \<and>
        lookup st q = Some obj)"

lemma alloc_env: "heap_alloc L obj w = (r, w') \<Longrightarrow> env w' = env w \<and> park_cell w' = park_cell w \<and> sched w' = sched w \<and> (\<exists>v. r = Ok v)"
  by (auto simp: heap_alloc_def split: prod.splits)

lemma boxed_result:
  assumes "nbind (heap_alloc L obj) (\<lambda>v. new_enum L TY_RESULT tag [v]) w = (r, w')"
  shows "env w' = env w" "park_cell w' = park_cell w" "sched w' = sched w"
    and "heap_ok (mem w) \<Longrightarrow> vals_ok (rt_slots (mem w)) (child_values obj) \<Longrightarrow> length (rt_slots (mem w')) \<le> 2 ^ 32 \<Longrightarrow>
      \<exists>v. r = Ok v \<and> boxed (rt_slots (mem w')) v tag obj"
proof -
  obtain r1 w1 where 1: "heap_alloc L obj w = (r1, w1)" by fastforce
  then obtain v where "r1 = Ok v" using alloc_env by blast
  then have 2: "heap_alloc L (Enum \<lparr>enum_ty = TY_RESULT, enum_variant = tag, enum_fields = [v]\<rparr>) w1 = (r, w')"
    using assms 1 by (simp add: nbind_def new_enum_def)
  show "env w' = env w" "park_cell w' = park_cell w" "sched w' = sched w" using alloc_env [OF 1] alloc_env [OF 2] by simp_all
  show "\<exists>v. r = Ok v \<and> boxed (rt_slots (mem w')) v tag obj"
    if "heap_ok (mem w)" "vals_ok (rt_slots (mem w)) (child_values obj)" "length (rt_slots (mem w')) \<le> 2 ^ 32"
    using alloc_boxed [OF assms that(1,2)] that(3) by (auto simp: boxed_def slots_fit_def)
qed

end
