(* ===== verification/NativeFile.thy ===== *)
theory NativeFile
  imports Registry
begin

text \<open>
  The natives on open files (\<^verbatim>\<open>runtime/src/interp/natives.rs\<close>): \<open>fs_open\<close>, \<open>fs_create\<close>, \<open>fs_temp_file\<close> and the
  operations on a handle. A blocking operation takes the file out of the registry, a worker runs the system call with
  it, and the function that builds the result puts it back. What an open file is and what the system calls do is a
  parameter.
\<close>

section \<open>Jobs\<close>

datatype seek_from = SeekStart u64 | SeekCurrent i64 | SeekEnd i64

datatype temp_outcome = Created string | TempError string io_error | Exhausted string

text \<open>The jobs posted to the workers, and the payloads they return: an operation returns the file it was given.\<close>

record ('e, 'f) file_abi =
  open_job :: "string \<Rightarrow> 'e"
  create_job :: "string \<Rightarrow> 'e"
  temp_job :: "string \<Rightarrow> 'e"
  read_job :: "nat \<Rightarrow> 'f \<Rightarrow> 'e"
  write_job :: "u8 list \<Rightarrow> 'f \<Rightarrow> 'e"
  seek_job :: "seek_from \<Rightarrow> 'f \<Rightarrow> 'e"
  opened_of :: "'e \<Rightarrow> io_error + 'f"
  temp_of :: "'e \<Rightarrow> temp_outcome"
  read_of :: "'e \<Rightarrow> 'f \<times> (io_error + u8 list)"
  written_of :: "'e \<Rightarrow> 'f \<times> (io_error + unit)"
  sought_of :: "'e \<Rightarrow> 'f \<times> (io_error + u64)"

section \<open>The registry\<close>

definition register_file :: "('e, 'f) table \<Rightarrow> layout \<Rightarrow> 'f \<Rightarrow> ('e, val) eff" where
  "register_file T L f = nbind (on_table T (reg_add f)) (\<lambda>h. ok_val L (IntV h))"

definition file_closed_err :: "layout \<Rightarrow> ('e, val) eff" where
  "file_closed_err L = nbind (new_str L (''other'' @ [SEP] @ ''file is closed'')) (err_val L)"

definition take_file :: "('e, 'f) table \<Rightarrow> i64 \<Rightarrow> ('e, 'f option) eff" where
  "take_file T handle = on_table T (reg_take handle)"

definition return_file :: "('e, 'f) table \<Rightarrow> i64 \<Rightarrow> 'f \<Rightarrow> ('e, unit) eff" where
  "return_file T handle f = on_table T (\<lambda>r. ((), reg_put handle f r))"

text \<open>The shape of \<open>file_read\<close>, \<open>file_write\<close> and \<open>file_seek\<close>.\<close>

definition park_file_op :: "('e, 'f) table \<Rightarrow> layout \<Rightarrow> i64 \<Rightarrow> ('f \<Rightarrow> 'e) \<Rightarrow> ('e \<Rightarrow> 'f \<times> (io_error + 'a)) \<Rightarrow>
    ('a \<Rightarrow> ('e, val) eff) \<Rightarrow> ('e, val) eff" where
  "park_file_op T L handle job view good =
     nbind (take_file T handle) (\<lambda>file.
       case file of
         None \<Rightarrow> file_closed_err L
       | Some f \<Rightarrow>
           nbind (park_syscall (job f) view
             (\<lambda>(f, res). nbind (return_file T handle f) (\<lambda>_. fs_result L ''<file>'' good res))) (\<lambda>_. nret Unit))"

section \<open>Natives\<close>

definition native_fs_open :: "('e, 'f) file_abi \<Rightarrow> ('e, 'f) table \<Rightarrow> layout \<Rightarrow> 'e native" where
  "native_fs_open F T L args =
     nbind (nlift (expect_one args ''fs_open'')) (\<lambda>v.
     nbind (nread (\<lambda>st. str_contents st v)) (\<lambda>path.
     nbind (park_syscall (open_job F path) (opened_of F) (fs_result L path (register_file T L))) (\<lambda>_. nret Unit)))"

definition native_fs_create :: "('e, 'f) file_abi \<Rightarrow> ('e, 'f) table \<Rightarrow> layout \<Rightarrow> 'e native" where
  "native_fs_create F T L args =
     nbind (nlift (expect_one args ''fs_create'')) (\<lambda>v.
     nbind (nread (\<lambda>st. str_contents st v)) (\<lambda>path.
     nbind (park_syscall (create_job F path) (opened_of F) (fs_result L path (register_file T L))) (\<lambda>_. nret Unit)))"

definition native_fs_temp_file :: "('e, 'f) file_abi \<Rightarrow> layout \<Rightarrow> 'e native" where
  "native_fs_temp_file F L args =
     nbind (nlift (expect_one args ''fs_temp_file'')) (\<lambda>v.
     nbind (nread (\<lambda>st. str_contents st v)) (\<lambda>stem.
     nbind (park_syscall (temp_job F stem) (temp_of F)
       (\<lambda>outcome. case outcome of
          Created s \<Rightarrow> nbind (new_str L s) (ok_val L)
        | TempError p e \<Rightarrow> fs_err L p e
        | Exhausted msg \<Rightarrow> nbind (new_str L (''other'' @ [SEP] @ msg)) (err_val L))) (\<lambda>_. nret Unit)))"

definition native_file_read :: "('e, 'f) file_abi \<Rightarrow> ('e, 'f) table \<Rightarrow> layout \<Rightarrow> 'e native" where
  "native_file_read F T L args =
     nbind (nlift (args2 args ''file_read'')) (\<lambda>(hv, maxv).
     nbind (nlift (as_int hv ''file_read'')) (\<lambda>handle.
     nbind (nlift (as_int maxv ''file_read'')) (\<lambda>m.
       let n = nat (max (sint m) 0)
       in if n = 0 then nbind (new_bytes L []) (ok_val L)
          else park_file_op T L handle (read_job F (min n (2 ^ 20))) (read_of F)
                 (\<lambda>data. nbind (new_bytes L data) (ok_val L)))))"

definition native_file_write :: "('e, 'f) file_abi \<Rightarrow> ('e, 'f) table \<Rightarrow> layout \<Rightarrow> 'e native" where
  "native_file_write F T L args =
     nbind (nlift (args2 args ''file_write'')) (\<lambda>(hv, dv).
     nbind (nlift (as_int hv ''file_write'')) (\<lambda>handle.
     nbind (nread (\<lambda>st. bytes_contents st dv ''file_write'')) (\<lambda>data.
       park_file_op T L handle (write_job F data) (written_of F)
         (\<lambda>_. ok_val L (IntV (word_of_nat (length data)))))))"

definition seek_target :: "i64 \<Rightarrow> i64 \<Rightarrow> seek_from res" where
  "seek_target whence offset =
     (if whence = 0 then Ok (SeekStart (if sint offset < 0 then 0 else offset))
      else if whence = 1 then Ok (SeekCurrent offset)
      else if whence = 2 then Ok (SeekEnd offset)
      else Err (bug (''file_seek: invalid whence '' @ int_digits (sint whence))))"

definition native_file_seek :: "('e, 'f) file_abi \<Rightarrow> ('e, 'f) table \<Rightarrow> layout \<Rightarrow> 'e native" where
  "native_file_seek F T L args =
     nbind (nlift (args3 args ''file_seek'')) (\<lambda>(hv, wv, ov).
     nbind (nlift (as_int hv ''file_seek'')) (\<lambda>handle.
     nbind (nlift (as_int wv ''file_seek'')) (\<lambda>whence.
     nbind (nlift (as_int ov ''file_seek'')) (\<lambda>offset.
     nbind (nlift (seek_target whence offset)) (\<lambda>target.
       park_file_op T L handle (seek_job F target) (sought_of F) (\<lambda>pos. ok_val L (IntV pos)))))))"

definition native_file_close :: "('e, 'f) table \<Rightarrow> layout \<Rightarrow> 'e native" where
  "native_file_close T L args =
     nbind (nlift (expect_one args ''file_close'')) (\<lambda>v.
     nbind (nlift (as_int v ''file_close'')) (\<lambda>handle.
     nbind (on_table T (reg_take handle)) (\<lambda>removed.
       case removed of Some _ \<Rightarrow> ok_val L Unit | None \<Rightarrow> file_closed_err L)))"

section \<open>The worker's loop for temporary files\<close>

text \<open>\<open>Path::join\<close>: an absolute path replaces the directory.\<close>

definition path_join :: "u8 list \<Rightarrow> u8 list \<Rightarrow> u8 list" where
  "path_join dir p =
     (if p \<noteq> [] \<and> hd p = 0x2F then p
      else if dir = [] \<or> last dir = 0x2F then dir @ p
      else dir @ [0x2F] @ p)"

text \<open>What the loop asks of the system: the counter, and the exclusive creation of a file.\<close>

record ('e, 'f) temp_os =
  temp_count :: "'e \<Rightarrow> i64"
  set_temp_count :: "i64 \<Rightarrow> 'e \<Rightarrow> 'e"
  create_new :: "u8 list \<Rightarrow> 'e \<Rightarrow> (io_error + 'f) \<times> 'e"

definition temp_path :: "u8 list \<Rightarrow> string \<Rightarrow> nat \<Rightarrow> i64 \<Rightarrow> u8 list" where
  "temp_path dir stem stamp n = path_join dir (as_bytes (stem @ nat_digits stamp @ ''_'' @ int_digits (sint n)))"

fun temp_attempts :: "('e, 'f) temp_os \<Rightarrow> ('e, 'f) table \<Rightarrow> u8 list \<Rightarrow> string \<Rightarrow> nat \<Rightarrow> nat \<Rightarrow> io_error option \<Rightarrow> 'e \<Rightarrow>
    temp_outcome \<times> 'e" where
  "temp_attempts X T dir stem stamp 0 latest e =
     (Exhausted (case latest of Some x \<Rightarrow> err_text x | None \<Rightarrow> ''could not create a unique temp file''), e)"
| "temp_attempts X T dir stem stamp (Suc k) latest e =
     (let n = temp_count X e;
          path = temp_path dir stem stamp n;
          (res, e) = create_new X path (set_temp_count X (n + 1) e)
      in case res of
           Inr f \<Rightarrow>
             (let (h, r) = reg_add f (tab_get T e)
              in (Created (int_digits (sint h) @ [SEP] @ from_utf8_lossy path), tab_set T r e))
         | Inl x \<Rightarrow>
             if err_kind x = AlreadyExists then temp_attempts X T dir stem stamp k (Some x) e
             else (TempError (from_utf8_lossy path) x, e))"

definition temp_file_job :: "('e, 'f) temp_os \<Rightarrow> ('e, 'f) table \<Rightarrow> u8 list \<Rightarrow> nat option \<Rightarrow> string \<Rightarrow> 'e \<Rightarrow> temp_outcome \<times> 'e" where
  "temp_file_job X T dir nanos stem e =
     temp_attempts X T dir stem (case nanos of Some n \<Rightarrow> n | None \<Rightarrow> 0) 64 None e"

section \<open>The contract\<close>

lemma nsafe_files [nsafe_intros]:
  "nsafe vs (register_file T L f) (\<lambda>v. [v])" "nsafe vs (file_closed_err L) (\<lambda>v. [v])" "nsafe vs (take_file T h) (\<lambda>_. [])"
  "nsafe vs (return_file T h f) (\<lambda>_. [])" "nsafe vs (fs_err L path e) (\<lambda>v. [v])"
  "nsafe vs (nlift (seek_target whence offset)) (\<lambda>_. [])"
  unfolding register_file_def file_closed_err_def take_file_def return_file_def fs_err_def seek_target_def
  by (rule nsafe_intros | (rule nsafe_lift; simp; fail) | (simp; fail) | (auto; fail))+

lemma nsafe_file_op [nsafe_intros]:
  "(\<And>x. nsafe [] (good x) (\<lambda>v. [v])) \<Longrightarrow> nsafe vs (park_file_op T L handle job view good) (\<lambda>v. [v])"
  unfolding park_file_op_def
  by (rule nsafe_intros | (simp; fail) | (auto; fail))+

lemmas file_native_defs =
  native_fs_open_def native_fs_create_def native_fs_temp_file_def native_file_read_def native_file_write_def
  native_file_seek_def native_file_close_def

lemma nsafe_temp_outcome [nsafe_intros]:
  "(\<And>s. nsafe vs (f s) res) \<Longrightarrow> (\<And>p e. nsafe vs (g p e) res) \<Longrightarrow> (\<And>m. nsafe vs (h m) res) \<Longrightarrow>
     nsafe vs (case x of Created s \<Rightarrow> f s | TempError p e \<Rightarrow> g p e | Exhausted m \<Rightarrow> h m) res"
  by (cases x) simp_all

lemma file_natives_ok:
  "native_ok (native_fs_open F T L)" "native_ok (native_fs_create F T L)" "native_ok (native_fs_temp_file F L)"
  "native_ok (native_file_read F T L)" "native_ok (native_file_write F T L)" "native_ok (native_file_seek F T L)"
  "native_ok (native_file_close T L)"
  by (unfold file_native_defs Let_def)
    (rule nsafe_native | rule nsafe_intros | (simp; fail) | (auto; fail) | (auto intro!: keeps_subset; fail))+

section \<open>The life of a handle\<close>

text \<open>An operation on a handle that is not in the table answers an error at once; on one that is, the file goes to the
  worker and the handle leaves the table until the result is built.\<close>

lemma file_op_closed:
  assumes "handles (tab_get T (env w)) handle = None"
  shows "park_file_op T L handle job view good w =
    nbind (new_str L (''other'' @ [SEP] @ ''file is closed'')) (\<lambda>v. new_enum L TY_RESULT TAG_ERR [v])
      (w\<lparr>env := tab_set T (snd (reg_take handle (tab_get T (env w)))) (env w)\<rparr>)"
  using assms by (simp add: park_file_op_def take_file_def nbind_def on_table_eq reg_take_def file_closed_err_def ok_val_eta)

lemma file_op_parks:
  fixes T :: "('e, 'f) table"
  assumes T: "table_ok T" and f: "handles (tab_get T (env w)) handle = Some f"
  obtains fin where
    "park_file_op T L handle job view good w =
       (Ok Unit, w\<lparr>env := tab_set T (snd (reg_take handle (tab_get T (env w)))) (env w), park_cell := Some (Await (job f) fin)\<rparr>)"
    "\<And>p m q. fin p m q =
       (let (r, w') = fs_result L ''<file>'' good (snd (view p)) (heap_world m (tab_set T (reg_put handle (fst (view p)) (tab_get T q)) q))
        in (r, mem w', env w'))"
proof
  let ?build = "\<lambda>(f, res). nbind (return_file T handle f) (\<lambda>_. fs_result L ''<file>'' good res)"
  show "park_file_op T L handle job view good w =
       (Ok Unit, w\<lparr>env := tab_set T (snd (reg_take handle (tab_get T (env w)))) (env w),
          park_cell := Some (Await (job f) (finish_with view ?build))\<rparr>)"
    using f by (simp add: park_file_op_def take_file_def nbind_def on_table_eq reg_take_def park_syscall_def park_await_def nret_def)
  show "finish_with view ?build p m q =
       (let (r, w') = fs_result L ''<file>'' good (snd (view p)) (heap_world m (tab_set T (reg_put handle (fst (view p)) (tab_get T q)) q))
        in (r, mem w', env w'))" for p m q
    by (simp add: finish_with_def return_file_def nbind_def on_table_eq heap_world_def split: prod.splits)
qed

lemma fs_result_boxed:
  assumes "fs_result L path (\<lambda>x. nbind (heap_alloc L (g x)) (ok_val L)) res w = (r, w')"
  shows "env w' = env w"
    and "heap_ok (mem w) \<Longrightarrow> (\<And>x. child_values (g x) = []) \<Longrightarrow> length (rt_slots (mem w')) \<le> 2 ^ 32 \<Longrightarrow>
      \<exists>v. r = Ok v \<and> (case res of
         Inr x \<Rightarrow> boxed (rt_slots (mem w')) v TAG_OK (g x)
       | Inl e \<Rightarrow> boxed (rt_slots (mem w')) v TAG_ERR (Str (kind_name (err_kind e) @ [SEP] @ path @ '': '' @ err_text e)))"
proof -
  let ?obj = "case res of Inr x \<Rightarrow> g x | Inl e \<Rightarrow> Str (kind_name (err_kind e) @ [SEP] @ path @ '': '' @ err_text e)"
  let ?tag = "case res of Inr _ \<Rightarrow> TAG_OK | Inl _ \<Rightarrow> TAG_ERR"
  have run: "nbind (heap_alloc L ?obj) (\<lambda>v. new_enum L TY_RESULT ?tag [v]) w = (r, w')"
    using assms by (cases res) (simp_all add: fs_result_def fs_err_def ok_val_eta)
  note B = boxed_result [OF run]
  show "env w' = env w" by (rule B(1))
  assume m: "heap_ok (mem w)" "\<And>x. child_values (g x) = []" "length (rt_slots (mem w')) \<le> 2 ^ 32"
  have "vals_ok (rt_slots (mem w)) (child_values ?obj)" using m(2) by (simp split: sum.splits)
  with B(4) [OF m(1) _ m(3)] show "\<exists>v. r = Ok v \<and> (case res of
         Inr x \<Rightarrow> boxed (rt_slots (mem w')) v TAG_OK (g x)
       | Inl e \<Rightarrow> boxed (rt_slots (mem w')) v TAG_ERR (Str (kind_name (err_kind e) @ [SEP] @ path @ '': '' @ err_text e)))"
    by (auto split: sum.splits)
qed

lemma file_read_parks:
  assumes T: "table_ok T" and f: "handles (tab_get T (env w)) h = Some f" and m: "0 < sint m"
  obtains w' fin where "native_file_read F T L [IntV h, IntV m] w = (Ok Unit, w')"
    "park_cell w' = Some (Await (read_job F (min (unat m) (2 ^ 20)) f) fin)" "mem w' = mem w" "sched w' = sched w"
    "\<And>k. handles (tab_get T (env w')) k = (if k = h then None else handles (tab_get T (env w)) k)"
    "\<And>p rt q r rt' q' k. fin p rt q = (r, rt', q') \<Longrightarrow>
       handles (tab_get T q') k = (if k = h then Some (fst (read_of F p)) else handles (tab_get T q) k)"
    "\<And>p rt q r rt' q'. fin p rt q = (r, rt', q') \<Longrightarrow> heap_ok rt \<Longrightarrow> length (rt_slots rt') \<le> 2 ^ 32 \<Longrightarrow>
       \<exists>v. r = Ok v \<and> (case snd (read_of F p) of
          Inr data \<Rightarrow> boxed (rt_slots rt') v TAG_OK (Bytes data)
        | Inl e \<Rightarrow> boxed (rt_slots rt') v TAG_ERR (Str (kind_name (err_kind e) @ [SEP] @ ''<file>: '' @ err_text e)))"
proof -
  let ?good = "\<lambda>data. nbind (new_bytes L data) (ok_val L)"
  have n: "nat (sint m) = unat m" using m by (simp add: nat_sint)
  obtain fin where run: "park_file_op T L h (read_job F (min (unat m) (2 ^ 20))) (read_of F) ?good w =
       (Ok Unit, w\<lparr>env := tab_set T (snd (reg_take h (tab_get T (env w)))) (env w),
          park_cell := Some (Await (read_job F (min (unat m) (2 ^ 20)) f) fin)\<rparr>)"
    and fin: "\<And>p rt q. fin p rt q =
       (let (r, w') = fs_result L ''<file>'' ?good (snd (read_of F p)) (heap_world rt (tab_set T (reg_put h (fst (read_of F p)) (tab_get T q)) q))
        in (r, mem w', env w'))"
    by (rule file_op_parks [OF T f, of L "read_job F (min (unat m) (2 ^ 20))" "read_of F" ?good]) (rule that)
  show thesis
  proof (rule that)
    show "native_file_read F T L [IntV h, IntV m] w =
        (Ok Unit, w\<lparr>env := tab_set T (snd (reg_take h (tab_get T (env w)))) (env w),
          park_cell := Some (Await (read_job F (min (unat m) (2 ^ 20)) f) fin)\<rparr>)"
      using run m by (simp add: native_file_read_def nbind_def nlift_def args2_def as_int_def n)
  next
    fix p rt q r rt' q' assume e: "fin p rt q = (r, rt', q')"
    let ?q = "tab_set T (reg_put h (fst (read_of F p)) (tab_get T q)) q"
    obtain w' where w': "fs_result L ''<file>'' ?good (snd (read_of F p)) (heap_world rt ?q) = (r, w')" "rt' = mem w'" "q' = env w'"
      using e unfolding fin by (auto split: prod.splits)
    note B = fs_result_boxed [OF w'(1)]
    show "handles (tab_get T q') k = (if k = h then Some (fst (read_of F p)) else handles (tab_get T q) k)" for k
      using B(1) w'(3) taken_handles(2) [OF T] by (simp add: heap_world_def)
    assume "heap_ok rt" "length (rt_slots rt') \<le> 2 ^ 32"
    then show "\<exists>v. r = Ok v \<and> (case snd (read_of F p) of
          Inr data \<Rightarrow> boxed (rt_slots rt') v TAG_OK (Bytes data)
        | Inl e \<Rightarrow> boxed (rt_slots rt') v TAG_ERR (Str (kind_name (err_kind e) @ [SEP] @ ''<file>: '' @ err_text e)))"
      using B(2) w'(2) by (cases "snd (read_of F p)") (simp_all add: heap_world_def)
  qed (use taken_handles(1) [OF T] in simp_all)
qed

end
