(* ===== verification/NativeRegex.thy ===== *)
theory NativeRegex
  imports Registry
begin

text \<open>
  The natives on compiled patterns (\<^verbatim>\<open>runtime/src/interp/natives.rs\<close>). Matching is the \<^verbatim>\<open>regex\<close> crate's and a
  parameter; the registry of patterns and the flat lists of byte offsets are the runtime's.
\<close>

record 're regex_crate =
  re_compile :: "string \<Rightarrow> string + 're"
  re_is_match :: "'re \<Rightarrow> string \<Rightarrow> bool"
  re_find :: "'re \<Rightarrow> string \<Rightarrow> (usize \<times> usize) option"
  re_find_iter :: "'re \<Rightarrow> string \<Rightarrow> (usize \<times> usize) list"
  re_captures :: "'re \<Rightarrow> string \<Rightarrow> (usize \<times> usize) option list option"
  re_replace :: "'re \<Rightarrow> string \<Rightarrow> string \<Rightarrow> string"
  re_replace_all :: "'re \<Rightarrow> string \<Rightarrow> string \<Rightarrow> string"

definition with_regex :: "('e, 're) table \<Rightarrow> i64 \<Rightarrow> string \<Rightarrow> ('re \<Rightarrow> ('e, 'a) eff) \<Rightarrow> ('e, 'a) eff" where
  "with_regex T handle who f =
     nbind (host_read (\<lambda>e. handles (tab_get T e) handle)) (\<lambda>re.
       case re of
         Some re \<Rightarrow> f re
       | None \<Rightarrow> nlift (Err (bug (who @ '': unknown regex handle '' @ int_digits (sint handle)))))"

definition native_regex_compile :: "'re regex_crate \<Rightarrow> ('e, 're) table \<Rightarrow> layout \<Rightarrow> 'e native" where
  "native_regex_compile X T L args =
     nbind (nlift (expect_one args ''regex_compile'')) (\<lambda>v.
     nbind (nread (\<lambda>st. str_contents st v)) (\<lambda>pattern.
       case re_compile X pattern of
         Inr re \<Rightarrow> nbind (on_table T (reg_add re)) (\<lambda>h. ok_val L (IntV h))
       | Inl msg \<Rightarrow> nbind (new_str L msg) (err_val L)))"

text \<open>The arguments of the matching natives: a handle and a text.\<close>

definition regex_args :: "val list \<Rightarrow> string \<Rightarrow> ('e, i64 \<times> string) eff" where
  "regex_args args who =
     nbind (nlift (args2 args who)) (\<lambda>(hv, tv).
     nbind (nlift (as_int hv who)) (\<lambda>handle.
     nbind (nread (\<lambda>st. str_contents st tv)) (\<lambda>txt. nret (handle, txt))))"

definition native_regex_is_match :: "'re regex_crate \<Rightarrow> ('e, 're) table \<Rightarrow> 'e native" where
  "native_regex_is_match X T args =
     nbind (regex_args args ''regex_is_match'') (\<lambda>(handle, txt).
       with_regex T handle ''regex_is_match'' (\<lambda>re. nret (Bool (re_is_match X re txt))))"

text \<open>The two offsets of a match.\<close>

definition span_ints :: "usize \<times> usize \<Rightarrow> i64 list" where
  "span_ints m = [word_of_nat (fst m), word_of_nat (snd m)]"

definition native_regex_find :: "'re regex_crate \<Rightarrow> ('e, 're) table \<Rightarrow> layout \<Rightarrow> 'e native" where
  "native_regex_find X T L args =
     nbind (regex_args args ''regex_find'') (\<lambda>(handle, txt).
       with_regex T handle ''regex_find'' (\<lambda>re.
         int_list L (case re_find X re txt of Some m \<Rightarrow> span_ints m | None \<Rightarrow> [])))"

definition native_regex_find_all :: "'re regex_crate \<Rightarrow> ('e, 're) table \<Rightarrow> layout \<Rightarrow> 'e native" where
  "native_regex_find_all X T L args =
     nbind (regex_args args ''regex_find_all'') (\<lambda>(handle, txt).
       with_regex T handle ''regex_find_all'' (\<lambda>re. int_list L (concat (map span_ints (re_find_iter X re txt)))))"

definition group_ints :: "(usize \<times> usize) option \<Rightarrow> i64 list" where
  "group_ints g = (case g of Some m \<Rightarrow> span_ints m | None \<Rightarrow> [- 1, - 1])"

definition native_regex_captures :: "'re regex_crate \<Rightarrow> ('e, 're) table \<Rightarrow> layout \<Rightarrow> 'e native" where
  "native_regex_captures X T L args =
     nbind (regex_args args ''regex_captures'') (\<lambda>(handle, txt).
       with_regex T handle ''regex_captures'' (\<lambda>re.
         int_list L (case re_captures X re txt of Some gs \<Rightarrow> concat (map group_ints gs) | None \<Rightarrow> [])))"

definition regex_replacing :: "('e, 're) table \<Rightarrow> layout \<Rightarrow> string \<Rightarrow> ('re \<Rightarrow> string \<Rightarrow> string \<Rightarrow> string) \<Rightarrow> 'e native" where
  "regex_replacing T L who f args =
     nbind (nlift (args3 args who)) (\<lambda>(hv, tv, rv).
     nbind (nlift (as_int hv who)) (\<lambda>handle.
     nbind (nread (\<lambda>st. str_contents st tv)) (\<lambda>txt.
     nbind (nread (\<lambda>st. str_contents st rv)) (\<lambda>repl.
       with_regex T handle who (\<lambda>re. new_str L (f re txt repl))))))"

definition native_regex_replace :: "'re regex_crate \<Rightarrow> ('e, 're) table \<Rightarrow> layout \<Rightarrow> 'e native" where
  "native_regex_replace X T L = regex_replacing T L ''regex_replace'' (re_replace X)"

definition native_regex_replace_all :: "'re regex_crate \<Rightarrow> ('e, 're) table \<Rightarrow> layout \<Rightarrow> 'e native" where
  "native_regex_replace_all X T L = regex_replacing T L ''regex_replace_all'' (re_replace_all X)"

section \<open>The contract\<close>

lemma nsafe_with_regex [nsafe_intros]:
  "(\<And>re. nsafe vs (f re) res) \<Longrightarrow> nsafe vs (with_regex T h who f) res"
  unfolding with_regex_def by (rule nsafe_intros | (simp; fail))+

lemma nsafe_regex_args [nsafe_intros]: "keeps vs args \<Longrightarrow> nsafe vs (regex_args args who) (\<lambda>_. [])"
  unfolding regex_args_def
  by (rule nsafe_intros | (simp; fail) | (auto; fail) | (auto intro!: keeps_subset; fail))+

lemmas regex_native_defs =
  native_regex_compile_def native_regex_is_match_def native_regex_find_def native_regex_find_all_def
  native_regex_captures_def native_regex_replace_def native_regex_replace_all_def regex_replacing_def

lemma regex_natives_ok:
  "native_ok (native_regex_compile X T L)" "native_ok (native_regex_is_match X T)" "native_ok (native_regex_find X T L)"
  "native_ok (native_regex_find_all X T L)" "native_ok (native_regex_captures X T L)" "native_ok (native_regex_replace X T L)"
  "native_ok (native_regex_replace_all X T L)"
  by (unfold regex_native_defs)
    (rule nsafe_native | rule nsafe_intros | (simp; fail) | (auto; fail) | (auto intro!: keeps_subset; fail))+

end
