(* ===== verification/NativeProc.thy ===== *)
theory NativeProc
  imports Registry
begin

text \<open>
  The natives on child processes (\<^verbatim>\<open>runtime/src/interp/natives.rs\<close>). A started child lives in a registry with its
  three pipes; an operation on a pipe takes it out for the worker and puts it back when the result is built, unless the
  process was waited for meanwhile. Spawning, waiting, killing and the pipes themselves are parameters.
\<close>

section \<open>Commands\<close>

datatype stdio = Piped | Inherit

record command =
  cmd_name :: string
  cmd_args :: "string list"
  cmd_dir :: "string option"
  cmd_env :: "(string \<rightharpoonup> string) option"
  cmd_stdin :: "stdio option"
  cmd_stdout :: "stdio option"
  cmd_stderr :: "stdio option"

definition as_option :: "store \<Rightarrow> val \<Rightarrow> string \<Rightarrow> (u16 \<times> val list) res" where
  "as_option st v who =
     (case v of
        Ref h \<Rightarrow> rbind (or_panic (lookup st h)) (\<lambda>obj.
          case obj of
            Enum e \<Rightarrow> if enum_ty e = TY_OPTION then Ok (enum_variant e, enum_fields e) else Err (bug (who @ '': expected Option''))
          | _ \<Rightarrow> Err (bug (who @ '': expected Option'')))
      | _ \<Rightarrow> Err (bug (who @ '': expected Option'')))"

definition expect_string_list :: "store \<Rightarrow> val \<Rightarrow> string \<Rightarrow> string list res" where
  "expect_string_list st v who = rbind (list_items st v who) (rmap (str_contents st))"

text \<open>The payload of a \<open>Some\<close>, read by \<open>f\<close>.\<close>

definition expect_option :: "store \<Rightarrow> val \<Rightarrow> string \<Rightarrow> (val \<Rightarrow> 'a res) \<Rightarrow> 'a option res" where
  "expect_option st v who f =
     rbind (as_option st v who) (\<lambda>(tag, fs).
       if tag = TAG_SOME
       then rbind (ok_or (bug (who @ '': missing Some field'')) (get_nth fs 0)) (\<lambda>x. rbind (f x) (\<lambda>y. Ok (Some y)))
       else Ok None)"

definition expect_option_string :: "store \<Rightarrow> val \<Rightarrow> string \<Rightarrow> string option res" where
  "expect_option_string st v who = expect_option st v who (str_contents st)"

definition string_pair :: "store \<Rightarrow> val \<times> val \<Rightarrow> (string \<times> string) res" where
  "string_pair st p =
     rbind (str_contents st (fst p)) (\<lambda>k. rbind (str_contents st (snd p)) (\<lambda>v. Ok (k, v)))"

definition expect_option_map :: "store \<Rightarrow> val \<Rightarrow> string \<Rightarrow> (string \<rightharpoonup> string) option res" where
  "expect_option_map st v who =
     expect_option st v who (\<lambda>x.
       rbind (with_map_ref st x who Some) (\<lambda>m.
       rbind (rmap (string_pair st) (entries m)) (\<lambda>ps. Ok (map_of (rev ps)))))"

text \<open>The arguments shared by \<open>process_run\<close>, \<open>process_exec\<close> and \<open>process_start\<close>.\<close>

definition process_command :: "val list \<Rightarrow> string \<Rightarrow> store \<Rightarrow> command res" where
  "process_command args who st =
     (if args = [] \<or> length args > 4
      then Err (bug (who @ '' expects between 1 and 4 arguments, got '' @ nat_digits (length args)))
      else
        rbind (str_contents st (args ! 0)) (\<lambda>name.
        rbind (if length args \<ge> 2 then expect_string_list st (args ! 1) (who @ '': args'') else Ok []) (\<lambda>as.
        rbind (if length args \<ge> 3 then expect_option_string st (args ! 2) (who @ '': working_dir'') else Ok None) (\<lambda>dir.
        rbind (if length args \<ge> 4 then expect_option_map st (args ! 3) (who @ '': env'') else Ok None) (\<lambda>vars.
          Ok \<lparr>cmd_name = name, cmd_args = as, cmd_dir = dir, cmd_env = vars,
              cmd_stdin = None, cmd_stdout = None, cmd_stderr = None\<rparr>)))))"

section \<open>Processes\<close>

record ('c, 'w, 'r) running =
  child :: 'c
  pipe_in :: "'w option"
  pipe_out :: "'r option"
  pipe_err :: "'r option"

text \<open>What the system does: system calls on the thread itself, jobs, and the payloads of the jobs. An exit code is
  absent when a signal ended the process.\<close>

type_synonym exit_status = "32 word option"

record proc_output =
  out_status :: exit_status
  out_stdout :: "u8 list"
  out_stderr :: "u8 list"

record ('e, 'c, 'w, 'r) proc_os =
  spawn_child :: "command \<Rightarrow> 'e \<Rightarrow> (io_error + 'c \<times> 'w option \<times> 'r option \<times> 'r option) \<times> 'e"
  kill_child :: "'c \<Rightarrow> 'e \<Rightarrow> (io_error + unit) \<times> 'e"
  reap_child :: "'c \<Rightarrow> 'e \<Rightarrow> 'e"
  output_job :: "command \<Rightarrow> 'e"
  status_job :: "command \<Rightarrow> 'e"
  wait_job :: "('c, 'w, 'r) running \<Rightarrow> 'e"
  pipe_write_job :: "u8 list \<Rightarrow> 'w \<Rightarrow> 'e"
  pipe_read_job :: "nat \<Rightarrow> 'r option \<Rightarrow> 'e"
  output_of :: "'e \<Rightarrow> io_error + proc_output"
  status_of :: "'e \<Rightarrow> io_error + exit_status"
  pipe_written_of :: "'e \<Rightarrow> 'w \<times> (io_error + unit)"
  pipe_read_of :: "'e \<Rightarrow> 'r option \<times> (io_error + u8 list)"

definition status_code :: "exit_status \<Rightarrow> i64" where
  "status_code s = (case s of Some c \<Rightarrow> scast c | None \<Rightarrow> - 1)"

definition proc_err_io :: "layout \<Rightarrow> string \<Rightarrow> ('e, val) eff" where
  "proc_err_io L msg = nbind (new_str L (''io'' @ [SEP] @ msg)) (err_val L)"

definition proc_err :: "layout \<Rightarrow> io_error \<Rightarrow> string \<Rightarrow> ('e, val) eff" where
  "proc_err L e msg =
     nbind (new_str L ((if err_kind e = NotFound then ''not_found'' else ''io'') @ [SEP] @ msg)) (err_val L)"

definition get_process_id :: "store \<Rightarrow> val \<Rightarrow> i64 res" where
  "get_process_id st v =
     rbind (struct_field None 0 st v) (\<lambda>x.
       case x of IntV n \<Rightarrow> Ok n | _ \<Rightarrow> Err (bug ''expected process id to be an Int''))"

text \<open>\<open>process <id> <what>\<close>.\<close>

definition of_process :: "i64 \<Rightarrow> string \<Rightarrow> string" where
  "of_process h what = ''process '' @ int_digits (sint h) @ what"

definition failed :: "string \<Rightarrow> string \<Rightarrow> io_error \<Rightarrow> string" where
  "failed what name e = ''failed to '' @ what @ '' '' @ [QUOTE] @ name @ [QUOTE] @ '': '' @ err_text e"

definition native_process_run :: "('e, 'c, 'w, 'r) proc_os \<Rightarrow> layout \<Rightarrow> 'e native" where
  "native_process_run P L args =
     nbind (nread (process_command args ''process_run'')) (\<lambda>cmd.
     nbind (park_syscall (output_job P (cmd\<lparr>cmd_stdout := Some Piped, cmd_stderr := Some Piped\<rparr>)) (output_of P)
       (\<lambda>res. case res of
          Inr output \<Rightarrow>
            nbind (new_str L (from_utf8_lossy (out_stdout output))) (\<lambda>so.
            nbind (new_str L (from_utf8_lossy (out_stderr output))) (\<lambda>se.
            nbind (heap_alloc L (Struct 0 [IntV (status_code (out_status output)), so, se])) (ok_val L)))
        | Inl e \<Rightarrow> proc_err L e (failed ''run'' (cmd_name cmd) e))) (\<lambda>_. nret Unit))"

definition native_process_exec :: "('e, 'c, 'w, 'r) proc_os \<Rightarrow> layout \<Rightarrow> 'e native" where
  "native_process_exec P L args =
     nbind (nread (process_command args ''process_exec'')) (\<lambda>cmd.
     nbind (park_syscall
         (status_job P (cmd\<lparr>cmd_stdin := Some Inherit, cmd_stdout := Some Inherit, cmd_stderr := Some Inherit\<rparr>)) (status_of P)
       (\<lambda>res. case res of
          Inr status \<Rightarrow> ok_val L (IntV (status_code status))
        | Inl e \<Rightarrow> proc_err L e (failed ''run'' (cmd_name cmd) e))) (\<lambda>_. nret Unit))"

definition native_process_start :: "('e, 'c, 'w, 'r) proc_os \<Rightarrow> ('e, ('c, 'w, 'r) running) table \<Rightarrow> layout \<Rightarrow> 'e native" where
  "native_process_start P T L args =
     nbind (nread (process_command args ''process_start'')) (\<lambda>cmd.
     nbind (host_update (spawn_child P (cmd\<lparr>cmd_stdin := Some Piped, cmd_stdout := Some Piped, cmd_stderr := Some Piped\<rparr>))) (\<lambda>res.
       case res of
         Inr (c, i, s, x) \<Rightarrow>
           nbind (on_table T (reg_add \<lparr>child = c, pipe_in = i, pipe_out = s, pipe_err = x\<rparr>)) (\<lambda>h.
           nbind (heap_alloc L (Struct 0 [IntV h])) (ok_val L))
       | Inl e \<Rightarrow> proc_err L e (failed ''start'' (cmd_name cmd) e)))"

definition native_process_wait :: "('e, 'c, 'w, 'r) proc_os \<Rightarrow> ('e, ('c, 'w, 'r) running) table \<Rightarrow> layout \<Rightarrow> 'e native" where
  "native_process_wait P T L args =
     nbind (nlift (expect_one args ''process_wait'')) (\<lambda>v.
     nbind (nread (\<lambda>st. get_process_id st v)) (\<lambda>h.
     nbind (on_table T (reg_take h)) (\<lambda>removed.
       case removed of
         None \<Rightarrow> proc_err_io L (of_process h '' not found (it may have already been waited on)'')
       | Some p \<Rightarrow>
           nbind (park_syscall (wait_job P p) (status_of P)
             (\<lambda>res. case res of
                Inr status \<Rightarrow> ok_val L (IntV (status_code status))
              | Inl e \<Rightarrow> proc_err L e (''failed to wait for '' @ of_process h ('': '' @ err_text e)))) (\<lambda>_. nret Unit))))"

definition native_process_kill :: "('e, 'c, 'w, 'r) proc_os \<Rightarrow> ('e, ('c, 'w, 'r) running) table \<Rightarrow> layout \<Rightarrow> 'e native" where
  "native_process_kill P T L args =
     nbind (nlift (expect_one args ''process_kill'')) (\<lambda>v.
     nbind (nread (\<lambda>st. get_process_id st v)) (\<lambda>h.
     nbind (on_table T (reg_take h)) (\<lambda>removed.
       case removed of
         None \<Rightarrow> proc_err_io L (of_process h '' not found'')
       | Some p \<Rightarrow>
           nbind (host_update (kill_child P (child p))) (\<lambda>res.
             case res of
               Inr _ \<Rightarrow> nbind (host_update (\<lambda>e. ((), reap_child P (child p) e))) (\<lambda>_. ok_val L Unit)
             | Inl e \<Rightarrow> proc_err L e (''failed to kill '' @ of_process h ('': '' @ err_text e))))))"

section \<open>Pipes\<close>

definition native_process_stdin_write ::
    "('e, 'c, 'w, 'r) proc_os \<Rightarrow> ('e, ('c, 'w, 'r) running) table \<Rightarrow> layout \<Rightarrow> 'e native" where
  "native_process_stdin_write P T L args =
     nbind (nlift (args2 args ''process_stdin_write'')) (\<lambda>(idv, dv).
     nbind (nlift (as_int idv ''process_stdin_write'')) (\<lambda>h.
     nbind (nread (\<lambda>st. bytes_contents st dv ''process_stdin_write'')) (\<lambda>data.
     nbind (on_table T (reg_update h (\<lambda>p. (pipe_in p, p\<lparr>pipe_in := None\<rparr>)))) (\<lambda>taken.
       case taken of
         None \<Rightarrow> proc_err_io L (of_process h '' not found'')
       | Some None \<Rightarrow> proc_err_io L (of_process h '' stdin is not available'')
       | Some (Some pipe) \<Rightarrow>
           nbind (park_syscall (pipe_write_job P data pipe) (pipe_written_of P)
             (\<lambda>(pipe, res).
                nbind (on_table T (reg_update h (\<lambda>p. ((), p\<lparr>pipe_in := Some pipe\<rparr>)))) (\<lambda>_.
                case res of
                  Inr _ \<Rightarrow> ok_val L (IntV (word_of_nat (length data)))
                | Inl e \<Rightarrow> proc_err L e (''failed to write to '' @ of_process h ('' stdin: '' @ err_text e))))) (\<lambda>_. nret Unit)))))"

definition native_process_stdin_close :: "('e, ('c, 'w, 'r) running) table \<Rightarrow> layout \<Rightarrow> 'e native" where
  "native_process_stdin_close T L args =
     nbind (nlift (expect_one args ''process_stdin_close'')) (\<lambda>v.
     nbind (nlift (as_int v ''process_stdin_close'')) (\<lambda>h.
     nbind (on_table T (reg_update h (\<lambda>p. ((), p\<lparr>pipe_in := None\<rparr>)))) (\<lambda>found.
       case found of Some _ \<Rightarrow> ok_val L Unit | None \<Rightarrow> proc_err_io L (of_process h '' not found''))))"

text \<open>The job of a read, run on a worker: a pipe at its end is dropped, one that failed is kept.\<close>

definition read_pipe_owned :: "(nat \<Rightarrow> 'r \<Rightarrow> 'e \<Rightarrow> (io_error + u8 list) \<times> 'e) \<Rightarrow> 'r option \<Rightarrow> nat \<Rightarrow> 'e \<Rightarrow>
    ('r option \<times> (io_error + u8 list)) \<times> 'e" where
  "read_pipe_owned read_pipe stream n e =
     (case stream of
        None \<Rightarrow> ((None, Inr []), e)
      | Some s \<Rightarrow>
          (case read_pipe (min (max n 1) (2 ^ 20)) s e of
             (Inr [], e) \<Rightarrow> ((None, Inr []), e)
           | (Inr data, e) \<Rightarrow> ((Some s, Inr data), e)
           | (Inl x, e) \<Rightarrow> ((Some s, Inl x), e)))"

definition park_pipe_read :: "('e, 'c, 'w, 'r) proc_os \<Rightarrow> ('e, ('c, 'w, 'r) running) table \<Rightarrow> layout \<Rightarrow> i64 \<Rightarrow> 'r option \<Rightarrow> nat \<Rightarrow>
    ('r option \<Rightarrow> ('c, 'w, 'r) running \<Rightarrow> ('c, 'w, 'r) running) \<Rightarrow> ('e, unit) eff" where
  "park_pipe_read P T L h stream n restore =
     park_syscall (pipe_read_job P n stream) (pipe_read_of P)
       (\<lambda>(stream, res).
          nbind (on_table T (reg_update h (\<lambda>p. ((), restore stream p)))) (\<lambda>_.
          case res of
            Inr data \<Rightarrow> nbind (new_bytes L data) (ok_val L)
          | Inl e \<Rightarrow> proc_err L e (''failed to read from '' @ of_process h ('': '' @ err_text e))))"

definition process_reading :: "('e, 'c, 'w, 'r) proc_os \<Rightarrow> ('e, ('c, 'w, 'r) running) table \<Rightarrow> layout \<Rightarrow> string \<Rightarrow>
    (('c, 'w, 'r) running \<Rightarrow> 'r option) \<Rightarrow> ('r option \<Rightarrow> ('c, 'w, 'r) running \<Rightarrow> ('c, 'w, 'r) running) \<Rightarrow> 'e native" where
  "process_reading P T L who get_pipe restore args =
     nbind (nlift (args2 args who)) (\<lambda>(idv, maxv).
     nbind (nlift (as_int idv who)) (\<lambda>h.
     nbind (nlift (as_int maxv who)) (\<lambda>m.
     nbind (on_table T (reg_update h (\<lambda>p. (get_pipe p, restore None p)))) (\<lambda>taken.
       case taken of
         None \<Rightarrow> proc_err_io L (of_process h '' not found'')
       | Some stream \<Rightarrow>
           nbind (park_pipe_read P T L h stream (nat (max (sint m) 0)) restore) (\<lambda>_. nret Unit)))))"

definition native_process_stdout_read ::
    "('e, 'c, 'w, 'r) proc_os \<Rightarrow> ('e, ('c, 'w, 'r) running) table \<Rightarrow> layout \<Rightarrow> 'e native" where
  "native_process_stdout_read P T L = process_reading P T L ''process_stdout_read'' pipe_out (\<lambda>s p. p\<lparr>pipe_out := s\<rparr>)"

definition native_process_stderr_read ::
    "('e, 'c, 'w, 'r) proc_os \<Rightarrow> ('e, ('c, 'w, 'r) running) table \<Rightarrow> layout \<Rightarrow> 'e native" where
  "native_process_stderr_read P T L = process_reading P T L ''process_stderr_read'' pipe_err (\<lambda>s p. p\<lparr>pipe_err := s\<rparr>)"

section \<open>The contract\<close>

lemma nsafe_proc_err [nsafe_intros]:
  "nsafe vs (proc_err_io L msg) (\<lambda>v. [v])" "nsafe vs (proc_err L e msg) (\<lambda>v. [v])"
  unfolding proc_err_io_def proc_err_def by (rule nsafe_intros | (simp; fail) | (auto; fail))+

lemma rmap_safe: "(\<And>x. x \<in> set xs \<Longrightarrow> safe_res (\<lambda>_. True) (f x)) \<Longrightarrow> safe_res (\<lambda>_. True) (rmap f xs)"
  by (induction xs) (auto intro!: safe_res_bind [where Q = "\<lambda>_. True"])

lemma list_items_safe:
  "store_closed st \<Longrightarrow> valid_val st v \<Longrightarrow> safe_res (\<lambda>xs. vals_ok st xs) (list_items st v who)"
  unfolding list_items_def by (rule obj_read_safe) (auto simp: list_all_iff split: obj.splits)

lemma as_option_safe:
  "store_closed st \<Longrightarrow> valid_val st v \<Longrightarrow> safe_res (\<lambda>(tag, fs). vals_ok st fs) (as_option st v who)"
  unfolding as_option_def by (rule obj_read_safe) (auto simp: list_all_iff split: obj.splits)

lemma map_entries_safe:
  assumes "store_closed st" "valid_val st v"
  shows "safe_res (\<lambda>m. \<forall>p\<in>set (entries m). valid_val st (fst p) \<and> valid_val st (snd p)) (with_map_ref st v who Some)"
proof (cases v)
  case (Ref h)
  then obtain obj where obj: "lookup st h = Some obj" using assms(2) by auto
  then have "valid_val st u" if "u \<in> set (child_values obj)" for u using store_closedD [OF assms(1)] obj that by blast
  then show ?thesis using obj Ref by (cases obj) (fastforce simp: with_map_ref_def map_handle_def)+
qed (simp_all add: with_map_ref_def map_handle_def)

lemma expect_option_safe:
  assumes "store_closed st" "valid_val st v" "\<And>x. valid_val st x \<Longrightarrow> safe_res (\<lambda>_. True) (f x)"
  shows "safe_res (\<lambda>_. True) (expect_option st v who f)"
  unfolding expect_option_def
proof (rule safe_res_bind [OF as_option_safe [OF assms(1,2)]])
  fix p :: "u16 \<times> val list" assume p: "case p of (tag, fs) \<Rightarrow> vals_ok st fs"
  obtain tag fs where q: "p = (tag, fs)" by (cases p)
  have "safe_res (valid_val st) (ok_or (bug (who @ '': missing Some field'')) (get_nth fs 0))"
    by (rule safe_res_ok_or) (use p q in \<open>auto simp: list_all_iff dest: get_nth_in_set\<close>)
  then show "safe_res (\<lambda>_. True) (case p of (tag, fs) \<Rightarrow>
      if tag = TAG_SOME
      then rbind (ok_or (bug (who @ '': missing Some field'')) (get_nth fs 0)) (\<lambda>x. rbind (f x) (\<lambda>y. Ok (Some y)))
      else Ok None)"
    unfolding q by (auto intro!: safe_res_bind [where Q = "\<lambda>_. True", OF assms(3)] elim!: safe_res_bind)
qed

lemma string_list_safe:
  "store_closed st \<Longrightarrow> valid_val st v \<Longrightarrow> safe_res (\<lambda>_. True) (expect_string_list st v who)"
  unfolding expect_string_list_def
  by (rule safe_res_bind [OF list_items_safe]) (auto intro!: rmap_safe str_contents_safe simp: list_all_iff)

lemma option_map_safe:
  assumes "store_closed st" "valid_val st v"
  shows "safe_res (\<lambda>_. True) (expect_option_map st v who)"
  unfolding expect_option_map_def
proof (rule expect_option_safe [OF assms])
  fix x assume "valid_val st x"
  then show "safe_res (\<lambda>_. True) (rbind (with_map_ref st x who Some) (\<lambda>m.
      rbind (rmap (string_pair st) (entries m)) (\<lambda>ps. Ok (map_of (rev ps)))))"
    by (intro safe_res_bind [OF map_entries_safe [OF assms(1)]] safe_res_bind [where Q = "\<lambda>_. True"] rmap_safe)
      (auto simp: string_pair_def intro!: safe_res_bind [where Q = "\<lambda>_. True"] str_contents_safe)
qed

lemma process_command_safe:
  assumes "store_closed st" "vals_ok st args"
  shows "safe_res (\<lambda>_. True) (process_command args who st)"
proof -
  have arg: "valid_val st (args ! i)" if "i < length args" for i using assms(2) that by (simp add: list_all_length)
  show ?thesis
    unfolding process_command_def expect_option_string_def
    by (auto intro!: safe_res_bind [where Q = "\<lambda>_. True"] str_contents_safe string_list_safe expect_option_safe option_map_safe
        assms(1) arg)
qed

lemma nsafe_commands [nsafe_intros]:
  "keeps vs args \<Longrightarrow> nsafe vs (nread (process_command args who)) (\<lambda>_. [])"
  "keeps vs [v] \<Longrightarrow> nsafe vs (nread (\<lambda>st. get_process_id st v)) (\<lambda>_. [])"
proof -
  assume k: "keeps vs args"
  show "nsafe vs (nread (process_command args who)) (\<lambda>_. [])"
    by (rule nsafe_read) (use process_command_safe keepsD [OF k] in simp)
next
  assume k: "keeps vs [v]"
  have "safe_res (\<lambda>_. True) (get_process_id st v)" if "store_closed st" "valid_val st v" for st
    unfolding get_process_id_def
    by (rule safe_res_bind [OF struct_field_safe [OF that]]) (simp split: "val.splits")
  then show "nsafe vs (nread (\<lambda>st. get_process_id st v)) (\<lambda>_. [])"
    by (intro nsafe_read) (use keepsD [OF k] in simp)
qed

lemma nsafe_pipe_read [nsafe_intros]: "nsafe vs (park_pipe_read P T L h stream n restore) (\<lambda>_. [])"
  unfolding park_pipe_read_def by (rule nsafe_intros | (simp; fail) | (auto; fail))+

lemmas proc_native_defs =
  native_process_run_def native_process_exec_def native_process_start_def native_process_wait_def native_process_kill_def
  native_process_stdin_write_def native_process_stdin_close_def native_process_stdout_read_def native_process_stderr_read_def
  process_reading_def

lemma proc_natives_ok:
  "native_ok (native_process_run P L)" "native_ok (native_process_exec P L)" "native_ok (native_process_start P T L)"
  "native_ok (native_process_wait P T L)" "native_ok (native_process_kill P T L)" "native_ok (native_process_stdin_write P T L)"
  "native_ok (native_process_stdin_close T L)" "native_ok (native_process_stdout_read P T L)"
  "native_ok (native_process_stderr_read P T L)"
  by (unfold proc_native_defs)
    (rule nsafe_native | rule nsafe_intros | (simp; fail) | (auto; fail) | (auto intro!: keeps_subset; fail))+

end
