(* ===== verification/TlsPump.thy ===== *)
theory TlsPump
  imports NativeFs
begin

text \<open>
  The TLS session (\<^verbatim>\<open>runtime/src/interp/tls.rs\<close>): the pump that drives a \<^verbatim>\<open>rustls\<close> connection against a
  non-blocking socket, and the configurations. The connection is the crate's: a record of its operations on a state
  \<open>'c\<close>, with the outside \<open>'e\<close> where an operation touches the socket. A loop that need not end has no result.
\<close>

section \<open>Data\<close>

datatype 'a progress = Complete 'a | Stalled

datatype tls_error =
    TlsIo io_error
  | TlsProtocol string
  | TlsHostname string
  | TlsRoots string
  | TlsIdentity string
  | TlsTruncated string

datatype fill_outcome = Fed | FillBlocked | FillEof

record ('c, 's, 'e) engine =
  wants_write :: "'c \<Rightarrow> bool"
  write_tls :: "'s \<Rightarrow> 'c \<Rightarrow> 'e \<Rightarrow> (io_error + nat) \<times> 'c \<times> 'e"
  read_tls :: "'s \<Rightarrow> 'c \<Rightarrow> 'e \<Rightarrow> (io_error + nat) \<times> 'c \<times> 'e"
  process_new_packets :: "'c \<Rightarrow> (string + unit) \<times> 'c"
  is_handshaking :: "'c \<Rightarrow> bool"
  reader_read :: "nat \<Rightarrow> 'c \<Rightarrow> (io_error + u8 list) \<times> 'c"
  writer_write :: "u8 list \<Rightarrow> 'c \<Rightarrow> (io_error + nat) \<times> 'c"
  send_close_notify :: "'c \<Rightarrow> 'c"
  first_chunk :: "'c \<Rightarrow> io_error + u8 list"

type_synonym ('c, 'e, 'a) pumped = "((tls_error + 'a) \<times> 'c \<times> 'e) option"

section \<open>The pump\<close>

text \<open>Push backlog ciphertext: true when the queue is empty, false when the socket takes no more.\<close>

partial_function (option) drain :: "('c, 's, 'e) engine \<Rightarrow> 's \<Rightarrow> 'c \<Rightarrow> 'e \<Rightarrow> ('c, 'e, bool) pumped" where
  "drain X s c e =
     (if \<not> wants_write X c then Some (Inr True, c, e)
      else let (r, c, e) = write_tls X s c e
           in case r of
                Inr n \<Rightarrow> if n = 0 then Some (Inr False, c, e) else drain X s c e
              | Inl x \<Rightarrow> if err_kind x = WouldBlock then Some (Inr False, c, e) else Some (Inl (TlsIo x), c, e))"

definition fill :: "('c, 's, 'e) engine \<Rightarrow> 's \<Rightarrow> 'c \<Rightarrow> 'e \<Rightarrow> ('c, 'e, fill_outcome) pumped" where
  "fill X s c e =
     (let (r, c, e) = read_tls X s c e
      in case r of
           Inr n \<Rightarrow>
             if n = 0 then Some (Inr FillEof, c, e)
             else (case process_new_packets X c of
                     (Inr _, c) \<Rightarrow> Some (Inr Fed, c, e)
                   | (Inl msg, c) \<Rightarrow> Option.bind (drain X s c e) (\<lambda>(_, c, e). Some (Inl (TlsProtocol msg), c, e)))
         | Inl x \<Rightarrow> if err_kind x = WouldBlock then Some (Inr FillBlocked, c, e) else Some (Inl (TlsIo x), c, e))"

partial_function (option) handshake :: "('c, 's, 'e) engine \<Rightarrow> 's \<Rightarrow> 'c \<Rightarrow> 'e \<Rightarrow> ('c, 'e, unit progress) pumped" where
  "handshake X s c e =
     Option.bind (drain X s c e) (\<lambda>(r, c, e).
       case r of
         Inl x \<Rightarrow> Some (Inl x, c, e)
       | Inr flushed \<Rightarrow>
           if \<not> flushed then Some (Inr Stalled, c, e)
           else if \<not> is_handshaking X c then Some (Inr (Complete ()), c, e)
           else Option.bind (fill X s c e) (\<lambda>(r, c, e).
             case r of
               Inl x \<Rightarrow> Some (Inl x, c, e)
             | Inr got \<Rightarrow>
                 (case got of
                    Fed \<Rightarrow> handshake X s c e
                  | FillBlocked \<Rightarrow> Some (Inr Stalled, c, e)
                  | FillEof \<Rightarrow> Some (Inl (TlsTruncated ''during the TLS handshake''), c, e))))"

partial_function (option) tls_read :: "('c, 's, 'e) engine \<Rightarrow> 's \<Rightarrow> nat \<Rightarrow> 'c \<Rightarrow> 'e \<Rightarrow> ('c, 'e, u8 list progress) pumped" where
  "tls_read X s n c e =
     (let (r, c) = reader_read X n c
      in case r of
           Inr data \<Rightarrow> Some (Inr (Complete data), c, e)
         | Inl x \<Rightarrow>
             if err_kind x = UnexpectedEof then Some (Inl (TlsTruncated ''without a TLS close_notify''), c, e)
             else if err_kind x \<noteq> WouldBlock then Some (Inl (TlsIo x), c, e)
             else Option.bind (drain X s c e) (\<lambda>(r, c, e).
               case r of
                 Inl x \<Rightarrow> Some (Inl x, c, e)
               | Inr flushed \<Rightarrow>
                   if \<not> flushed then Some (Inr Stalled, c, e)
                   else Option.bind (fill X s c e) (\<lambda>(r, c, e).
                     case r of
                       Inl x \<Rightarrow> Some (Inl x, c, e)
                     | Inr got \<Rightarrow> if got = FillBlocked then Some (Inr Stalled, c, e) else tls_read X s n c e)))"

definition tls_write :: "('c, 's, 'e) engine \<Rightarrow> 's \<Rightarrow> u8 list \<Rightarrow> 'c \<Rightarrow> 'e \<Rightarrow> ('c, 'e, nat progress) pumped" where
  "tls_write X s data c e =
     Option.bind (drain X s c e) (\<lambda>(r, c, e).
       case r of
         Inl x \<Rightarrow> Some (Inl x, c, e)
       | Inr _ \<Rightarrow>
           (case writer_write X data c of
              (Inl x, c) \<Rightarrow> Some (Inl (TlsIo x), c, e)
            | (Inr taken, c) \<Rightarrow>
                if taken = 0
                then Some (if wants_write X c then Inr Stalled
                           else Inl (TlsIo \<lparr>err_kind = WriteZero, err_text = ''the TLS session accepted no plaintext''\<rparr>), c, e)
                else Option.bind (drain X s c e) (\<lambda>(r, c, e).
                  Some (case r of Inl x \<Rightarrow> Inl x | Inr _ \<Rightarrow> Inr (Complete taken), c, e))))"

definition tls_close :: "('c, 's, 'e) engine \<Rightarrow> 's \<Rightarrow> 'c \<Rightarrow> 'e \<Rightarrow> ('c, 'e, unit progress) pumped" where
  "tls_close X s c e =
     Option.bind (drain X s (send_close_notify X c) e) (\<lambda>(r, c, e).
       Some (case r of Inl x \<Rightarrow> Inl x | Inr flushed \<Rightarrow> Inr (if flushed then Complete () else Stalled), c, e))"

definition has_plaintext :: "('c, 's, 'e) engine \<Rightarrow> 'c \<Rightarrow> bool" where
  "has_plaintext X c = (case first_chunk X c of Inl x \<Rightarrow> err_kind x \<noteq> WouldBlock | Inr _ \<Rightarrow> True)"

section \<open>Configurations\<close>

text \<open>What the crate offers: the bundled roots, reading certificates and keys, building configurations and
  connections. A failure is its text.\<close>

record ('root, 'cert, 'key, 'cli, 'srv, 'c) crypto =
  bundled :: "'root list"
  pem_certs :: "string \<Rightarrow> (string + 'cert) list"
  anchor :: "'cert \<Rightarrow> string + 'root"
  pem_key :: "string \<Rightarrow> string + 'key"
  with_roots :: "'root list \<Rightarrow> 'cli"
  with_single_cert :: "'cert list \<Rightarrow> 'key \<Rightarrow> string + 'srv"
  valid_name :: "string \<Rightarrow> bool"
  client_conn :: "'cli \<Rightarrow> string \<Rightarrow> string + 'c"
  server_conn :: "'srv \<Rightarrow> string + 'c"

fun add_roots :: "('cert \<Rightarrow> string + 'root) \<Rightarrow> 'root list \<Rightarrow> (string + 'cert) list \<Rightarrow> tls_error + 'root list" where
  "add_roots anch roots [] = Inr roots"
| "add_roots anch roots (x # xs) =
     (case x of
        Inl msg \<Rightarrow> Inl (TlsRoots (''could not read the PEM: '' @ msg))
      | Inr cert \<Rightarrow>
          (case anch cert of Inl msg \<Rightarrow> Inl (TlsProtocol msg) | Inr r \<Rightarrow> add_roots anch (roots @ [r]) xs))"

definition root_store :: "('root, 'cert, 'key, 'cli, 'srv, 'c) crypto \<Rightarrow> string \<Rightarrow> tls_error + 'root list" where
  "root_store K extra =
     (if extra = [] then Inr (bundled K)
      else case add_roots (anchor K) (bundled K) (pem_certs K extra) of
             Inl x \<Rightarrow> Inl x
           | Inr roots \<Rightarrow>
               if length roots = length (bundled K)
               then Inl (TlsRoots ''no CERTIFICATE block in the supplied roots'')
               else Inr roots)"

text \<open>The shared configuration of the production path is built once; its contents are those of an empty \<open>extra\<close>.\<close>

definition client_config :: "('root, 'cert, 'key, 'cli, 'srv, 'c) crypto \<Rightarrow> string \<Rightarrow> tls_error + 'cli" where
  "client_config K extra = map_sum (\<lambda>x. x) (with_roots K) (root_store K extra)"

fun collect_certs :: "(string + 'cert) list \<Rightarrow> string + 'cert list" where
  "collect_certs [] = Inr []"
| "collect_certs (Inl msg # xs) = Inl msg"
| "collect_certs (Inr cert # xs) = map_sum (\<lambda>x. x) ((#) cert) (collect_certs xs)"

definition server_config :: "('root, 'cert, 'key, 'cli, 'srv, 'c) crypto \<Rightarrow> string \<Rightarrow> string \<Rightarrow> tls_error + 'srv" where
  "server_config K chain_pem key =
     (case collect_certs (pem_certs K chain_pem) of
        Inl msg \<Rightarrow> Inl (TlsIdentity (''could not read the certificate PEM: '' @ msg))
      | Inr chain \<Rightarrow>
          if chain = [] then Inl (TlsIdentity ''no CERTIFICATE block in the supplied chain'')
          else (case pem_key K key of
                  Inl msg \<Rightarrow> Inl (TlsIdentity (''could not read the private key PEM: '' @ msg))
                | Inr k \<Rightarrow> map_sum TlsProtocol (\<lambda>x. x) (with_single_cert K chain k)))"

definition client_session :: "('root, 'cert, 'key, 'cli, 'srv, 'c) crypto \<Rightarrow> 'cli \<Rightarrow> string \<Rightarrow> tls_error + 'c" where
  "client_session K config host =
     (if valid_name K host then map_sum TlsProtocol (\<lambda>x. x) (client_conn K config host) else Inl (TlsHostname host))"

definition server_session :: "('root, 'cert, 'key, 'cli, 'srv, 'c) crypto \<Rightarrow> 'srv \<Rightarrow> tls_error + 'c" where
  "server_session K config = map_sum TlsProtocol (\<lambda>x. x) (server_conn K config)"

section \<open>What the pump relies on\<close>

text \<open>\<open>plain\<close> is the plaintext a connection has accepted so far, \<open>backlog\<close> the ciphertext it still has to send. The
  connection wants to write when its queue is not empty; sending takes what was sent off the queue; only \<open>writer\<close>
  accepts plaintext, a prefix of what it is given, and says how much.\<close>

definition engine_ok :: "('c, 's, 'e) engine \<Rightarrow> ('c \<Rightarrow> u8 list) \<Rightarrow> ('c \<Rightarrow> nat) \<Rightarrow> bool" where
  "engine_ok X plain backlog \<longleftrightarrow>
     (\<forall>c. wants_write X c \<longleftrightarrow> 0 < backlog c) \<and>
     (\<forall>s c e r c' e'. write_tls X s c e = (r, c', e') \<longrightarrow>
        plain c' = plain c \<and> (case r of Inr n \<Rightarrow> n \<le> backlog c \<and> backlog c' = backlog c - n | Inl _ \<Rightarrow> backlog c' = backlog c)) \<and>
     (\<forall>data c r c'. writer_write X data c = (r, c') \<longrightarrow>
        (case r of Inr n \<Rightarrow> n \<le> length data \<and> plain c' = plain c @ take n data | Inl _ \<Rightarrow> plain c' = plain c)) \<and>
     (\<forall>s c e r c' e'. read_tls X s c e = (r, c', e') \<longrightarrow> plain c' = plain c) \<and>
     (\<forall>c. plain (snd (process_new_packets X c)) = plain c \<and> plain (send_close_notify X c) = plain c) \<and>
     (\<forall>n c. plain (snd (reader_read X n c)) = plain c)"

section \<open>Draining\<close>

lemma engine_okD:
  assumes "engine_ok X plain backlog"
  shows "wants_write X c \<longleftrightarrow> 0 < backlog c"
    and "write_tls X s c e = (r, c', e') \<Longrightarrow> plain c' = plain c"
    and "write_tls X s c e = (Inr n, c', e') \<Longrightarrow> n \<le> backlog c \<and> backlog c' = backlog c - n"
    and "writer_write X data c = (Inr n, c') \<Longrightarrow> n \<le> length data \<and> plain c' = plain c @ take n data"
    and "writer_write X data c = (Inl x, c') \<Longrightarrow> plain c' = plain c"
  using assms unfolding engine_ok_def by (blast, blast, fastforce+)

lemma drain_returns:
  assumes "engine_ok X plain backlog"
  shows "\<exists>r c' e'. drain X s c e = Some (r, c', e') \<and> plain c' = plain c \<and> (r = Inr True \<longrightarrow> backlog c' = 0)"
proof (induction "backlog c" arbitrary: c e rule: less_induct)
  case less
  note laws = engine_okD [OF assms]
  obtain r c1 e1 where w: "write_tls X s c e = (r, c1, e1)" by (rule prod_cases3)
  have p: "plain c1 = plain c" by (rule laws(2) [OF w])
  show ?case
  proof (cases "wants_write X c")
    case True
    then have q: "0 < backlog c" by (simp add: laws(1))
    show ?thesis
    proof (cases r)
      case (Inr n)
      have "n \<le> backlog c \<and> backlog c1 = backlog c - n" using laws(3) w Inr by blast
      then show ?thesis
        using less [of c1 e1] q p True w Inr by (subst drain.simps) auto
    qed (use p True w in \<open>subst drain.simps; auto\<close>)
  qed (use laws(1) [of c] in \<open>subst drain.simps; simp\<close>)
qed

lemma drain_plain:
  assumes "engine_ok X plain backlog" "drain X s c e = Some (r, c', e')"
  shows "plain c' = plain c" "r = Inr True \<Longrightarrow> backlog c' = 0"
  using drain_returns [OF assms(1), of s c e] assms(2) by auto

section \<open>Writing\<close>

lemma tls_write_returns:
  assumes ok: "engine_ok X plain backlog"
  shows "\<exists>r c' e'. tls_write X s data c e = Some (r, c', e') \<and>
    (case r of
       Inr (Complete n) \<Rightarrow> 0 < n \<and> n \<le> length data \<and> plain c' = plain c @ take n data
     | Inr Stalled \<Rightarrow> plain c' = plain c
     | Inl _ \<Rightarrow> \<exists>n. plain c' = plain c @ take n data)"
proof -
  obtain r1 c1 e1 where 1: "drain X s c e = Some (r1, c1, e1)" "plain c1 = plain c"
    using drain_returns [OF ok] by blast
  obtain r2 c2 where 2: "writer_write X data c1 = (r2, c2)" by fastforce
  have 3: "case r2 of Inr n \<Rightarrow> n \<le> length data \<and> plain c2 = plain c1 @ take n data | Inl _ \<Rightarrow> plain c2 = plain c1"
    using engine_okD(4,5) [OF ok] 2 by (cases r2) auto
  obtain r4 c4 e4 where 4: "drain X s c2 e1 = Some (r4, c4, e4)" "plain c4 = plain c2"
    using drain_returns [OF ok] by blast
  have none: "\<exists>n. [] = take n data" by (rule exI [of _ 0]) simp
  show ?thesis
  proof (cases r1)
    case (Inl x)
    then show ?thesis using 1 none by (simp add: tls_write_def)
  next
    case (Inr b)
    then show ?thesis
      using 1 2 3 4 none by (cases r2; cases r4) (auto simp: tls_write_def)
  qed
qed

text \<open>A client that writes a buffer: after a short write it goes on with the rest, after a park it tries the same
  again. Between two attempts the connection may do anything that accepts no plaintext.\<close>

inductive send_step :: "('c, 's, 'e) engine \<Rightarrow> ('c \<Rightarrow> u8 list) \<Rightarrow> 'c \<times> u8 list \<Rightarrow> 'c \<times> u8 list \<Rightarrow> bool"
  for X :: "('c, 's, 'e) engine" and plain :: "'c \<Rightarrow> u8 list" where
  accepted: "tls_write X s data c e = Some (Inr (Complete n), c', e') \<Longrightarrow> send_step X plain (c, data) (c', drop n data)"
| parked: "tls_write X s data c e = Some (Inr Stalled, c', e') \<Longrightarrow> send_step X plain (c, data) (c', data)"
| other: "plain c' = plain c \<Longrightarrow> send_step X plain (c, data) (c', data)"

lemma send_step_exact:
  assumes ok: "engine_ok X plain backlog" and step: "send_step X plain (c, data) (c', rest)"
  shows "plain c' @ rest = plain c @ data"
  using step
proof cases
  case (accepted s e n e')
  then show ?thesis using tls_write_returns [OF ok, of s data c e] by simp
next
  case (parked s e e')
  then show ?thesis using tls_write_returns [OF ok, of s data c e] by simp
qed simp

lemma send_steps_exact:
  assumes ok: "engine_ok X plain backlog" and steps: "(send_step X plain)\<^sup>*\<^sup>* (c, data) (c', rest)"
  shows "plain c' @ rest = plain c @ data"
  using steps
proof (induction "(c', rest)" arbitrary: c' rest rule: rtranclp_induct)
  case (step y)
  then show ?case using send_step_exact [OF ok] by (cases y) simp
qed simp

section \<open>The handshake and the configuration\<close>

lemma handshake_done:
  assumes ok: "engine_ok X plain backlog" and run: "handshake X s c e = Some (Inr (Complete ()), c', e')"
  shows "\<not> is_handshaking X c' \<and> backlog c' = 0"
proof -
  define Q where "Q Y z \<longleftrightarrow> (Y = X \<longrightarrow> (\<forall>c' e'. z = (Inr (Complete ()), c', e') \<longrightarrow> \<not> is_handshaking X c' \<and> backlog c' = 0))"
    for Y :: "('a, 'b, 'c) engine" and z :: "(tls_error + unit progress) \<times> 'a \<times> 'c"
  have "Q X (Inr (Complete ()), c', e')"
  proof (rule handshake.raw_induct [of "\<lambda>Y s c e. Q Y", OF _ run])
    fix hs Y and s :: 'b and c :: 'a and e :: 'c and z
    assume IH: "\<And>Y s c e y. hs Y s c e = Some y \<Longrightarrow> Q Y y"
      and body: "Option.bind (drain Y s c e) (\<lambda>(r, c, e). case r of Inl x \<Rightarrow> Some (Inl x, c, e) | Inr flushed \<Rightarrow>
           if \<not> flushed then Some (Inr Stalled, c, e)
           else if \<not> is_handshaking Y c then Some (Inr (Complete ()), c, e)
           else Option.bind (fill Y s c e) (\<lambda>(r, c, e).
             case r of Inl x \<Rightarrow> Some (Inl x, c, e) | Inr got \<Rightarrow>
                 (case got of Fed \<Rightarrow> hs Y s c e | FillBlocked \<Rightarrow> Some (Inr Stalled, c, e)
                  | FillEof \<Rightarrow> Some (Inl (TlsTruncated ''during the TLS handshake''), c, e)))) = Some z"
    show "Q Y z"
      unfolding Q_def
    proof (intro impI allI)
      fix c' e' assume X: "Y = X" and z: "z = (Inr (Complete ()), c', e')"
      obtain r1 c1 e1 where d: "drain X s c e = Some (r1, c1, e1)" using drain_returns [OF ok] by blast
      have r1: "r1 = Inr True" using body d X z by (cases r1) (auto split: if_splits)
      show "\<not> is_handshaking X c' \<and> backlog c' = 0"
      proof (cases "is_handshaking X c1")
        case False
        then show ?thesis using body d r1 X z drain_plain(2) [OF ok d r1] by simp
      next
        case True
        obtain r2 c2 e2 where f: "fill X s c1 e1 = Some (r2, c2, e2)" using body d r1 X True by (auto simp: bind_eq_Some_conv)
        have r2: "r2 = Inr Fed" using body d r1 f X z True by (cases r2) (auto split: fill_outcome.splits)
        then have "hs X s c2 e2 = Some (Inr (Complete ()), c', e')" using body d r1 f X z True by simp
        from IH [OF this] show ?thesis by (simp add: Q_def)
      qed
    qed
  qed
  then show ?thesis by (simp add: Q_def)
qed

lemma add_roots_appends:
  "add_roots anch roots xs = Inr all \<Longrightarrow>
     \<exists>extra. all = roots @ extra \<and> list_all2 (\<lambda>x r. \<exists>cert. x = Inr cert \<and> anch cert = Inr r) xs extra"
proof (induction xs arbitrary: roots)
  case (Cons x xs)
  obtain cert r where x: "x = Inr cert" "anch cert = Inr r" "add_roots anch (roots @ [r]) xs = Inr all"
    using Cons.prems by (auto split: sum.splits)
  obtain extra where "all = (roots @ [r]) @ extra" "list_all2 (\<lambda>x r. \<exists>cert. x = Inr cert \<and> anch cert = Inr r) xs extra"
    using Cons.IH [OF x(3)] by blast
  then show ?case using x by (intro exI [of _ "r # extra"]) simp
qed simp

end
