(* ===== verification/NativeSocket.thy ===== *)
theory NativeSocket
  imports Registry TlsPump
begin

text \<open>
  The socket and TLS natives (\<^verbatim>\<open>runtime/src/interp/natives.rs\<close>). Sockets do not block: a native attempts its system
  call, and when it would block parks on the readiness of the handle, to be run again. A TLS session is layered over a
  stream in place, under the same handle. What the system calls answer is a parameter, as is the \<^verbatim>\<open>rustls\<close>
  connection under the session of \<open>TlsPump\<close>.
\<close>

section \<open>Sockets\<close>

datatype ('l, 's, 'c) socket = Listener 'l | Stream 's | Tls 's 'c

text \<open>Addresses are parsed and printed by the standard library; \<open>register\<close> and \<open>deregister\<close> are the poller's.\<close>

record ('e, 'l, 's, 'a) net_os =
  parse_addr :: "string \<Rightarrow> 'a option"
  show_addr :: "'a \<Rightarrow> string"
  bind_addr :: "'a \<Rightarrow> 'e \<Rightarrow> (io_error + 'l) \<times> 'e"
  accept_conn :: "'l \<Rightarrow> 'e \<Rightarrow> (io_error + 's) \<times> 'e"
  connect_to :: "'a \<Rightarrow> 'e \<Rightarrow> (io_error + 's) \<times> 'e"
  take_error :: "'s \<Rightarrow> 'e \<Rightarrow> (io_error + io_error option) \<times> 'e"
  listener_addr :: "'l \<Rightarrow> 'e \<Rightarrow> io_error + 'a"
  stream_addr :: "'s \<Rightarrow> 'e \<Rightarrow> io_error + 'a"
  peer_addr :: "'s \<Rightarrow> 'e \<Rightarrow> io_error + 'a"
  recv :: "nat \<Rightarrow> 's \<Rightarrow> 'e \<Rightarrow> (io_error + u8 list) \<times> 'e"
  send :: "u8 list \<Rightarrow> 's \<Rightarrow> 'e \<Rightarrow> (io_error + nat) \<times> 'e"
  peek :: "'s \<Rightarrow> 'e \<Rightarrow> io_error + nat"
  register :: "'l + 's \<Rightarrow> i64 \<Rightarrow> 'e \<Rightarrow> (io_error + unit) \<times> 'e"
  deregister :: "'l + 's \<Rightarrow> 'e \<Rightarrow> 'e"
  resolve_job :: "string \<Rightarrow> u16 \<Rightarrow> 'e"
  resolved_of :: "'e \<Rightarrow> io_error + string"

text \<open>The descriptor the poller knows a socket by.\<close>

fun source_of :: "('l, 's, 'c) socket \<Rightarrow> 'l + 's" where
  "source_of (Listener l) = Inl l"
| "source_of (Stream s) = Inr s"
| "source_of (Tls s c) = Inr s"

section \<open>Errors\<close>

definition socket_kind :: "io_kind \<Rightarrow> string" where
  "socket_kind k =
     (case k of
        ConnectionRefused \<Rightarrow> ''refused''
      | ConnectionReset \<Rightarrow> ''reset''
      | ConnectionAborted \<Rightarrow> ''reset''
      | BrokenPipe \<Rightarrow> ''reset''
      | AddrInUse \<Rightarrow> ''addr_in_use''
      | AddrNotAvailable \<Rightarrow> ''addr_unavailable''
      | TimedOut \<Rightarrow> ''timed_out''
      | PermissionDenied \<Rightarrow> ''permission_denied''
      | _ \<Rightarrow> ''other'')"

text \<open>\<open>Err("<kind>\u{1}<message>")\<close>.\<close>

definition tagged_err :: "layout \<Rightarrow> string \<Rightarrow> string \<Rightarrow> ('e, val) eff" where
  "tagged_err L kind msg = nbind (new_str L (kind @ [SEP] @ msg)) (err_val L)"

definition socket_err :: "layout \<Rightarrow> io_error \<Rightarrow> ('e, val) eff" where
  "socket_err L e = tagged_err L (socket_kind (err_kind e)) (err_text e)"

definition socket_closed_err :: "layout \<Rightarrow> ('e, val) eff" where
  "socket_closed_err L = tagged_err L ''closed'' ''socket is closed''"

definition wrong_socket_kind :: "string \<Rightarrow> io_error" where
  "wrong_socket_kind want = \<lparr>err_kind = OtherKind, err_text = ''not '' @ want\<rparr>"

definition tls_err :: "layout \<Rightarrow> tls_error \<Rightarrow> ('e, val) eff" where
  "tls_err L x =
     (case x of
        TlsIo e \<Rightarrow> socket_err L e
      | TlsProtocol msg \<Rightarrow> tagged_err L ''tls'' msg
      | TlsHostname h \<Rightarrow> tagged_err L ''tls'' (''not a valid host name for a TLS certificate: '' @ h)
      | TlsRoots why \<Rightarrow> tagged_err L ''tls'' (''unusable trusted roots: '' @ why)
      | TlsIdentity why \<Rightarrow> tagged_err L ''tls'' (''unusable server identity: '' @ why)
      | TlsTruncated where_ \<Rightarrow> tagged_err L ''tls'' (''the peer closed the connection '' @ where_))"

definition socket_addr_err :: "layout \<Rightarrow> string \<Rightarrow> ('e, val) eff" where
  "socket_addr_err L addr = tagged_err L ''addr'' (''not an <ip>:<port> address: '' @ addr)"

section \<open>The registry\<close>

text \<open>The handle is used up even when the poller refuses the socket.\<close>

definition reg_reserve :: "'a registry \<Rightarrow> i64 \<times> 'a registry" where
  "reg_reserve r = (next_id r, r\<lparr>next_id := next_id r + 1\<rparr>)"

definition register_socket :: "('e, 'l, 's, 'a) net_os \<Rightarrow> ('e, ('l, 's, 'c) socket) table \<Rightarrow> layout \<Rightarrow> ('l, 's, 'c) socket \<Rightarrow>
    ('e, val) eff" where
  "register_socket N T L sock =
     nbind (on_table T reg_reserve) (\<lambda>h.
     nbind (host_update (register N (source_of sock) h)) (\<lambda>res.
       case res of
         Inl e \<Rightarrow> socket_err L e
       | Inr _ \<Rightarrow> nbind (on_table T (\<lambda>r. ((), reg_put h sock r))) (\<lambda>_. ok_val L (IntV h))))"

definition with_socket :: "('e, ('l, 's, 'c) socket) table \<Rightarrow> i64 \<Rightarrow>
    (('l, 's, 'c) socket \<Rightarrow> 'e \<Rightarrow> 'b \<times> ('l, 's, 'c) socket \<times> 'e) \<Rightarrow> ('e, 'b option) eff" where
  "with_socket T h f =
     host_update (\<lambda>e.
       case handles (tab_get T e) h of
         None \<Rightarrow> (None, e)
       | Some sock \<Rightarrow>
           (let (x, sock', e) = f sock e in (Some x, tab_set T (reg_put h sock' (tab_get T e)) e)))"

text \<open>An attempt on the socket behind a handle: the answer goes to \<open>good\<close>, an error the native waits out parks it.\<close>

definition attempt :: "('e, ('l, 's, 'c) socket) table \<Rightarrow> layout \<Rightarrow> i64 \<Rightarrow> (io_kind \<Rightarrow> bool) \<Rightarrow>
    (('l, 's, 'c) socket \<Rightarrow> 'e \<Rightarrow> (io_error + 'b) \<times> 'e) \<Rightarrow> ('b \<Rightarrow> ('e, val) eff) \<Rightarrow> ('e, val) eff" where
  "attempt T L h waits f good =
     nbind (with_socket T h (\<lambda>sock e. let (x, e) = f sock e in (x, sock, e))) (\<lambda>r.
       case r of
         None \<Rightarrow> socket_closed_err L
       | Some (Inr x) \<Rightarrow> good x
       | Some (Inl e) \<Rightarrow>
           if waits (err_kind e) then nbind (park_ready h) (\<lambda>_. nret Unit) else socket_err L e)"

section \<open>Plain sockets\<close>

definition native_socket_listen :: "('e, 'l, 's, 'a) net_os \<Rightarrow> ('e, ('l, 's, 'c) socket) table \<Rightarrow> layout \<Rightarrow> 'e native" where
  "native_socket_listen N T L args =
     nbind (nlift (expect_one args ''socket_listen'')) (\<lambda>v.
     nbind (nread (\<lambda>st. str_contents st v)) (\<lambda>addr.
       case parse_addr N addr of
         None \<Rightarrow> socket_addr_err L addr
       | Some a \<Rightarrow>
           nbind (host_update (bind_addr N a)) (\<lambda>res.
             case res of Inr l \<Rightarrow> register_socket N T L (Listener l) | Inl e \<Rightarrow> socket_err L e)))"

definition native_socket_accept :: "('e, 'l, 's, 'a) net_os \<Rightarrow> ('e, ('l, 's, 'c) socket) table \<Rightarrow> layout \<Rightarrow> 'e native" where
  "native_socket_accept N T L args =
     nbind (nlift (expect_one args ''socket_accept'')) (\<lambda>v.
     nbind (nlift (as_int v ''socket_accept'')) (\<lambda>h.
       attempt T L h (\<lambda>k. k = WouldBlock)
         (\<lambda>sock e. case sock of
            Listener l \<Rightarrow> accept_conn N l e
          | _ \<Rightarrow> (Inl (wrong_socket_kind ''a listener''), e))
         (\<lambda>s. register_socket N T L (Stream s))))"

definition native_socket_connect :: "('e, 'l, 's, 'a) net_os \<Rightarrow> ('e, ('l, 's, 'c) socket) table \<Rightarrow> layout \<Rightarrow> 'e native" where
  "native_socket_connect N T L args =
     nbind (nlift (expect_one args ''socket_connect'')) (\<lambda>v.
     nbind (nread (\<lambda>st. str_contents st v)) (\<lambda>addr.
       case parse_addr N addr of
         None \<Rightarrow> socket_addr_err L addr
       | Some a \<Rightarrow>
           nbind (host_update (connect_to N a)) (\<lambda>res.
             case res of Inr s \<Rightarrow> register_socket N T L (Stream s) | Inl e \<Rightarrow> socket_err L e)))"

definition native_socket_connect_finish :: "('e, 'l, 's, 'a) net_os \<Rightarrow> ('e, ('l, 's, 'c) socket) table \<Rightarrow> layout \<Rightarrow> 'e native" where
  "native_socket_connect_finish N T L args =
     nbind (nlift (expect_one args ''socket_connect_finish'')) (\<lambda>v.
     nbind (nlift (as_int v ''socket_connect_finish'')) (\<lambda>h.
       attempt T L h (\<lambda>k. k = WouldBlock \<or> k = NotConnected)
         (\<lambda>sock e. case sock of
            Stream s \<Rightarrow>
              (case take_error N s e of
                 (Inr (Some x), e) \<Rightarrow> (Inl x, e)
               | (Inl x, e) \<Rightarrow> (Inl x, e)
               | (Inr None, e) \<Rightarrow> (map_sum (\<lambda>x. x) (\<lambda>_. ()) (peer_addr N s e), e))
          | _ \<Rightarrow> (Inl (wrong_socket_kind ''a connecting stream''), e))
         (\<lambda>_. ok_val L Unit)))"

definition native_socket_read :: "('e, 'l, 's, 'a) net_os \<Rightarrow> ('e, ('l, 's, 'c) socket) table \<Rightarrow> layout \<Rightarrow> 'e native" where
  "native_socket_read N T L args =
     nbind (nlift (args2 args ''socket_read'')) (\<lambda>(hv, maxv).
     nbind (nlift (as_int hv ''socket_read'')) (\<lambda>h.
     nbind (nlift (as_int maxv ''socket_read'')) (\<lambda>m.
       let n = nat (max (sint m) 0)
       in if n = 0 then nbind (new_bytes L []) (ok_val L)
          else attempt T L h (\<lambda>k. k = WouldBlock)
                 (\<lambda>sock e. case sock of
                    Stream s \<Rightarrow> recv N (min n (2 ^ 20)) s e
                  | _ \<Rightarrow> (Inl (wrong_socket_kind ''a plain stream''), e))
                 (\<lambda>data. nbind (new_bytes L data) (ok_val L)))))"

definition native_socket_write :: "('e, 'l, 's, 'a) net_os \<Rightarrow> ('e, ('l, 's, 'c) socket) table \<Rightarrow> layout \<Rightarrow> 'e native" where
  "native_socket_write N T L args =
     nbind (nlift (args2 args ''socket_write'')) (\<lambda>(hv, dv).
     nbind (nlift (as_int hv ''socket_write'')) (\<lambda>h.
     nbind (nread (\<lambda>st. bytes_contents st dv ''socket_write'')) (\<lambda>data.
       if data = [] then ok_val L (IntV 0)
       else attempt T L h (\<lambda>k. k = WouldBlock)
              (\<lambda>sock e. case sock of
                 Stream s \<Rightarrow> send N data s e
               | _ \<Rightarrow> (Inl (wrong_socket_kind ''a plain stream''), e))
              (\<lambda>n. ok_val L (IntV (word_of_nat n))))))"

definition wake_poll_waiters :: "i64 \<Rightarrow> ('e, unit) eff" where
  "wake_poll_waiters h = nsched (\<lambda>s. map_option (Pair ()) (wake_poll h s))"

definition close_socket_entry :: "('e, 'l, 's, 'a) net_os \<Rightarrow> ('e, ('l, 's, 'c) socket) table \<Rightarrow> i64 \<Rightarrow> ('e, bool) eff" where
  "close_socket_entry N T h =
     nbind (on_table T (reg_take h)) (\<lambda>removed.
       case removed of
         None \<Rightarrow> nret False
       | Some sock \<Rightarrow>
           nbind (host_update (\<lambda>e. ((), deregister N (source_of sock) e))) (\<lambda>_.
           nbind (wake_poll_waiters h) (\<lambda>_. nret True)))"

definition native_socket_close :: "('e, 'l, 's, 'a) net_os \<Rightarrow> ('e, ('l, 's, 'c) socket) table \<Rightarrow> layout \<Rightarrow> 'e native" where
  "native_socket_close N T L args =
     nbind (nlift (expect_one args ''socket_close'')) (\<lambda>v.
     nbind (nlift (as_int v ''socket_close'')) (\<lambda>h.
     nbind (close_socket_entry N T h) (\<lambda>closed. if closed then ok_val L Unit else socket_closed_err L)))"

definition native_socket_local_addr :: "('e, 'l, 's, 'a) net_os \<Rightarrow> ('e, ('l, 's, 'c) socket) table \<Rightarrow> layout \<Rightarrow> 'e native" where
  "native_socket_local_addr N T L args =
     nbind (nlift (expect_one args ''socket_local_addr'')) (\<lambda>v.
     nbind (nlift (as_int v ''socket_local_addr'')) (\<lambda>h.
       attempt T L h (\<lambda>_. False)
         (\<lambda>sock e. (case source_of sock of Inl l \<Rightarrow> listener_addr N l e | Inr s \<Rightarrow> stream_addr N s e, e))
         (\<lambda>a. nbind (new_str L (show_addr N a)) (ok_val L))))"

definition native_socket_peer_addr :: "('e, 'l, 's, 'a) net_os \<Rightarrow> ('e, ('l, 's, 'c) socket) table \<Rightarrow> layout \<Rightarrow> 'e native" where
  "native_socket_peer_addr N T L args =
     nbind (nlift (expect_one args ''socket_peer_addr'')) (\<lambda>v.
     nbind (nlift (as_int v ''socket_peer_addr'')) (\<lambda>h.
       attempt T L h (\<lambda>_. False)
         (\<lambda>sock e. (case source_of sock of Inl _ \<Rightarrow> Inl (wrong_socket_kind ''a stream'') | Inr s \<Rightarrow> peer_addr N s e, e))
         (\<lambda>a. nbind (new_str L (show_addr N a)) (ok_val L))))"

definition peek_ready :: "('e, 'l, 's, 'a) net_os \<Rightarrow> 's \<Rightarrow> 'e \<Rightarrow> bool" where
  "peek_ready N s e = (case peek N s e of Inr _ \<Rightarrow> True | Inl x \<Rightarrow> err_kind x \<noteq> WouldBlock)"

definition native_socket_is_ready ::
    "('c, 's, 'e) engine \<Rightarrow> ('e, 'l, 's, 'a) net_os \<Rightarrow> ('e, ('l, 's, 'c) socket) table \<Rightarrow> 'e native" where
  "native_socket_is_ready X N T args =
     nbind (nlift (expect_one args ''socket_is_ready'')) (\<lambda>v.
     nbind (nlift (as_int v ''socket_is_ready'')) (\<lambda>h.
     nbind (host_read (\<lambda>e.
         case handles (tab_get T e) h of
           None \<Rightarrow> True
         | Some (Stream s) \<Rightarrow> peek_ready N s e
         | Some (Tls s c) \<Rightarrow> has_plaintext X c \<or> peek_ready N s e
         | Some (Listener _) \<Rightarrow> False)) (\<lambda>b. nret (Bool b))))"

definition native_socket_resolve :: "('e, 'l, 's, 'a) net_os \<Rightarrow> layout \<Rightarrow> 'e native" where
  "native_socket_resolve N L args =
     nbind (nlift (args2 args ''socket_resolve'')) (\<lambda>(hv, pv).
     nbind (nread (\<lambda>st. str_contents st hv)) (\<lambda>host.
     nbind (nlift (as_int pv ''socket_resolve'')) (\<lambda>port.
       if sint port < 0 \<or> 65535 < sint port then socket_addr_err L (host @ '':'' @ int_digits (sint port))
       else nbind (park_syscall (resolve_job N host (ucast port)) (resolved_of N)
              (\<lambda>res. case res of
                 Inr joined \<Rightarrow>
                   if joined = [] then tagged_err L ''dns'' (''no addresses for '' @ host)
                   else nbind (new_str L joined) (ok_val L)
               | Inl e \<Rightarrow> tagged_err L ''dns'' (host @ '': '' @ err_text e))) (\<lambda>_. nret Unit))))"

section \<open>TLS\<close>

text \<open>The session under a handle, or the value the native answers when there is none. A pump that does not return
  makes the native not return.\<close>

definition with_tls :: "('e, ('l, 's, 'c) socket) table \<Rightarrow> layout \<Rightarrow> i64 \<Rightarrow> ('s \<Rightarrow> 'c \<Rightarrow> 'e \<Rightarrow> ('b \<times> 'c \<times> 'e) option) \<Rightarrow>
    ('b \<Rightarrow> ('e, val) eff) \<Rightarrow> ('e, val) eff" where
  "with_tls T L h f next_op =
     nbind (with_socket T h (\<lambda>sock e.
       case sock of
         Tls s c \<Rightarrow> (case f s c e of Some (x, c, e) \<Rightarrow> (Inr (Some x), Tls s c, e) | None \<Rightarrow> (Inr None, sock, e))
       | _ \<Rightarrow> (Inl (), sock, e))) (\<lambda>r.
       case r of
         None \<Rightarrow> socket_closed_err L
       | Some (Inl _) \<Rightarrow> socket_err L (wrong_socket_kind ''a TLS stream'')
       | Some (Inr None) \<Rightarrow> nlift (Err Diverge)
       | Some (Inr (Some x)) \<Rightarrow> next_op x)"

definition tls_outcome :: "layout \<Rightarrow> i64 \<Rightarrow> ('b \<Rightarrow> ('e, val) eff) \<Rightarrow> tls_error + 'b progress \<Rightarrow> ('e, val) eff" where
  "tls_outcome L h fin outcome =
     (case outcome of
        Inr (Complete v) \<Rightarrow> nbind (fin v) (ok_val L)
      | Inr Stalled \<Rightarrow> nbind (park_ready h) (\<lambda>_. nret Unit)
      | Inl x \<Rightarrow> tls_err L x)"

text \<open>A stream is replaced by itself with a session, in place; anything else is put back.\<close>

definition wrap_stream :: "('e, ('l, 's, 'c) socket) table \<Rightarrow> layout \<Rightarrow> i64 \<Rightarrow> 'c \<Rightarrow> ('e, val) eff" where
  "wrap_stream T L h session =
     nbind (on_table T (reg_take h)) (\<lambda>taken.
       case taken of
         None \<Rightarrow> socket_closed_err L
       | Some (Stream s) \<Rightarrow> nbind (on_table T (\<lambda>r. ((), reg_put h (Tls s session) r))) (\<lambda>_. ok_val L (IntV h))
       | Some other \<Rightarrow>
           nbind (on_table T (\<lambda>r. ((), reg_put h other r))) (\<lambda>_. socket_err L (wrong_socket_kind ''an unwrapped stream'')))"

definition native_tls_connect ::
    "('root, 'cert, 'key, 'cli, 'srv, 'c) crypto \<Rightarrow> ('e, ('l, 's, 'c) socket) table \<Rightarrow> layout \<Rightarrow> 'e native" where
  "native_tls_connect K T L args =
     nbind (nlift (args3 args ''tls_connect'')) (\<lambda>(hv, host_v, roots_v).
     nbind (nlift (as_int hv ''tls_connect'')) (\<lambda>h.
     nbind (nread (\<lambda>st. str_contents st host_v)) (\<lambda>host.
     nbind (nread (\<lambda>st. str_contents st roots_v)) (\<lambda>roots_pem.
       case client_config K roots_pem of
         Inl x \<Rightarrow> tls_err L x
       | Inr config \<Rightarrow>
           (case client_session K config host of
              Inl x \<Rightarrow> tls_err L x
            | Inr session \<Rightarrow> wrap_stream T L h session)))))"

definition native_tls_accept ::
    "('root, 'cert, 'key, 'cli, 'srv, 'c) crypto \<Rightarrow> ('e, ('l, 's, 'c) socket) table \<Rightarrow> layout \<Rightarrow> 'e native" where
  "native_tls_accept K T L args =
     nbind (nlift (args3 args ''tls_accept'')) (\<lambda>(hv, cert_v, key_v).
     nbind (nlift (as_int hv ''tls_accept'')) (\<lambda>h.
     nbind (nread (\<lambda>st. str_contents st cert_v)) (\<lambda>cert_pem.
     nbind (nread (\<lambda>st. str_contents st key_v)) (\<lambda>key_pem.
       case server_config K cert_pem key_pem of
         Inl x \<Rightarrow> tls_err L x
       | Inr config \<Rightarrow>
           (case server_session K config of
              Inl x \<Rightarrow> tls_err L x
            | Inr session \<Rightarrow> wrap_stream T L h session)))))"

definition native_tls_handshake :: "('c, 's, 'e) engine \<Rightarrow> ('e, ('l, 's, 'c) socket) table \<Rightarrow> layout \<Rightarrow> 'e native" where
  "native_tls_handshake X T L args =
     nbind (nlift (expect_one args ''tls_handshake'')) (\<lambda>v.
     nbind (nlift (as_int v ''tls_handshake'')) (\<lambda>h.
       with_tls T L h (handshake X) (tls_outcome L h (\<lambda>_. nret Unit))))"

definition native_tls_read :: "('c, 's, 'e) engine \<Rightarrow> ('e, ('l, 's, 'c) socket) table \<Rightarrow> layout \<Rightarrow> 'e native" where
  "native_tls_read X T L args =
     nbind (nlift (args2 args ''tls_read'')) (\<lambda>(hv, maxv).
     nbind (nlift (as_int hv ''tls_read'')) (\<lambda>h.
     nbind (nlift (as_int maxv ''tls_read'')) (\<lambda>m.
       let n = nat (max (sint m) 0)
       in if n = 0 then nbind (new_bytes L []) (ok_val L)
          else with_tls T L h (\<lambda>s. tls_read X s (min n (2 ^ 20))) (tls_outcome L h (new_bytes L)))))"

definition native_tls_write :: "('c, 's, 'e) engine \<Rightarrow> ('e, ('l, 's, 'c) socket) table \<Rightarrow> layout \<Rightarrow> 'e native" where
  "native_tls_write X T L args =
     nbind (nlift (args2 args ''tls_write'')) (\<lambda>(hv, dv).
     nbind (nlift (as_int hv ''tls_write'')) (\<lambda>h.
     nbind (nread (\<lambda>st. bytes_contents st dv ''tls_write'')) (\<lambda>data.
       if data = [] then ok_val L (IntV 0)
       else with_tls T L h (\<lambda>s. tls_write X s data) (tls_outcome L h (\<lambda>n. nret (IntV (word_of_nat n)))))))"

definition native_tls_close ::
    "('c, 's, 'e) engine \<Rightarrow> ('e, 'l, 's, 'a) net_os \<Rightarrow> ('e, ('l, 's, 'c) socket) table \<Rightarrow> layout \<Rightarrow> 'e native" where
  "native_tls_close X N T L args =
     nbind (nlift (expect_one args ''tls_close'')) (\<lambda>v.
     nbind (nlift (as_int v ''tls_close'')) (\<lambda>h.
       with_tls T L h (tls_close X) (\<lambda>outcome.
         case outcome of
           Inr Stalled \<Rightarrow> nbind (park_ready h) (\<lambda>_. nret Unit)
         | Inr (Complete _) \<Rightarrow> nbind (close_socket_entry N T h) (\<lambda>_. ok_val L Unit)
         | Inl x \<Rightarrow> nbind (close_socket_entry N T h) (\<lambda>_. tls_err L x))))"

section \<open>Teardown\<close>

text \<open>\<open>reset_sockets\<close>: no socket survives a run, and handles start over.\<close>

definition reset_sockets :: "('e, ('l, 's, 'c) socket) table \<Rightarrow> 'e \<Rightarrow> 'e" where
  "reset_sockets T e = tab_set T reg_init e"

section \<open>The contract\<close>

lemma nsafe_socket_errs [nsafe_intros]:
  "nsafe vs (tagged_err L kind msg) (\<lambda>v. [v])" "nsafe vs (socket_err L e) (\<lambda>v. [v])" "nsafe vs (socket_closed_err L) (\<lambda>v. [v])"
  "nsafe vs (tls_err L x) (\<lambda>v. [v])" "nsafe vs (socket_addr_err L addr) (\<lambda>v. [v])"
proof -
  show t: "nsafe vs (tagged_err L kind msg) (\<lambda>v. [v])" for kind msg
    unfolding tagged_err_def by (rule nsafe_intros | (simp; fail) | (auto; fail))+
  show "nsafe vs (socket_err L e) (\<lambda>v. [v])" "nsafe vs (socket_closed_err L) (\<lambda>v. [v])" "nsafe vs (socket_addr_err L addr) (\<lambda>v. [v])"
    for e unfolding socket_err_def socket_closed_err_def socket_addr_err_def by (rule t)+
  then show "nsafe vs (tls_err L x) (\<lambda>v. [v])" unfolding tls_err_def using t by (cases x) simp_all
qed

lemma nsafe_wake [nsafe_intros]: "nsafe vs (wake_poll_waiters h) (\<lambda>_. [])"
  unfolding wake_poll_waiters_def
proof (rule nsafe_sched)
  fix s :: "'e scheduler" assume "sched_ok s"
  then show "map_option (Pair ()) (wake_poll h s) \<noteq> None" using wake_poll_ok [of s h] by auto
next
  fix s s' :: "'e scheduler" and x :: unit assume "map_option (Pair ()) (wake_poll h s) = Some (x, s')"
  then have w: "wake_poll h s = Some s'" by auto
  then have core: "same_core s s'" by (rule wake_poll_core)
  have "core_grows s s'" unfolding core_grows_def by (rule exI [of _ "[]"]) (use core in \<open>simp add: same_core_def\<close>)
  then show "core_grows s s' \<and> (sched_ok s \<longrightarrow> sched_ok s')" using wake_poll_ok [of s h] w by auto
  show "set (gather_scheduler_roots s') \<union> set [] \<subseteq> set (gather_scheduler_roots s) \<union> set vs"
    using core by (auto simp: same_core_def roots_split)
qed

lemma nsafe_with_socket [nsafe_intros]: "nsafe vs (with_socket T h f) (\<lambda>_. [])"
  unfolding with_socket_def by (rule nsafe_host)

lemma nsafe_socket_case [nsafe_intros]:
  "(\<And>l. x = Listener l \<Longrightarrow> nsafe vs (f l) res) \<Longrightarrow> (\<And>s. x = Stream s \<Longrightarrow> nsafe vs (g s) res) \<Longrightarrow>
     (\<And>s c. x = Tls s c \<Longrightarrow> nsafe vs (k s c) res) \<Longrightarrow>
     nsafe vs (case x of Listener l \<Rightarrow> f l | Stream s \<Rightarrow> g s | Tls s c \<Rightarrow> k s c) res"
  by (cases x) simp_all

lemma nsafe_progress [nsafe_intros]:
  "(\<And>v. nsafe vs (f v) res) \<Longrightarrow> nsafe vs g res \<Longrightarrow> nsafe vs (case x of Complete v \<Rightarrow> f v | Stalled \<Rightarrow> g) res"
  by (cases x) simp_all

lemma nsafe_sockets [nsafe_intros]:
  "nsafe vs (register_socket N T L sock) (\<lambda>v. [v])" "nsafe vs (close_socket_entry N T h) (\<lambda>_. [])"
  "nsafe vs (wrap_stream T L h session) (\<lambda>v. [v])"
  unfolding register_socket_def close_socket_entry_def wrap_stream_def
  by (rule nsafe_intros | (simp; fail) | (auto; fail))+

lemma nsafe_attempt [nsafe_intros]: "(\<And>x. nsafe vs (good x) (\<lambda>v. [v])) \<Longrightarrow> nsafe vs (attempt T L h waits f good) (\<lambda>v. [v])"
  unfolding attempt_def by (rule nsafe_intros | (simp; fail) | (auto; fail))+

lemma nsafe_with_tls [nsafe_intros]: "(\<And>x. nsafe vs (g x) (\<lambda>v. [v])) \<Longrightarrow> nsafe vs (with_tls T L h f g) (\<lambda>v. [v])"
  unfolding with_tls_def by (rule nsafe_intros | (simp; fail) | (auto; fail))+

lemma nsafe_tls_outcome [nsafe_intros]:
  "(\<And>x. nsafe vs (g x) (\<lambda>v. [v])) \<Longrightarrow> nsafe vs (tls_outcome L h g x) (\<lambda>v. [v])"
  unfolding tls_outcome_def by (rule nsafe_intros | (simp; fail) | (auto; fail))+

lemmas socket_native_defs =
  native_socket_listen_def native_socket_accept_def native_socket_connect_def native_socket_connect_finish_def
  native_socket_read_def native_socket_write_def native_socket_close_def native_socket_local_addr_def
  native_socket_peer_addr_def native_socket_is_ready_def native_socket_resolve_def

lemmas tls_native_defs =
  native_tls_connect_def native_tls_accept_def native_tls_handshake_def native_tls_read_def native_tls_write_def
  native_tls_close_def

lemma socket_natives_ok:
  "native_ok (native_socket_listen N T L)" "native_ok (native_socket_accept N T L)" "native_ok (native_socket_connect N T L)"
  "native_ok (native_socket_connect_finish N T L)" "native_ok (native_socket_read N T L)" "native_ok (native_socket_write N T L)"
  "native_ok (native_socket_close N T L)" "native_ok (native_socket_local_addr N T L)" "native_ok (native_socket_peer_addr N T L)"
  "native_ok (native_socket_is_ready X N T)" "native_ok (native_socket_resolve N L)"
  by (unfold socket_native_defs Let_def)
    (rule nsafe_native | rule nsafe_intros | (simp; fail) | (auto; fail) | (auto intro!: keeps_subset; fail))+

lemma tls_natives_ok:
  "native_ok (native_tls_connect K T L)" "native_ok (native_tls_accept K T L)" "native_ok (native_tls_handshake X T L)"
  "native_ok (native_tls_read X T L)" "native_ok (native_tls_write X T L)" "native_ok (native_tls_close X N T L)"
  by (unfold tls_native_defs Let_def)
    (rule nsafe_native | rule nsafe_intros | (simp; fail) | (auto; fail) | (auto intro!: keeps_subset; fail))+

section \<open>Sessions and closing\<close>

text \<open>What an error native answers, in a heap with room.\<close>

lemma tagged_err_result:
  assumes "tagged_err L kind msg w = (r, w')"
  shows "env w' = env w" "park_cell w' = park_cell w" "sched w' = sched w"
    and "heap_ok (mem w) \<Longrightarrow> length (rt_slots (mem w')) \<le> 2 ^ 32 \<Longrightarrow>
      \<exists>v. r = Ok v \<and> boxed (rt_slots (mem w')) v TAG_ERR (Str (kind @ [SEP] @ msg))"
  using boxed_result [OF assms [unfolded tagged_err_def ok_val_eta]] by simp_all

text \<open>An attempt that is refused because of the kind of socket leaves the outside as it was.\<close>

lemma attempt_refused:
  assumes "table_ok T" "handles (tab_get T (env w)) h = Some sock" "f sock (env w) = (Inl e, env w)" "\<not> waits (err_kind e)"
  shows "attempt T L h waits f good w = socket_err L e w"
proof -
  have "reg_put h sock (tab_get T (env w)) = tab_get T (env w)" using assms(2) by (simp add: reg_put_def fun_upd_idem)
  then show ?thesis
    using assms by (simp add: attempt_def nbind_def with_socket_def host_update_def table_ok_def)
qed

lemma attempt_closed:
  assumes "handles (tab_get T (env w)) h = None"
  shows "attempt T L h waits f good w = socket_closed_err L w"
  using assms by (simp add: attempt_def nbind_def with_socket_def host_update_def)

lemma socket_read_tls:
  assumes "table_ok T" "handles (tab_get T (env w)) h = Some (Tls s c)" "0 < sint m"
  shows "native_socket_read N T L [IntV h, IntV m] w = tagged_err L ''other'' ''not a plain stream'' w"
  using assms(3)
  by (simp add: attempt_refused [OF assms(1,2), where e = "wrong_socket_kind ''a plain stream''"] native_socket_read_def nbind_def nlift_def args2_def as_int_def wrong_socket_kind_def socket_err_def socket_kind_def)

lemma socket_write_tls:
  assumes "table_ok T" "handles (tab_get T (env w)) h = Some (Tls s c)" "lookup (rt_slots (mem w)) d = Some (Bytes data)" "data \<noteq> []"
  shows "native_socket_write N T L [IntV h, Ref d] w = tagged_err L ''other'' ''not a plain stream'' w"
  using assms(3,4)
  by (simp add: attempt_refused [OF assms(1,2), where e = "wrong_socket_kind ''a plain stream''"] native_socket_write_def nbind_def nlift_def nread_def args2_def as_int_def bytes_contents_def
      wrong_socket_kind_def socket_err_def socket_kind_def)

lemma wrap_stream_result:
  assumes "table_ok T" "handles (tab_get T (env w)) h = Some (Stream s)" "wrap_stream T L h c w = (r, w')"
  shows "handles (tab_get T (env w')) k = (if k = h then Some (Tls s c) else handles (tab_get T (env w)) k)"
proof -
  let ?e = "tab_set T (snd (reg_take h (tab_get T (env w)))) (env w)"
  let ?w = "w\<lparr>env := tab_set T (reg_put h (Tls s c) (tab_get T ?e)) ?e\<rparr>"
  have "ok_val L (IntV h) ?w = (r, w')"
    using assms(2,3) by (simp add: wrap_stream_def nbind_def on_table_eq reg_take_def)
  then have "env w' = env ?w" unfolding ok_val_def new_enum_def by (blast dest: alloc_env)
  then show ?thesis using assms(1) by (simp add: taken_handles)
qed

lemma close_entry:
  assumes T: "table_ok T" and h: "handles (tab_get T (env w)) h = Some sock" and ok: "sched_ok (sched w)"
    and dereg: "\<And>x e. tab_get T (deregister N x e) = tab_get T e"
  obtains s' w' where "close_socket_entry N T h w = (Ok True, w')" "mem w' = mem w" "park_cell w' = park_cell w" "sched w' = s'"
    "sched_ok s'" "\<And>i. in_poll (sched w) h i \<Longrightarrow> i \<in> set (ready s')"
    "\<And>k. handles (tab_get T (env w')) k = (if k = h then None else handles (tab_get T (env w)) k)"
proof -
  obtain s' where s': "wake_poll h (sched w) = Some s'" "sched_ok s'" using wake_poll_ok [OF ok] by blast
  let ?e = "deregister N (source_of sock) (tab_set T (snd (reg_take h (tab_get T (env w)))) (env w))"
  show thesis
  proof (rule that [of "w\<lparr>env := ?e, sched := s'\<rparr>" s'])
    show "close_socket_entry N T h w = (Ok True, w\<lparr>env := ?e, sched := s'\<rparr>)"
      using h s'(1)
      by (simp add: close_socket_entry_def nbind_def on_table_eq reg_take_def host_update_def wake_poll_waiters_def nsched_def nret_def)
    show "i \<in> set (ready s')" if "in_poll (sched w) h i" for i by (rule wake_poll_queued [OF ok s'(1) that])
    show "handles (tab_get T (env (w\<lparr>env := ?e, sched := s'\<rparr>))) k = (if k = h then None else handles (tab_get T (env w)) k)" for k
      using dereg T by (simp add: taken_handles)
  qed (simp_all add: s')
qed

lemma socket_read_closed:
  assumes "handles (tab_get T (env w)) h = None" "0 < sint m"
  shows "native_socket_read N T L [IntV h, IntV m] w = tagged_err L ''closed'' ''socket is closed'' w"
  using attempt_closed [OF assms(1)] assms(2)
  by (simp add: native_socket_read_def nbind_def nlift_def args2_def as_int_def socket_closed_err_def)

lemma socket_close_result:
  assumes T: "table_ok T" and h: "handles (tab_get T (env w)) h = Some sock" and ok: "sched_ok (sched w)"
    and dereg: "\<And>x e. tab_get T (deregister N x e) = tab_get T e" and run: "native_socket_close N T L [IntV h] w = (r, w')"
  shows "handles (tab_get T (env w')) k = (if k = h then None else handles (tab_get T (env w)) k)"
    and "in_poll (sched w) h i \<Longrightarrow> i \<in> set (ready (sched w'))"
proof -
  obtain s1 w1 where close: "close_socket_entry N T h w = (Ok True, w1)" "sched w1 = s1"
      "\<And>i. in_poll (sched w) h i \<Longrightarrow> i \<in> set (ready s1)"
      "\<And>k. handles (tab_get T (env w1)) k = (if k = h then None else handles (tab_get T (env w)) k)"
    by (rule close_entry [OF T h ok dereg]) (rule that)
  have "ok_val L Unit w1 = (r, w')"
    using run close(1) by (simp add: native_socket_close_def nbind_def nlift_def expect_one_def as_int_def)
  then have "env w' = env w1" "sched w' = sched w1"
    unfolding ok_val_def new_enum_def by (blast dest: alloc_env alloc_world)+
  then show "handles (tab_get T (env w')) k = (if k = h then None else handles (tab_get T (env w)) k)"
    and "in_poll (sched w) h i \<Longrightarrow> i \<in> set (ready (sched w'))"
    using close by simp_all
qed

end
