(* ===== verification/NativeCalls.thy ===== *)
theory NativeCalls
  imports DriverRun
begin

text \<open>
  A program is affected only by the natives it calls: a run depends on the native table at the indices that occur in
  the code and nowhere else. So the contract of natives need only hold of those.
\<close>

definition calls_natives :: "module \<Rightarrow> u32 set" where
  "calls_natives m = {k. \<exists>f\<in>set (mod_functions m). \<exists>argc. CallNative k argc \<in> set (code f)}"

definition natives_agree :: "module \<Rightarrow> 'e native list \<Rightarrow> 'e native list \<Rightarrow> bool" where
  "natives_agree m ns ns' \<longleftrightarrow> (\<forall>k\<in>calls_natives m. get_nth ns' (unat k) = get_nth ns (unat k))"

section \<open>The loop\<close>

lemma cfg_other: "lay (c\<lparr>natives := ns\<rparr>) = lay c" "prog (c\<lparr>natives := ns\<rparr>) = prog c"
  by simp_all

lemma natives_irrelevant [simp]:
  "poll_gc (c\<lparr>natives := ns\<rparr>) = poll_gc c" "new_obj (c\<lparr>natives := ns\<rparr>) = new_obj c"
  unfolding poll_gc_def new_obj_def cfg_other by (rule HOL.refl)+

lemma natives_irrelevant_ops [simp]:
  "const_str (c\<lparr>natives := ns\<rparr>) = const_str c" "make_obj (c\<lparr>natives := ns\<rparr>) = make_obj c"
  "enum_new (c\<lparr>natives := ns\<rparr>) = enum_new c" "struct_new (c\<lparr>natives := ns\<rparr>) = struct_new c"
  "list_new (c\<lparr>natives := ns\<rparr>) = list_new c" "closure_new (c\<lparr>natives := ns\<rparr>) = closure_new c"
  "field_set (c\<lparr>natives := ns\<rparr>) = field_set c" "list_set (c\<lparr>natives := ns\<rparr>) = list_set c"
  "exec_call (c\<lparr>natives := ns\<rparr>) = exec_call c" "exec_call_indirect (c\<lparr>natives := ns\<rparr>) = exec_call_indirect c"
  "exec_call_virtual (c\<lparr>natives := ns\<rparr>) = exec_call_virtual c" "jump_to (c\<lparr>natives := ns\<rparr>) = jump_to c"
  "jump_if (c\<lparr>natives := ns\<rparr>) = jump_if c" "exec_return (c\<lparr>natives := ns\<rparr>) = exec_return c"
  unfolding const_str_def make_obj_def enum_new_def struct_new_def list_new_def closure_new_def field_set_def
      list_set_def exec_call_def exec_call_indirect_def exec_call_virtual_def jump_to_def jump_if_def exec_return_def
      natives_irrelevant cfg_other
  by (rule HOL.refl)+

lemma debug_value_natives [simp]: "debug_value cf (c\<lparr>natives := ns\<rparr>) n v = debug_value cf c n v"
proof (induction n arbitrary: v)
  case (Suc n)
  then have eq: "debug_value cf (c\<lparr>natives := ns\<rparr>) n = debug_value cf c n" by (simp add: fun_eq_iff)
  show ?case unfolding debug_value.simps cfg_other eq by (rule HOL.refl)
qed simp

lemma fallback_natives [simp]: "virtual_fallback cf (c\<lparr>natives := ns\<rparr>) = virtual_fallback cf c"
  unfolding virtual_fallback_def cfg_other debug_value_natives natives_irrelevant by (rule HOL.refl)

lemma call_natives [simp]: "call loop (c\<lparr>natives := ns\<rparr>) = call loop c"
  by (intro ext) (simp add: call_def)

lemma run_native_agree:
  "get_nth ns (unat k) = get_nth (natives c) (unat k) \<Longrightarrow> run_native (c\<lparr>natives := ns\<rparr>) fr k argc = run_native c fr k argc"
  by (rule ext) (simp add: run_native_def)

lemma step_natives:
  assumes "natives_agree (prog c) (natives c) ns"
  shows "step (c\<lparr>natives := ns\<rparr>) fb bd fr = step c fb bd fr"
proof -
  let ?fetch = "rbind (or_panic (get_nth (mod_functions (prog c)) (frame_func fr))) (\<lambda>f.
      ok_or (bug ''pc ran off the end of the instruction stream'') (get_nth (code f) (pc fr)))"
  have native: "exec_call_native (c\<lparr>natives := ns\<rparr>) fr' k argc = exec_call_native c fr' k argc"
    if fetched: "?fetch = Ok (CallNative k argc)" for k argc fr'
  proof -
    obtain f where "get_nth (mod_functions (prog c)) (frame_func fr) = Some f" "get_nth (code f) (pc fr) = Some (CallNative k argc)"
      using fetched by (auto simp: rbind_eq_Inr)
    then have "k \<in> calls_natives (prog c)" by (auto simp: calls_natives_def dest!: get_nth_in_set)
    then show ?thesis using assms by (simp add: exec_call_native_def natives_agree_def run_native_agree)
  qed
  show ?thesis
  proof (cases ?fetch)
    case (Inl e)
    then show ?thesis by (intro ext) (simp add: step_def ebind_def elift_def)
  next
    case (Inr i)
    show ?thesis
    proof (cases "exec_operator (prog c) i")
      case None
      then show ?thesis using Inr native
        by (intro ext, unfold step_def cfg_other) (cases i; simp add: ebind_def elift_def Let_def)
    next
      case (Some f)
      then show ?thesis using Inr by (intro ext) (simp add: step_def ebind_def elift_def Let_def)
    qed
  qed
qed

lemma run_loop_natives:
  assumes "natives_agree (prog c) (natives c) ns"
  shows "run_loop (c\<lparr>natives := ns\<rparr>) n bd fr = run_loop c n bd fr"
proof (induction n arbitrary: bd fr)
  case (Suc n)
  then have "run_loop (c\<lparr>natives := ns\<rparr>) n = run_loop c n" by (simp add: fun_eq_iff)
  then show ?case by (simp add: step_natives [OF assms])
qed simp

section \<open>The driver\<close>

lemma await_natives [simp]: "await_ready (c\<lparr>natives := ns\<rparr>) evs = await_ready c evs"
proof -
  have "load_fiber (c\<lparr>natives := ns\<rparr>) = load_fiber c" unfolding load_fiber_def cfg_other by (rule HOL.refl)
  then have "next_ready (c\<lparr>natives := ns\<rparr>) = next_ready c" unfolding next_ready_def by (rule arg_cong)
  then have "ready_or (c\<lparr>natives := ns\<rparr>) = ready_or c" unfolding ready_or_def by (rule arg_cong)
  then show ?thesis by (induction evs) simp_all
qed

lemma drive_loop_natives:
  assumes "natives_agree (prog c) (natives c) ns"
  shows "drive_loop (c\<lparr>natives := ns\<rparr>) n evs i fr = drive_loop c n evs i fr"
proof (induction n arbitrary: evs i fr)
  case (Suc n)
  then have "drive_loop (c\<lparr>natives := ns\<rparr>) n = drive_loop c n" by (simp add: fun_eq_iff)
  then show ?case by (simp add: run_loop_natives [OF assms])
qed simp

lemma run_natives:
  assumes "natives_agree (prog c) (natives c) ns"
  shows "run (c\<lparr>natives := ns\<rparr>) n evs func args = run c n evs func args"
proof -
  have "drive_loop (c\<lparr>natives := ns\<rparr>) n evs = drive_loop c n evs" by (simp add: fun_eq_iff drive_loop_natives [OF assms])
  then show ?thesis by (intro ext) (simp add: run_def drive_def)
qed

section \<open>Safety\<close>

text \<open>The table with every native that the program does not call replaced by one that does nothing.\<close>

definition inert :: "'e native" where
  "inert args w = (Ok Unit, w)"

definition called_only :: "'e cfg \<Rightarrow> 'e native list" where
  "called_only c =
     map (\<lambda>i. if i \<in> unat ` calls_natives (prog c) then natives c ! i else inert) [0..<length (natives c)]"

lemma inert_ok: "native_ok inert"
  by (auto simp: native_ok_def native_safe_def inert_def sr.R_refl)

lemma called_only_agree: "natives_agree (prog c) (natives c) (called_only c)"
  by (simp add: natives_agree_def called_only_def get_nth_def)

definition called_ok :: "'e cfg \<Rightarrow> bool" where
  "called_ok c \<longleftrightarrow> (\<forall>k\<in>calls_natives (prog c). case get_nth (natives c) (unat k) of Some f \<Rightarrow> native_ok f | None \<Rightarrow> True)"

lemma called_only_ok:
  assumes "called_ok c"
  shows "natives_ok (c\<lparr>natives := called_only c\<rparr>)"
  using assms inert_ok by (auto simp: natives_ok_def called_only_def called_ok_def get_nth_def)

lemma run_called_safe:
  assumes c: "module_safe (prog c)" "called_ok c" and s: "idle_vm c s" "vals_ok (slots_of s) args"
    and run: "run c n evs func args s = (r, s')" "slots_fit (world s')"
  shows "r \<noteq> Err Panic \<and> (\<forall>v. r = Ok v \<longrightarrow> valid_val (slots_of s') v \<and> idle_vm c s')"
proof -
  let ?c = "c\<lparr>natives := called_only c\<rparr>"
  have inv: "vm_ok ?c t = vm_ok c t" for t :: "'a vm" by (simp add: vm_ok_def frame_ok_def)
  have "idle_vm ?c s" using s(1) by (simp add: idle_vm_def inv)
  moreover have "run ?c n evs func args s = (r, s')" using run(1) run_natives [OF called_only_agree] by metis
  ultimately show ?thesis
    using run_safe [of ?c s args n evs func r s'] c(1) called_only_ok [OF c(2)] s(2) run(2) by (simp add: inv idle_vm_def)
qed

lemma run_called_slots:
  assumes "module_safe (prog c)" "called_ok c" "cell_ok (world s)" "run c n evs func args s = (r, s')"
  shows "length (slots_of s) \<le> length (slots_of s')" "r = Ok v \<Longrightarrow> cell_ok (world s')"
proof -
  let ?c = "c\<lparr>natives := called_only c\<rparr>"
  have "run ?c n evs func args s = (r, s')" using assms(4) run_natives [OF called_only_agree] by metis
  note S = run_slots [of ?c s n evs func args r s', OF _ called_only_ok [OF assms(2)] assms(3) this]
  show "length (slots_of s) \<le> length (slots_of s')" using S(1) assms(1) by simp
  show "r = Ok v \<Longrightarrow> cell_ok (world s')" using S(2) assms(1) by simp
qed

end
