(* ===== verification/NativeTable.thy ===== *)
theory NativeTable
  imports MapNatives NativeFile NativeRegex NativeProc NativeSocket NativeCalls
begin

text \<open>
  The native table the runtime ships with (\<open>NATIVES\<close>, \<open>default_natives\<close> of
  \<^verbatim>\<open>runtime/src/interp/natives.rs\<close>), over what the operating system, the standard library's tables and the
  third-party crates provide, and the safety of programs that run on it.
\<close>

record ('e, 'f, 're, 'c, 'w, 'r, 'l, 's, 'a, 'k, 'root, 'cert, 'key, 'cli, 'srv) shipped =
  sh_layout :: layout
  sh_stdout :: sink
  sh_stderr :: sink
  sh_upper :: "string \<Rightarrow> string"
  sh_lower :: "string \<Rightarrow> string"
  sh_sha256 :: "u8 list \<Rightarrow> u8 list"
  sh_sha1 :: "u8 list \<Rightarrow> u8 list"
  sh_md5 :: "u8 list \<Rightarrow> u8 list"
  sh_crc32 :: "u8 list \<Rightarrow> u32"
  sh_libm :: libm
  sh_host :: "'e host"
  sh_io :: "'e io_abi"
  sh_exists :: "string \<Rightarrow> 'e \<Rightarrow> bool"
  sh_temp_dir :: "'e \<Rightarrow> u8 list"
  sh_file_abi :: "('e, 'f) file_abi"
  sh_files :: "('e, 'f) table"
  sh_regex :: "'re regex_crate"
  sh_regexes :: "('e, 're) table"
  sh_proc_os :: "('e, 'c, 'w, 'r) proc_os"
  sh_procs :: "('e, ('c, 'w, 'r) running) table"
  sh_net :: "('e, 'l, 's, 'a) net_os"
  sh_sockets :: "('e, ('l, 's, 'k) socket) table"
  sh_engine :: "('k, 's, 'e) engine"
  sh_crypto :: "('root, 'cert, 'key, 'cli, 'srv, 'k) crypto"

definition native_table :: "('e, 'f, 're, 'c, 'w, 'r, 'l, 's, 'a, 'k, 'root, 'cert, 'key, 'cli, 'srv) shipped \<Rightarrow> (string \<times> 'e native) list" where
  "native_table E = [
    (''println'', native_println (sh_stdout E)),
    (''print'', native_print (sh_stdout E)),
    (''str_concat'', native_str_concat (sh_layout E)),
    (''list_index'', native_list_index),
    (''list_get'', native_list_get (sh_layout E)),
    (''list_len'', native_list_len),
    (''list_set'', native_list_set),
    (''map_new'', native_map_new (sh_layout E)),
    (''map_index'', native_map_index),
    (''map_get'', native_map_get (sh_layout E)),
    (''map_len'', native_map_len),
    (''map_has'', native_map_has),
    (''map_set'', native_map_set),
    (''eq'', native_eq),
    (''str_len'', native_str_len),
    (''str_byte_len'', native_str_byte_len),
    (''str_trim'', native_str_trim (sh_layout E)),
    (''str_compare'', native_str_compare (sh_layout E)),
    (''str_trim_start'', native_str_trim_start (sh_layout E)),
    (''str_trim_end'', native_str_trim_end (sh_layout E)),
    (''str_contains'', native_str_contains),
    (''str_starts_with'', native_str_starts_with),
    (''str_ends_with'', native_str_ends_with),
    (''str_to_uppercase'', native_str_to_uppercase (sh_layout E) (sh_upper E)),
    (''str_to_lowercase'', native_str_to_lowercase (sh_layout E) (sh_lower E)),
    (''str_lines'', native_str_lines (sh_layout E)),
    (''str_split_whitespace'', native_str_split_whitespace (sh_layout E)),
    (''str_split'', native_str_split (sh_layout E)),
    (''str_slice'', native_str_slice (sh_layout E)),
    (''str_chars'', native_str_chars (sh_layout E)),
    (''str_bytes'', native_str_bytes (sh_layout E)),
    (''str_from_chars'', native_str_from_chars (sh_layout E)),
    (''str_try_from_chars'', native_str_try_from_chars (sh_layout E)),
    (''int_to_double'', native_int_to_double),
    (''double_to_int'', native_double_to_int),
    (''double_to_bits'', native_double_to_bits),
    (''math_sqrt'', native_math_sqrt (sh_libm E)),
    (''math_pow'', native_math_pow (sh_libm E)),
    (''math_floor'', native_math_floor (sh_libm E)),
    (''math_ceil'', native_math_ceil (sh_libm E)),
    (''math_round'', native_math_round (sh_libm E)),
    (''math_trunc'', native_math_trunc (sh_libm E)),
    (''math_exp'', native_math_exp (sh_libm E)),
    (''math_ln'', native_math_ln (sh_libm E)),
    (''math_log10'', native_math_log10 (sh_libm E)),
    (''math_sin'', native_math_sin (sh_libm E)),
    (''math_cos'', native_math_cos (sh_libm E)),
    (''math_tan'', native_math_tan (sh_libm E)),
    (''math_asin'', native_math_asin (sh_libm E)),
    (''math_acos'', native_math_acos (sh_libm E)),
    (''math_atan'', native_math_atan (sh_libm E)),
    (''math_atan2'', native_math_atan2 (sh_libm E)),
    (''math_hypot'', native_math_hypot (sh_libm E)),
    (''str_to_int'', native_str_to_int (sh_layout E)),
    (''str_to_double'', native_str_to_double (sh_layout E)),
    (''fs_read_text'', native_fs_read_text (sh_io E) (sh_layout E)),
    (''fs_write_text'', native_fs_write_text (sh_io E) (sh_layout E)),
    (''fs_read_bytes'', native_fs_read_bytes (sh_io E) (sh_layout E)),
    (''fs_write_bytes'', native_fs_write_bytes (sh_io E) (sh_layout E)),
    (''fs_exists'', native_fs_exists (sh_exists E)),
    (''fs_list_dir'', native_fs_list_dir (sh_io E) (sh_layout E)),
    (''fs_read_dir'', native_fs_read_dir (sh_io E) (sh_layout E)),
    (''fs_metadata'', native_fs_metadata (sh_io E) (sh_layout E)),
    (''fs_symlink_metadata'', native_fs_symlink_metadata (sh_io E) (sh_layout E)),
    (''fs_create_dir'', native_fs_create_dir (sh_io E) (sh_layout E)),
    (''fs_create_dir_all'', native_fs_create_dir_all (sh_io E) (sh_layout E)),
    (''fs_remove'', native_fs_remove (sh_io E) (sh_layout E)),
    (''fs_remove_dir_all'', native_fs_remove_dir_all (sh_io E) (sh_layout E)),
    (''fs_rename'', native_fs_rename (sh_io E) (sh_layout E)),
    (''fs_copy'', native_fs_copy (sh_io E) (sh_layout E)),
    (''fs_temp_dir'', native_fs_temp_dir (sh_temp_dir E) (sh_layout E)),
    (''fs_temp_file'', native_fs_temp_file (sh_file_abi E) (sh_layout E)),
    (''fs_open'', native_fs_open (sh_file_abi E) (sh_files E) (sh_layout E)),
    (''fs_create'', native_fs_create (sh_file_abi E) (sh_files E) (sh_layout E)),
    (''file_read'', native_file_read (sh_file_abi E) (sh_files E) (sh_layout E)),
    (''file_write'', native_file_write (sh_file_abi E) (sh_files E) (sh_layout E)),
    (''file_seek'', native_file_seek (sh_file_abi E) (sh_files E) (sh_layout E)),
    (''file_close'', native_file_close (sh_files E) (sh_layout E)),
    (''time_now_millis'', native_time_now_millis (sh_host E)),
    (''time_monotonic_nanos'', native_time_monotonic_nanos (sh_host E)),
    (''time_sleep_millis'', native_time_sleep_millis (sh_host E)),
    (''random_seed_entropy'', native_random_seed_entropy (sh_host E)),
    (''env_get'', native_env_get (sh_host E) (sh_layout E)),
    (''env_set'', native_env_set (sh_host E)),
    (''env_vars'', native_env_vars (sh_host E) (sh_layout E)),
    (''env_args'', native_env_args (sh_host E) (sh_layout E)),
    (''env_current_dir'', native_env_current_dir (sh_host E) (sh_layout E)),
    (''env_current_exe'', native_env_current_exe (sh_host E) (sh_layout E)),
    (''env_set_current_dir'', native_env_set_current_dir (sh_host E) (sh_layout E)),
    (''env_os'', native_env_os (sh_host E) (sh_layout E)),
    (''env_exit'', native_env_exit (sh_host E)),
    (''term_is_tty'', native_term_is_tty (sh_host E)),
    (''term_size'', native_term_size (sh_host E) (sh_layout E)),
    (''map_keys'', native_map_keys (sh_layout E)),
    (''map_values'', native_map_values (sh_layout E)),
    (''map_remove'', native_map_remove (sh_layout E)),
    (''map_clear'', native_map_clear),
    (''list_join'', native_list_join (sh_layout E)),
    (''list_push'', native_list_push),
    (''list_pop'', native_list_pop (sh_layout E)),
    (''list_clear'', native_list_clear),
    (''process_run'', native_process_run (sh_proc_os E) (sh_layout E)),
    (''process_exec'', native_process_exec (sh_proc_os E) (sh_layout E)),
    (''process_start'', native_process_start (sh_proc_os E) (sh_procs E) (sh_layout E)),
    (''process_wait'', native_process_wait (sh_proc_os E) (sh_procs E) (sh_layout E)),
    (''process_kill'', native_process_kill (sh_proc_os E) (sh_procs E) (sh_layout E)),
    (''process_stdin_write'', native_process_stdin_write (sh_proc_os E) (sh_procs E) (sh_layout E)),
    (''process_stdin_close'', native_process_stdin_close (sh_procs E) (sh_layout E)),
    (''process_stdout_read'', native_process_stdout_read (sh_proc_os E) (sh_procs E) (sh_layout E)),
    (''process_stderr_read'', native_process_stderr_read (sh_proc_os E) (sh_procs E) (sh_layout E)),
    (''bytes_len'', native_bytes_len),
    (''bytes_get'', native_bytes_get (sh_layout E)),
    (''bytes_slice'', native_bytes_slice (sh_layout E)),
    (''bytes_concat'', native_bytes_concat (sh_layout E)),
    (''bytes_to_string'', native_bytes_to_string (sh_layout E)),
    (''bytes_to_list'', native_bytes_to_list (sh_layout E)),
    (''bytes_empty'', native_bytes_empty (sh_layout E)),
    (''bytes_from_list'', native_bytes_from_list (sh_layout E)),
    (''bytesbuilder_new'', native_bytesbuilder_new (sh_layout E)),
    (''bytesbuilder_write_u8'', native_bytesbuilder_write_u8),
    (''bytesbuilder_write_bytes'', native_bytesbuilder_write_bytes),
    (''bytesbuilder_write_str'', native_bytesbuilder_write_str),
    (''bytesbuilder_len'', native_bytesbuilder_len),
    (''bytesbuilder_finish'', native_bytesbuilder_finish (sh_layout E)),
    (''io_stdin_read'', native_io_stdin_read (sh_io E) (sh_layout E)),
    (''io_stdout_write'', native_io_stdout_write (sh_layout E) (sh_stdout E)),
    (''io_stderr_write'', native_io_stderr_write (sh_layout E) (sh_stderr E)),
    (''eprintln'', native_eprintln (sh_stderr E)),
    (''eprint'', native_eprint (sh_stderr E)),
    (''int_to_string'', native_int_to_string (sh_layout E)),
    (''double_to_string'', native_double_to_string (sh_layout E)),
    (''bool_to_string'', native_bool_to_string (sh_layout E)),
    (''str_identity'', native_str_identity),
    (''string_debug'', native_string_debug (sh_layout E)),
    (''bytes_debug'', native_bytes_debug (sh_layout E)),
    (''test_capture_begin'', native_test_capture_begin),
    (''test_capture_end'', native_test_capture_end (sh_layout E)),
    (''fiber_spawn'', native_fiber_spawn),
    (''fiber_join'', native_fiber_join),
    (''fiber_yield'', native_fiber_yield),
    (''channel_new'', native_channel_new),
    (''channel_send'', native_channel_send),
    (''channel_receive'', native_channel_receive (sh_layout E)),
    (''channel_close'', native_channel_close),
    (''hash_sha256'', native_hash_digest ''hash.sha256'' (sh_sha256 E) (sh_layout E)),
    (''hash_sha1'', native_hash_digest ''hash.sha1'' (sh_sha1 E) (sh_layout E)),
    (''hash_md5'', native_hash_digest ''hash.md5'' (sh_md5 E) (sh_layout E)),
    (''hash_crc32'', native_hash_crc32 (sh_crc32 E)),
    (''str_byte_slice'', native_str_byte_slice (sh_layout E)),
    (''regex_compile'', native_regex_compile (sh_regex E) (sh_regexes E) (sh_layout E)),
    (''regex_is_match'', native_regex_is_match (sh_regex E) (sh_regexes E)),
    (''regex_find'', native_regex_find (sh_regex E) (sh_regexes E) (sh_layout E)),
    (''regex_find_all'', native_regex_find_all (sh_regex E) (sh_regexes E) (sh_layout E)),
    (''regex_captures'', native_regex_captures (sh_regex E) (sh_regexes E) (sh_layout E)),
    (''regex_replace'', native_regex_replace (sh_regex E) (sh_regexes E) (sh_layout E)),
    (''regex_replace_all'', native_regex_replace_all (sh_regex E) (sh_regexes E) (sh_layout E)),
    (''socket_listen'', native_socket_listen (sh_net E) (sh_sockets E) (sh_layout E)),
    (''socket_accept'', native_socket_accept (sh_net E) (sh_sockets E) (sh_layout E)),
    (''socket_connect'', native_socket_connect (sh_net E) (sh_sockets E) (sh_layout E)),
    (''socket_connect_finish'', native_socket_connect_finish (sh_net E) (sh_sockets E) (sh_layout E)),
    (''socket_read'', native_socket_read (sh_net E) (sh_sockets E) (sh_layout E)),
    (''socket_write'', native_socket_write (sh_net E) (sh_sockets E) (sh_layout E)),
    (''socket_close'', native_socket_close (sh_net E) (sh_sockets E) (sh_layout E)),
    (''socket_local_addr'', native_socket_local_addr (sh_net E) (sh_sockets E) (sh_layout E)),
    (''socket_peer_addr'', native_socket_peer_addr (sh_net E) (sh_sockets E) (sh_layout E)),
    (''socket_resolve'', native_socket_resolve (sh_net E) (sh_layout E)),
    (''socket_is_ready'', native_socket_is_ready (sh_engine E) (sh_net E) (sh_sockets E)),
    (''fiber_is_done'', native_fiber_is_done),
    (''chan_is_ready'', native_chan_is_ready),
    (''select_park'', native_select_park (sh_host E)),
    (''tls_connect'', native_tls_connect (sh_crypto E) (sh_sockets E) (sh_layout E)),
    (''tls_accept'', native_tls_accept (sh_crypto E) (sh_sockets E) (sh_layout E)),
    (''tls_handshake'', native_tls_handshake (sh_engine E) (sh_sockets E) (sh_layout E)),
    (''tls_read'', native_tls_read (sh_engine E) (sh_sockets E) (sh_layout E)),
    (''tls_write'', native_tls_write (sh_engine E) (sh_sockets E) (sh_layout E)),
    (''tls_close'', native_tls_close (sh_engine E) (sh_net E) (sh_sockets E) (sh_layout E))]"

definition default_natives :: "('e, 'f, 're, 'c, 'w, 'r, 'l, 's, 'a, 'k, 'root, 'cert, 'key, 'cli, 'srv) shipped \<Rightarrow> 'e native list" where
  "default_natives E = map snd (native_table E)"

lemma native_table_names: "map fst (native_table E) = native_names"
  by (simp add: native_table_def native_names_def)

text \<open>The natives that can panic: those that compare or hash map keys, when a key is cyclic or holds the map; those on a
  channel, when there is no such channel; setting a variable, when its name is malformed. The variables of the
  environment are read into a map.\<close>

definition may_panic :: "string list" where
  "may_panic = [
    ''map_new'', ''map_index'', ''map_get'', ''map_has'', ''map_set'', ''map_remove'',
    ''env_set'', ''env_vars'', ''channel_send'', ''channel_receive'', ''channel_close'', ''chan_is_ready'']"

lemma native_table_ok:
  "list_all (\<lambda>(name, f). name \<in> set may_panic \<or> native_ok f) (native_table E)"
  unfolding native_table_def
  by (simp add: may_panic_def text_natives_ok str_slice_ok data_natives_ok list_writers_ok math_natives_ok fiber_natives_ok
      process_natives_ok fs_natives_ok file_natives_ok regex_natives_ok proc_natives_ok socket_natives_ok tls_natives_ok)

lemma default_natives_called_ok:
  assumes "natives c = default_natives E" "\<forall>k\<in>calls_natives (prog c). native_name k \<notin> Some ` set may_panic"
  shows "called_ok c"
proof -
  have "native_ok f" if k: "k \<in> calls_natives (prog c)" and f: "get_nth (natives c) (unat k) = Some f" for k f
  proof -
    have len: "unat k < length (native_table E)" and fk: "f = snd (native_table E ! unat k)"
      using f assms(1) by (auto simp: get_nth_Some default_natives_def)
    then have "native_name k = Some (fst (native_table E ! unat k))"
      using native_table_names [of E] by (metis get_nth_Some length_map native_name_def nth_map)
    then have "fst (native_table E ! unat k) \<notin> set may_panic" using assms(2) k by auto
    then show ?thesis
      using native_table_ok [of E] len fk by (cases "native_table E ! unat k") (auto simp: list_all_length)
  qed
  then show ?thesis by (auto simp: called_ok_def split: option.splits)
qed

end
