(* ===== verification/Builder.thy ===== *)
theory Builder
  imports Module "HOL-Library.Sublist"
begin

text \<open>
  The assembler for single functions (\<^verbatim>\<open>runtime/src/builder.rs\<close>): jumps refer to labels, which are resolved to
  addresses when the function is finished, and the number of locals follows from the slots used. A builder method
  that panics is \<open>None\<close>.
\<close>

section \<open>The builder\<close>

record fn_builder =
  b_name :: string
  b_params :: u16
  b_locals :: u16
  b_code :: "instr list"
  label_addrs :: "addr option list"
  fixups :: "(usize \<times> usize) list"

definition fnb_new :: "string \<Rightarrow> u16 \<Rightarrow> fn_builder" where
  "fnb_new name params =
     \<lparr>b_name = name, b_params = params, b_locals = params, b_code = [], label_addrs = [], fixups = []\<rparr>"

definition label :: "fn_builder \<Rightarrow> usize \<times> fn_builder" where
  "label b = (length (label_addrs b), b\<lparr>label_addrs := label_addrs b @ [None]\<rparr>)"

definition bind_label :: "usize \<Rightarrow> fn_builder \<Rightarrow> fn_builder option" where
  "bind_label l b =
     (case get_nth (label_addrs b) l of
        Some None \<Rightarrow> Some (b\<lparr>label_addrs := (label_addrs b)[l := Some (length (b_code b))]\<rparr>)
      | _ \<Rightarrow> None)"

definition emit :: "instr \<Rightarrow> fn_builder \<Rightarrow> fn_builder" where
  "emit i b = b\<lparr>b_code := b_code b @ [i]\<rparr>"

definition emit_jump :: "instr \<Rightarrow> usize \<Rightarrow> fn_builder \<Rightarrow> fn_builder" where
  "emit_jump i target b = emit i (b\<lparr>fixups := fixups b @ [(length (b_code b), target)]\<rparr>)"

text \<open>\<open>local_count.max(slot.saturating_add(1))\<close>.\<close>

definition bump_locals :: "slot \<Rightarrow> fn_builder \<Rightarrow> fn_builder" where
  "bump_locals slot b = b\<lparr>b_locals := max (b_locals b) (if slot = - 1 then slot else slot + 1)\<rparr>"

definition load :: "slot \<Rightarrow> fn_builder \<Rightarrow> fn_builder" where
  "load slot b = emit (Load slot) (bump_locals slot b)"

definition store :: "slot \<Rightarrow> fn_builder \<Rightarrow> fn_builder" where
  "store slot b = emit (Store slot) (bump_locals slot b)"

definition jump :: "usize \<Rightarrow> fn_builder \<Rightarrow> fn_builder" where
  "jump target = emit_jump (Jump 0) target"

definition jump_if_true :: "usize \<Rightarrow> fn_builder \<Rightarrow> fn_builder" where
  "jump_if_true target = emit_jump (JumpIfTrue 0) target"

definition jump_if_false :: "usize \<Rightarrow> fn_builder \<Rightarrow> fn_builder" where
  "jump_if_false target = emit_jump (JumpIfFalse 0) target"

text \<open>Every other method emits its instruction as it is given; these instructions have one.\<close>

fun has_method :: "instr \<Rightarrow> bool" where
  "has_method (Load _) = False"
| "has_method (Store _) = False"
| "has_method (GlobalGet _) = False"
| "has_method (GlobalSet _) = False"
| "has_method ListLen = False"
| "has_method (Jump _) = False"
| "has_method (JumpIfTrue _) = False"
| "has_method (JumpIfFalse _) = False"
| "has_method _ = True"

definition patch :: "addr \<Rightarrow> instr \<Rightarrow> instr option" where
  "patch a i =
     (case i of
        Jump _ \<Rightarrow> Some (Jump a)
      | JumpIfTrue _ \<Rightarrow> Some (JumpIfTrue a)
      | JumpIfFalse _ \<Rightarrow> Some (JumpIfFalse a)
      | _ \<Rightarrow> None)"

fun resolve :: "addr option list \<Rightarrow> (usize \<times> usize) list \<Rightarrow> instr list \<Rightarrow> instr list option" where
  "resolve addrs [] c = Some c"
| "resolve addrs ((at, l) # fs) c =
     (case get_nth addrs l of
        Some (Some a) \<Rightarrow>
          (case Option.bind (get_nth c at) (patch a) of
             Some i \<Rightarrow> resolve addrs fs (c[at := i])
           | None \<Rightarrow> None)
      | _ \<Rightarrow> None)"

definition finish :: "fn_builder \<Rightarrow> func option" where
  "finish b =
     map_option (function_new (b_name b) (b_params b) (b_locals b)) (resolve (label_addrs b) (fixups b) (b_code b))"

section \<open>Sequences of calls\<close>

datatype bcall =
    BLabel
  | BBind usize
  | BEmit instr
  | BLoad slot
  | BStore slot
  | BJump usize
  | BJumpIfTrue usize
  | BJumpIfFalse usize

definition bcall :: "bcall \<Rightarrow> fn_builder \<Rightarrow> fn_builder option" where
  "bcall op b =
     (case op of
        BLabel \<Rightarrow> Some (snd (label b))
      | BBind l \<Rightarrow> bind_label l b
      | BEmit i \<Rightarrow> if has_method i then Some (emit i b) else None
      | BLoad s \<Rightarrow> Some (load s b)
      | BStore s \<Rightarrow> Some (store s b)
      | BJump l \<Rightarrow> Some (jump l b)
      | BJumpIfTrue l \<Rightarrow> Some (jump_if_true l b)
      | BJumpIfFalse l \<Rightarrow> Some (jump_if_false l b))"

fun bcalls :: "bcall list \<Rightarrow> fn_builder \<Rightarrow> fn_builder option" where
  "bcalls [] b = Some b"
| "bcalls (op # ops) b = Option.bind (bcall op b) (bcalls ops)"

section \<open>The invariant\<close>

fun jump_instr :: "instr \<Rightarrow> bool" where
  "jump_instr (Jump _) = True"
| "jump_instr (JumpIfTrue _) = True"
| "jump_instr (JumpIfFalse _) = True"
| "jump_instr _ = False"

text \<open>The slot an instruction uses is below the count of locals. The largest slot has no count above it.\<close>

definition slot_ok :: "u16 \<Rightarrow> instr \<Rightarrow> bool" where
  "slot_ok n i = (case i of Load s \<Rightarrow> s < n \<or> s = - 1 | Store s \<Rightarrow> s < n \<or> s = - 1 | _ \<Rightarrow> True)"

definition builder_ok :: "fn_builder \<Rightarrow> bool" where
  "builder_ok b \<longleftrightarrow>
     b_params b \<le> b_locals b \<and> list_all (slot_ok (b_locals b)) (b_code b) \<and>
     (\<forall>a. Some a \<in> set (label_addrs b) \<longrightarrow> a \<le> length (b_code b)) \<and>
     distinct (map fst (fixups b)) \<and>
     (\<forall>i. i \<in> fst ` set (fixups b) \<longleftrightarrow> i < length (b_code b) \<and> jump_instr (b_code b ! i))"

lemma slot_ok_mono: "slot_ok n i \<Longrightarrow> n \<le> m \<Longrightarrow> slot_ok m i"
  by (cases i) (auto simp: slot_ok_def)

lemma slot_ok_bump: "slot_ok (max n (if s = - 1 then s else s + 1)) (Load s)" "slot_ok (max n (if s = - 1 then s else s + 1)) (Store s)"
proof -
  have "s < s + 1" if "s \<noteq> - 1"
  proof -
    have "1 + s \<noteq> 0" using that by (metis add.commute add_eq_0_iff)
    then show ?thesis by (simp add: word_less_nat_alt unatSuc add.commute)
  qed
  then show "slot_ok (max n (if s = - 1 then s else s + 1)) (Load s)" "slot_ok (max n (if s = - 1 then s else s + 1)) (Store s)"
    by (auto simp: slot_ok_def less_max_iff_disj)
qed

lemma new_ok: "builder_ok (fnb_new name params)"
  by (simp add: builder_ok_def fnb_new_def)

lemma emit_ok:
  assumes "builder_ok b" "\<not> jump_instr i" "slot_ok (b_locals b) i"
  shows "builder_ok (emit i b)"
  using assms by (auto simp: builder_ok_def emit_def nth_append less_Suc_eq)

lemma emit_jump_ok:
  assumes "builder_ok b" "jump_instr i" "slot_ok (b_locals b) i"
  shows "builder_ok (emit_jump i l b)"
  using assms by (auto simp: builder_ok_def emit_jump_def emit_def nth_append less_Suc_eq)

lemma bump_ok: "builder_ok b \<Longrightarrow> builder_ok (bump_locals s b)"
  by (auto simp: builder_ok_def bump_locals_def list_all_iff le_max_iff_disj intro: slot_ok_mono)

lemma bcall_ok:
  assumes "builder_ok b" "bcall op b = Some b'"
  shows "builder_ok b'"
proof (cases op)
  case BLabel
  then have "b' = b\<lparr>label_addrs := label_addrs b @ [None]\<rparr>" using assms(2) by (simp add: bcall_def label_def)
  then show ?thesis using assms(1) by (simp add: builder_ok_def)
next
  case (BBind l)
  then have b': "b' = b\<lparr>label_addrs := (label_addrs b)[l := Some (length (b_code b))]\<rparr>"
    using assms(2) by (auto simp: bcall_def bind_label_def split: option.splits)
  have "\<forall>a. Some a \<in> set ((label_addrs b)[l := Some (length (b_code b))]) \<longrightarrow> a \<le> length (b_code b)"
    using assms(1) by (auto simp: builder_ok_def dest!: subsetD [OF set_update_subset_insert])
  then show ?thesis using assms(1) b' by (simp add: builder_ok_def)
next
  case (BEmit i)
  then have "has_method i" "b' = emit i b" using assms(2) by (auto simp: bcall_def split: if_splits)
  then show ?thesis using emit_ok [OF assms(1), of i] by (cases i) (simp_all add: slot_ok_def)
next
  case (BLoad s)
  then show ?thesis using assms emit_ok [OF bump_ok [OF assms(1)], of "Load s" s] slot_ok_bump(1) [of "b_locals b" s]
    by (auto simp: bcall_def load_def bump_locals_def)
next
  case (BStore s)
  then show ?thesis using assms emit_ok [OF bump_ok [OF assms(1)], of "Store s" s] slot_ok_bump(2) [of "b_locals b" s]
    by (auto simp: bcall_def store_def bump_locals_def)
qed (use assms in \<open>auto simp: bcall_def jump_def jump_if_true_def jump_if_false_def slot_ok_def intro!: emit_jump_ok\<close>)

lemma bcalls_ok: "builder_ok b \<Longrightarrow> bcalls ops b = Some b' \<Longrightarrow> builder_ok b'"
  by (induction ops arbitrary: b) (auto simp: bind_eq_Some_conv dest: bcall_ok)

section \<open>Resolution\<close>

text \<open>\<open>target_of i\<close>: the address a jump goes to.\<close>

fun target_of :: "instr \<Rightarrow> addr option" where
  "target_of (Jump a) = Some a"
| "target_of (JumpIfTrue a) = Some a"
| "target_of (JumpIfFalse a) = Some a"
| "target_of _ = None"

lemma patch_jump: "patch a i \<noteq> None \<longleftrightarrow> jump_instr i"
  by (cases i) (simp_all add: patch_def)

lemma patch_target: "patch a i = Some j \<Longrightarrow> target_of j = Some a \<and> patch 0 j = patch 0 i"
  by (cases i) (auto simp: patch_def)

lemma resolve_spec:
  assumes "distinct (map fst fs)" "\<forall>i\<in>fst ` set fs. i < length c \<and> jump_instr (c ! i)" "resolve addrs fs c = Some c'"
  shows "length c' = length c \<and> (\<forall>i < length c.
    (case map_of fs i of
       None \<Rightarrow> c' ! i = c ! i
     | Some l \<Rightarrow> \<exists>a. get_nth addrs l = Some (Some a) \<and> patch a (c ! i) = Some (c' ! i)))"
  using assms
proof (induction fs arbitrary: c)
  case (Cons p fs)
  obtain at l where p: "p = (at, l)" by (cases p)
  obtain a j where a: "get_nth addrs l = Some (Some a)" "patch a (c ! at) = Some j" "resolve addrs fs (c[at := j]) = Some c'"
    using Cons.prems p by (auto simp: get_nth_def bind_eq_Some_conv split: option.splits if_splits)
  have at: "at < length c" "at \<notin> fst ` set fs" using Cons.prems(1,2) p by auto
  have IH: "length c' = length (c[at := j]) \<and> (\<forall>i < length (c[at := j]).
      (case map_of fs i of
         None \<Rightarrow> c' ! i = c[at := j] ! i
       | Some l \<Rightarrow> \<exists>a. get_nth addrs l = Some (Some a) \<and> patch a (c[at := j] ! i) = Some (c' ! i)))"
  proof (rule Cons.IH [OF _ _ a(3)])
    show "distinct (map fst fs)" using Cons.prems(1) by simp
    show "\<forall>i\<in>fst ` set fs. i < length (c[at := j]) \<and> jump_instr (c[at := j] ! i)"
      using Cons.prems(2) at(2) p by (auto simp: nth_list_update)
  qed
  have none: "map_of fs at = None" using at(2) by (simp add: map_of_eq_None_iff)
  show ?case using IH at(1) none a p by (auto simp: nth_list_update split: option.splits)
qed simp

lemma resolve_total:
  assumes "distinct (map fst fs)" "\<forall>i\<in>fst ` set fs. i < length c \<and> jump_instr (c ! i)"
  shows "resolve addrs fs c \<noteq> None \<longleftrightarrow> (\<forall>l\<in>snd ` set fs. \<exists>a. get_nth addrs l = Some (Some a))"
  using assms
proof (induction fs arbitrary: c)
  case (Cons p fs)
  obtain at l where p: "p = (at, l)" by (cases p)
  have at: "at < length c" "jump_instr (c ! at)" "at \<notin> fst ` set fs" using Cons.prems p by auto
  show ?case
  proof (cases "\<exists>a. get_nth addrs l = Some (Some a)")
    case True
    then obtain a where a: "get_nth addrs l = Some (Some a)" by blast
    obtain j where j: "patch a (c ! at) = Some j" using at(2) patch_jump by blast
    have "resolve addrs fs (c[at := j]) \<noteq> None \<longleftrightarrow> (\<forall>l\<in>snd ` set fs. \<exists>a. get_nth addrs l = Some (Some a))"
      using Cons.prems at p by (intro Cons.IH) (auto simp: nth_list_update)
    then show ?thesis using p a j at(1) by (simp add: get_nth_def)
  next
    case False
    then show ?thesis using p by (auto split: option.splits)
  qed
qed simp

section \<open>Positions\<close>

fun emitted :: "bcall list \<Rightarrow> nat" where
  "emitted [] = 0"
| "emitted (BLabel # ops) = emitted ops"
| "emitted (BBind _ # ops) = emitted ops"
| "emitted (_ # ops) = Suc (emitted ops)"

fun jump_to_label :: "bcall \<Rightarrow> (usize \<times> instr) option" where
  "jump_to_label (BJump l) = Some (l, Jump 0)"
| "jump_to_label (BJumpIfTrue l) = Some (l, JumpIfTrue 0)"
| "jump_to_label (BJumpIfFalse l) = Some (l, JumpIfFalse 0)"
| "jump_to_label _ = None"

lemma bcalls_append: "bcalls (p @ q) b = Option.bind (bcalls p b) (bcalls q)"
proof (induction p arbitrary: b)
  case (Cons op p)
  then show ?case by (cases "bcall op b") simp_all
qed simp

text \<open>A call appends to the code and to the list of references, and never changes a bound label.\<close>

lemma bcall_grows:
  assumes "bcall op b = Some b'"
  shows "length (b_code b') = length (b_code b) + emitted [op] \<and> prefix (b_code b) (b_code b') \<and> prefix (fixups b) (fixups b') \<and>
    (\<forall>l a. get_nth (label_addrs b) l = Some (Some a) \<longrightarrow> get_nth (label_addrs b') l = Some (Some a))"
  using assms
  by (cases op)
    (auto simp: bcall_def label_def bind_label_def emit_def load_def store_def jump_def jump_if_true_def jump_if_false_def
      emit_jump_def bump_locals_def get_nth_def nth_append nth_list_update split: option.splits if_splits)

lemma emitted_Cons: "emitted (op # ops) = emitted [op] + emitted ops"
  by (cases op) simp_all

lemma bcalls_grows:
  assumes "bcalls ops b = Some b'"
  shows "length (b_code b') = length (b_code b) + emitted ops \<and> prefix (b_code b) (b_code b') \<and> prefix (fixups b) (fixups b') \<and>
    (\<forall>l a. get_nth (label_addrs b) l = Some (Some a) \<longrightarrow> get_nth (label_addrs b') l = Some (Some a))"
  using assms
proof (induction ops arbitrary: b)
  case (Cons op ops)
  obtain b1 where b1: "bcall op b = Some b1" "bcalls ops b1 = Some b'" using Cons.prems by (auto simp: bind_eq_Some_conv)
  show ?case
    using bcall_grows [OF b1(1)] Cons.IH [OF b1(2)] emitted_Cons [of op ops] by (auto intro: prefix_order.trans)
qed simp

lemma bind_recorded:
  assumes "bcalls (p @ BBind l # q) (fnb_new name params) = Some b"
  shows "get_nth (label_addrs b) l = Some (Some (emitted p))"
proof -
  obtain b1 b2 where b: "bcalls p (fnb_new name params) = Some b1" "bind_label l b1 = Some b2" "bcalls q b2 = Some b"
    using assms by (auto simp: bcalls_append bind_eq_Some_conv bcall_def)
  have "length (b_code b1) = emitted p" using bcalls_grows [OF b(1)] by (simp add: fnb_new_def)
  then have "get_nth (label_addrs b2) l = Some (Some (emitted p))"
    using b(2) by (auto simp: bind_label_def get_nth_def split: option.splits if_splits)
  then show ?thesis using bcalls_grows [OF b(3)] by blast
qed

lemma jump_recorded:
  assumes "bcalls (p @ op # q) (fnb_new name params) = Some b" "jump_to_label op = Some (l, i)"
  shows "(emitted p, l) \<in> set (fixups b) \<and> emitted p < length (b_code b) \<and> b_code b ! emitted p = i"
proof -
  obtain b1 b2 where b: "bcalls p (fnb_new name params) = Some b1" "bcall op b1 = Some b2" "bcalls q b2 = Some b"
    using assms by (auto simp: bcalls_append bind_eq_Some_conv)
  have len: "length (b_code b1) = emitted p" using bcalls_grows [OF b(1)] by (simp add: fnb_new_def)
  have "b_code b2 = b_code b1 @ [i] \<and> fixups b2 = fixups b1 @ [(emitted p, l)]"
    using b(2) assms(2) len
    by (cases op) (auto simp: bcall_def jump_def jump_if_true_def jump_if_false_def emit_jump_def emit_def)
  then show ?thesis using bcalls_grows [OF b(3)] len by (auto simp: prefix_def nth_append)
qed

section \<open>Finished functions\<close>

lemma finish_Some:
  assumes "finish b = Some f"
  shows "func_name f = b_name b \<and> param_count f = b_params b \<and> local_count f = b_locals b \<and>
    resolve (label_addrs b) (fixups b) (b_code b) = Some (code f)"
  using assms by (auto simp: finish_def function_new_def)

lemma finish_total:
  assumes "builder_ok b"
  shows "finish b \<noteq> None \<longleftrightarrow> (\<forall>l\<in>snd ` set (fixups b). \<exists>a. get_nth (label_addrs b) l = Some (Some a))"
  using resolve_total [of "fixups b" "b_code b" "label_addrs b"] assms by (auto simp: finish_def builder_ok_def)

lemma finish_code:
  assumes "builder_ok b" "finish b = Some f"
  shows "length (code f) = length (b_code b) \<and> (\<forall>i < length (b_code b).
    (case map_of (fixups b) i of
       None \<Rightarrow> code f ! i = b_code b ! i
     | Some l \<Rightarrow> \<exists>a. get_nth (label_addrs b) l = Some (Some a) \<and> patch a (b_code b ! i) = Some (code f ! i)))"
proof (rule resolve_spec)
  show "distinct (map fst (fixups b))" "\<forall>i\<in>fst ` set (fixups b). i < length (b_code b) \<and> jump_instr (b_code b ! i)"
    using assms(1) by (simp_all add: builder_ok_def)
qed (use finish_Some [OF assms(2)] in blast)

text \<open>Every jump of the finished function goes to the address its label was bound to.\<close>

lemma finish_jump:
  assumes "bcalls (p @ op # q) (fnb_new name params) = Some b" "jump_to_label op = Some (l, i)"
    and "bcalls (p' @ BBind l # q') (fnb_new name params) = Some b" "finish b = Some f"
  shows "patch (emitted p') i = Some (code f ! emitted p)"
proof -
  have ok: "builder_ok b" by (rule bcalls_ok [OF new_ok assms(1)])
  have j: "(emitted p, l) \<in> set (fixups b)" "emitted p < length (b_code b)" "b_code b ! emitted p = i"
    using jump_recorded [OF assms(1,2)] by blast+
  have "distinct (map fst (fixups b))" using ok by (simp add: builder_ok_def)
  then have "map_of (fixups b) (emitted p) = Some l" using j(1) by simp
  then obtain a where "get_nth (label_addrs b) l = Some (Some a)" "patch a i = Some (code f ! emitted p)"
    using finish_code [OF ok assms(4)] j(2,3) by fastforce
  then show ?thesis using bind_recorded [OF assms(3)] by simp
qed

lemma patch_others:
  "patch a i = Some j \<Longrightarrow> slot_ok n j" "patch a i = Some j \<Longrightarrow> target_of j = Some a"
  by (cases i; auto simp: patch_def slot_ok_def)+

lemma target_jump: "target_of i \<noteq> None \<longleftrightarrow> jump_instr i"
  by (cases i) simp_all

lemma finish_typed:
  assumes ok: "builder_ok b" and f: "finish b = Some f"
  shows "param_count f \<le> local_count f" "length (code f) = length (b_code b)"
    "list_all (slot_ok (local_count f)) (code f)" "\<forall>i\<in>set (code f). \<forall>a. target_of i = Some a \<longrightarrow> a \<le> length (code f)"
proof -
  note F = finish_Some [OF f]
  note R = finish_code [OF assms]
  show "param_count f \<le> local_count f" "length (code f) = length (b_code b)" using ok F R by (simp_all add: builder_ok_def)
  have "slot_ok (local_count f) (code f ! i) \<and> (\<forall>a. target_of (code f ! i) = Some a \<longrightarrow> a \<le> length (code f))"
    if i: "i < length (b_code b)" for i
  proof (cases "map_of (fixups b) i")
    case None
    then have "\<not> jump_instr (b_code b ! i)" using ok i by (auto simp: builder_ok_def map_of_eq_None_iff)
    then show ?thesis using R None i ok F target_jump [of "b_code b ! i"] by (auto simp: builder_ok_def list_all_length)
  next
    case (Some l)
    then obtain a where a: "get_nth (label_addrs b) l = Some (Some a)" "patch a (b_code b ! i) = Some (code f ! i)"
      using R i by fastforce
    then have "a \<le> length (b_code b)" using ok by (auto simp: builder_ok_def dest: get_nth_in_set)
    then show ?thesis using patch_others [OF a(2)] R by auto
  qed
  then show "list_all (slot_ok (local_count f)) (code f)" "\<forall>i\<in>set (code f). \<forall>a. target_of i = Some a \<longrightarrow> a \<le> length (code f)"
    using R by (auto simp: list_all_length in_set_conv_nth)
qed

end
