(* ===== verification/Disasm.thy ===== *)
theory Disasm
  imports Module Wire RustStr
begin

text \<open>
  The disassembler (\<^verbatim>\<open>runtime/src/disasm.rs\<close>). The standard library's debug rendering of a string depends on the
  Unicode tables and is a parameter.
\<close>

section \<open>Rendering\<close>

definition MNEMONIC_WIDTH :: usize where "MNEMONIC_WIDTH = 14"

text \<open>\<open>{mnemonic:<W$}{operand}\<close>.\<close>

definition with_operand :: "string \<Rightarrow> string \<Rightarrow> string" where
  "with_operand mn operand = mn @ replicate (MNEMONIC_WIDTH - length mn) (CHR '' '') @ operand"

text \<open>\<open>{n:0W}\<close>.\<close>

definition padded :: "nat \<Rightarrow> nat \<Rightarrow> string" where
  "padded w n = replicate (w - length (nat_digits n)) (CHR ''0'') @ nat_digits n"

definition fn_name :: "module \<Rightarrow> u32 \<Rightarrow> string" where
  "fn_name m k = (case get_nth (mod_functions m) (unat k) of Some f \<Rightarrow> func_name f | None \<Rightarrow> ''?'')"

definition ty_name :: "module \<Rightarrow> u32 \<Rightarrow> string" where
  "ty_name m k = (case get_nth (types m) (unat k) of Some t \<Rightarrow> type_name t | None \<Rightarrow> ''?'')"

definition fmt_instr :: "(string \<Rightarrow> string) \<Rightarrow> instr \<Rightarrow> module \<Rightarrow> string" where
  "fmt_instr str_debug i m =
     (case i of
        ConstInt n \<Rightarrow> with_operand ''const.i64'' (int_digits (sint n))
      | ConstDouble x \<Rightarrow> with_operand ''const.f64'' (f64_to_string x)
      | ConstBool b \<Rightarrow> with_operand ''const.bool'' (bool_string b)
      | ConstUnit \<Rightarrow> ''const.unit''
      | ConstStr s \<Rightarrow> with_operand ''const.str'' (str_debug s)
      | Load k \<Rightarrow> with_operand ''load'' (nat_digits (unat k))
      | Store k \<Rightarrow> with_operand ''store'' (nat_digits (unat k))
      | GlobalGet k \<Rightarrow> with_operand ''global.get'' (nat_digits (unat k))
      | GlobalSet k \<Rightarrow> with_operand ''global.set'' (nat_digits (unat k))
      | AddI64 \<Rightarrow> ''add.i64''
      | SubI64 \<Rightarrow> ''sub.i64''
      | MulI64 \<Rightarrow> ''mul.i64''
      | DivI64 \<Rightarrow> ''div.i64''
      | ModI64 \<Rightarrow> ''mod.i64''
      | NegI64 \<Rightarrow> ''neg.i64''
      | AndI64 \<Rightarrow> ''and.i64''
      | OrI64 \<Rightarrow> ''or.i64''
      | XorI64 \<Rightarrow> ''xor.i64''
      | BNotI64 \<Rightarrow> ''bnot.i64''
      | ShlI64 \<Rightarrow> ''shl.i64''
      | ShrI64 \<Rightarrow> ''shr.i64''
      | UShrI64 \<Rightarrow> ''ushr.i64''
      | AddF64 \<Rightarrow> ''add.f64''
      | SubF64 \<Rightarrow> ''sub.f64''
      | MulF64 \<Rightarrow> ''mul.f64''
      | DivF64 \<Rightarrow> ''div.f64''
      | NegF64 \<Rightarrow> ''neg.f64''
      | EqI64 \<Rightarrow> ''eq.i64''
      | NeI64 \<Rightarrow> ''ne.i64''
      | LtI64 \<Rightarrow> ''lt.i64''
      | LeI64 \<Rightarrow> ''le.i64''
      | GtI64 \<Rightarrow> ''gt.i64''
      | GeI64 \<Rightarrow> ''ge.i64''
      | EqF64 \<Rightarrow> ''eq.f64''
      | NeF64 \<Rightarrow> ''ne.f64''
      | LtF64 \<Rightarrow> ''lt.f64''
      | LeF64 \<Rightarrow> ''le.f64''
      | GtF64 \<Rightarrow> ''gt.f64''
      | GeF64 \<Rightarrow> ''ge.f64''
      | NotBool \<Rightarrow> ''not''
      | I64ToF64 \<Rightarrow> ''i64.to_f64''
      | F64ToI64 \<Rightarrow> ''f64.to_i64''
      | Pop \<Rightarrow> ''pop''
      | Dup \<Rightarrow> ''dup''
      | Call k n \<Rightarrow> with_operand ''call'' (''fn#'' @ nat_digits (unat k) @ '' '' @ fn_name m k @ '', argc='' @ nat_digits (unat n))
      | CallNative k n \<Rightarrow> with_operand ''call.native'' (''native#'' @ nat_digits (unat k) @ '', argc='' @ nat_digits (unat n))
      | CallIndirect n \<Rightarrow> with_operand ''call.indirect'' (''argc='' @ nat_digits (unat n))
      | CallVirtual s n \<Rightarrow> with_operand ''call.virtual'' (s @ '', argc='' @ nat_digits (unat n))
      | EnumNew ty k n \<Rightarrow> with_operand ''enum.new'' (''ty='' @ nat_digits (unat ty) @ '', variant='' @ nat_digits (unat k) @ '', fields='' @ nat_digits (unat n))
      | EnumTag \<Rightarrow> ''enum.tag''
      | EnumGet k \<Rightarrow> with_operand ''enum.get'' (nat_digits (unat k))
      | StructNew ty \<Rightarrow> with_operand ''struct.new'' (''ty='' @ nat_digits (unat ty) @ '' '' @ ty_name m ty)
      | FieldGet k \<Rightarrow> with_operand ''field.get'' (nat_digits (unat k))
      | FieldSet k \<Rightarrow> with_operand ''field.set'' (nat_digits (unat k))
      | ListNew n \<Rightarrow> with_operand ''list.new'' (nat_digits (unat n))
      | ListGet \<Rightarrow> ''list.get''
      | ListSet \<Rightarrow> ''list.set''
      | ListLen \<Rightarrow> ''list.len''
      | ClosureNew k n \<Rightarrow> with_operand ''closure.new'' (''fn#'' @ nat_digits (unat k) @ '' '' @ fn_name m k @ '', captures='' @ nat_digits (unat n))
      | Jump t \<Rightarrow> with_operand ''jump'' (''-> '' @ padded 4 t)
      | JumpIfTrue t \<Rightarrow> with_operand ''jump_if_true'' (''-> '' @ padded 4 t)
      | JumpIfFalse t \<Rightarrow> with_operand ''jump_if_false'' (''-> '' @ padded 4 t)
      | Return \<Rightarrow> ''return'')"

fun fmt_code :: "(string \<Rightarrow> string) \<Rightarrow> module \<Rightarrow> nat \<Rightarrow> instr list \<Rightarrow> string" where
  "fmt_code str_debug m pc [] = []"
| "fmt_code str_debug m pc (i # rest) =
     ''  '' @ padded 4 pc @ ''  '' @ fmt_instr str_debug i m @ [CHR 0x0A] @ fmt_code str_debug m (Suc pc) rest"

definition disassemble_function :: "(string \<Rightarrow> string) \<Rightarrow> module \<Rightarrow> usize \<Rightarrow> string option" where
  "disassemble_function str_debug m k =
     map_option (\<lambda>f.
       ''fn '' @ func_name f @ ''  (params='' @ nat_digits (unat (param_count f)) @ '', locals='' @
       nat_digits (unat (local_count f)) @ '')'' @ [CHR 0x0A] @ fmt_code str_debug m 0 (code f))
       (get_nth (mod_functions m) k)"

definition disassemble :: "(string \<Rightarrow> string) \<Rightarrow> module \<Rightarrow> string option" where
  "disassemble str_debug m =
     try_fold (\<lambda>s k.
       map_option (\<lambda>t. s @ (if k > 0 then [CHR 0x0A] else []) @ t) (disassemble_function str_debug m k))
       [] [0..<length (mod_functions m)]"

section \<open>Reading back\<close>

fun mnemonic :: "instr \<Rightarrow> string" where
  "mnemonic (ConstInt _) = ''const.i64''"
| "mnemonic (ConstDouble _) = ''const.f64''"
| "mnemonic (ConstBool _) = ''const.bool''"
| "mnemonic ConstUnit = ''const.unit''"
| "mnemonic (ConstStr _) = ''const.str''"
| "mnemonic (Load _) = ''load''"
| "mnemonic (Store _) = ''store''"
| "mnemonic (GlobalGet _) = ''global.get''"
| "mnemonic (GlobalSet _) = ''global.set''"
| "mnemonic AddI64 = ''add.i64''"
| "mnemonic SubI64 = ''sub.i64''"
| "mnemonic MulI64 = ''mul.i64''"
| "mnemonic DivI64 = ''div.i64''"
| "mnemonic ModI64 = ''mod.i64''"
| "mnemonic NegI64 = ''neg.i64''"
| "mnemonic AndI64 = ''and.i64''"
| "mnemonic OrI64 = ''or.i64''"
| "mnemonic XorI64 = ''xor.i64''"
| "mnemonic BNotI64 = ''bnot.i64''"
| "mnemonic ShlI64 = ''shl.i64''"
| "mnemonic ShrI64 = ''shr.i64''"
| "mnemonic UShrI64 = ''ushr.i64''"
| "mnemonic AddF64 = ''add.f64''"
| "mnemonic SubF64 = ''sub.f64''"
| "mnemonic MulF64 = ''mul.f64''"
| "mnemonic DivF64 = ''div.f64''"
| "mnemonic NegF64 = ''neg.f64''"
| "mnemonic EqI64 = ''eq.i64''"
| "mnemonic NeI64 = ''ne.i64''"
| "mnemonic LtI64 = ''lt.i64''"
| "mnemonic LeI64 = ''le.i64''"
| "mnemonic GtI64 = ''gt.i64''"
| "mnemonic GeI64 = ''ge.i64''"
| "mnemonic EqF64 = ''eq.f64''"
| "mnemonic NeF64 = ''ne.f64''"
| "mnemonic LtF64 = ''lt.f64''"
| "mnemonic LeF64 = ''le.f64''"
| "mnemonic GtF64 = ''gt.f64''"
| "mnemonic GeF64 = ''ge.f64''"
| "mnemonic NotBool = ''not''"
| "mnemonic I64ToF64 = ''i64.to_f64''"
| "mnemonic F64ToI64 = ''f64.to_i64''"
| "mnemonic Pop = ''pop''"
| "mnemonic Dup = ''dup''"
| "mnemonic (Call _ _) = ''call''"
| "mnemonic (CallNative _ _) = ''call.native''"
| "mnemonic (CallIndirect _) = ''call.indirect''"
| "mnemonic (CallVirtual _ _) = ''call.virtual''"
| "mnemonic (EnumNew _ _ _) = ''enum.new''"
| "mnemonic EnumTag = ''enum.tag''"
| "mnemonic (EnumGet _) = ''enum.get''"
| "mnemonic (StructNew _) = ''struct.new''"
| "mnemonic (FieldGet _) = ''field.get''"
| "mnemonic (FieldSet _) = ''field.set''"
| "mnemonic (ListNew _) = ''list.new''"
| "mnemonic ListGet = ''list.get''"
| "mnemonic ListSet = ''list.set''"
| "mnemonic ListLen = ''list.len''"
| "mnemonic (ClosureNew _ _) = ''closure.new''"
| "mnemonic (Jump _) = ''jump''"
| "mnemonic (JumpIfTrue _) = ''jump_if_true''"
| "mnemonic (JumpIfFalse _) = ''jump_if_false''"
| "mnemonic Return = ''return''"

lemma fmt_mnemonic: "takeWhile (\<lambda>c. c \<noteq> CHR '' '') (fmt_instr dbg i m) = mnemonic i"
  by (cases i) (simp_all add: fmt_instr_def with_operand_def MNEMONIC_WIDTH_def)

lemma digits_value_digits: "digits_value acc s = Some n \<Longrightarrow> c \<in> set s \<Longrightarrow> digit_value c \<noteq> None"
  by (induction acc s rule: digits_value.induct) (auto split: option.splits)

lemma nat_digits_digits: "c \<in> set (nat_digits n) \<Longrightarrow> digit_value c \<noteq> None"
  using digits_value_digits nat_digits_value by blast

lemma nat_digits_inject [simp]: "nat_digits a = nat_digits b \<longleftrightarrow> a = b"
  by (metis nat_digits_value option.inject)

lemma nat_digits_prefix:
  assumes "digit_value c = None" "digit_value d = None"
  shows "nat_digits a @ c # r = nat_digits b @ d # s \<longleftrightarrow> a = b \<and> c = d \<and> r = s"
proof -
  have "takeWhile (\<lambda>c. digit_value c \<noteq> None) (nat_digits n @ e # t) = nat_digits n" if "digit_value e = None" for n e t
    using that nat_digits_digits by (subst takeWhile_append2) auto
  from this [of c a r] this [of d b s] show ?thesis using assms by (metis append_same_eq nat_digits_inject same_append_eq list.inject)
qed

lemma nat_digits_suffix:
  assumes "digit_value c = None"
  shows "s @ c # nat_digits a = t @ c # nat_digits b \<longleftrightarrow> s = t \<and> a = b"
proof -
  have "takeWhile (\<lambda>c. digit_value c \<noteq> None) (rev (u @ c # nat_digits n)) = rev (nat_digits n)" for n u
    using assms nat_digits_digits [of _ n] by (simp, subst takeWhile_append2) auto
  from this [of s a] this [of t b] show ?thesis by (metis append_same_eq nat_digits_inject rev_is_rev_conv)
qed

lemma padded_inject [simp]: "padded w a = padded w b \<longleftrightarrow> a = b"
proof -
  have "digits_value 0 (replicate k (CHR ''0'') @ s) = digits_value 0 s" for k s
    by (induction k) (simp_all add: digit_value_def)
  then have "digits_value 0 (padded w n) = Some n" for n using nat_digits_value by (simp add: padded_def)
  then show ?thesis by (metis option.inject)
qed

lemma int_digits_inject: "int_digits (sint a) = int_digits (sint b) \<longleftrightarrow> a = (b :: i64)"
  by (metis parse_int_digits option.inject)

lemma argc_suffix: "s @ '', argc='' @ nat_digits a = t @ '', argc='' @ nat_digits b \<longleftrightarrow> s = t \<and> a = b"
proof -
  have eq: "u @ '', argc='' @ nat_digits n = (u @ '', argc'') @ CHR ''='' # nat_digits n" for u n by simp
  show ?thesis unfolding eq by (subst nat_digits_suffix) (simp_all add: digit_value_def)
qed

text \<open>The rendering of a double does not tell the patterns of a NaN apart.\<close>

lemma fmt_instr_inject:
  assumes "inj dbg" "\<forall>x. i \<noteq> ConstDouble x" "fmt_instr dbg i m = fmt_instr dbg j m"
  shows "i = j"
proof -
  have mn: "mnemonic i = mnemonic j" using fmt_mnemonic assms(3) by metis
  have digit: "digit_value (CHR '' '') = None" "digit_value (CHR '','') = None" by (simp_all add: digit_value_def)
  show ?thesis
    by (cases i; cases j; (insert mn, simp; fail)?)
      (insert assms argc_suffix, simp_all add: fmt_instr_def with_operand_def MNEMONIC_WIDTH_def nat_digits_prefix digit
        int_digits_inject inj_eq bool_string_def split: if_splits)
qed

end
