(* ===== verification/Profile.thy ===== *)
theory Profile
  imports Interp "HOL-Library.Multiset"
begin

text \<open>
  The profiler (\<^verbatim>\<open>runtime/src/profile.rs\<close>): the counters, the hooks the interpreter and the allocator call, and
  the table at the end of a run. The environment variables are arguments: whether profiling is on, and the number of
  instructions between samples. A profile accounts for what was executed: the samples are the instructions divided by
  the interval, each sample has one running function, and a function is never on the stack less often than running.
\<close>

section \<open>Counters\<close>

record profile =
  p_calls :: "u64 list"
  p_self :: "u64 list"
  p_incl :: "u64 list"
  p_allocs :: "u64 list"
  p_samples :: u64
  p_instrs :: u64
  p_next :: u64
  p_current :: usize

definition profile_new :: profile where
  "profile_new = \<lparr>p_calls = [], p_self = [], p_incl = [], p_allocs = [], p_samples = 0, p_instrs = 0, p_next = 0, p_current = 0\<rparr>"

text \<open>The interval of \<open>THERA_PROFILE_INTERVAL\<close>, if it parses and is positive.\<close>

definition profile_interval :: "u64 option \<Rightarrow> u64" where
  "profile_interval parsed = (case parsed of Some n \<Rightarrow> if n > 0 then n else 1000 | None \<Rightarrow> 1000)"

definition bump :: "usize \<Rightarrow> u64 list \<Rightarrow> u64 list" where
  "bump i v = (let v = (if i \<ge> length v then v @ replicate (i + 1 - length v) 0 else v) in v[i := v ! i + 1])"

definition on_instr :: "u64 \<Rightarrow> profile \<Rightarrow> bool \<times> profile" where
  "on_instr interval p =
     (let n = p_instrs p + 1; p = p\<lparr>p_instrs := n\<rparr>
      in if n \<ge> p_next p then (True, p\<lparr>p_next := n + interval\<rparr>) else (False, p))"

fun bump_unseen :: "usize list \<Rightarrow> usize list \<Rightarrow> u64 list \<Rightarrow> u64 list" where
  "bump_unseen seen [] v = v"
| "bump_unseen seen (f # fs) v =
     (if f \<in> set seen then bump_unseen seen fs v else bump_unseen (seen @ [f]) fs (bump f v))"

definition sample :: "usize \<Rightarrow> usize list \<Rightarrow> profile \<Rightarrow> profile" where
  "sample active live p =
     p\<lparr>p_samples := p_samples p + 1, p_self := bump active (p_self p), p_incl := bump_unseen [] live (p_incl p)\<rparr>"

definition on_call :: "usize \<Rightarrow> profile \<Rightarrow> profile" where
  "on_call func p = p\<lparr>p_current := func, p_calls := bump func (p_calls p)\<rparr>"

definition set_current :: "usize \<Rightarrow> profile \<Rightarrow> profile" where
  "set_current func p = p\<lparr>p_current := func\<rparr>"

definition on_alloc :: "bool \<Rightarrow> profile \<Rightarrow> profile" where
  "on_alloc on p = (if \<not> on then p else p\<lparr>p_allocs := bump (p_current p) (p_allocs p)\<rparr>)"

text \<open>What the interpreter and the allocator report: an instruction of a function above its callers, the entry of a
  function, the return to one, an allocation.\<close>

datatype hook = Executed usize "usize list" | Entered usize | Resumed usize | Allocated

fun hook_step :: "u64 \<Rightarrow> hook \<Rightarrow> profile \<Rightarrow> profile" where
  "hook_step interval (Executed f callers) p =
     (let (due, p) = on_instr interval p in if due then sample f (callers @ [f]) p else p)"
| "hook_step interval (Entered f) p = on_call f p"
| "hook_step interval (Resumed f) p = set_current f p"
| "hook_step interval Allocated p = on_alloc True p"

section \<open>The table\<close>

type_synonym row = "u64 \<times> u64 \<times> u64 \<times> u64 \<times> string"

definition counter :: "u64 list \<Rightarrow> usize \<Rightarrow> u64" where
  "counter v i = (case get_nth v i of Some n \<Rightarrow> n | None \<Rightarrow> 0)"

definition profile_rows :: "module \<Rightarrow> profile \<Rightarrow> row list" where
  "profile_rows m p =
     filter (\<lambda>(self, incl, calls, allocs, name). self > 0 \<or> calls > 0 \<or> allocs > 0)
       (map (\<lambda>i. (counter (p_self p) i, counter (p_incl p) i, counter (p_calls p) i, counter (p_allocs p) i,
                   func_name (mod_functions m ! i)))
          [0..<length (mod_functions m)])"

fun row_le :: "row \<Rightarrow> row \<Rightarrow> bool" where
  "row_le (s1, i1, _, _, n1) (s2, i2, _, _, n2) =
     (s2 < s1 \<or> s1 = s2 \<and> (i2 < i1 \<or> i1 = i2 \<and> \<not> str_less n2 n1))"

text \<open>A stable sort.\<close>

fun insert_row :: "row \<Rightarrow> row list \<Rightarrow> row list" where
  "insert_row r [] = [r]"
| "insert_row r (q # qs) = (if row_le r q then r # q # qs else q # insert_row r qs)"

definition sort_rows :: "row list \<Rightarrow> row list" where
  "sort_rows rows = foldr insert_row rows []"

text \<open>\<open>u64 as f64\<close>; \<open>{:.1}\<close> of a finite double that is not negative, exact and rounded half to even.\<close>

definition u64_to_f64 :: "nat \<Rightarrow> f64" where
  "u64_to_f64 n = (if n = 0 then f64_zero False else f64_round False (n * F64_ONE) 1)"

definition one_decimal :: "f64 \<Rightarrow> string" where
  "one_decimal x =
     (let n = div_nearest_even (mag_units (f64_mag x) * 10) F64_ONE in nat_digits (n div 10) @ ''.'' @ nat_digits (n mod 10))"

definition pad_left :: "nat \<Rightarrow> string \<Rightarrow> string" where
  "pad_left width s = replicate (width - length s) (CHR '' '') @ s"

definition percent :: "u64 \<Rightarrow> u64 \<Rightarrow> f64" where
  "percent samples x =
     (if samples = 0 then f64_zero False
      else f64_div (f64_mul (i64_to_f64 100) (u64_to_f64 (unat x))) (u64_to_f64 (unat samples)))"

definition row_line :: "u64 \<Rightarrow> row \<Rightarrow> string" where
  "row_line samples =
     (\<lambda>(self, incl, calls, allocs, name).
        pad_left 6 (one_decimal (percent samples self)) @ ''% '' @ pad_left 9 (nat_digits (unat self)) @ '' '' @
        pad_left 9 (nat_digits (unat incl)) @ '' '' @ pad_left 11 (nat_digits (unat calls)) @ '' '' @
        pad_left 11 (nat_digits (unat allocs)) @ ''  '' @ name)"

definition profile_dump :: "bool \<Rightarrow> u64 \<Rightarrow> module \<Rightarrow> profile \<Rightarrow> string list" where
  "profile_dump on interval m p =
     (if \<not> on then []
      else [''=== thera profile (THERA_PROFILE) ==='',
            nat_digits (unat (p_instrs p)) @ '' instructions, '' @ nat_digits (unat (p_samples p)) @ '' samples @ every '' @
              nat_digits (unat interval) @ '', '' @ nat_digits (unat (sum_list (p_allocs p))) @ '' allocations'',
            pad_left 7 ''self%'' @ '' '' @ pad_left 9 ''self'' @ '' '' @ pad_left 9 ''incl'' @ '' '' @
              pad_left 11 ''calls'' @ '' '' @ pad_left 11 ''allocs'' @ ''  function''] @
           map (row_line (p_samples p)) (take 40 (sort_rows (profile_rows m p))))"

section \<open>A profile accounts for the run\<close>

abbreviation tally :: "u64 list \<Rightarrow> usize \<Rightarrow> nat" where
  "tally v i \<equiv> unat (counter v i)"

lemma unat_plus_one: "unat w + 1 < 2 ^ 64 \<Longrightarrow> unat (w + 1) = unat w + 1" for w :: u64
  by (simp add: unat_word_ariths)

lemma counter_append_zeros: "counter (v @ replicate n 0) i = counter v i"
  by (auto simp: counter_def get_nth_def nth_append)

lemma bump_padded:
  obtains u where "bump i v = u[i := counter v i + 1]" "i < length u" "\<And>j. counter u j = counter v j"
    "sum_list (map unat u) = sum_list (map unat v)"
proof
  let ?u = "if i \<ge> length v then v @ replicate (i + 1 - length v) 0 else v"
  show c: "counter ?u j = counter v j" for j by (simp add: counter_append_zeros)
  show "i < length ?u" by simp
  then show "bump i v = ?u[i := counter v i + 1]" using c [of i] by (simp add: bump_def Let_def counter_def get_nth_def)
  show "sum_list (map unat ?u) = sum_list (map unat v)" by (simp add: sum_list_replicate)
qed

lemma tally_bump:
  assumes "tally v i + 1 < 2 ^ 64"
  shows "tally (bump i v) j = tally v j + (if j = i then 1 else 0)"
proof -
  obtain u where u: "bump i v = u[i := counter v i + 1]" "i < length u" "\<And>j. counter u j = counter v j"
    by (rule bump_padded [of i v]) (rule that)
  have "counter (bump i v) j = (if j = i then counter v i + 1 else counter v j)"
    using u(2) u(3) [of j] by (auto simp: u(1) counter_def get_nth_def)
  then show ?thesis using unat_plus_one [OF assms] by simp
qed

lemma sum_bump:
  assumes "tally v i + 1 < 2 ^ 64"
  shows "sum_list (map unat (bump i v)) = sum_list (map unat v) + 1"
proof -
  obtain u where u: "bump i v = u[i := counter v i + 1]" "i < length u" "\<And>j. counter u j = counter v j"
    "sum_list (map unat u) = sum_list (map unat v)"
    by (rule bump_padded [of i v]) (rule that)
  have "u ! i = counter v i" using u(2) u(3) [of i] by (simp add: counter_def get_nth_def)
  moreover have "unat (u ! i) \<le> sum_list (map unat u)" using u(2) by (intro member_le_sum_list) auto
  ultimately show ?thesis
    using u(2,4) unat_plus_one [OF assms] by (simp add: u(1) map_update sum_list_update)
qed

lemma tally_bump_unseen:
  assumes "\<And>j. tally v j + 1 < 2 ^ 64"
  shows "tally (bump_unseen seen fs v) j = tally v j + (if j \<in> set fs \<and> j \<notin> set seen then 1 else 0)"
proof -
  have "(\<And>j. j \<notin> set seen \<Longrightarrow> tally v j + 1 < 2 ^ 64) \<Longrightarrow>
      tally (bump_unseen seen fs v) j = tally v j + (if j \<in> set fs \<and> j \<notin> set seen then 1 else 0)" for v
  proof (induction seen fs v rule: bump_unseen.induct)
    case (2 seen f fs v)
    show ?case
    proof (cases "f \<in> set seen")
      case False
      have "tally (bump f v) k = tally v k + (if k = f then 1 else 0)" for k by (rule tally_bump) (use 2(3) False in simp)
      then show ?thesis using 2(2) [OF False] 2(3) False by auto
    qed (use 2 in auto)
  qed simp
  then show ?thesis using assms by simp
qed

text \<open>What the counters are after a list of reports.\<close>

definition instr_count :: "hook list \<Rightarrow> nat" where
  "instr_count es = length (filter (\<lambda>e. \<exists>f callers. e = Executed f callers) es)"

definition profiled :: "u64 \<Rightarrow> hook list \<Rightarrow> profile \<Rightarrow> bool" where
  "profiled interval es p \<longleftrightarrow>
     unat (p_instrs p) = instr_count es \<and>
     instr_count es \<le> unat (p_samples p) * unat interval \<and>
     unat (p_samples p) * unat interval < instr_count es + unat interval \<and>
     unat (p_next p) = (if p_samples p = 0 then 0 else unat (p_samples p) * unat interval + 1) \<and>
     sum_list (map unat (p_self p)) = unat (p_samples p) \<and>
     (\<forall>f. tally (p_self p) f \<le> tally (p_incl p) f \<and> tally (p_incl p) f \<le> unat (p_samples p)) \<and>
     (\<forall>f. tally (p_calls p) f = count_list es (Entered f)) \<and>
     sum_list (map unat (p_allocs p)) = count_list es Allocated"

lemma ceiling_quotient:
  fixes q n d :: nat
  assumes "0 < d" "n \<le> q * d" "q * d < n + d"
  shows "q = (n + d - 1) div d"
  using assms by (intro div_nat_eqI [symmetric]) (simp_all add: algebra_simps)

lemma profiled_new: "0 < interval \<Longrightarrow> profiled interval [] profile_new"
  by (simp add: profiled_def profile_new_def instr_count_def counter_def get_nth_def word_less_nat_alt)

lemma sampled:
  assumes "sum_list (map unat (p_self p)) = n" "unat (p_samples p) = n" "n + 1 < 2 ^ 63"
    and "\<And>g. tally (p_self p) g \<le> tally (p_incl p) g \<and> tally (p_incl p) g \<le> n"
  shows "sum_list (map unat (p_self (sample f (callers @ [f]) p))) = n + 1" "unat (p_samples (sample f (callers @ [f]) p)) = n + 1"
    and "tally (p_self (sample f (callers @ [f]) p)) g \<le> tally (p_incl (sample f (callers @ [f]) p)) g \<and>
      tally (p_incl (sample f (callers @ [f]) p)) g \<le> n + 1"
proof -
  have fit: "tally (p_self p) g + 1 < 2 ^ 64" "tally (p_incl p) g + 1 < 2 ^ 64" for g
    using assms(3) assms(4) [of g] by simp_all
  show "sum_list (map unat (p_self (sample f (callers @ [f]) p))) = n + 1"
    using sum_bump [OF fit(1) [of f]] assms(1) by (simp add: sample_def)
  show "unat (p_samples (sample f (callers @ [f]) p)) = n + 1"
    using unat_plus_one [of "p_samples p"] assms(2,3) by (simp add: sample_def)
  show "tally (p_self (sample f (callers @ [f]) p)) g \<le> tally (p_incl (sample f (callers @ [f]) p)) g \<and>
      tally (p_incl (sample f (callers @ [f]) p)) g \<le> n + 1"
    using tally_bump [OF fit(1) [of f], of g] tally_bump_unseen [OF fit(2), of "[]" "callers @ [f]" g] assms(4) [of g]
    by (cases "g = f") (simp_all add: sample_def)
qed

text \<open>The next sample is due exactly when the instructions counted reach the ones accounted for.\<close>

lemma on_instr_due:
  assumes "unat (p_instrs p) = E" "E \<le> S * I" "S * I < E + I" "unat (p_next p) = (if S = 0 then 0 else S * I + 1)"
    and "unat interval = I" "E + I + 1 < 2 ^ 63" "on_instr interval p = (due, q)"
  shows "due \<longleftrightarrow> E = S * I" "unat (p_instrs q) = E + 1" "unat (p_next q) = (if due then (S + 1) * I + 1 else S * I + 1)"
    "q = p\<lparr>p_instrs := p_instrs q, p_next := p_next q\<rparr>"
proof -
  have n: "unat (p_instrs p + 1) = E + 1" using unat_plus_one [of "p_instrs p"] assms(1,6) by simp
  have later: "unat (p_instrs p + 1 + interval) = E + 1 + I"
    using assms(5,6) n by (subst unat_plus_simple [THEN iffD1]) (simp_all add: no_olen_add_nat)
  have due: "due \<longleftrightarrow> p_next p \<le> p_instrs p + 1" using assms(7) by (auto simp: on_instr_def Let_def split: if_splits)
  also have "\<dots> \<longleftrightarrow> unat (p_next p) \<le> E + 1" by (simp add: word_le_nat_alt n)
  also have "\<dots> \<longleftrightarrow> E = S * I" using assms(2,4) by (cases "S = 0") auto
  finally show "due \<longleftrightarrow> E = S * I" .
  then show "unat (p_next q) = (if due then (S + 1) * I + 1 else S * I + 1)"
    using assms(2,4,7) later by (auto simp: on_instr_def Let_def split: if_splits)
  show "unat (p_instrs q) = E + 1" using assms(7) n by (auto simp: on_instr_def Let_def split: if_splits)
  show "q = p\<lparr>p_instrs := p_instrs q, p_next := p_next q\<rparr>" using assms(7) by (auto simp: on_instr_def Let_def split: if_splits)
qed

lemma instr_count_append [simp]:
  "instr_count (es @ [Executed f callers]) = instr_count es + 1" "instr_count (es @ [Entered f]) = instr_count es"
  "instr_count (es @ [Resumed f]) = instr_count es" "instr_count (es @ [Allocated]) = instr_count es"
  by (simp_all add: instr_count_def)

lemma instr_count_le: "instr_count es \<le> length es"
  by (simp add: instr_count_def)

lemma profiled_executed:
  assumes ok: "profiled interval es p" and pos: "0 < interval" and fit: "length es + unat interval + 1 < 2 ^ 63"
  shows "profiled interval (es @ [Executed f callers]) (hook_step interval (Executed f callers) p)"
proof -
  define E S I where "E = instr_count es" and "S = unat (p_samples p)" and "I = unat interval"
  have I: "0 < I" using pos by (simp add: I_def word_less_nat_alt)
  have acc: "unat (p_instrs p) = E" "E \<le> S * I" "S * I < E + I" "sum_list (map unat (p_self p)) = S"
      "\<And>g. tally (p_self p) g \<le> tally (p_incl p) g \<and> tally (p_incl p) g \<le> S"
      "unat (p_next p) = (if S = 0 then 0 else S * I + 1)"
      "\<And>g. tally (p_calls p) g = count_list es (Entered g)" "sum_list (map unat (p_allocs p)) = count_list es Allocated"
    using ok by (simp_all add: profiled_def E_def S_def I_def unat_eq_0)
  have small: "E + I + 1 < 2 ^ 63" using fit instr_count_le [of es] by (simp add: E_def I_def)
  obtain due q where q: "on_instr interval p = (due, q)" by (cases "on_instr interval p")
  note N = on_instr_due [OF acc(1-3) acc(6) I_def [symmetric] small q]
  have same: "p_samples q = p_samples p" "p_self q = p_self p" "p_incl q = p_incl p" "p_calls q = p_calls p"
      "p_allocs q = p_allocs p"
    by (subst N(4), simp)+
  have S: "S + 1 < 2 ^ 63"
  proof -
    have "S * 1 \<le> S * I" using I by (intro mult_le_mono2) simp
    then show ?thesis using acc(3) small by linarith
  qed
  show ?thesis
  proof (cases due)
    case True
    let ?q = "sample f (callers @ [f]) q"
    have taken: "sum_list (map unat (p_self ?q)) = S + 1" "unat (p_samples ?q) = S + 1"
        "\<And>g. tally (p_self ?q) g \<le> tally (p_incl ?q) g \<and> tally (p_incl ?q) g \<le> S + 1"
      using sampled [of q S f callers] acc(4,5) S same by (simp_all add: S_def)
    have "p_samples ?q \<noteq> 0" using taken(2) by auto
    then show ?thesis
      using True taken N(1-3) acc(7,8) same I
      by (simp add: profiled_def q E_def [symmetric] I_def [symmetric]) (simp add: sample_def)
  next
    case False
    have "p_samples p \<noteq> 0" using False N(1) acc(2) by (auto simp: S_def)
    then show ?thesis
      using False N(1-3) acc same
      by (simp add: profiled_def q E_def [symmetric] I_def [symmetric] S_def [symmetric])
  qed
qed

lemma profiled_step:
  assumes ok: "profiled interval es p" and pos: "0 < interval" and fit: "length es + unat interval + 1 < 2 ^ 63"
  shows "profiled interval (es @ [e]) (hook_step interval e p)"
proof (cases e)
  case (Entered f)
  have "tally (p_calls p) f + 1 < 2 ^ 64" using ok fit count_le_length [of es "Entered f"] by (simp add: profiled_def)
  from tally_bump [OF this] show ?thesis using ok Entered by (simp add: profiled_def on_call_def)
next
  case Allocated
  have "tally (p_allocs p) (p_current p) \<le> sum_list (map unat (p_allocs p))"
    by (auto simp: counter_def get_nth_def intro!: member_le_sum_list)
  then have "tally (p_allocs p) (p_current p) + 1 < 2 ^ 64" using ok fit count_le_length [of es Allocated] by (simp add: profiled_def)
  from sum_bump [OF this] show ?thesis using ok Allocated by (simp add: profiled_def on_alloc_def)
qed (use profiled_executed [OF assms] ok in \<open>simp_all add: profiled_def set_current_def\<close>)

lemma profiled_run:
  assumes "0 < interval" "length es + unat interval < 2 ^ 63"
  shows "profiled interval es (fold (hook_step interval) es profile_new)"
  using assms(2)
proof (induction es rule: rev_induct)
  case Nil
  then show ?case using profiled_new [OF assms(1)] by simp
next
  case (snoc e es)
  then show ?case using profiled_step [OF _ assms(1)] by simp
qed

section \<open>The order of the table\<close>

lemma str_less_asym: "str_less s t \<Longrightarrow> \<not> str_less t s"
  by (induction s t rule: str_less.induct) auto

lemma str_less_trans: "str_less s t \<Longrightarrow> str_less t u \<Longrightarrow> str_less s u"
proof (induction s t arbitrary: u rule: str_less.induct)
  case (1 a s b t)
  then show ?case by (cases u) auto
next
  case (2 b t)
  then show ?case by (cases u) auto
qed simp

lemma str_less_total: "\<not> str_less s t \<Longrightarrow> \<not> str_less t s \<Longrightarrow> s = t"
proof (induction s t rule: str_less.induct)
  case (1 a s b t)
  then have "byte_of_char a = byte_of_char b" by auto
  then have "a = b" by (metis char_of_byte_of_char)
  then show ?case using 1 by simp
next
  case (3 s)
  then show ?case by (cases s) simp_all
qed simp

lemma row_le_trans: "row_le a b \<Longrightarrow> row_le b c \<Longrightarrow> row_le a c"
  by (cases a; cases b; cases c) (auto dest: str_less_trans str_less_total)

lemma row_le_total: "\<not> row_le a b \<Longrightarrow> row_le b a"
  by (cases a; cases b) (auto dest: str_less_asym)

lemma sort_rows_sorted: "sorted_wrt row_le (sort_rows rows)" "mset (sort_rows rows) = mset rows"
proof -
  have set: "set (insert_row r qs) = insert r (set qs)" for r qs by (induction qs) auto
  have "sorted_wrt row_le qs \<Longrightarrow> sorted_wrt row_le (insert_row r qs)" for r qs
    by (induction qs) (auto simp: set intro: row_le_trans dest: row_le_total)
  then show "sorted_wrt row_le (sort_rows rows)" unfolding sort_rows_def by (induction rows) simp_all
  have "mset (insert_row r qs) = add_mset r (mset qs)" for r qs by (induction qs) simp_all
  then show "mset (sort_rows rows) = mset rows" unfolding sort_rows_def by (induction rows) simp_all
qed

end
