(* ===== verification/Cli.thy ===== *)
theory Cli
  imports NativeTable ModuleCodec Builder Profile
begin

text \<open>
  The command line (\<^verbatim>\<open>runtime/src/main.rs\<close>): dispatch on the first argument, loading and running a bytecode file,
  booting the front end, exit codes, and the demo module. Files, the directory of the executable, the bytes of
  the front end that the build embeds and the derived debug renderings are parameters. A computation that ends in
  \<open>Panic\<close> or \<open>Diverge\<close> has no exit code of the program's own. Profiling is off.
\<close>

section \<open>Messages\<close>

definition fmt_mib :: "usize \<Rightarrow> string" where
  "fmt_mib n = one_decimal (f64_div (u64_to_f64 n) (u64_to_f64 (2 ^ 20))) @ '' MiB''"

definition trap_display :: "trap \<Rightarrow> string" where
  "trap_display t =
     (case t of
        DivByZero \<Rightarrow> ''division by zero''
      | IndexOutOfBounds i len \<Rightarrow>
          ''index out of range: the index is '' @ int_digits (sint i) @ '' but the length is '' @ nat_digits len
      | MissingKey key \<Rightarrow> ''key not found: '' @ key
      | ClosedChannel \<Rightarrow> ''send on a closed channel''
      | OutOfMemory live limit \<Rightarrow>
          ''out of memory: the live heap is '' @ fmt_mib live @ '' but the limit is '' @ fmt_mib limit @ '' (THERA_MAX_HEAP_MB)''
      | StackOverflow \<Rightarrow> ''stack overflow: the call stack reached '' @ nat_digits MAX_CALL_DEPTH @ '' frames''
      | TypeError expected found \<Rightarrow> ''runtime type error: expected '' @ expected @ '', found '' @ found
      | Bug msg \<Rightarrow> ''internal error (malformed bytecode): '' @ msg)"

text \<open>The derived \<open>{:?}\<close> of a decoding error, with the one of a string literal underneath.\<close>

definition decode_error_debug :: "(string \<Rightarrow> string) \<Rightarrow> decode_error \<Rightarrow> string" where
  "decode_error_debug str_debug e =
     (case e of
        decode_error.UnexpectedEof \<Rightarrow> ''UnexpectedEof''
      | VarintOverflow \<Rightarrow> ''VarintOverflow''
      | InvalidUtf8 \<Rightarrow> ''InvalidUtf8''
      | BadMagic \<Rightarrow> ''BadMagic''
      | UnsupportedVersion v \<Rightarrow> ''UnsupportedVersion('' @ nat_digits (unat v) @ '')''
      | UnknownOpcode b \<Rightarrow> ''UnknownOpcode('' @ nat_digits (unat b) @ '')''
      | ConstIndexOutOfRange \<Rightarrow> ''ConstIndexOutOfRange''
      | UnknownNative s \<Rightarrow> ''UnknownNative('' @ str_debug s @ '')'')"

datatype load_error = LoadIo io_error | LoadDecode decode_error

definition load_error_display :: "(string \<Rightarrow> string) \<Rightarrow> load_error \<Rightarrow> string" where
  "load_error_display str_debug e =
     (case e of
        LoadIo x \<Rightarrow> ''I/O error: '' @ err_text x
      | LoadDecode d \<Rightarrow> ''decode error: '' @ decode_error_debug str_debug d)"

section \<open>The outside\<close>

record 'e cli =
  frontend_bc :: "u8 list"
  crate_version :: string
  exe_dir :: "'e \<Rightarrow> u8 list option"
  read_file :: "u8 list \<Rightarrow> 'e \<Rightarrow> io_error + u8 list"
  write_file :: "u8 list \<Rightarrow> u8 list \<Rightarrow> 'e \<Rightarrow> (io_error + unit) \<times> 'e"
  put_args :: "string list \<Rightarrow> 'e \<Rightarrow> 'e"
  lit_debug :: "string \<Rightarrow> string"
  obj_debug :: "obj \<Rightarrow> string"

text \<open>The macros panic when the stream cannot be written.\<close>

definition eprintln :: "sink \<Rightarrow> string \<Rightarrow> ('e, unit) eff" where
  "eprintln sk s = nbind (emit_stderr sk (as_bytes s @ [10])) (\<lambda>r. case r of None \<Rightarrow> nret () | Some e \<Rightarrow> nlift (Err Panic))"

definition println :: "sink \<Rightarrow> string \<Rightarrow> ('e, unit) eff" where
  "println sk s w =
     (case sk (out w) (as_bytes s @ [10]) of
        None \<Rightarrow> (Ok (), w\<lparr>out := out w @ as_bytes s @ [10]\<rparr>)
      | Some e \<Rightarrow> (Err Panic, w))"

abbreviation SUCCESS :: u8 where "SUCCESS \<equiv> 0"
abbreviation FAILURE :: u8 where "FAILURE \<equiv> 1"

definition fail_with :: "sink \<Rightarrow> string \<Rightarrow> u8 \<Rightarrow> ('e, u8) eff" where
  "fail_with sk msg c = nbind (eprintln sk msg) (\<lambda>_. nret c)"

text \<open>The arguments are set once.\<close>

definition set_program_args :: "'e host \<Rightarrow> 'e cli \<Rightarrow> string list \<Rightarrow> ('e, unit) eff" where
  "set_program_args H K args = host_update (\<lambda>e. ((), case program_args H e of Some _ \<Rightarrow> e | None \<Rightarrow> put_args K args e))"

definition read_module_from_file :: "'e cli \<Rightarrow> string \<Rightarrow> 'e \<Rightarrow> load_error + module" where
  "read_module_from_file K path e =
     (case read_file K (as_bytes path) e of
        Inl x \<Rightarrow> Inl (LoadIo x)
      | Inr bs \<Rightarrow> (case decode_module bs of Inl d \<Rightarrow> Inl (LoadDecode d) | Inr m \<Rightarrow> Inr m))"

section \<open>Exit codes\<close>

text \<open>A struct with one field that leads back to itself is rendered without end.\<close>

partial_function (option) render :: "(obj \<Rightarrow> string) \<Rightarrow> store \<Rightarrow> val \<Rightarrow> string res option" where
  "render dbg st v =
     (case v of
        IntV n \<Rightarrow> Some (Ok (int_digits (sint n)))
      | Double x \<Rightarrow> Some (Ok (format_double x))
      | Bool b \<Rightarrow> Some (Ok (bool_string b))
      | Unit \<Rightarrow> Some (Ok ''()'')
      | Ref h \<Rightarrow>
          (case lookup st h of
             None \<Rightarrow> Some (Err Panic)
           | Some obj \<Rightarrow>
               (case obj of
                  Str s \<Rightarrow> Some (Ok s)
                | Struct ty xs \<Rightarrow> (case xs of [x] \<Rightarrow> render dbg st x | _ \<Rightarrow> Some (Ok (dbg obj)))
                | _ \<Rightarrow> Some (Ok (dbg obj)))))"

definition exit_code :: "sink \<Rightarrow> (obj \<Rightarrow> string) \<Rightarrow> val \<Rightarrow> ('e, u8) eff" where
  "exit_code sk dbg v =
     (case v of
        IntV n \<Rightarrow> nret (ucast n)
      | Ref h \<Rightarrow>
          nbind (nread (\<lambda>st. or_panic (lookup st h))) (\<lambda>obj.
            case obj of
              Enum e \<Rightarrow>
                if enum_ty e = TY_RESULT \<and> enum_variant e = TAG_OK
                then (case enum_fields e of IntV n # _ \<Rightarrow> nret (ucast n) | _ \<Rightarrow> nret SUCCESS)
                else if enum_ty e = TY_RESULT
                then nbind (nread (\<lambda>st. case enum_fields e of
                                          [] \<Rightarrow> Ok []
                                        | x # _ \<Rightarrow> (case render dbg st x of None \<Rightarrow> Err Diverge | Some r \<Rightarrow> r)))
                       (\<lambda>s. fail_with sk (''error: '' @ s) FAILURE)
                else nret SUCCESS
            | _ \<Rightarrow> nret SUCCESS)
      | _ \<Rightarrow> nret SUCCESS)"

section \<open>Commands\<close>

abbreviation USAGE :: string where "USAGE \<equiv> ''usage: thera-rt [--entry NAME] <file.thera-bc> [args]''"

text \<open>What every run of a module shares: the native table and the reset of the sockets at its end.\<close>

definition program_cfg ::
    "('e, 'f, 're, 'c, 'w, 'r, 'l, 's, 'a, 'k, 'root, 'cert, 'key, 'cli, 'srv) shipped \<Rightarrow> module \<Rightarrow> 'e cfg" where
  "program_cfg E m =
     \<lparr>lay = sh_layout E, prog = m, natives = default_natives E, teardown = reset_sockets (sh_sockets E)\<rparr>"

definition trapped :: "sink \<Rightarrow> fault \<Rightarrow> ('e, u8) eff" where
  "trapped sk f = (case f of Trap t \<Rightarrow> fail_with sk (''thera: trap: '' @ trap_display t) FAILURE | _ \<Rightarrow> nlift (Err f))"

text \<open>Initialise the globals, run the entry function, and map its value to an exit code. What a wait returns is one list
  of events for the program-init thunk and one for the program.\<close>

definition execute :: "'e cli \<Rightarrow>
    ('e, 'f, 're, 'c, 'w, 'r, 'l, 's, 'a, 'k, 'root, 'cert, 'key, 'cli, 'srv) shipped \<Rightarrow> nat \<Rightarrow> 'e event list \<Rightarrow> 'e event list \<Rightarrow>
    module \<Rightarrow> usize \<Rightarrow> val list \<Rightarrow> ('e, u8) eff" where
  "execute K E n evs0 evs m entry call_args =
     (\<lambda>w. case init_module (program_cfg E m) n evs0 w of
            (Inl f, w) \<Rightarrow> trapped (sh_stderr E) f w
          | (Inr _, w) \<Rightarrow>
              (case run (program_cfg E m) n evs entry call_args (fresh_vm w) of
                 (Inl f, s) \<Rightarrow> trapped (sh_stderr E) f (world s)
               | (Inr v, s) \<Rightarrow> exit_code (sh_stderr E) (obj_debug K) v (world s)))"

text \<open>The strings are allocated whatever the entry takes, the list of them only for an entry that takes it.\<close>

definition cmd_run :: "'e cli \<Rightarrow>
    ('e, 'f, 're, 'c, 'w, 'r, 'l, 's, 'a, 'k, 'root, 'cert, 'key, 'cli, 'srv) shipped \<Rightarrow> nat \<Rightarrow> 'e event list \<Rightarrow> 'e event list \<Rightarrow>
    string list \<Rightarrow> ('e, u8) eff" where
  "cmd_run K E n evs0 evs args =
     (let sk = sh_stderr E; L = sh_layout E;
          parsed = (case args of
             flag # tail \<Rightarrow>
               if flag = ''--entry'' then (case tail of name # tail \<Rightarrow> Some (Some name, tail) | [] \<Rightarrow> None)
               else Some (None, args)
           | [] \<Rightarrow> Some (None, args))
      in case parsed of
           None \<Rightarrow> fail_with sk USAGE 2
         | Some (explicit, []) \<Rightarrow> fail_with sk USAGE 2
         | Some (explicit, path # rest) \<Rightarrow>
             nbind (host_read (read_module_from_file K path)) (\<lambda>loaded.
             case loaded of
               Inl e \<Rightarrow> fail_with sk (''thera: cannot load '' @ path @ '': '' @ load_error_display (lit_debug K) e) FAILURE
             | Inr m \<Rightarrow>
                 (case (case explicit of Some name \<Rightarrow> function_index m name | None \<Rightarrow> entry_index m) of
                    None \<Rightarrow>
                      fail_with sk (''thera: '' @ path @ '' has no '' @ [QUOTE] @
                        (case explicit of Some name \<Rightarrow> name | None \<Rightarrow> ''main'') @ [QUOTE] @ '' function'') FAILURE
                  | Some entry \<Rightarrow>
                      nbind (set_program_args (sh_host E) K rest) (\<lambda>_.
                      nbind (nmap (new_str L) rest) (\<lambda>argv.
                      nbind (nlift (or_panic (get_nth (mod_functions m) entry))) (\<lambda>f.
                        if param_count f = 0 then execute K E n evs0 evs m entry []
                        else if param_count f = 1
                        then nbind (new_list L argv) (\<lambda>v. execute K E n evs0 evs m entry [v])
                        else fail_with sk (''thera: main takes '' @ nat_digits (unat (param_count f)) @
                               '' parameters; only 0 or 1 (args) is supported'') FAILURE))))))"

definition cmd_frontend :: "'e cli \<Rightarrow>
    ('e, 'f, 're, 'c, 'w, 'r, 'l, 's, 'a, 'k, 'root, 'cert, 'key, 'cli, 'srv) shipped \<Rightarrow> nat \<Rightarrow> 'e event list \<Rightarrow> 'e event list \<Rightarrow>
    u8 list \<Rightarrow> string list \<Rightarrow> ('e, u8) eff" where
  "cmd_frontend K E n evs0 evs blob args =
     (let sk = sh_stderr E; L = sh_layout E
      in case decode_module blob of
           Inl d \<Rightarrow> fail_with sk (''thera: the front-end is corrupt: '' @ decode_error_debug (lit_debug K) d) FAILURE
         | Inr m \<Rightarrow>
             (case entry_index m of
                None \<Rightarrow> fail_with sk (''thera: the embedded front-end has no '' @ [QUOTE] @ ''main'' @ [QUOTE] @ '' function'') FAILURE
              | Some entry \<Rightarrow>
                  nbind (set_program_args (sh_host E) K args) (\<lambda>_.
                  nbind (nmap (new_str L) args) (\<lambda>strs.
                  nbind (new_list L strs) (\<lambda>argv.
                  nbind (nlift (or_panic (get_nth (mod_functions m) entry))) (\<lambda>f.
                    if param_count f = 0 then execute K E n evs0 evs m entry []
                    else if param_count f = 1 then execute K E n evs0 evs m entry [argv]
                    else fail_with sk (''thera: the front-end'' @ [QUOTE] @ ''s main takes '' @ nat_digits (unat (param_count f)) @
                           '' parameters; expected 0 or 1'') FAILURE))))))"

definition load_frontend :: "'e cli \<Rightarrow> 'e \<Rightarrow> u8 list option" where
  "load_frontend K e =
     (if frontend_bc K \<noteq> [] then Some (frontend_bc K)
      else Option.bind (exe_dir K e) (\<lambda>dir.
        case read_file K (path_join (path_join dir (as_bytes ''inc'')) (as_bytes ''frontend.thera-bc'')) e of
          Inr bs \<Rightarrow> Some bs
        | Inl _ \<Rightarrow> None))"

definition version_string :: "'e cli \<Rightarrow> 'e \<Rightarrow> string" where
  "version_string K e =
     (case Option.bind (exe_dir K e) (\<lambda>dir.
             case read_file K (path_join (path_join dir (as_bytes ''..'')) (as_bytes ''version'')) e of
               Inr bs \<Rightarrow> from_utf8 bs
             | Inl _ \<Rightarrow> None) of
        Some v \<Rightarrow> if trim_both v \<noteq> [] then trim_both v else crate_version K
      | None \<Rightarrow> crate_version K)"

definition is_bytecode_path :: "string \<Rightarrow> bool" where
  "is_bytecode_path arg = suffix ''.thera-bc'' arg"

text \<open>A name that is not in the table does not compile.\<close>

definition native_idx :: "string \<Rightarrow> u32" where
  "native_idx name = (case native_index name of Some i \<Rightarrow> i | None \<Rightarrow> 0)"

definition NATIVE_PRINTLN :: u32 where "NATIVE_PRINTLN = native_idx ''println''"
definition NATIVE_INT_TO_STRING :: u32 where "NATIVE_INT_TO_STRING = native_idx ''int_to_string''"
definition NATIVE_STR_CONCAT :: u32 where "NATIVE_STR_CONCAT = native_idx ''str_concat''"

text \<open>\<open>double(x) = x * 2\<close>, and a \<open>main\<close> that prints the double of 21.\<close>

definition demo_main :: fn_builder where
  "demo_main = fold emit
     [ConstStr ''double(21) = '', ConstInt 21, Call 1 1, CallNative NATIVE_INT_TO_STRING 1, CallNative NATIVE_STR_CONCAT 2,
      CallNative NATIVE_PRINTLN 1, Pop, ConstInt 0, Return] (fnb_new ''main'' 0)"

definition demo_double :: fn_builder where
  "demo_double = fold emit [ConstInt 2, MulI64, Return] (load 0 (fnb_new ''double'' 1))"

definition demo_module :: "module option" where
  "demo_module = Option.bind (finish demo_main) (\<lambda>f. Option.bind (finish demo_double) (\<lambda>g. Some (module_new [f, g])))"

definition cmd_emit_demo :: "'e cli \<Rightarrow> sink \<Rightarrow> string option \<Rightarrow> ('e, u8) eff" where
  "cmd_emit_demo K sk path =
     (case path of
        None \<Rightarrow> fail_with sk ''usage: thera-rt emit-demo <file.thera-bc>'' 2
      | Some path \<Rightarrow>
          nbind (nlift (or_panic (Option.bind demo_module encode_module))) (\<lambda>bs.
          nbind (host_update (write_file K (as_bytes path) bs)) (\<lambda>r.
            case r of
              Inl e \<Rightarrow> fail_with sk (''thera: cannot write '' @ path @ '': '' @ err_text e) FAILURE
            | Inr _ \<Rightarrow> nret SUCCESS)))"

text \<open>The first of the process's arguments is its name.\<close>

definition main :: "'e cli \<Rightarrow>
    ('e, 'f, 're, 'c, 'w, 'r, 'l, 's, 'a, 'k, 'root, 'cert, 'key, 'cli, 'srv) shipped \<Rightarrow> nat \<Rightarrow> 'e event list \<Rightarrow> 'e event list \<Rightarrow>
    string list \<Rightarrow> ('e, u8) eff" where
  "main K E n evs0 evs args =
     (let sk = sh_stderr E;
          boot = nbind (host_read (load_frontend K)) (\<lambda>fe.
            case fe of
              Some bs \<Rightarrow> if args = [] then nlift (Err Panic) else cmd_frontend K E n evs0 evs bs (tl args)
            | None \<Rightarrow>
                (case get_nth args 1 of
                   None \<Rightarrow> nbind (eprintln sk USAGE) (\<lambda>_. fail_with sk ''       thera-rt emit-demo <file.thera-bc>'' 2)
                 | Some other \<Rightarrow>
                     nbind (eprintln sk (''thera-rt: '' @ [QUOTE] @ other @ [QUOTE] @ '' is not a bytecode file (.thera-bc)'')) (\<lambda>_.
                     nbind (eprintln sk (''this is the bare runtime; build the SDK for the `thera` front-end'')) (\<lambda>_.
                     fail_with sk USAGE 2))))
      in case get_nth args 1 of
           None \<Rightarrow> boot
         | Some arg \<Rightarrow>
             if arg = ''--version'' \<or> arg = ''-V''
             then nbind (host_read (version_string K)) (\<lambda>v. nbind (println (sh_stdout E) (''thera '' @ v)) (\<lambda>_. nret SUCCESS))
             else if arg = ''emit-demo'' then cmd_emit_demo K sk (get_nth args 2)
             else if arg = ''--entry'' then cmd_run K E n evs0 evs (tl args)
             else if is_bytecode_path arg then cmd_run K E n evs0 evs (tl args)
             else boot)"

section \<open>Running a file is safe\<close>

text \<open>With a standard error that takes what it is given, a command that fails says so and exits.\<close>

lemma fail_with_exits:
  "\<forall>a b. sk a b = None \<Longrightarrow> fail_with sk msg c w = (Ok c, w\<lparr>err_out := err_out w @ as_bytes msg @ [10]\<rparr>)"
  by (simp add: fail_with_def eprintln_def emit_stderr_def nbind_def nret_def)

abbreviation exits :: "u8 res \<Rightarrow> bool" where
  "exits r \<equiv> (\<exists>c. r = Ok c) \<or> r = Err Diverge"

lemma trapped_exits:
  assumes "\<forall>a b. sk a b = None" "f \<noteq> Panic" "trapped sk f w = (r, w')"
  shows "exits r" "mem w' = mem w"
  using assms by (cases f; auto simp: trapped_def fail_with_exits nlift_def)+

lemma render_safe:
  assumes run: "render dbg st v = Some r" and "store_closed st" "valid_val st v"
  shows "\<exists>s. r = Ok s"
proof -
  define Q where "Q st v r \<longleftrightarrow> (store_closed st \<longrightarrow> valid_val st v \<longrightarrow> (\<exists>s. r = Ok s))"
    for st :: store and v :: val and r :: "string res"
  have "Q st v r"
  proof (rule render.raw_induct [of "\<lambda>dbg. Q", OF _ run])
    fix f dbg st v r
    assume IH: "\<And>dbg st v r. f dbg st v = Some r \<Longrightarrow> Q st v r"
      and body: "(case v of
          IntV n \<Rightarrow> Some (Ok (int_digits (sint n))) | Double x \<Rightarrow> Some (Ok (format_double x))
        | Bool b \<Rightarrow> Some (Ok (bool_string b)) | Unit \<Rightarrow> Some (Ok ''()'')
        | Ref h \<Rightarrow> (case lookup st h of None \<Rightarrow> Some (Err Panic)
            | Some obj \<Rightarrow> (case obj of Str s \<Rightarrow> Some (Ok s)
                | Struct ty xs \<Rightarrow> (case xs of [x] \<Rightarrow> f dbg st x | _ \<Rightarrow> Some (Ok (dbg obj)))
                | _ \<Rightarrow> Some (Ok (dbg obj))))) = Some r"
    have "\<exists>s. r = Ok s" if closed: "store_closed st" and v: "valid_val st v"
    proof (cases "\<exists>h ty x. v = Ref h \<and> lookup st h = Some (Struct ty [x])")
      case True
      then obtain h ty x where x: "v = Ref h" "lookup st h = Some (Struct ty [x])" by blast
      have "valid_val st x" using store_closedD [OF closed x(2)] by simp
      then show ?thesis using IH [of dbg st x r] body x closed by (simp add: Q_def)
    next
      case False
      then show ?thesis using body v by (auto simp: valid_val_def split: "val.splits" obj.splits list.splits option.splits)
    qed
    then show "Q st v r" by (simp add: Q_def)
  qed
  then show ?thesis using assms(2,3) by (simp add: Q_def)
qed

lemma exit_code_mem: "exit_code sk dbg v w = (r, w') \<Longrightarrow> mem w' = mem w"
  by (auto simp: exit_code_def nbind_def nread_def nret_def fail_with_def eprintln_def emit_stderr_def nlift_def
      split: "val.splits" obj.splits if_splits list.splits sum.splits option.splits prod.splits)

lemma exit_code_exits:
  assumes "\<forall>a b. sk a b = None" "heap_ok (mem w)" "valid_val (rt_slots (mem w)) v" "exit_code sk dbg v w = (r, w')"
  shows "exits r"
proof -
  have closed: "store_closed (rt_slots (mem w))" using assms(2) by (simp add: heap_ok_def)
  show ?thesis
  proof (cases "\<exists>h. v = Ref h")
    case True
    then obtain h obj where v: "v = Ref h" and obj: "lookup (rt_slots (mem w)) h = Some obj"
      using assms(3) by (auto simp: valid_val_def)
    show ?thesis
    proof (cases "\<exists>e x xs. obj = Enum e \<and> enum_ty e = TY_RESULT \<and> enum_variant e \<noteq> TAG_OK \<and> enum_fields e = x # xs")
      case True
      then obtain e x xs where e: "obj = Enum e" "enum_ty e = TY_RESULT" "enum_variant e \<noteq> TAG_OK" "enum_fields e = x # xs" by blast
      have "valid_val (rt_slots (mem w)) x" using store_closedD [OF closed obj] e by simp
      then show ?thesis
        using assms(1,4) v obj e render_safe [OF _ closed, of dbg x]
        by (cases "render dbg (rt_slots (mem w)) x") (auto simp: exit_code_def nbind_def nread_def fail_with_exits)
    next
      case False
      then show ?thesis
        using assms(1,4) v obj
        by (auto simp: exit_code_def nbind_def nread_def fail_with_exits nret_def split: obj.splits if_splits list.splits "val.splits")
    qed
  qed (use assms(4) in \<open>auto simp: exit_code_def nret_def split: "val.splits"\<close>)
qed

lemma strs_alloc:
  assumes "nmap (new_str L) xs w = (r, w')"
  obtains m vs where "w' = w\<lparr>mem := m\<rparr>" "r = Ok vs" "length (rt_slots (mem w)) \<le> length (rt_slots m)"
    "world_ok w \<Longrightarrow> slots_fit w' \<Longrightarrow> world_ok w' \<and> vals_ok (rt_slots m) vs"
proof -
  have "\<exists>m vs. w' = w\<lparr>mem := m\<rparr> \<and> r = Ok vs"
    using assms
  proof (induction xs arbitrary: w r w')
    case (Cons x xs)
    obtain v m where "alloc L (Str x) (mem w) = (v, m)" by fastforce
    moreover obtain r1 w1 where "nmap (new_str L) xs (w\<lparr>mem := m\<rparr>) = (r1, w1)" by fastforce
    then obtain vs m' where "nmap (new_str L) xs (w\<lparr>mem := m\<rparr>) = (Ok vs, w\<lparr>mem := m'\<rparr>)" using Cons.IH by fastforce
    ultimately show ?case using Cons.prems by (auto simp: nbind_def nret_def heap_alloc_def [of L "Str x"])
  next
    case Nil
    then show ?case by (intro exI [of _ "mem w"]) (auto simp: nret_def)
  qed
  moreover have "nsafe [] (nmap (new_str L) xs) (\<lambda>vs. vs)" by (intro nsafe_nmap nsafe_alloc) (simp add: keeps_def)
  ultimately show thesis using that assms unfolding nsafe_def by fastforce
qed

lemma set_globals_ok: "world_ok w \<Longrightarrow> world_ok (w\<lparr>mem := set_globals n (mem w)\<rparr>)"
  by (auto simp: world_ok_def heap_ok_def perm_roots_def set_globals_def list_all_iff)

lemma fresh_idle: "world_ok w \<Longrightarrow> jobs w = [] \<Longrightarrow> cell_ok w \<Longrightarrow> idle_vm c (fresh_vm w)"
  by (simp add: idle_vm_def vm_ok_def fresh_vm_def)

text \<open>A module that the table is safe for.\<close>

definition trusted :: "module \<Rightarrow> bool" where
  "trusted m \<longleftrightarrow> module_safe m \<and> (\<forall>k\<in>calls_natives m. native_name k \<notin> Some ` set may_panic)"

lemma trusted_called: "trusted m \<Longrightarrow> module_safe (prog (program_cfg E m)) \<and> called_ok (program_cfg E m)"
  unfolding trusted_def by (intro conjI default_natives_called_ok [of _ E]) (simp_all add: program_cfg_def)

lemma entry_exits:
  assumes m: "trusted m" and sk: "\<forall>a b. sh_stderr E a b = None"
    and w: "world_ok w" "jobs w = []" "cell_ok w" and args: "vals_ok (rt_slots (mem w)) args"
    and run: "run (program_cfg E m) n evs entry args (fresh_vm w) = (q, s)" and fit: "slots_fit w'"
    and out: "(case q of Inl f \<Rightarrow> trapped (sh_stderr E) f (world s) | Inr v \<Rightarrow> exit_code (sh_stderr E) dbg v (world s)) = (r, w')"
  shows "exits r"
proof -
  note c = trusted_called [OF m, of E, THEN conjunct1] trusted_called [OF m, of E, THEN conjunct2]
  have args': "vals_ok (slots_of (fresh_vm w)) args" using args by (simp add: fresh_vm_def)
  note R = run_called_safe [OF c fresh_idle [OF w] args' run]
  have mem: "mem w' = mem (world s)"
  proof (cases q)
    case (Inl f)
    then show ?thesis using out by (cases f) (auto simp: trapped_def fail_with_exits [OF sk] nlift_def)
  next
    case (Inr v)
    then show ?thesis using out exit_code_mem by fastforce
  qed
  then have fits: "slots_fit (world s)" using fit by (simp add: slots_fit_def)
  show ?thesis
  proof (cases q)
    case (Inl f)
    then show ?thesis using R [OF fits] out trapped_exits(1) [OF sk, of f] by (simp, blast)
  next
    case (Inr v)
    then have "valid_val (slots_of s) v" "heap_ok (mem (world s))"
      using R [OF fits] by (auto simp: idle_vm_def vm_ok_def world_ok_def)
    moreover have "exit_code (sh_stderr E) dbg v (world s) = (r, w')" using out Inr by simp
    ultimately show ?thesis using exit_code_exits [OF sk] by blast
  qed
qed

lemma execute_exits:
  assumes m: "trusted m" and sk: "\<forall>a b. sh_stderr E a b = None"
    and w: "world_ok w" "jobs w = []" "cell_ok w" and args: "vals_ok (rt_slots (mem w)) args" "args = [] \<or> init_index m = None"
    and run: "execute K E n evs0 evs m entry args w = (r, w')" and fit: "slots_fit w'"
  shows "exits r"
proof -
  let ?c = "program_cfg E m" and ?w = "w\<lparr>mem := set_globals (unat (global_count m)) (mem w)\<rparr>"
  note c = trusted_called [OF m, of E, THEN conjunct1] trusted_called [OF m, of E, THEN conjunct2]
  have w1: "world_ok ?w" "jobs ?w = []" "cell_ok ?w" using w set_globals_ok by (simp_all add: cell_ok_def)
  have cfg: "prog ?c = m" by (simp add: program_cfg_def)
  show ?thesis
  proof (cases "init_index m")
    case None
    obtain q s where main: "run ?c n evs entry args (fresh_vm ?w) = (q, s)" by fastforce
    have "vals_ok (rt_slots (mem ?w)) args" using args(1) by (simp add: set_globals_def)
    from entry_exits [OF m sk w1 this main fit] show ?thesis
      using run None main by (simp add: execute_def init_module_def cfg Let_def split: sum.splits)
  next
    case (Some i)
    obtain q0 s0 where thunk: "run ?c n evs0 i [] (fresh_vm ?w) = (q0, s0)" by fastforce
    note T = run_called_safe [OF c fresh_idle [OF w1] _ thunk] and G = run_called_slots [OF c _ thunk]
    show ?thesis
    proof (cases q0)
      case (Inl f)
      then have out: "trapped (sh_stderr E) f (world s0) = (r, w')"
        using run Some thunk by (simp add: execute_def init_module_def cfg Let_def)
      then have "mem w' = mem (world s0)" by (cases f) (auto simp: trapped_def fail_with_exits [OF sk] nlift_def)
      then have "f \<noteq> Panic" using T fit Inl by (simp add: slots_fit_def)
      then show ?thesis using trapped_exits(1) [OF sk _ out] by blast
    next
      case (Inr v)
      obtain q s where main: "run ?c n evs entry [] (fresh_vm (world s0)) = (q, s)" by fastforce
      have out: "(case q of Inl f \<Rightarrow> trapped (sh_stderr E) f (world s) | Inr v \<Rightarrow> exit_code (sh_stderr E) (obj_debug K) v (world s)) = (r, w')"
        using run Some thunk Inr main args(2) by (simp add: execute_def init_module_def cfg Let_def split: sum.splits)
      have "cell_ok (world s0)" using G(2) [of v] w1(3) Inr by (simp add: fresh_vm_def)
      then have "length (slots_of s0) \<le> length (slots_of s)" using run_called_slots(1) [OF c _ main] by (simp add: fresh_vm_def)
      moreover have "mem w' = mem (world s)"
        using out exit_code_mem
        by (cases q) (fastforce simp: trapped_def fail_with_exits [OF sk] nlift_def split: fault.splits)+
      ultimately have "idle_vm ?c s0" using T fit Inr by (simp add: slots_fit_def)
      then have "world_ok (world s0)" "jobs (world s0) = []" "cell_ok (world s0)" by (simp_all add: idle_vm_def vm_ok_def)
      from entry_exits [OF m sk this _ main fit out] show ?thesis by simp
    qed
  qed
qed

lemma trapped_mem: "trapped sk f w = (r, w') \<Longrightarrow> mem w' = mem w"
  by (auto simp: trapped_def fail_with_def eprintln_def emit_stderr_def nbind_def nret_def nlift_def
      split: fault.splits option.splits sum.splits prod.splits)

lemma execute_slots:
  assumes m: "trusted m" and w: "cell_ok w" and run: "execute K E n evs0 evs m entry args w = (r, w')"
  shows "length (rt_slots (mem w)) \<le> length (rt_slots (mem w'))"
proof -
  let ?c = "program_cfg E m" and ?w = "w\<lparr>mem := set_globals (unat (global_count m)) (mem w)\<rparr>"
  note c = trusted_called [OF m, of E, THEN conjunct1] trusted_called [OF m, of E, THEN conjunct2]
  have cfg: "prog ?c = m" by (simp add: program_cfg_def)
  have main: "length (rt_slots (mem u)) \<le> length (rt_slots (mem w'))"
    if u: "cell_ok u" and go: "(case run ?c n evs entry args (fresh_vm u) of
        (Inl f, s) \<Rightarrow> trapped (sh_stderr E) f (world s)
      | (Inr v, s) \<Rightarrow> exit_code (sh_stderr E) (obj_debug K) v (world s)) = (r, w')" for u
  proof -
    obtain q s where q: "run ?c n evs entry args (fresh_vm u) = (q, s)" by fastforce
    have "mem w' = mem (world s)" using go q trapped_mem exit_code_mem by (cases q) fastforce+
    then show ?thesis using run_called_slots(1) [OF c _ q] u by (simp add: fresh_vm_def)
  qed
  have w1: "cell_ok ?w" "length (rt_slots (mem ?w)) = length (rt_slots (mem w))" using w by (simp_all add: cell_ok_def set_globals_def)
  show ?thesis
  proof (cases "init_index m")
    case None
    then show ?thesis using main [OF w1(1)] w1(2) run by (simp add: execute_def init_module_def cfg Let_def)
  next
    case (Some i)
    obtain q0 s0 where thunk: "run ?c n evs0 i [] (fresh_vm ?w) = (q0, s0)" by fastforce
    note G = run_called_slots [OF c _ thunk]
    have grown: "length (rt_slots (mem w)) \<le> length (slots_of s0)" using G(1) w1 by (simp add: fresh_vm_def)
    show ?thesis
    proof (cases q0)
      case (Inl f)
      then have "trapped (sh_stderr E) f (world s0) = (r, w')"
        using run Some thunk by (simp add: execute_def init_module_def cfg Let_def)
      then show ?thesis using grown trapped_mem by metis
    next
      case (Inr v)
      then have "cell_ok (world s0)" using G(2) [of v] w1(1) by (simp add: fresh_vm_def)
      then show ?thesis
        using main [of "world s0"] grown run Some thunk Inr by (simp add: execute_def init_module_def cfg Let_def)
    qed
  qed
qed

lemma cmd_run_exits:
  assumes sk: "\<forall>a b. sh_stderr E a b = None" and path: "path \<noteq> ''--entry''"
    and load: "read_module_from_file K path (env w) = Inr m" "trusted m"
    and entry: "entry_index m = Some entry" "get_nth (mod_functions m) entry = Some f" "param_count f \<noteq> 1 \<or> init_index m = None"
    and w: "world_ok w" "jobs w = []" "cell_ok w"
    and run: "cmd_run K E n evs0 evs (path # rest) w = (r, w')" "slots_fit w'"
  shows "exits r"
proof -
  let ?L = "sh_layout E" and ?w = "w\<lparr>env := case program_args (sh_host E) (env w) of Some _ \<Rightarrow> env w | None \<Rightarrow> put_args K rest (env w)\<rparr>"
  obtain q w1 where alloc: "nmap (new_str ?L) rest ?w = (q, w1)" by fastforce
  obtain m1 vs where w1: "w1 = ?w\<lparr>mem := m1\<rparr>" "q = Ok vs" "world_ok ?w \<Longrightarrow> slots_fit w1 \<Longrightarrow> world_ok w1 \<and> vals_ok (rt_slots m1) vs"
    by (rule strs_alloc [OF alloc]) (rule that)
  have go: "(if param_count f = 0 then execute K E n evs0 evs m entry []
      else if param_count f = 1 then nbind (new_list ?L vs) (\<lambda>v. execute K E n evs0 evs m entry [v])
      else fail_with (sh_stderr E) (''thera: main takes '' @ nat_digits (unat (param_count f)) @
             '' parameters; only 0 or 1 (args) is supported'') FAILURE) w1 = (r, w')"
    using run(1) path load(1) entry(1,2) alloc w1(2)
    by (simp add: cmd_run_def Let_def nbind_def host_read_def set_program_args_def host_update_def nlift_def split del: if_split)
  have ok: "world_ok ?w" "cell_ok w1" "jobs w1 = []" using w w1(1) by (simp_all add: world_ok_def cell_ok_def)
  show ?thesis
  proof (cases "param_count f = 1")
    case True
    obtain v m2 where list: "alloc ?L (List vs) m1 = (v, m2)" by fastforce
    let ?w2 = "w1\<lparr>mem := m2\<rparr>"
    have al: "new_list ?L vs w1 = (Ok v, ?w2)" using list w1(1) by (simp add: heap_alloc_def)
    have ex: "execute K E n evs0 evs m entry [v] ?w2 = (r, w')" using go True al by (simp add: nbind_def)
    have cell: "cell_ok ?w2" "jobs ?w2 = []" using ok by (simp_all add: cell_ok_def)
    have fit2: "slots_fit ?w2" using execute_slots [OF load(2) cell(1) ex] run(2) by (simp add: slots_fit_def)
    have fit1: "slots_fit w1" using alloc_world(1) [OF al] fit2 by (simp add: slots_fit_def)
    have vs: "world_ok w1" "vals_ok (rt_slots (mem w1)) vs" using w1 ok(1) fit1 by auto
    have "nsafe vs (new_list ?L vs) (\<lambda>v. [v])" by (rule nsafe_alloc) (simp add: keeps_def)
    then have "world_ok ?w2" "vals_ok (rt_slots (mem ?w2)) [v]" using al vs fit2 unfolding nsafe_def by blast+
    from execute_exits [OF load(2) sk this(1) cell(2,1) this(2) _ ex run(2)] show ?thesis using entry(3) True by simp
  next
    case False
    show ?thesis
    proof (cases "param_count f = 0")
      case True
      then have ex: "execute K E n evs0 evs m entry [] w1 = (r, w')" using go by simp
      have fit: "slots_fit w1" using execute_slots [OF load(2) ok(2) ex] run(2) by (simp add: slots_fit_def)
      have "world_ok w1" using w1 ok(1) fit by auto
      from execute_exits [OF load(2) sk this ok(3,2) _ _ ex run(2)] show ?thesis by simp
    next
      case 0: False
      then show ?thesis using go False by (auto simp: fail_with_exits [OF sk])
    qed
  qed
qed

text \<open>An argument that names a bytecode file is no option and no command.\<close>

lemma bytecode_path_plain:
  assumes "is_bytecode_path path"
  shows "path \<noteq> ''--entry''" "path \<noteq> ''--version''" "path \<noteq> ''-V''" "path \<noteq> ''emit-demo''"
  using assms by (auto simp: is_bytecode_path_def suffix_def Cons_eq_append_conv)

lemma main_runs_file: "is_bytecode_path path \<Longrightarrow> main K E n evs0 evs (name # path # rest) = cmd_run K E n evs0 evs (path # rest)"
  by (simp add: main_def get_nth_def Let_def bytecode_path_plain)

end
