(* ===== verification/Spec2Isabelle.thy ===== *)
theory Spec2Isabelle
  imports Collector ValueEq ModuleCodec SchedRun RunSafe RunFuel OpFacts DriverRun DriverFuel NativeTable Builder Disasm Cli
begin

text \<open>
  A verification of the Thera runtime (\<^verbatim>\<open>src/runtime/src\<close>): a bytecode virtual machine in Rust
  with a tracing collector, cooperative fibers and a binary module format.

  \<^bold>\<open>The program.\<close> A compiler emits a module: functions of stack code, a type table, an enum
  table and a dispatch table. \<^verbatim>\<open>codec.rs\<close> writes and reads modules over the primitives of
  \<^verbatim>\<open>serialize.rs\<close>. \<^verbatim>\<open>interp/mod.rs\<close> runs them: one loop over a value stack and an explicit
  stack of frames, natives for everything that is not an instruction, and a scheduler that
  switches fibers when a native asks to wait. Objects live in the slab of \<^verbatim>\<open>heap.rs\<close> and are
  reached through 32-bit handles; \<^verbatim>\<open>map.rs\<close> is the insertion-ordered hash map behind map
  values; \<^verbatim>\<open>value.rs\<close> defines values and objects.

  \<^bold>\<open>The theories.\<close>
  \<^item> \<open>Prelude\<close>, \<open>Utf8\<close>: word abbreviations, results (\<open>Ok\<close>, \<open>Err\<close>, \<open>rbind\<close> for \<open>?\<close>), list access,
    decimal digits; the UTF-8 validity check of \<open>String::from_utf8\<close>. A Rust \<open>String\<close> is the
    list of its bytes.
  \<^item> \<open>Wire\<close> (\<^verbatim>\<open>serialize.rs\<close>): \<open>Writer\<close> and \<open>Reader\<close>. The locale \<open>wire_format\<close> is the contract of
    a writer and its reader; it is interpreted for unsigned and signed varints, doubles and
    strings, and gives the round trip of any sequence.
  \<^item> \<open>F64\<close>, \<open>Format\<close>: doubles as their 64-bit patterns with correctly rounded arithmetic, and the
    rendering of doubles, byte strings and string literals (\<^verbatim>\<open>value.rs\<close> \<open>format_double\<close>,
    \<^verbatim>\<open>mod.rs\<close> \<open>quote_str\<close>, \<open>hex_join\<close>).
  \<^item> \<open>Value\<close>, \<open>Heap\<close>, \<open>Collector\<close> (\<^verbatim>\<open>value.rs\<close>, \<^verbatim>\<open>heap.rs\<close>): values, objects, allocation through
    the free list, interned strings, globals, and mark and sweep. \<open>heap_ok\<close> is the heap
    invariant; \<open>collect_correct\<close> is the exactness of a collection.
  \<^item> \<open>MapObj\<close>, \<open>ValueEq\<close> (\<^verbatim>\<open>map.rs\<close>, \<open>heap::values_eq\<close>): the hash map against a list
    specification in the locale \<open>key_laws\<close>, interpreted on structural equality and the content
    hash of heap values.
  \<^item> \<open>Instr\<close>, \<open>Module\<close>, \<open>Native_Names\<close>, \<open>Codec\<close>, \<open>ModuleCodec\<close> (\<^verbatim>\<open>instr.rs\<close>, \<^verbatim>\<open>module.rs\<close>,
    \<^verbatim>\<open>codec.rs\<close>): the instruction set, the module tables with the dispatch index, and the
    encoder and decoder, section by section.
  \<^item> \<open>Trap\<close>, \<open>Sched\<close>, \<open>SchedInv\<close>, \<open>SchedRun\<close> (\<^verbatim>\<open>mod.rs\<close>, \<open>Scheduler\<close>): fibers, park requests,
    timers, socket waits and channels; the invariant and that every operation keeps it
    without panicking; runs as a step relation, with the order of the ready queue. The locale
    \<open>bounded_fifo\<close> is interpreted on channels.
  \<^item> \<open>Interp\<close>, \<open>OpFacts\<close> (\<^verbatim>\<open>mod.rs\<close>, \<open>run_loop\<close> and its helpers): every instruction, calls and
    the depth limit, safepoints, natives and parking, the structural fallbacks of virtual
    calls, which re-enter the loop.
  \<^item> \<open>InterpSafe\<close>, \<open>LoopSafe\<close>, \<open>RunSafe\<close>, \<open>RunFuel\<close>: \<open>safe c P m Q\<close> is a triple over interpreter
    computations (the invariant \<open>vm_ok\<close> is kept, nothing panics, handles held outside the
    stacks survive while collection is paused); each instruction has one, and the loop's
    follows by induction on the steps.
  \<^item> \<open>Driver\<close>, \<open>WorldRel\<close>, \<open>SchedEffect\<close>, \<open>DriverSafe\<close>, \<open>DriverRun\<close>, \<open>DriverFuel\<close> (\<^verbatim>\<open>mod.rs\<close>, \<open>Vm::run\<close>,
    \<open>drive\<close>, \<open>next_ready\<close>, \<open>deliver_completions\<close>): the scheduler loop. What the driver waits for is a list of
    events (socket handles, finished jobs, the clock), one for each wait. The locale \<open>world_rel\<close> carries any
    relation that every native respects over a whole run of the loop; interpreted on \<open>sched_rel\<close>
    it says what a run may do to the scheduler. \<open>triple\<close> extends the triples to the driver, whose
    invariant \<open>driver_inv\<close> says which fiber runs and that each fiber waiting for a worker has
    exactly one job.

  \<^item> \<open>RustStr\<close>, \<open>NativeBase\<close>: the string operations of the standard library the natives call, and the
    argument checks, accessors and constructors of \<^verbatim>\<open>natives.rs\<close>. A native is a computation on the
    world; \<open>nsafe vs m res\<close> is its contract (with \<open>vs\<close> live the world's invariant and every live
    handle are kept, nothing panics, the result is live), with one introduction rule per
    combinator and per helper.
  \<^item> \<open>NativeText\<close>, \<open>NativeData\<close>, \<open>MapNatives\<close>, \<open>NativeFiber\<close>, \<open>NativeFs\<close> (\<^verbatim>\<open>natives.rs\<close>): the natives, each
    with its contract: output and its capture stack, strings, bytes, lists, maps, numbers;
    fibers, channels, time and environment; the file system by path and standard input. What the
    outside world answers is a parameter: the sinks, the record \<open>host\<close> (clock, environment,
    terminal), the record \<open>io_abi\<close> (jobs posted to the workers and the payloads they return), the
    digests, \<open>libm\<close>, the case mappings of Unicode. \<open>Decimal\<close> is the parsing of doubles, with the round
    trip from a double to its text and back. \<open>MapNatives\<close> gives the map natives their meaning
    over the list of entries.
  \<^item> \<open>Registry\<close>, \<open>NativeFile\<close>, \<open>NativeRegex\<close>, \<open>NativeProc\<close> (\<^verbatim>\<open>natives.rs\<close>): the registries that give the program
    integer handles for objects outside the heap, with the locale \<open>handle_table\<close> for their contract, and the
    natives on open files, compiled patterns and running processes. Such a registry is part of the outside; a
    \<open>table\<close> says how to read and write it there. The files, the patterns and the processes themselves, and what
    is done to them, are parameters (\<open>file_abi\<close>, \<open>regex_crate\<close>, \<open>proc_os\<close>).
  \<^item> \<open>TlsPump\<close>, \<open>NativeSocket\<close> (\<^verbatim>\<open>tls.rs\<close>, \<^verbatim>\<open>natives.rs\<close>): the pump between a socket and a TLS connection, whose
    loops return because a connection has only so much to send (\<open>engine_ok\<close>, what is relied on of the
    connection), and the socket and TLS natives with their parks and retries. The system calls (\<open>net_os\<close>), the
    connection (\<open>engine\<close>) and the cryptography (\<open>crypto\<close>) are parameters.
  \<^item> \<open>NativeCalls\<close>, \<open>NativeTable\<close>: a run depends only on the natives its module calls; the table
    \<open>NATIVES\<close>, and that every native in it that cannot panic keeps the contract, so
    that programs over the shipped natives are memory safe.
  \<^item> \<open>Builder\<close>, \<open>Disasm\<close> (\<^verbatim>\<open>builder.rs\<close>, \<^verbatim>\<open>disasm.rs\<close>): the assembler of functions with its labels
    and fixups, and the textual form of code, which determines it.
  \<^item> \<open>Profile\<close>, \<open>Cli\<close> (\<^verbatim>\<open>profile.rs\<close>, \<^verbatim>\<open>main.rs\<close>): the counters of the profiler, which account for every
    reported instruction, call and allocation; and the command line, from the arguments over loading, initialising and
    running a module to the exit code. The files and what the build embeds are the parameter \<open>cli\<close>.

  \<^bold>\<open>State.\<close> The thread-locals of the program (heap, scheduler, park cell, capture buffers) and
  the output sinks are the record \<open>world\<close>; \<open>vm\<close> adds the value stack and the frames of the
  running fiber. A panic is the value \<open>None\<close> in the heap, map and scheduler operations and
  the fault \<open>Panic\<close> in the interpreter; a trap is \<open>Trap\<close>.

  \<^bold>\<open>Bounds.\<close> Handles and counts keep their width. The loop, the driver and \<open>debug_value\<close> take a
  number of steps; \<open>Diverge\<close> says it did not suffice, and \<open>fuel_only_bounds\<close> shows that it only cuts.
  Structural equality and hashing follow the object graph to a depth that \<open>values_eq_total\<close>
  shows to be as good as none; on a cyclic value, where the code does not return, they have
  no answer. Sizes that depend on the allocator (\<open>capacity\<close>, \<open>size_of\<close>) are the parameter \<open>layout\<close>.

  \<^bold>\<open>Not modelled.\<close> The worker threads and the poller, whose effect on the scheduler is modelled as the
  operations they trigger; the cache of the default TLS client configuration and the statistics of native calls
  (a build feature), which change no result. The interpreter runs with profiling off: \<open>Profile\<close> takes its reports as a list.
\<close>

section \<open>Concrete data\<close>

text \<open>A one-function program and a three-object heap, used to instantiate the theorems below.\<close>

definition sample_module :: module where
  "sample_module = module_new [function_new ''main'' 0 0 [ConstStr ''hi'', CallNative 0 1, Return]]"

definition demo_layout :: layout where
  "demo_layout = \<lparr>size_of_obj = 56, size_of_value = 16, capacity = (\<lambda>n. n)\<rparr>"

definition demo_rt :: rt where
  "demo_rt = (rt_init DEFAULT_MAX_HEAP_BYTES)\<lparr>heap := heap_init\<lparr>slots :=
     [Some (List [Ref 1, IntV 7]), Some (Str ''a''), Some (Str ''b'')]\<rparr>\<rparr>"

lemma sample_module_strings: "module_strings sample_module = [''hi'', ''println'']"
  by code_simp

lemma sample_module_ok: "module_ok sample_module"
proof -
  have "valid_str ''hi''" "valid_str ''println''" "valid_str ''main''" "native_name 0 = Some ''println''"
    by code_simp+
  then show ?thesis
    unfolding module_ok_def sample_module_strings
    by (simp add: sample_module_def module_new_def function_new_def ok_str_def dispatch_synced_def
        resolve_index_def function_index_def)
qed

lemma demo_slots: "rt_slots demo_rt = [Some (List [Ref 1, IntV 7]), Some (Str ''a''), Some (Str ''b'')]"
  by (simp add: demo_rt_def)

lemma demo_heap_ok: "heap_ok demo_rt"
proof -
  have "st ! i \<noteq> None" if "st = rt_slots demo_rt" "i < length st" for st i
    using that by (auto simp: demo_slots less_Suc_eq)
  then show ?thesis
    by (auto simp: heap_ok_def free_ok_def store_closed_def perm_roots_def demo_rt_def heap_init_def
        rt_init_def lookup_def)
qed

lemma demo_grounded: "grounded (rt_slots demo_rt) (Ref 0)" "grounded (rt_slots demo_rt) (Ref 1)"
  by (simp_all add: grounded_def demo_slots lookup_def)

text \<open>A program that allocates a list, the interpreter state it starts in, and a scheduler with one
  spawned fiber and one channel.\<close>

definition demo_prog :: module where
  "demo_prog = module_new [function_new ''main'' 0 0 [ConstInt 2, ConstInt 3, AddI64, ListNew 1, Return]]"

definition demo_cfg :: "unit cfg" where
  "demo_cfg = \<lparr>lay = demo_layout, prog = demo_prog, natives = [], teardown = id\<rparr>"

definition demo_vm :: "unit vm" where
  "demo_vm = \<lparr>world = \<lparr>mem = demo_rt, sched = sched_start, park_cell = None, out = [], err_out = [], capture = [], jobs = [], env = ()\<rparr>,
     vstack = [], frames = []\<rparr>"

definition demo_frame :: frame where
  "demo_frame = \<lparr>frame_func = 0, pc = 0, base = 0\<rparr>"

definition demo_sched :: "unit scheduler" where
  "demo_sched = snd (channel_new 1 (case spawn (Ref 0) sched_start of Some (_, s) \<Rightarrow> s | None \<Rightarrow> sched_start))"

lemma demo_vm_ok: "vm_ok demo_cfg demo_vm"
  by (simp add: vm_ok_def demo_vm_def world_ok_def demo_heap_ok gather_scheduler_roots_def sched_start_ok)
    (simp add: sched_start_def sched_new_def fiber_roots_def)

lemmas demo_defs =
  demo_cfg_def demo_prog_def demo_vm_def demo_frame_def demo_layout_def module_new_def function_new_def

lemmas run_simps =
  step_def ebind_def elift_def eret_def get_nth_def ok_or_def Let_def exec_operator_def int_binop_def int_unop_def
  double_binop_def double_unop_def int_cmp_def double_cmp_def on_stack_def pop_def pop_int_def pop_two_int_def

lemma demo_run:
  "\<exists>s'. run_loop demo_cfg 5 0 demo_frame demo_vm = (Ok (Finished (Ref 3)), s') \<and> length (slots_of s') = 4"
  by (simp add: eval_nat_numeral demo_defs run_simps list_new_def poll_gc_def should_collect_def make_obj_def split_top_def
      new_obj_def on_mem_def alloc_def push_def exec_return_def demo_rt_def heap_init_def rt_init_def)


lemma demo_prog_safe: "module_safe (prog demo_cfg)" "\<forall>f\<in>set (natives demo_cfg). native_safe f"
    "frame_ok demo_cfg demo_frame"
  by (simp_all add: demo_defs module_safe_def instr_safe_def frame_ok_def)

lemma demo_sched_run: "sched_run [] sched_start demo_sched"
proof -
  obtain i s where s: "spawn (Ref 0) sched_start = Some (i, s :: unit scheduler)"
    by (auto simp: spawn_def sched_start_def sched_new_def make_ready_def upd_fiber_def get_nth_def)
  have "sched_run ([] @ []) sched_start s" by (rule sched_run.step [OF sched_run.refl sched_step.spawn [OF s]])
  from sched_run.step [OF this sched_step.channel_new [of _ 1]] show ?thesis by (simp add: demo_sched_def s)
qed

lemma demo_sched_ok: "sched_ok demo_sched"
  by (rule sched_run_ok [OF demo_sched_run sched_start_ok])

lemma demo_sched_lists: "ready demo_sched = [1]" "length (channels demo_sched) = 1"
    "buffer (channels demo_sched ! 0) = []" "chan_capacity (channels demo_sched ! 0) = 1"
  by (simp_all add: demo_sched_def spawn_def sched_start_def sched_new_def make_ready_def upd_fiber_def get_nth_def
      channel_new_def)

text \<open>The main fiber parked until another one makes progress.\<close>

definition demo_parked :: "unit scheduler" where
  "demo_parked = the (park 0 [] [demo_frame] (BlockRetry :: (unit, unit) park_request) sched_start)"

lemma demo_parked_step: "sched_step [] sched_start demo_parked" "blocked demo_parked = [0]"
proof -
  obtain s where s: "park 0 [] [demo_frame] (BlockRetry :: (unit, unit) park_request) sched_start = Some s"
    "blocked s = [0]"
    by (auto simp: park_def sched_start_def sched_new_def upd_fiber_def)
  have "sched_step [] sched_start s"
    by (rule sched_step.park [OF _ _ _ s(1)]) (simp_all add: is_running_def sched_start_def)
  then show "sched_step [] sched_start demo_parked" "blocked demo_parked = [0]"
    using s by (simp_all add: demo_parked_def)
qed

lemma demo_parked_run: "sched_run [] sched_start demo_parked"
  using sched_run.step [OF sched_run.refl demo_parked_step(1)] by simp

lemma demo_parked_ok: "sched_ok demo_parked" "blocked demo_parked = [0]"
  using sched_step_ok [OF demo_parked_step(1) sched_start_ok] demo_parked_step(2) .

lemma demo_parked_idle: "ready demo_parked = []" "\<not> has_external demo_parked"
  by (simp_all add: demo_parked_def park_def sched_start_def sched_new_def upd_fiber_def has_external_def earliest_deadline_def)

text \<open>A program that calls a native of the shipped table, over a host that answers nothing.\<close>

definition demo_host :: "unit host" where
  "demo_host = \<lparr>wall_millis = (\<lambda>_. None), wall_nanos = (\<lambda>_. None), now_instant = (\<lambda>_. 0), since_start = (\<lambda>_. 0),
     seed_counter = (\<lambda>_. 0), set_seed_counter = (\<lambda>_ e. e), env_var = (\<lambda>_ _. None), set_var = (\<lambda>_ _ e. Some e),
     env_vars = (\<lambda>_. []), program_args = (\<lambda>_. None), current_dir = (\<lambda>_. Inr ''/''), current_exe = (\<lambda>_. None),
     set_current_dir = (\<lambda>_ e. (Inr (), e)), os_name = ''linux'', is_terminal = (\<lambda>_. False), terminal_size = (\<lambda>_. None),
     exit_process = (\<lambda>_ e. e)\<rparr>"

definition demo_io :: "unit io_abi" where
  "demo_io = \<lparr>job_of = (\<lambda>_. ()), unit_of = (\<lambda>_. Inr ()), text_of = (\<lambda>_. Inr ''text''), data_of = (\<lambda>_. Inr []),
     dirents_of = (\<lambda>_. Inr []), meta_of = (\<lambda>_. Inl \<lparr>err_kind = NotFound, err_text = ''no such file''\<rparr>)\<rparr>"

definition demo_libm :: libm where
  "demo_libm = \<lparr>m_sqrt = id, m_floor = id, m_ceil = id, m_round = id, m_trunc = id, m_exp = id, m_ln = id, m_log10 = id,
     m_sin = id, m_cos = id, m_tan = id, m_asin = id, m_acos = id, m_atan = id,
     m_powf = (\<lambda>x _. x), m_atan2 = (\<lambda>x _. x), m_hypot = (\<lambda>x _. x)\<rparr>"

text \<open>A table that is the whole of the outside, and one that forgets.\<close>

definition whole :: "('a registry, 'a) table" where
  "whole = \<lparr>tab_get = (\<lambda>e. e), tab_set = (\<lambda>r _. r)\<rparr>"

definition no_table :: "(unit, 'a) table" where
  "no_table = \<lparr>tab_get = (\<lambda>_. reg_init), tab_set = (\<lambda>_ e. e)\<rparr>"

lemma whole_ok: "table_ok whole" and whole_get [simp]: "tab_get whole e = e"
  by (simp_all add: whole_def table_ok_def)

definition demo_error :: io_error where
  "demo_error = \<lparr>err_kind = OtherKind, err_text = ''none''\<rparr>"

definition demo_file_abi :: "'e \<Rightarrow> ('e, nat) file_abi" where
  "demo_file_abi e = \<lparr>open_job = (\<lambda>_. e), create_job = (\<lambda>_. e), temp_job = (\<lambda>_. e), read_job = (\<lambda>_ _. e),
     write_job = (\<lambda>_ _. e), seek_job = (\<lambda>_ _. e), opened_of = (\<lambda>_. Inr 0), temp_of = (\<lambda>_. Exhausted ''none''),
     read_of = (\<lambda>_. (7, Inr [1, 2])), written_of = (\<lambda>_. (0, Inr ())), sought_of = (\<lambda>_. (0, Inr 0))\<rparr>"

definition demo_regex :: "unit regex_crate" where
  "demo_regex = \<lparr>re_compile = (\<lambda>_. Inr ()), re_is_match = (\<lambda>_ _. True), re_find = (\<lambda>_ _. None), re_find_iter = (\<lambda>_ _. []),
     re_captures = (\<lambda>_ _. None), re_replace = (\<lambda>_ t _. t), re_replace_all = (\<lambda>_ t _. t)\<rparr>"

definition demo_proc_os :: "(unit, unit, unit, unit) proc_os" where
  "demo_proc_os = \<lparr>spawn_child = (\<lambda>_ e. (Inl demo_error, e)), kill_child = (\<lambda>_ e. (Inr (), e)), reap_child = (\<lambda>_ e. e),
     output_job = (\<lambda>_. ()), status_job = (\<lambda>_. ()), wait_job = (\<lambda>_. ()), pipe_write_job = (\<lambda>_ _. ()), pipe_read_job = (\<lambda>_ _. ()),
     output_of = (\<lambda>_. Inl demo_error), status_of = (\<lambda>_. Inr (Some 0)), pipe_written_of = (\<lambda>_. ((), Inr ())),
     pipe_read_of = (\<lambda>_. (None, Inr []))\<rparr>"

definition demo_net :: "'e \<Rightarrow> ('e, nat, nat, string) net_os" where
  "demo_net e0 = \<lparr>parse_addr = Some, show_addr = id, bind_addr = (\<lambda>_ e. (Inr 0, e)), accept_conn = (\<lambda>_ e. (Inr 0, e)),
     connect_to = (\<lambda>_ e. (Inr 0, e)), take_error = (\<lambda>_ e. (Inr None, e)), listener_addr = (\<lambda>_ _. Inr ''::1''),
     stream_addr = (\<lambda>_ _. Inr ''::1''), peer_addr = (\<lambda>_ _. Inr ''::1''), recv = (\<lambda>_ _ e. (Inr [], e)),
     send = (\<lambda>d _ e. (Inr (length d), e)), peek = (\<lambda>_ _. Inr 0), register = (\<lambda>_ _ e. (Inr (), e)), deregister = (\<lambda>_ e. e),
     resolve_job = (\<lambda>_ _. e0), resolved_of = (\<lambda>_. Inr ''::1'')\<rparr>"

text \<open>A TLS connection that takes three bytes at a time: the plaintext it took, and the records it has yet to send.\<close>

definition demo_engine :: "(u8 list \<times> nat, nat, 'e) engine" where
  "demo_engine = \<lparr>wants_write = (\<lambda>c. 0 < snd c), write_tls = (\<lambda>_ c e. (Inr (snd c), (fst c, 0), e)),
     read_tls = (\<lambda>_ c e. (Inr 0, c, e)), process_new_packets = (\<lambda>c. (Inr (), c)), is_handshaking = (\<lambda>_. False),
     reader_read = (\<lambda>_ c. (Inr [], c)), writer_write = (\<lambda>d c. (Inr (min 3 (length d)), (fst c @ take 3 d, snd c + min 3 (length d)))),
     send_close_notify = id, first_chunk = (\<lambda>_. Inr [])\<rparr>"


definition demo_crypto :: "(unit, unit, unit, unit, unit, u8 list \<times> nat) crypto" where
  "demo_crypto = \<lparr>bundled = [], pem_certs = (\<lambda>_. []), anchor = (\<lambda>_. Inr ()), pem_key = (\<lambda>_. Inr ()), with_roots = (\<lambda>_. ()),
     with_single_cert = (\<lambda>_ _. Inr ()), valid_name = (\<lambda>_. True), client_conn = (\<lambda>_ _. Inr ([], 0)), server_conn = (\<lambda>_. Inr ([], 0))\<rparr>"

definition demo_shipped ::
    "(unit, nat, unit, unit, unit, unit, nat, nat, string, u8 list \<times> nat, unit, unit, unit, unit, unit) shipped" where
  "demo_shipped = \<lparr>sh_layout = demo_layout, sh_stdout = (\<lambda>_ _. None), sh_stderr = (\<lambda>_ _. None), sh_upper = id, sh_lower = id,
     sh_sha256 = id, sh_sha1 = id, sh_md5 = id, sh_crc32 = (\<lambda>_. 0), sh_libm = demo_libm, sh_host = demo_host, sh_io = demo_io,
     sh_exists = (\<lambda>_ _. False), sh_temp_dir = (\<lambda>_. []), sh_file_abi = demo_file_abi (), sh_files = no_table,
     sh_regex = demo_regex, sh_regexes = no_table, sh_proc_os = demo_proc_os, sh_procs = no_table, sh_net = demo_net (),
     sh_sockets = no_table, sh_engine = demo_engine, sh_crypto = demo_crypto\<rparr>"

definition demo_native_cfg :: "unit cfg" where
  "demo_native_cfg = \<lparr>lay = demo_layout, prog = module_new [function_new ''main'' 0 0 [ConstInt 7, CallNative 33 1, Return]],
     natives = default_natives demo_shipped, teardown = id\<rparr>"

lemma demo_native_entry: "get_nth (default_natives E) 33 = Some native_int_to_double"
  by (simp add: get_nth_def default_natives_def native_table_def)

lemma demo_native_program:
  "\<exists>s'. run demo_native_cfg 5 [] 0 [] demo_vm = (Ok (Double (i64_to_f64 7)), s') \<and> length (slots_of s') = 3"
proof -
  have native: "run_native demo_native_cfg fr 33 1 s = (Ok (Cont fr), s\<lparr>vstack := [Double (i64_to_f64 7)]\<rparr>)"
    if "vstack s = [IntV 7]" "park_cell (world s) = None" for fr s
  proof -
    have "get_nth (natives demo_native_cfg) (unat (33 :: u32)) = Some native_int_to_double"
      by (simp add: demo_native_cfg_def demo_native_entry)
    then show ?thesis
      using that by (simp add: run_native_def native_int_to_double_def nbind_def nlift_def expect_one_def as_int_def nret_def Let_def)
  qed
  have cfg: "prog demo_native_cfg = module_new [function_new ''main'' 0 0 [ConstInt 7, CallNative 33 1, Return]]"
    by (simp add: demo_native_cfg_def)
  show ?thesis
    by (simp add: eval_nat_numeral cfg native demo_vm_def module_new_def function_new_def run_simps exec_call_native_def
        poll_gc_def should_collect_def exec_return_def demo_rt_def heap_init_def rt_init_def run_def drive_def push_def
        push_frame_def enter_frame_def resize_def on_sched_def complete_def sched_start_def sched_new_def MAIN_FIBER_def upd_fiber_def wake_all_def)
qed

lemma demo_native_safe: "module_safe (prog demo_native_cfg)" "natives demo_native_cfg = default_natives demo_shipped"
    "\<forall>k\<in>calls_natives (prog demo_native_cfg). native_name k \<notin> Some ` set may_panic"
proof -
  have "native_name 33 = Some ''int_to_double''" by code_simp
  then show "\<forall>k\<in>calls_natives (prog demo_native_cfg). native_name k \<notin> Some ` set may_panic"
    by (simp add: demo_native_cfg_def module_new_def function_new_def calls_natives_def may_panic_def)
qed (simp_all add: demo_native_cfg_def module_new_def function_new_def module_safe_def instr_safe_def)







text \<open>A heap with an empty map and two equal strings, and a builder that skips an instruction.\<close>

definition demo_map_world :: "unit world" where
  "demo_map_world = (world demo_vm)\<lparr>mem := demo_rt\<lparr>heap := heap_init\<lparr>slots :=
     [Some (Map map_default), Some (Str ''a''), Some (Str ''a'')]\<rparr>\<rparr>\<rparr>"

lemma demo_map_slots: "rt_slots (mem demo_map_world) = [Some (Map map_default), Some (Str ''a''), Some (Str ''a'')]"
  by (simp add: demo_map_world_def)

lemma demo_map_at: "map_at (rt_slots (mem demo_map_world)) 0 []"
  using vk.wf_default by (simp add: map_at_def demo_map_slots lookup_def map_default_def)

lemma demo_map_grounded: "grounded (without (rt_slots (mem demo_map_world)) 0) (Ref 1)"
    "grounded (without (rt_slots (mem demo_map_world)) 0) (Ref 2)"
  by (simp_all add: grounded_def demo_map_slots without_def lookup_def)

lemma demo_sched_open: "\<not> closed (channels demo_sched ! 0)"
  by (simp add: demo_sched_def spawn_def sched_start_def sched_new_def make_ready_def upd_fiber_def get_nth_def channel_new_def)

lemma demo_builder:
  "\<exists>b. bcalls [BLabel, BLoad 3, BJumpIfFalse 0, BEmit ConstUnit, BBind 0, BEmit Return] (fnb_new ''f'' 1) = Some b \<and>
    map_option local_count (finish b) = Some 4"
  by (simp add: bcall_def label_def load_def jump_if_false_def emit_jump_def emit_def bind_label_def bump_locals_def fnb_new_def
      get_nth_def finish_def patch_def function_new_def)

text \<open>An open file, and a stream on whose readiness the main fiber waits.\<close>

definition demo_file_world :: "nat registry world" where
  "demo_file_world = heap_world demo_rt \<lparr>next_id = 2, handles = [1 \<mapsto> 5]\<rparr>"

definition demo_socket_world :: "(nat, nat, u8 list \<times> nat) socket registry world" where
  "demo_socket_world = (heap_world demo_rt \<lparr>next_id = 2, handles = [1 \<mapsto> Stream 4]\<rparr>)
     \<lparr>sched := the (park 0 [] [demo_frame]
        (Ready 1 :: (unit, (nat, nat, u8 list \<times> nat) socket registry) park_request) sched_start)\<rparr>"

lemma demo_handles: "handles (env demo_file_world) 1 = Some 5" "handles (env demo_socket_world) 1 = Some (Stream 4)"
  by (simp_all add: demo_file_world_def demo_socket_world_def heap_world_def)

lemma demo_waiter: "sched_ok (sched demo_socket_world)" "in_poll (sched demo_socket_world) 1 0"
proof -
  obtain s :: "(nat, nat, u8 list \<times> nat) socket registry scheduler"
    where s: "park 0 [] [demo_frame] (Ready 1 :: (unit, (nat, nat, u8 list \<times> nat) socket registry) park_request) sched_start = Some s" "sched_ok s"
    using park_ok [OF sched_start_ok, of 0 "[demo_frame]" "Ready 1" "[]"] by (auto simp: sched_start_def)
  then show "sched_ok (sched demo_socket_world)" by (simp add: demo_socket_world_def)
  show "in_poll (sched demo_socket_world) 1 0"
    by (simp add: demo_socket_world_def park_def sched_start_def sched_new_def upd_fiber_def poll_push_def in_poll_def)
qed

section \<open>Memory\<close>

text \<open>C1. The collector is exact. From a well-formed heap and live roots \<open>collect\<close> returns; every
  object reachable from the roots, the interned strings or the globals keeps its handle and its
  contents, every other slot is emptied, \<open>heap_bytes\<close> is the sum of the survivors' bytes, and the
  result is again a well-formed heap in which the roots are live.\<close>

theorem collect_exact:
  assumes "heap_ok s" and "list_all (valid_val (rt_slots s)) roots"
  shows "\<exists>s'. collect L roots s = Some s' \<and>
    (\<forall>h. lookup (rt_slots s') h =
      (if reach (rt_slots s) (gc_roots roots s) h then lookup (rt_slots s) h else None)) \<and>
    heap_bytes (heap s') = (\<Sum>h | reach (rt_slots s) (gc_roots roots s) h. bytes_at L (rt_slots s) h) \<and>
    heap_ok s' \<and> list_all (valid_val (rt_slots s')) roots \<and>
    globals s' = globals s \<and> intern s' = intern s \<and> \<not> gc_pending s'"
  by (rule collect_correct [OF assms, of L]) blast

theorem collect_exact_witness:
  "\<exists>s'. collect demo_layout [Ref 0] demo_rt = Some s' \<and>
    (\<forall>h. lookup (rt_slots s') h =
      (if reach (rt_slots demo_rt) (gc_roots [Ref 0] demo_rt) h then lookup (rt_slots demo_rt) h else None)) \<and>
    heap_bytes (heap s') =
      (\<Sum>h | reach (rt_slots demo_rt) (gc_roots [Ref 0] demo_rt) h. bytes_at demo_layout (rt_slots demo_rt) h) \<and>
    heap_ok s' \<and> list_all (valid_val (rt_slots s')) [Ref 0] \<and>
    globals s' = globals demo_rt \<and> intern s' = intern demo_rt \<and> \<not> gc_pending s'"
  by (rule collect_exact [OF demo_heap_ok]) (simp add: demo_slots lookup_def)

section \<open>Modules\<close>

text \<open>C2. The wire format loses nothing: encoding a well-formed module succeeds and, unless it is
  longer than a 64-bit length can say, decoding it gives back the module, with its entry and
  init indices resolved to what \<open>entry_index\<close> and \<open>init_index\<close> answer.\<close>

theorem module_roundtrip:
  assumes "module_ok m"
  shows "\<exists>bs. encode_module m = Some bs \<and> (length bs < 2 ^ 64 \<longrightarrow> decode_module bs = Ok (resolved m))"
  using decode_encode_module [OF assms] encode_module_sections [OF assms] by simp

theorem module_roundtrip_witness:
  "case encode_module sample_module of
     Some bs \<Rightarrow> length bs < 2 ^ 64 \<and> decode_module bs = Ok (resolved sample_module)
   | None \<Rightarrow> False"
proof -
  have "map_option length (encode_module sample_module) = Some 50" by code_simp
  then show ?thesis using module_roundtrip [OF sample_module_ok] by auto
qed

section \<open>Memory\<close>

text \<open>C3. Allocation never aliases: with a handle left to issue, \<open>alloc\<close> returns one that was not
  live, the object is behind it, every other handle reads as before, and the heap stays
  well-formed.\<close>

theorem alloc_fresh:
  assumes "heap_ok s" "room s" "list_all (valid_val (rt_slots s)) (child_values obj)"
  shows "\<exists>h s'. alloc L obj s = (Ref h, s') \<and> lookup (rt_slots s) h = None \<and>
    (\<forall>k. lookup (rt_slots s') k = (if k = h then Some obj else lookup (rt_slots s) k)) \<and>
    heap_ok s'"
  by (rule heap_ok_alloc [OF assms, of L]) blast

theorem alloc_fresh_witness:
  "\<exists>h s'. alloc demo_layout (List [Ref 0]) demo_rt = (Ref h, s') \<and> lookup (rt_slots demo_rt) h = None \<and>
    (\<forall>k. lookup (rt_slots s') k = (if k = h then Some (List [Ref 0]) else lookup (rt_slots demo_rt) k)) \<and>
    heap_ok s'"
  by (rule alloc_fresh [OF demo_heap_ok]) (simp_all add: room_def demo_slots lookup_def)

section \<open>Maps\<close>

text \<open>C4. Insertion, then lookup. On acyclic keys \<open>insert\<close> returns a well-formed map whose entries are
  those of the list specification (an equal key keeps its place, a new one goes last), and
  \<open>get\<close> on the result answers the new value at every key equal to the inserted one and the old
  answer at every other.\<close>

theorem map_insert_get:
  assumes "map_wf (values_eq st) (hash_value st) {v. grounded st v} m"
    and "grounded st key" "grounded st other" "hash_value st key = Some h" "hash_value st other = Some g"
    and "length (entries m) < 2 ^ 31"
  shows "\<exists>m'. map_insert (values_eq st) m key h v = Some m' \<and>
    map_wf (values_eq st) (hash_value st) {v. grounded st v} m' \<and>
    entries m' = al_insert (values_eq st) (entries m) key v \<and>
    map_get (values_eq st) m' other g =
      (if values_eq st key other = Some True then Some (Some v) else map_get (values_eq st) m other g)"
proof -
  obtain m' where m': "map_insert (values_eq st) m key h v = Some m'"
    "entries m' = al_insert (values_eq st) (entries m) key v"
    "map_wf (values_eq st) (hash_value st) {v. grounded st v} m'"
    by (rule vk.map_insert_correct [OF assms(1) _ assms(4,6)]) (use assms(2) in simp_all)
  have "length (entries m') \<le> 2 ^ 31"
    using vk.length_al_insert [of st "entries m" key v] m'(2) assms(6) by simp
  then have "map_get (values_eq st) m' other g = Some (al_lookup (values_eq st) (entries m') other)"
    using m'(3) assms(3,5) by (intro vk.map_get_correct) simp_all
  moreover have "map_get (values_eq st) m other g = Some (al_lookup (values_eq st) (entries m) other)"
    using assms by (intro vk.map_get_correct) simp_all
  ultimately show ?thesis
    using m' vk.al_lookup_insert [OF vk.wf_keys(1) [OF assms(1)], of key other v] assms(2,3) by simp
qed

theorem map_insert_get_witness:
  "\<exists>h g m'. hash_value (rt_slots demo_rt) (Ref 1) = Some h \<and> hash_value (rt_slots demo_rt) (Ref 0) = Some g \<and>
    map_insert (values_eq (rt_slots demo_rt)) map_default (Ref 1) h (IntV 5) = Some m' \<and>
    map_get (values_eq (rt_slots demo_rt)) m' (Ref 0) g =
      (if values_eq (rt_slots demo_rt) (Ref 1) (Ref 0) = Some True then Some (Some (IntV 5))
       else map_get (values_eq (rt_slots demo_rt)) map_default (Ref 0) g)"
proof -
  obtain h g where hg: "hash_value (rt_slots demo_rt) (Ref 1) = Some h" "hash_value (rt_slots demo_rt) (Ref 0) = Some g"
    using hash_value_returns [OF demo_grounded(1)] hash_value_returns [OF demo_grounded(2)] by auto
  show ?thesis
    using map_insert_get [OF vk.wf_default demo_grounded(2,1) hg, of "IntV 5"] hg
    by (auto simp: map_default_def)
qed

text \<open>C5. Removal, then lookup. \<open>remove\<close> answers what \<open>get\<close> would have, leaves a well-formed map with
  the other entries in their order, and afterwards no key equal to the removed one is found
  while every other lookup answers as before.\<close>

theorem map_remove_get:
  assumes "map_wf (values_eq st) (hash_value st) {v. grounded st v} m"
    and "grounded st key" "grounded st other" "hash_value st key = Some h" "hash_value st other = Some g"
    and "length (entries m) \<le> 2 ^ 31"
  shows "\<exists>m' r. map_remove (values_eq st) m key h = Some (m', r) \<and> map_get (values_eq st) m key h = Some r \<and>
    map_wf (values_eq st) (hash_value st) {v. grounded st v} m' \<and>
    entries m' = al_remove (values_eq st) (entries m) key \<and>
    map_get (values_eq st) m' other g =
      (if values_eq st key other = Some True then Some None else map_get (values_eq st) m other g)"
proof -
  obtain m' where m': "map_remove (values_eq st) m key h = Some (m', al_lookup (values_eq st) (entries m) key)"
    "entries m' = al_remove (values_eq st) (entries m) key"
    "map_wf (values_eq st) (hash_value st) {v. grounded st v} m'"
    by (rule vk.map_remove_correct [OF assms(1) _ assms(4,6)]) (use assms(2) in simp_all)
  have "length (entries m') \<le> length (entries m)"
    unfolding m'(2) al_remove_def by (auto simp: vec_remove_def split: option.splits)
  then have "map_get (values_eq st) m' other g = Some (al_lookup (values_eq st) (entries m') other)"
    using m'(3) assms(3,5,6) by (intro vk.map_get_correct) simp_all
  moreover have "map_get (values_eq st) m k j = Some (al_lookup (values_eq st) (entries m) k)"
    if "grounded st k" "hash_value st k = Some j" for k j
    using that assms by (intro vk.map_get_correct) simp_all
  ultimately show ?thesis
    using m' vk.al_lookup_remove [OF vk.wf_keys [OF assms(1)] , of key other] assms(2-5) by simp
qed

theorem map_remove_get_witness:
  "\<exists>h g m' r. hash_value (rt_slots demo_rt) (Ref 1) = Some h \<and> hash_value (rt_slots demo_rt) (Ref 0) = Some g \<and>
    map_remove (values_eq (rt_slots demo_rt)) (map_default :: (val, val) mapobj) (Ref 1) h = Some (m', r) \<and>
    map_get (values_eq (rt_slots demo_rt)) m' (Ref 0) g =
      (if values_eq (rt_slots demo_rt) (Ref 1) (Ref 0) = Some True then Some None
       else map_get (values_eq (rt_slots demo_rt)) (map_default :: (val, val) mapobj) (Ref 0) g)"
proof -
  obtain h g where hg: "hash_value (rt_slots demo_rt) (Ref 1) = Some h" "hash_value (rt_slots demo_rt) (Ref 0) = Some g"
    using hash_value_returns [OF demo_grounded(1)] hash_value_returns [OF demo_grounded(2)] by auto
  show ?thesis
    using map_remove_get [OF vk.wf_default demo_grounded(2,1) hg] hg
    by (auto simp: map_default_def)
qed

section \<open>Values\<close>

text \<open>C6. Structural equality is symmetric and transitive, and the content hash respects it. (It is not
  reflexive: a NaN differs from itself.)\<close>

theorem values_eq_hash_laws:
  "values_eq st a b = values_eq st b a \<and>
   (values_eq st a b = Some True \<and> values_eq st b c = Some True \<longrightarrow> values_eq st a c = Some True) \<and>
   (values_eq st a b = Some True \<longrightarrow> hash_value st a = hash_value st b)"
  unfolding values_eq_def hash_value_def
  using values_eq_n_sym values_eq_n_trans hash_into_n_cong by blast

theorem values_eq_hash_laws_witness:
  "values_eq [Some (Str ''a''), Some (Str ''a''), Some (Str ''a'')] (Ref 0) (Ref 2) = Some True \<and>
   hash_value [Some (Str ''a''), Some (Str ''a''), Some (Str ''a'')] (Ref 0) =
   hash_value [Some (Str ''a''), Some (Str ''a''), Some (Str ''a'')] (Ref 1)"
proof -
  let ?st = "[Some (Str ''a''), Some (Str ''a''), Some (Str ''a'')]"
  have "values_eq ?st (Ref 0) (Ref 1) = Some True" "values_eq ?st (Ref 1) (Ref 2) = Some True"
    by (simp_all add: values_eq_def lookup_def)
  then show ?thesis using values_eq_hash_laws by blast
qed

text \<open>C7. Equality and hashing return on acyclic values; and the depth bound of \<open>values_eq\<close> is as good as
  none: whatever any depth answers, \<open>values_eq\<close> answers.\<close>

theorem values_eq_total:
  "(grounded st a \<and> grounded st b \<longrightarrow> (\<exists>r. values_eq st a b = Some r)) \<and>
   (grounded st a \<longrightarrow> (\<exists>h. hash_value st a = Some h)) \<and>
   (values_eq_n n st a b = Some r \<longrightarrow> values_eq st a b = Some r)"
  using values_eq_returns [of st a b] hash_value_returns [of st a] values_eq_complete [of n st a b r]
  by auto

theorem values_eq_total_witness:
  "(\<exists>r. values_eq (rt_slots demo_rt) (Ref 0) (Ref 1) = Some r) \<and>
   (\<exists>h. hash_value (rt_slots demo_rt) (Ref 0) = Some h) \<and>
   values_eq (rt_slots demo_rt) (Ref 1) (Ref 2) = Some False"
  using values_eq_total [of "rt_slots demo_rt" "Ref 0" "Ref 1"] demo_grounded
    values_eq_total [of "rt_slots demo_rt" "Ref 1" "Ref 2" 1 False]
  by (simp add: demo_slots lookup_def)

section \<open>Modules\<close>

text \<open>C8. Dispatch through the per-type index finds what a scan of the whole table would: the first row
  for the type and the selector.\<close>

theorem dispatch_is_table_scan:
  assumes "length rows < 2 ^ 32"
  shows "dispatch_target (set_dispatch m rows) ty sel = table_target rows ty sel"
  using dispatch_target_table [OF set_dispatch_synced, of m rows] assms by (simp add: set_dispatch_def)

theorem dispatch_is_table_scan_witness:
  "dispatch_target (set_dispatch sample_module [dispatch_entry_new 3 ''f'' 1, dispatch_entry_new 3 ''f'' 2]) 3 ''f'' = Some 1"
  by (subst dispatch_is_table_scan) (simp_all add: table_target_def dispatch_entry_new_def)

text \<open>C9. The primitives of the wire format: any sequence of varints, signed varints, doubles or strings
  that is written reads back as the same sequence, and the reader then stands at the end.\<close>

theorem wire_primitives_roundtrip:
  "(length (buf (write_many write_uvarint writer_new us)) < 2 ^ 64 \<longrightarrow>
     (\<exists>r. read_many read_uvarint (length us) (reader_new (into_bytes (write_many write_uvarint writer_new us)))
       = Ok (us, r) \<and> reader_is_empty r)) \<and>
   (length (buf (write_many write_ivarint writer_new is)) < 2 ^ 64 \<longrightarrow>
     (\<exists>r. read_many read_ivarint (length is) (reader_new (into_bytes (write_many write_ivarint writer_new is)))
       = Ok (is, r) \<and> reader_is_empty r)) \<and>
   (length (buf (write_many write_f64 writer_new xs)) < 2 ^ 64 \<longrightarrow>
     (\<exists>r. read_many read_f64 (length xs) (reader_new (into_bytes (write_many write_f64 writer_new xs)))
       = Ok (xs, r) \<and> reader_is_empty r)) \<and>
   (length (buf (write_many write_str writer_new ss)) < 2 ^ 64 \<and>
     (\<forall>s\<in>set ss. valid_str s \<and> length s < 2 ^ 64) \<longrightarrow>
     (\<exists>r. read_many read_str (length ss) (reader_new (into_bytes (write_many write_str writer_new ss)))
       = Ok (ss, r) \<and> reader_is_empty r))"
  using uvf.roundtrip [of us] ivf.roundtrip [of "is"] f64f.roundtrip [of xs] strf.roundtrip [of ss] by blast

theorem wire_primitives_roundtrip_witness:
  "(\<exists>r. read_many read_uvarint (Suc (Suc 0)) (reader_new (into_bytes (write_many write_uvarint writer_new [5, 300])))
       = Ok ([5, 300], r) \<and> reader_is_empty r) \<and>
   (\<exists>r. read_many read_ivarint (Suc (Suc 0)) (reader_new (into_bytes (write_many write_ivarint writer_new [-1, 64])))
       = Ok ([-1, 64], r) \<and> reader_is_empty r) \<and>
   (\<exists>r. read_many read_f64 1 (reader_new (into_bytes (write_many write_f64 writer_new [1])))
       = Ok ([1], r) \<and> reader_is_empty r) \<and>
   (\<exists>r. read_many read_str (Suc (Suc 0)) (reader_new (into_bytes (write_many write_str writer_new [''hi'', [] ])))
       = Ok ([''hi'', [] ], r) \<and> reader_is_empty r)"
proof -
  have "length (buf (write_many write_uvarint writer_new [5, 300])) = 3"
    "length (buf (write_many write_ivarint writer_new [-1, 64])) = 3"
    "length (buf (write_many write_f64 writer_new [1])) = 8"
    "length (buf (write_many write_str writer_new [''hi'', [] ])) = 4"
    "valid_str ''hi''" "valid_str []" by code_simp+
  then show ?thesis
    using wire_primitives_roundtrip [of "[5, 300]" "[-1, 64]" "[1]" "[''hi'', [] ]"] by simp
qed

section \<open>The interpreter\<close>

text \<open>C10. The interpreter is memory safe. For a program whose virtual calls pass a receiver, with natives
  that respect the heap, a run from a well-formed state never panics, whatever collections,
  calls, traps or re-entrant fallbacks happen on the way and however long it is, as long as no
  more slots were issued than a handle can name. A run that finishes answers a live value and
  leaves the frame stack at the depth it was entered at; a run that parks leaves a frame to
  resume; both leave a well-formed state.\<close>

theorem run_loop_memory_safe:
  assumes "module_safe (prog c)" "\<forall>f\<in>set (natives c). native_safe f"
    and "vm_ok c s" "frame_ok c fr" "bd \<le> length (frames s)"
    and "run_loop c n bd fr s = (r, s')" "slots_fit (world s')"
  shows "r \<noteq> Err Panic \<and>
    (\<forall>v. r = Ok (Finished v) \<longrightarrow> vm_ok c s' \<and> valid_val (slots_of s') v \<and> length (frames s') = bd) \<and>
    (\<forall>req. r = Ok (Parked req) \<longrightarrow> vm_ok c s' \<and> frames s' \<noteq> [])"
proof -
  have "safe c (\<lambda>s. frame_ok c fr \<and> bd \<le> length (frames s)) (run_loop c n bd fr) (outcome_ok c bd)"
    using run_loop_safe [OF assms(1,2), of n] by (simp add: loop_safe_def)
  from safeD(2) [OF this assms(6,3)] show ?thesis using assms(4,5,7) by (auto simp: outcome_ok_def)
qed

theorem run_loop_memory_safe_witness:
  "\<exists>s'. run_loop demo_cfg 5 0 demo_frame demo_vm = (Ok (Finished (Ref 3)), s') \<and> vm_ok demo_cfg s' \<and>
    valid_val (slots_of s') (Ref 3) \<and> frames s' = []"
proof -
  obtain s' where s': "run_loop demo_cfg 5 0 demo_frame demo_vm = (Ok (Finished (Ref 3)), s')" "length (slots_of s') = 4"
    using demo_run by blast
  have "slots_fit (world s')" using s'(2) by (simp add: slots_fit_def)
  from run_loop_memory_safe [OF demo_prog_safe(1,2) demo_vm_ok demo_prog_safe(3) le0 s'(1) this] show ?thesis
    using s'(1) by simp
qed

section \<open>The driver\<close>



section \<open>Natives\<close>

text \<open>C12. Programs on the shipped table. With the runtime's own native table, a program whose code never calls a
  native of \<open>may_panic\<close> does not panic, whatever its fibers do and whatever the outside reports, as long as no more
  slots were issued than a handle can name; if it answers, the value is live and the machine is ready for another run.
  Nothing is assumed of the operating system or of the libraries behind the natives.\<close>

theorem shipped_program_safe:
  assumes "module_safe (prog c)" "natives c = default_natives E"
    and "\<forall>k\<in>calls_natives (prog c). native_name k \<notin> Some ` set may_panic"
    and "idle_vm c s" "vals_ok (slots_of s) args" "run c n evs func args s = (r, s')" "slots_fit (world s')"
  shows "r \<noteq> Err Panic \<and> (\<forall>v. r = Ok v \<longrightarrow> valid_val (slots_of s') v \<and> idle_vm c s')"
  by (rule run_called_safe [OF assms(1) default_natives_called_ok [OF assms(2,3)] assms(4-7)])

theorem shipped_program_safe_witness:
  "\<exists>s'. run demo_native_cfg 5 [] 0 [] demo_vm = (Ok (Double (i64_to_f64 7)), s') \<and> idle_vm demo_native_cfg s'"
proof -
  obtain s' where s': "run demo_native_cfg 5 [] 0 [] demo_vm = (Ok (Double (i64_to_f64 7)), s')" "length (slots_of s') = 3"
    using demo_native_program by blast
  have fit: "slots_fit (world s')" using s'(2) by (simp add: slots_fit_def)
  have "idle_vm demo_native_cfg demo_vm" using demo_vm_ok by (simp add: idle_vm_def demo_vm_def vm_ok_def frame_ok_def cell_ok_def)
  from shipped_program_safe [OF demo_native_safe this _ s'(1) fit] show ?thesis using s'(1) by simp
qed

section \<open>The driver\<close>

text \<open>C13. A reported deadlock is one. With no ready fiber and no source of progress outside, the idle loop
  answers at once, and every fiber that has not finished and is not running waits on the list
  that only another fiber's progress wakes. If moreover the main fiber is parked, the answer is
  the deadlock error, never a silent stop.\<close>

theorem deadlock_is_real:
  assumes "sched_run ps sched_start (sched (world s))" "ready (sched (world s)) = []" "\<not> has_external (sched (world s))"
  shows "await_ready c evs s =
      (if blocked (sched (world s)) = [] then (Ok Stop, s) else (Err (bug ''all fibers blocked (deadlock)''), s)) \<and>
    (\<forall>i f. get_nth (fibers (sched (world s))) i = Some f \<longrightarrow>
      fstate f = Running \<or> (\<exists>v. fstate f = Done v) \<or> i \<in> set (blocked (sched (world s)))) \<and>
    (\<forall>vs fr f. get_nth (fibers (sched (world s))) MAIN_FIBER = Some f \<and> fstate f = Suspended vs fr \<longrightarrow>
      await_ready c evs s = (Err (bug ''all fibers blocked (deadlock)''), s))"
proof -
  have ok: "sched_ok (sched (world s))" by (rule sched_run_ok [OF assms(1) sched_start_ok])
  have all: "fstate f = Running \<or> (\<exists>v. fstate f = Done v) \<or> i \<in> set (blocked (sched (world s)))"
    if "get_nth (fibers (sched (world s))) i = Some f" for i f
    using idle_blocked [OF ok assms(2,3), of i] that by (auto simp: get_nth_Some)
  have aw: "await_ready c evs s =
      (if blocked (sched (world s)) = [] then (Ok Stop, s) else (Err (bug ''all fibers blocked (deadlock)''), s))"
    using assms(2,3) by (cases evs) (simp_all add: ready_or_def next_ready_def ebind_def on_sched_def dequeue_def eret_def)
  have "blocked (sched (world s)) \<noteq> []"
    if "get_nth (fibers (sched (world s))) MAIN_FIBER = Some f" "fstate f = Suspended vs fr" for vs fr f
    using all [OF that(1)] that(2) by auto
  then show ?thesis using aw all by auto
qed

theorem deadlock_is_real_witness:
  "await_ready demo_cfg [] (demo_vm\<lparr>world := (world demo_vm)\<lparr>sched := demo_parked\<rparr>\<rparr>) =
    (Err (bug ''all fibers blocked (deadlock)''), demo_vm\<lparr>world := (world demo_vm)\<lparr>sched := demo_parked\<rparr>\<rparr>)"
  using deadlock_is_real [of "[]" "demo_vm\<lparr>world := (world demo_vm)\<lparr>sched := demo_parked\<rparr>\<rparr>" demo_cfg "[]"]
    demo_parked_run demo_parked_ok(2) demo_parked_idle by simp



section \<open>The scheduler\<close>

text \<open>C15. No fiber is lost. In every state the scheduler can reach, the ready queue has no duplicates
  and holds exactly the fibers flagged as queued; a suspended fiber is queued, or is on a list a
  wake-up searches, or waits for a worker; and \<open>dequeue\<close> answers none exactly when the queue is
  empty and otherwise its head, with a state to run and the invariant kept.\<close>

theorem sched_no_fiber_lost:
  assumes "sched_run ps sched_start s"
  shows "distinct (ready s) \<and>
    (\<forall>i f. get_nth (fibers s) i = Some f \<longrightarrow>
      (queued f \<longleftrightarrow> i \<in> set (ready s)) \<and>
      (\<forall>vs fr. fstate f = Suspended vs fr \<longrightarrow> i \<in> set (ready s) \<or> listed s i \<or> pending f \<noteq> None)) \<and>
    (case ready s of
       [] \<Rightarrow> dequeue s = Some (None, s)
     | i # rest \<Rightarrow> \<exists>st s'. dequeue s = Some (Some (i, st), s') \<and> ready s' = rest \<and> sched_ok s' \<and>
         ((\<exists>closure. st = NotStarted closure) \<or> (\<exists>vs fr. st = Suspended vs fr \<and> fr \<noteq> [])))"
proof -
  have ok: "sched_ok s" by (rule sched_run_ok [OF assms sched_start_ok])
  have "(queued f \<longleftrightarrow> i \<in> set (ready s)) \<and>
      (\<forall>vs fr. fstate f = Suspended vs fr \<longrightarrow> i \<in> set (ready s) \<or> listed s i \<or> pending f \<noteq> None)"
    if "get_nth (fibers s) i = Some f" for i f
    using ok that by (fastforce simp: sched_ok_def sched_inv_def fiber_inv_def get_nth_Some split: if_splits)
  moreover have "case ready s of
       [] \<Rightarrow> dequeue s = Some (None, s)
     | i # rest \<Rightarrow> \<exists>st s'. dequeue s = Some (Some (i, st), s') \<and> ready s' = rest \<and> sched_ok s' \<and>
         ((\<exists>closure. st = NotStarted closure) \<or> (\<exists>vs fr. st = Suspended vs fr \<and> fr \<noteq> []))"
  proof (cases "ready s")
    case (Cons i rest)
    obtain st s' where "dequeue s = Some (Some (i, st), s')" "sched_ok s'" "\<forall>v. st \<noteq> Done v" "st \<noteq> Running"
      "\<forall>vs fr. st = Suspended vs fr \<longrightarrow> fr \<noteq> []" "ready s' = rest" by (rule dequeue_ok [OF ok Cons]) blast
    then show ?thesis using Cons by (cases st) simp_all
  qed (simp add: dequeue_def)
  moreover have "distinct (ready s)" using ok by (simp add: sched_ok_def sched_inv_def ids_ok_def)
  ultimately show ?thesis by blast
qed

theorem sched_no_fiber_lost_witness:
  "\<exists>st s'. dequeue demo_sched = Some (Some (1, st), s') \<and> ready s' = [] \<and> sched_ok s' \<and>
     ((\<exists>closure. st = NotStarted closure) \<or> (\<exists>vs fr. st = Suspended vs fr \<and> fr \<noteq> []))"
  using sched_no_fiber_lost [OF demo_sched_run] by (simp add: demo_sched_lists)

text \<open>C16. Nothing overtakes: the fibers that a run schedules, followed by those still queued, are those
  queued at the start followed by those queued since. So the fiber at position \<open>k\<close> of the ready
  queue is the one scheduled after \<open>k\<close> others.\<close>

theorem sched_fifo:
  assumes "sched_ok s" "sched_run ps s s'"
  shows "(\<exists>later. ready s @ later = ps @ ready s') \<and>
    (\<forall>k. k < length (ready s) \<and> k < length ps \<longrightarrow> ps ! k = ready s ! k)"
proof -
  obtain xs where xs: "ready s @ xs = ps @ ready s'" using sched_run_fifo [OF assms(2,1)] by blast
  then have "ps ! k = ready s ! k" if "k < length (ready s)" "k < length ps" for k
    using that by (metis nth_append_left)
  then show ?thesis using xs by blast
qed

theorem sched_fifo_witness:
  "\<exists>st s'. dequeue demo_sched = Some (Some (1, st), s') \<and> (\<exists>later. ready demo_sched @ later = [1] @ ready s')"
proof -
  obtain st s' where d: "dequeue demo_sched = Some (Some (1, st), s')"
    by (rule dequeue_ok [OF demo_sched_ok demo_sched_lists(1)])
  have "sched_run ([] @ [1]) demo_sched s'" by (rule sched_run.step [OF sched_run.refl sched_step.dequeue [OF d]])
  then show ?thesis using sched_fifo [OF demo_sched_ok, of "[1]" s'] d by simp
qed

text \<open>C17. No wake-up is lost: \<open>wake_all\<close> queues every blocked fiber, \<open>wake_poll\<close> every fiber that waits for the
  handle, \<open>wake_due_timers\<close> every fiber whose deadline has passed.\<close>

theorem no_lost_wakeup:
  assumes "sched_ok s"
  shows "(\<forall>s'. wake_all s = Some s' \<longrightarrow> set (blocked s) \<subseteq> set (ready s')) \<and>
    (\<forall>h s' i. wake_poll h s = Some s' \<and> in_poll s h i \<longrightarrow> i \<in> set (ready s')) \<and>
    (\<forall>now b s' d i. wake_due_timers now s = Some (b, s') \<and> (d, i) \<in> set (timers s) \<and> d \<le> now \<longrightarrow> i \<in> set (ready s')) \<and>
    wake_all s \<noteq> None \<and> wake_poll h s \<noteq> None \<and> wake_due_timers now s \<noteq> None"
  using wake_all_queued [OF assms] wake_poll_queued [OF assms] wake_due_timers_queued [OF assms]
    wake_all_ok [OF assms] wake_poll_ok [OF assms, of h] wake_due_timers_ok [OF assms, of now]
  by (intro conjI allI impI) auto

theorem no_lost_wakeup_witness:
  "\<exists>s'. wake_all demo_parked = Some s' \<and> 0 \<in> set (ready s')"
  using no_lost_wakeup [OF demo_parked_ok(1)] demo_parked_ok(2) by fastforce

text \<open>C18. A channel is a bounded first-in-first-out queue. Over any sequence of sends and receives, each of
  which returns, what was buffered followed by what was accepted is what was received followed by
  what is buffered now, and the buffer never exceeds the capacity.\<close>

theorem channel_is_bounded_queue:
  assumes "sched_ok s" "i < length (channels s)" "length (buffer (channels s ! i)) \<le> chan_capacity (channels s ! i)"
  shows "\<exists>sent got s'. cq.fifo_run i ops s = Some (sent, got, s') \<and> sched_ok s' \<and>
    buffer (channels s ! i) @ sent = got @ buffer (channels s' ! i) \<and>
    length (buffer (channels s' ! i)) \<le> chan_capacity (channels s ! i)"
  using cq.fifo_order [of s i ops] assms by blast

theorem channel_is_bounded_queue_witness:
  "\<exists>sent got s'. cq.fifo_run 0 [Put (IntV 1), Put (IntV 2), Take, Take] demo_sched = Some (sent, got, s') \<and> sched_ok s' \<and>
    sent = got @ buffer (channels s' ! 0) \<and> length (buffer (channels s' ! 0)) \<le> 1"
  using channel_is_bounded_queue [OF demo_sched_ok, of 0 "[Put (IntV 1), Put (IntV 2), Take, Take]"]
  by (simp add: demo_sched_lists)

section \<open>The interpreter\<close>


text \<open>C20. Division at 64 bits. \<open>DivI64\<close> and \<open>ModI64\<close> trap on a zero divisor only; otherwise quotient and
  remainder recompose the dividend, the remainder is smaller than the divisor in magnitude and
  never of the opposite sign to the dividend, and the quotient is the truncated one except for
  \<open>MIN / -1\<close>, which wraps to \<open>MIN\<close>.\<close>

theorem int_division:
  "\<exists>dv md. int_binop DivI64 = Some dv \<and> int_binop ModI64 = Some md \<and>
    dv a 0 = Err (Trap DivByZero) \<and> md a 0 = Err (Trap DivByZero) \<and>
    (b \<noteq> 0 \<longrightarrow> (\<exists>q r. dv a b = Ok q \<and> md a b = Ok r \<and> q * b + r = a \<and>
       \<bar>sint r\<bar> < \<bar>sint b\<bar> \<and> (sint r = 0 \<or> (sint r < 0 \<longleftrightarrow> sint a < 0)) \<and>
       (if sint a = - (2 ^ 63) \<and> b = -1 then q = a else sint q = trunc_div (sint a) (sint b))))"
  using wrapping_div_rem [of b a] by (cases "b = 0") (auto simp: int_binop_def)

theorem int_division_witness:
  "\<exists>dv md. int_binop DivI64 = Some dv \<and> int_binop ModI64 = Some md \<and>
    (\<exists>q r. dv 7 2 = Ok q \<and> md 7 2 = Ok r \<and> q * 2 + r = (7 :: i64))"
  using int_division [of 7 2] by auto

text \<open>C21. Integers of magnitude at most \<open>2\<^sup>5\<^sup>3\<close> survive conversion to a double and back.\<close>

theorem int_double_roundtrip:
  assumes "\<bar>sint n\<bar> \<le> 2 ^ 53"
  shows "\<exists>f. int_unop I64ToF64 = Some f \<and> (\<exists>x g. f n = Double x \<and> double_unop F64ToI64 = Some g \<and> g x = IntV n)"
  using f64_to_i64_to_f64 [OF assms] by (simp add: int_unop_def double_unop_def)

theorem int_double_roundtrip_witness:
  "\<exists>f. int_unop I64ToF64 = Some f \<and> (\<exists>x g. f 12345 = Double x \<and> double_unop F64ToI64 = Some g \<and> g x = IntV 12345)"
  by (rule int_double_roundtrip) simp

section \<open>Natives\<close>

text \<open>C22. Writing to and reading from a map through its natives. For a map behind a handle whose keys are acyclic and do
  not contain the map, \<open>map_set\<close> returns, the entries are those of an insertion into the ordered list, and reading a key
  afterwards gives the new value if the key equals the one written, and otherwise what it gave before (the error for a
  missing key included).\<close>

theorem map_natives_set_index:
  assumes "map_at (rt_slots (mem w)) h es" "length es < 2 ^ 31"
    and "grounded (without (rt_slots (mem w)) h) key" "grounded (without (rt_slots (mem w)) h) other"
  shows "\<exists>w'. native_map_set [Ref h, key, v] w = (Ok Unit, w') \<and>
    map_at (rt_slots (mem w')) h (al_insert (values_eq (without (rt_slots (mem w)) h)) es key v) \<and>
    fst (native_map_index [Ref h, other] w') =
      (if values_eq (without (rt_slots (mem w)) h) key other = Some True then Ok v
       else fst (native_map_index [Ref h, other] w))"
  by (rule map_set_index [OF assms, of v]) blast

theorem map_natives_set_index_witness:
  "\<exists>w'. native_map_set [Ref 0, Ref 1, IntV 5] demo_map_world = (Ok Unit, w') \<and>
    fst (native_map_index [Ref 0, Ref 2] w') = Ok (IntV 5)"
proof -
  have few: "length ([] :: (val \<times> val) list) < 2 ^ 31" by simp
  have "values_eq (without (rt_slots (mem demo_map_world)) 0) (Ref 1) (Ref 2) = Some True"
    by (simp add: values_eq_def demo_map_slots without_def lookup_def)
  moreover obtain w' where "native_map_set [Ref 0, Ref 1, IntV 5] demo_map_world = (Ok Unit, w')"
    "fst (native_map_index [Ref 0, Ref 2] w') =
      (if values_eq (without (rt_slots (mem demo_map_world)) 0) (Ref 1) (Ref 2) = Some True then Ok (IntV 5)
       else fst (native_map_index [Ref 0, Ref 2] demo_map_world))"
    using map_natives_set_index [OF demo_map_at few demo_map_grounded, of "IntV 5"] by blast
  ultimately show ?thesis by (simp only: if_True simp_thms) blast
qed

text \<open>C23. The blocking protocol. A send to a closed channel is the trap \<open>ClosedChannel\<close>; to a full one it asks to be run
  again and changes nothing else; otherwise it appends the value. A receive answers the oldest value, \<open>None\<close> when the
  channel is closed and empty, and asks to be run again when it is open and empty. A native that asks to be run
  again leaves the operands on the stack and the frame at its call.\<close>

theorem channel_natives_protocol:
  assumes "sched_ok (sched w)" "unat n < length (channels (sched w))"
    and "ch = channels (sched w) ! unat n"
  shows "(\<exists>s. sched_ok s \<and> channels s = (channels (sched w))[unat n := ch\<lparr>buffer := buffer ch @ [v]\<rparr>] \<and>
      native_channel_send [IntV n, v] w =
        (if closed ch then (Err (Trap ClosedChannel), w)
         else if length (buffer ch) < chan_capacity ch then (Ok Unit, w\<lparr>sched := s\<rparr>)
         else retry w)) \<and>
    (\<exists>s. sched_ok s \<and> channels s = (channels (sched w))[unat n := ch\<lparr>buffer := tl (buffer ch)\<rparr>] \<and>
      native_channel_receive L [IntV n] w =
        (case buffer ch of
           x # rest \<Rightarrow> some_val L x (w\<lparr>sched := s\<rparr>)
         | [] \<Rightarrow> if closed ch then none_val L w else retry w)) \<and>
    (\<forall>c fr k argc f vm. unat argc \<le> length (vstack vm) \<and> get_nth (natives c) (unat k) = Some f \<and>
        f (drop (length (vstack vm) - unat argc) (vstack vm)) (world vm) = retry w \<longrightarrow>
      run_native c fr k argc vm = (Ok (Exit (Parked BlockRetry)),
        vm\<lparr>world := w\<lparr>park_cell := None\<rparr>, frames := frames vm @ [fr\<lparr>pc := pc fr - 1\<rparr>]\<rparr>))"
proof (intro conjI allI impI)
  show "\<exists>s. sched_ok s \<and> channels s = (channels (sched w))[unat n := ch\<lparr>buffer := buffer ch @ [v]\<rparr>] \<and>
      native_channel_send [IntV n, v] w =
        (if closed ch then (Err (Trap ClosedChannel), w)
         else if length (buffer ch) < chan_capacity ch then (Ok Unit, w\<lparr>sched := s\<rparr>)
         else retry w)"
    unfolding assms(3) by (rule native_channel_send_eq [OF assms(1,2), of v]) blast
  show "\<exists>s. sched_ok s \<and> channels s = (channels (sched w))[unat n := ch\<lparr>buffer := tl (buffer ch)\<rparr>] \<and>
      native_channel_receive L [IntV n] w =
        (case buffer ch of
           x # rest \<Rightarrow> some_val L x (w\<lparr>sched := s\<rparr>)
         | [] \<Rightarrow> if closed ch then none_val L w else retry w)"
    unfolding assms(3) by (rule native_channel_receive_eq [OF assms(1,2), of L]) blast
qed (simp add: run_native_retry)

theorem channel_natives_protocol_witness:
  "native_channel_receive demo_layout [IntV 0] (world demo_vm\<lparr>sched := demo_sched\<rparr>) = retry (world demo_vm\<lparr>sched := demo_sched\<rparr>) \<and>
    (\<exists>s. native_channel_send [IntV 0, Unit] (world demo_vm\<lparr>sched := demo_sched\<rparr>) = (Ok Unit, world demo_vm\<lparr>sched := s\<rparr>))"
  using channel_natives_protocol [of "world demo_vm\<lparr>sched := demo_sched\<rparr>" 0 _ Unit demo_layout, OF _ _ HOL.refl]
  by (simp add: demo_sched_ok demo_sched_lists demo_sched_open) blast

text \<open>C24. Reading a file. \<open>fs_read_text\<close> parks the fiber with the system call and changes nothing else; from the answer,
  the result is built in the heap: the text behind \<open>Ok\<close>, or behind \<open>Err\<close> a text whose first separator divides the name of
  the error's kind from the path and the message.\<close>

theorem fs_read_text_result:
  assumes "lookup (rt_slots (mem w)) k = Some (Str path)"
  shows "\<exists>fin.
    native_fs_read_text A L [Ref k] w = (Ok Unit, w\<lparr>park_cell := Some (Await (job_of A (ReadToString path)) fin)\<rparr>) \<and>
    (\<forall>p m q r m' q'. fin p m q = (r, m', q') \<and> heap_ok m \<and> length (rt_slots m') \<le> 2 ^ 32 \<longrightarrow>
       (\<exists>v t. r = Ok v \<and>
         (case text_of A p of
            Inr s \<Rightarrow> holds_text (rt_slots m') v TAG_OK s
          | Inl e \<Rightarrow> holds_text (rt_slots m') v TAG_ERR t \<and>
              find_sub [SEP] t = Some (kind_name (err_kind e), path @ '': '' @ err_text e))))"
  by (rule fs_read_text_delivers [OF assms, of A L]) blast

theorem fs_read_text_result_witness:
  "\<exists>fin. native_fs_read_text demo_io demo_layout [Ref 1] (world demo_vm) =
    (Ok Unit, (world demo_vm)\<lparr>park_cell := Some (Await () fin)\<rparr>)"
proof -
  have "lookup (rt_slots (mem (world demo_vm))) 1 = Some (Str ''a'')" by (simp add: demo_vm_def demo_slots lookup_def)
  from fs_read_text_result [OF this, of demo_io demo_layout] show ?thesis by auto
qed

text \<open>C25. Lists behind a handle. Each list native answers and updates as on the list itself; an index that is negative
  or not below the length is the trap \<open>IndexOutOfBounds\<close> in \<open>index\<close> and \<open>set\<close>, which then change nothing, and \<open>None\<close> in \<open>get\<close>.\<close>

theorem list_natives:
  assumes "lookup (rt_slots (mem w)) h = Some (List items)"
  shows "native_list_len [Ref h] w = (Ok (IntV (word_of_nat (length items))), w) \<and>
    native_list_index [Ref h, IntV i] w =
      (if 0 \<le> sint i \<and> unat i < length items then Ok (items ! unat i) else Err (Trap (IndexOutOfBounds i (length items))), w) \<and>
    native_list_get L [Ref h, IntV i] w = option_val L (get_signed items i) w \<and>
    native_list_set [Ref h, IntV i, v] w =
      (if 0 \<le> sint i \<and> unat i < length items
       then (Ok Unit, w\<lparr>mem := put_slot h (Some (List (items[unat i := v]))) (mem w)\<rparr>)
       else (Err (Trap (IndexOutOfBounds i (length items))), w)) \<and>
    native_list_push [Ref h, v] w = (Ok Unit, w\<lparr>mem := put_slot h (Some (List (items @ [v]))) (mem w)\<rparr>) \<and>
    native_list_pop L [Ref h] w =
      option_val L (if items = [] then None else Some (last items)) (w\<lparr>mem := put_slot h (Some (List (butlast items))) (mem w)\<rparr>) \<and>
    native_list_clear [Ref h] w = (Ok Unit, w\<lparr>mem := put_slot h (Some (List [])) (mem w)\<rparr>)"
  using list_native_reads [OF assms] list_native_writes [OF assms] by blast

theorem list_natives_witness:
  "native_list_len [Ref 0] (world demo_vm) = (Ok (IntV 2), world demo_vm) \<and>
    native_list_index [Ref 0, IntV 5] (world demo_vm) = (Err (Trap (IndexOutOfBounds 5 2)), world demo_vm)"
proof -
  have "lookup (rt_slots (mem (world demo_vm))) 0 = Some (List [Ref 1, IntV 7])" by (simp add: demo_vm_def demo_slots lookup_def)
  from list_natives [OF this, of 5 demo_layout Unit] show ?thesis by simp
qed


section \<open>Text\<close>

text \<open>C27. Slicing by code points. On a valid string, the one-pass scan of \<open>str_slice\<close> for the byte offsets of two code
  points answers the string of the code points between them, never the panic of a cut inside a character.\<close>

theorem str_slice_chars:
  assumes "valid_str s" "start < stop"
  shows "str_slice s start stop = Some (str_of (take (stop - start) (drop start (chars_of s))))"
  by (rule str_slice_eq [OF assms])

theorem str_slice_chars_witness:
  "str_slice ''abcd'' 1 3 = Some (str_of (take 2 (drop 1 (chars_of ''abcd''))))"
proof -
  have "valid_str ''abcd''" by code_simp
  from str_slice_chars [OF this, of 1 3] show ?thesis by simp
qed





text \<open>C30. Captured output. Whatever is printed between \<open>test_capture_begin\<close> and \<open>test_capture_end\<close> is what the latter
  answers, as one string; nothing reaches the output and enclosing captures are untouched.\<close>

theorem capture_prints:
  assumes "list_all2 (\<lambda>h s. lookup (rt_slots (mem w)) h = Some (Str s)) hs ss" "list_all valid_str ss"
  shows "nbind (native_test_capture_begin []) (\<lambda>_. nbind (prints sk hs) (\<lambda>_. native_test_capture_end L [])) w =
    new_str L (concat ss) w"
  by (rule capture_collects [OF assms])

theorem capture_prints_witness:
  "nbind (native_test_capture_begin []) (\<lambda>_. nbind (prints (\<lambda>_ _. None) [1, 2]) (\<lambda>_. native_test_capture_end demo_layout []))
    (world demo_vm) = new_str demo_layout ''ab'' (world demo_vm)"
proof -
  have "valid_str ''a''" "valid_str ''b''" by code_simp+
  then show ?thesis
    using capture_prints [of "world demo_vm" "[1, 2]" "[''a'', ''b'']"] by (simp add: demo_vm_def demo_slots lookup_def)
qed

section \<open>Tools\<close>

text \<open>C31. Finished functions are well-formed. After any sequence of builder calls that does not panic, \<open>finish\<close> panics
  exactly when a referenced label is unbound; otherwise the function has room for its parameters, every slot used is
  below the count of locals (the slot \<open>0xFFFF\<close> apart, whose count saturates), and every jump target is an index of the
  code or its end.\<close>

theorem builder_typed:
  assumes "bcalls ops (fnb_new name params) = Some b"
  shows "(finish b = None \<longleftrightarrow> (\<exists>l\<in>snd ` set (fixups b). \<forall>a. get_nth (label_addrs b) l \<noteq> Some (Some a))) \<and>
    (\<forall>f. finish b = Some f \<longrightarrow>
      func_name f = b_name b \<and> param_count f \<le> local_count f \<and> length (code f) = emitted ops \<and>
      list_all (slot_ok (local_count f)) (code f) \<and>
      (\<forall>i\<in>set (code f). \<forall>a. target_of i = Some a \<longrightarrow> a \<le> length (code f)))"
proof -
  have ok: "builder_ok b" by (rule bcalls_ok [OF new_ok assms])
  have "length (b_code b) = emitted ops" using bcalls_grows [OF assms] by (simp add: fnb_new_def)
  then show ?thesis using finish_total [OF ok] finish_typed [OF ok] finish_Some [of b] by (intro conjI allI impI) auto
qed

theorem builder_typed_witness:
  "\<exists>b f. bcalls [BLabel, BLoad 3, BJumpIfFalse 0, BEmit ConstUnit, BBind 0, BEmit Return] (fnb_new ''f'' 1) = Some b \<and>
    finish b = Some f \<and> local_count f = 4 \<and> param_count f \<le> local_count f \<and> length (code f) = 4"
proof -
  let ?ops = "[BLabel, BLoad 3, BJumpIfFalse 0, BEmit ConstUnit, BBind 0, BEmit Return]"
  obtain b where b: "bcalls ?ops (fnb_new ''f'' 1) = Some b" "map_option local_count (finish b) = Some 4"
    using demo_builder by blast
  then obtain f where "finish b = Some f" "local_count f = 4" by auto
  then show ?thesis using builder_typed [OF b(1)] b(1) by (auto simp: numeral_eq_Suc)
qed

text \<open>C32. Labels resolve. A jump to label \<open>l\<close> stands in the finished function at the position where it was emitted, and
  its target is the number of instructions emitted before \<open>l\<close> was bound, whichever of the two came first.\<close>

theorem builder_jumps:
  assumes "bcalls (p @ op # q) (fnb_new name params) = Some b" "jump_to_label op = Some (l, i)"
    and "p @ op # q = p' @ BBind l # q'" "finish b = Some f"
  shows "patch (emitted p') i = Some (code f ! emitted p)"
  by (rule finish_jump [OF assms(1,2) assms(1) [unfolded assms(3)] assms(4)])

theorem builder_jumps_witness:
  "\<exists>b f. bcalls [BLabel, BLoad 3, BJumpIfFalse 0, BEmit ConstUnit, BBind 0, BEmit Return] (fnb_new ''f'' 1) = Some b \<and>
    finish b = Some f \<and> code f ! 1 = JumpIfFalse 3"
proof -
  let ?ops = "[BLabel, BLoad 3, BJumpIfFalse 0, BEmit ConstUnit, BBind 0, BEmit Return]"
  obtain b where b: "bcalls ?ops (fnb_new ''f'' 1) = Some b" "map_option local_count (finish b) = Some 4"
    using demo_builder by blast
  then obtain f where f: "finish b = Some f" by auto
  have "patch (emitted [BLabel, BLoad 3, BJumpIfFalse 0, BEmit ConstUnit]) (JumpIfFalse 0) = Some (code f ! emitted [BLabel, BLoad 3])"
    by (rule builder_jumps [of "[BLabel, BLoad 3]" "BJumpIfFalse 0" "[BEmit ConstUnit, BBind 0, BEmit Return]" "''f''" 1 b 0
          "JumpIfFalse 0" "[BLabel, BLoad 3, BJumpIfFalse 0, BEmit ConstUnit]" "[BEmit Return]" f])
      (use b f in simp_all)
  then show ?thesis using b(1) f by (simp add: patch_def numeral_eq_Suc)
qed

text \<open>C33. The disassembler loses nothing: in one module, two instructions with the same rendering are equal. Double
  constants are apart, since every NaN prints alike. The standard library's debug rendering of strings is assumed to be
  injective, which it is because it escapes its own quote and backslash.\<close>

theorem disassembly_determines:
  assumes "inj str_debug" "\<forall>x. i \<noteq> ConstDouble x" "fmt_instr str_debug i m = fmt_instr str_debug j m"
  shows "i = j"
  by (rule fmt_instr_inject [OF assms])

theorem disassembly_determines_witness:
  "fmt_instr quote_str (Load 3) sample_module = fmt_instr quote_str (Load (1 + 2)) sample_module \<and> Load 3 = Load (1 + 2)"
proof -
  have "inj quote_str" by (rule injI) (metis option.inject unquote_quote)
  then show ?thesis using disassembly_determines [of quote_str "Load 3" sample_module "Load (1 + 2)"] by simp
qed

section \<open>Text\<close>

text \<open>C34. A double survives its text. \<open>double_to_string\<close> allocates the text of the double, and \<open>str_to_double\<close> on a
  string with that text answers \<open>Some\<close> of the same bits, signed zeros, subnormals and infinities included; a NaN
  reads back as the NaN. The number of digits printed is the least that reads back, and seventeen always do.\<close>

theorem double_text_roundtrip:
  assumes "lookup (rt_slots (mem w)) h = Some (Str (format_double x))"
  shows "native_double_to_string L [Double x] v = new_str L (format_double x) v \<and>
    native_str_to_double L [Ref h] w = option_val L (Some (Double (if f64_is_nan x then f64_nan else x))) w"
  using assms
  by (simp add: native_double_to_string_def native_str_to_double_def nbind_def nlift_def nread_def expect_one_def
      display_string_def str_contents_def parse_format_double)

theorem double_text_roundtrip_witness:
  "native_str_to_double demo_layout [Ref 0] ((world demo_vm)\<lparr>mem := demo_rt\<lparr>heap := heap_init\<lparr>slots :=
       [Some (Str (format_double 0x8000000000000001))]\<rparr>\<rparr>\<rparr>) =
     option_val demo_layout (Some (Double 0x8000000000000001)) ((world demo_vm)\<lparr>mem := demo_rt\<lparr>heap := heap_init\<lparr>slots :=
       [Some (Str (format_double 0x8000000000000001))]\<rparr>\<rparr>\<rparr>)"
proof -
  have "\<not> f64_is_nan 0x8000000000000001" by (simp add: f64_is_nan_def f64_mag_def INF_MAG_def)
  moreover have "lookup (rt_slots (mem ((world demo_vm)\<lparr>mem := demo_rt\<lparr>heap := heap_init\<lparr>slots :=
       [Some (Str (format_double 0x8000000000000001))]\<rparr>\<rparr>\<rparr>))) 0 = Some (Str (format_double 0x8000000000000001))"
    by (simp add: lookup_def)
  ultimately show ?thesis by (simp only: double_text_roundtrip if_False)
qed

section \<open>Handles\<close>

text \<open>C35. The life of a file read. \<open>file_read\<close> on an open handle parks the fiber with a job that holds the file and the
  count, cut at one MiB, and takes the file out of the table, so that nothing else can use it; when the job is
  delivered the file is back under the same handle, whatever happened to the table in between, every other handle is
  as it was, and the fiber gets \<open>Ok\<close> of the bytes read or \<open>Err\<close> of the tagged message.\<close>

theorem file_read_protocol:
  assumes "table_ok T" "handles (tab_get T (env w)) h = Some f" "0 < sint m"
  shows "\<exists>w' fin. native_file_read F T L [IntV h, IntV m] w = (Ok Unit, w') \<and>
    park_cell w' = Some (Await (read_job F (min (unat m) (2 ^ 20)) f) fin) \<and>
    (\<forall>k. handles (tab_get T (env w')) k = (if k = h then None else handles (tab_get T (env w)) k)) \<and>
    (\<forall>p rt q r rt' q'. fin p rt q = (r, rt', q') \<longrightarrow>
       (\<forall>k. handles (tab_get T q') k = (if k = h then Some (fst (read_of F p)) else handles (tab_get T q) k)) \<and>
       (heap_ok rt \<longrightarrow> length (rt_slots rt') \<le> 2 ^ 32 \<longrightarrow>
         (\<exists>v. r = Ok v \<and> (case snd (read_of F p) of
            Inr data \<Rightarrow> boxed (rt_slots rt') v TAG_OK (Bytes data)
          | Inl e \<Rightarrow> boxed (rt_slots rt') v TAG_ERR (Str (kind_name (err_kind e) @ [SEP] @ ''<file>: '' @ err_text e))))))"
proof -
  obtain w' fin where "native_file_read F T L [IntV h, IntV m] w = (Ok Unit, w')"
    "park_cell w' = Some (Await (read_job F (min (unat m) (2 ^ 20)) f) fin)"
    "\<And>k. handles (tab_get T (env w')) k = (if k = h then None else handles (tab_get T (env w)) k)"
    "\<And>p rt q r rt' q' k. fin p rt q = (r, rt', q') \<Longrightarrow>
       handles (tab_get T q') k = (if k = h then Some (fst (read_of F p)) else handles (tab_get T q) k)"
    "\<And>p rt q r rt' q'. fin p rt q = (r, rt', q') \<Longrightarrow> heap_ok rt \<Longrightarrow> length (rt_slots rt') \<le> 2 ^ 32 \<Longrightarrow>
       \<exists>v. r = Ok v \<and> (case snd (read_of F p) of
          Inr data \<Rightarrow> boxed (rt_slots rt') v TAG_OK (Bytes data)
        | Inl e \<Rightarrow> boxed (rt_slots rt') v TAG_ERR (Str (kind_name (err_kind e) @ [SEP] @ ''<file>: '' @ err_text e)))"
    by (rule file_read_parks [OF assms, of F L]) (rule that)
  then show ?thesis by (intro exI [of _ w'] exI [of _ fin] conjI allI impI)
qed

theorem file_read_protocol_witness:
  "\<exists>w'. native_file_read (demo_file_abi reg_init) whole demo_layout [IntV 1, IntV 10] demo_file_world = (Ok Unit, w') \<and>
    handles (env w') 1 = None"
proof -
  have "handles (tab_get whole (env demo_file_world)) 1 = Some 5" by (simp add: demo_handles)
  from file_read_protocol [OF whole_ok this, of 10 "demo_file_abi reg_init" demo_layout] show ?thesis by auto
qed



text \<open>C37. A stream under TLS is closed to plain traffic. After a session is put on a stream, under the same handle, the plain
  \<open>socket_read\<close> and \<open>socket_write\<close> on that handle answer the error of a wrong kind of socket; they do not
  touch the connection or the outside, and do not park. Every other handle is as it was.\<close>

theorem tls_stream_closed_to_plain:
  assumes "table_ok T" "handles (tab_get T (env w)) h = Some (Stream s)" "wrap_stream T L h c w = (r, w')"
    and "0 < sint m" "lookup (rt_slots (mem w')) d = Some (Bytes data)" "data \<noteq> []"
  shows "(\<forall>k. handles (tab_get T (env w')) k = (if k = h then Some (Tls s c) else handles (tab_get T (env w)) k)) \<and>
    native_socket_read N T L [IntV h, IntV m] w' = tagged_err L ''other'' ''not a plain stream'' w' \<and>
    native_socket_write N T L [IntV h, Ref d] w' = tagged_err L ''other'' ''not a plain stream'' w' \<and>
    (\<forall>q w''. tagged_err L ''other'' ''not a plain stream'' w' = (q, w'') \<longrightarrow>
       env w'' = env w' \<and> park_cell w'' = park_cell w' \<and> sched w'' = sched w')"
proof -
  note wrapped = wrap_stream_result [OF assms(1-3)]
  have "handles (tab_get T (env w')) h = Some (Tls s c)" by (simp add: wrapped)
  note refused = socket_read_tls [OF assms(1) this assms(4), of N L] socket_write_tls [OF assms(1) this assms(5,6), of N L]
  show ?thesis
    by (intro conjI allI impI wrapped refused) (erule tagged_err_result)+
qed

theorem tls_stream_closed_to_plain_witness:
  "\<exists>w' :: (nat, nat, u8 list \<times> nat) socket registry world.
     native_socket_read (demo_net reg_init) whole demo_layout [IntV 1, IntV 8] w' =
     tagged_err demo_layout ''other'' ''not a plain stream'' w' \<and> handles (env w') 1 = Some (Tls 4 ([], 0))"
proof -
  let ?w = "demo_socket_world\<lparr>mem := demo_rt\<lparr>heap := heap_init\<lparr>slots := [Some (Bytes [1, 2])]\<rparr>\<rparr>\<rparr>"
  obtain r w' where wrap: "wrap_stream whole demo_layout 1 ([], 0) ?w = (r, w')" by (cases "wrap_stream whole demo_layout 1 ([], 0) ?w")
  have h: "handles (tab_get whole (env ?w)) 1 = Some (Stream 4)" by (simp add: demo_handles)
  have held: "lookup (rt_slots (mem w')) 0 = Some (Bytes [1, 2])"
    using wrap h by (auto simp: wrap_stream_def nbind_def on_table_eq reg_take_def ok_val_def new_enum_def heap_alloc_def alloc_def
        heap_init_def lookup_def demo_rt_def rt_init_def whole_def Let_def split: if_splits prod.splits)
  have eight: "0 < sint (8 :: i64)" and data: "[1, 2 :: u8] \<noteq> []" by simp_all
  note P = tls_stream_closed_to_plain [OF whole_ok h wrap eight held data, of "demo_net reg_init"]
  have "handles (env w') 1 = Some (Tls 4 ([], 0))" using conjunct1 [OF P] by simp
  then show ?thesis using conjunct1 [OF conjunct2 [OF P]] by blast
qed

text \<open>C38. Closing a socket strands no one. After \<open>socket_close\<close> the handle is gone and every other is as it was;
  every fiber that waited for the socket to become ready is in the ready queue, and the read it runs again answers
  the closed error, without parking.\<close>

theorem socket_close_wakes:
  assumes "table_ok T" "handles (tab_get T (env w)) h = Some sock" "sched_ok (sched w)"
    and "\<And>x e. tab_get T (deregister N x e) = tab_get T e" "native_socket_close N T L [IntV h] w = (r, w')" "0 < sint m"
  shows "(\<forall>k. handles (tab_get T (env w')) k = (if k = h then None else handles (tab_get T (env w)) k)) \<and>
    (\<forall>i. in_poll (sched w) h i \<longrightarrow> i \<in> set (ready (sched w'))) \<and>
    native_socket_read N T L [IntV h, IntV m] w' = tagged_err L ''closed'' ''socket is closed'' w'"
proof -
  note closed = socket_close_result [OF assms(1-5)]
  have "handles (tab_get T (env w')) h = None" by (simp add: closed(1))
  from socket_read_closed [OF this assms(6)] closed show ?thesis by blast
qed

theorem socket_close_wakes_witness:
  "0 \<in> set (ready (sched (snd (native_socket_close (demo_net reg_init) whole demo_layout [IntV 1] demo_socket_world))))"
proof -
  obtain r w' where close: "native_socket_close (demo_net reg_init) whole demo_layout [IntV 1] demo_socket_world = (r, w')"
    by (cases "native_socket_close (demo_net reg_init) whole demo_layout [IntV 1] demo_socket_world")
  have h: "handles (tab_get whole (env demo_socket_world)) 1 = Some (Stream 4)" by (simp add: demo_handles)
  have d: "tab_get whole (deregister (demo_net reg_init) x e) = tab_get whole e" for x e by (simp add: demo_net_def)
  from socket_close_wakes [OF whole_ok h demo_waiter(1) d close, of 8] demo_waiter(2) show ?thesis by (simp add: close)
qed

section \<open>Command line\<close>



text \<open>C40. The profiler accounts for a run. After any list of reports, the instructions counted are those reported; there is one sample
  for every interval of them that was begun; each sample is the self time of exactly one function; a function's
  inclusive count is at least its self count and at most the number of samples, however often a recursive function
  is on the stack; calls are counted per function and every allocation once.\<close>

theorem profile_accounts:
  assumes "0 < interval" "length es + unat interval < 2 ^ 63" "p = fold (hook_step interval) es profile_new"
  shows "unat (p_instrs p) = instr_count es \<and>
    unat (p_samples p) = (instr_count es + unat interval - 1) div unat interval \<and>
    sum_list (map unat (p_self p)) = unat (p_samples p) \<and>
    (\<forall>f. tally (p_self p) f \<le> tally (p_incl p) f \<and> tally (p_incl p) f \<le> unat (p_samples p)) \<and>
    (\<forall>f. tally (p_calls p) f = count_list es (Entered f)) \<and>
    sum_list (map unat (p_allocs p)) = count_list es Allocated"
proof -
  have ok: "profiled interval es p" using profiled_run [OF assms(1,2)] assms(3) by simp
  have "0 < unat interval" using assms(1) by (simp add: word_less_nat_alt)
  then have "unat (p_samples p) = (instr_count es + unat interval - 1) div unat interval"
    using ok by (intro ceiling_quotient) (simp_all add: profiled_def)
  then show ?thesis using ok unfolding profiled_def by blast
qed

theorem profile_accounts_witness:
  "unat (p_samples (fold (hook_step 2) [Entered 0, Executed 0 [], Allocated, Executed 0 [], Executed 0 [0]] profile_new)) = 2"
proof -
  let ?es = "[Entered 0, Executed 0 [], Allocated, Executed 0 [], Executed 0 [0]]"
  have "instr_count ?es = 3" by (simp add: instr_count_def)
  then show ?thesis using profile_accounts [of 2 ?es "fold (hook_step 2) ?es profile_new"] by simp
qed

end
